(* ===== verification/Prelude.thy ===== *)
theory Prelude
  imports Main
begin

text \<open>
  Shared vocabulary of the development: the result types of fallible and possibly
  non-returning code, \<open>size_t\<close> arithmetic with its wrap-around, byte ranges, and the
  generic list lemmas the component theories use.
\<close>

section \<open>Results\<close>

text \<open>
  The library reports an internal failure by printing a message and aborting the process
  (macros \<open>assume\<close>, \<open>assumeArg\<close>, \<open>UMMAP_FATAL\<close>), or by a failing \<open>assert\<close>. Both
  are values of \<open>error\<close>, and so is an access the language leaves undefined (a deleted
  object, an index outside an array): an operation that may abort returns \<open>'a result\<close>. A loop that
  may also run forever returns \<open>'a outcome\<close>, where \<open>None\<close> is "does not return".
\<close>

datatype error = Fatal string | AssertFailure string | Undefined string

type_synonym 'a result = "error + 'a"
type_synonym 'a outcome = "'a result option"

definition bindE :: "'a result \<Rightarrow> ('a \<Rightarrow> 'b result) \<Rightarrow> 'b result" where
  "bindE m f = (case m of Inl e \<Rightarrow> Inl e | Inr x \<Rightarrow> f x)"

definition bindO :: "'a outcome \<Rightarrow> ('a \<Rightarrow> 'b outcome) \<Rightarrow> 'b outcome" where
  "bindO m f = (case m of None \<Rightarrow> None | Some (Inl e) \<Rightarrow> Some (Inl e) | Some (Inr x) \<Rightarrow> f x)"

abbreviation returns :: "'a \<Rightarrow> 'a outcome" where
  "returns x \<equiv> Some (Inr x)"

abbreviation aborts :: "error \<Rightarrow> 'a outcome" where
  "aborts e \<equiv> Some (Inl e)"

lemma bindE_Inr [simp]: "bindE (Inr x) f = f x"
  by (simp add: bindE_def)

lemma bindE_Inl [simp]: "bindE (Inl e) f = Inl e"
  by (simp add: bindE_def)

lemma bindE_assoc: "bindE (bindE m f) g = bindE m (\<lambda>x. bindE (f x) g)"
  by (cases m) simp_all

lemma bindE_eq_Inr: "bindE m f = Inr y \<longleftrightarrow> (\<exists>x. m = Inr x \<and> f x = Inr y)"
  by (cases m) auto

lemma bindE_InrE [elim!]:
  assumes "bindE m f = Inr y"
  obtains x where "m = Inr x" and "f x = Inr y"
  using assms by (auto simp: bindE_eq_Inr)

lemma bindO_returns [simp]: "bindO (returns x) f = f x"
  by (simp add: bindO_def)

lemma bindO_aborts [simp]: "bindO (aborts e) f = aborts e"
  by (simp add: bindO_def)

lemma bindO_None [simp]: "bindO None f = None"
  by (simp add: bindO_def)

lemma bindO_eq_returns: "bindO m f = returns y \<longleftrightarrow> (\<exists>x. m = returns x \<and> f x = returns y)"
  by (auto simp: bindO_def split: option.splits sum.splits)

lemma bindO_returnsE [elim!]:
  assumes "bindO m f = returns y"
  obtains x where "m = returns x" and "f x = returns y"
  using assms by (auto simp: bindO_eq_returns)

lemma bindO_bind: "bindO m f = Option.bind m (\<lambda>r. case r of Inl e \<Rightarrow> Some (Inl e) | Inr x \<Rightarrow> f x)"
  by (auto simp: bindO_def Option.bind_def split: option.split sum.split)

lemma bindO_mono [partial_function_mono]:
  assumes "mono_option B" and "\<And>y. mono_option (\<lambda>f. C y f)"
  shows "mono_option (\<lambda>f. bindO (B f) (\<lambda>y. C y f))"
proof -
  have "mono_option (\<lambda>f. case r of Inl e \<Rightarrow> Some (Inl e) | Inr x \<Rightarrow> C x f)" for r
    using assms(2) by (cases r) (auto simp: monotone_def flat_ord_def fun_ord_def)
  then show ?thesis
    unfolding bindO_bind by (intro bind_mono assms(1))
qed

section \<open>Machine sizes\<close>

text \<open>
  \<open>size_t\<close> is an unsigned 64-bit integer. It is modelled by \<open>nat\<close> with the wrap-around
  of every addition, subtraction and product written out by the three operations below;
  division and remainder never leave the range.
\<close>

type_synonym size_t = nat
type_synonym addr = nat
type_synonym byte = nat

abbreviation SIZE_MAX :: size_t where
  "SIZE_MAX \<equiv> 18446744073709551615"

abbreviation W64 :: nat where
  "W64 \<equiv> 18446744073709551616"

definition sz_add :: "size_t \<Rightarrow> size_t \<Rightarrow> size_t" where
  "sz_add a b = (a + b) mod W64"

definition sz_sub :: "size_t \<Rightarrow> size_t \<Rightarrow> size_t" where
  "sz_sub a b = (a + (W64 - b mod W64)) mod W64"

definition sz_mul :: "size_t \<Rightarrow> size_t \<Rightarrow> size_t" where
  "sz_mul a b = (a * b) mod W64"

text \<open>The reading of a \<open>size_t\<close> as a \<open>ssize_t\<close>.\<close>

definition ssize :: "size_t \<Rightarrow> int" where
  "ssize a = (if a < 9223372036854775808 then int a else int a - int W64)"

lemma sz_add_exact [simp]: "a + b < W64 \<Longrightarrow> sz_add a b = a + b"
  by (simp add: sz_add_def)

lemma sz_mul_exact [simp]: "a * b < W64 \<Longrightarrow> sz_mul a b = a * b"
  by (simp add: sz_mul_def)

lemma sz_sub_exact [simp]:
  assumes "b \<le> a" and "a < W64"
  shows "sz_sub a b = a - b"
proof -
  have "a + (W64 - b mod W64) = (a - b) + W64"
    using assms by simp
  then have "sz_sub a b = ((a - b) + W64) mod W64"
    by (simp only: sz_sub_def)
  also have "\<dots> = (a - b) mod W64"
    by (rule mod_add_self2)
  also have "\<dots> = a - b"
    using assms by (intro mod_less) simp
  finally show ?thesis .
qed

lemma sz_add_less [simp]: "sz_add a b < W64"
  by (simp add: sz_add_def)

lemma sz_sub_less [simp]: "sz_sub a b < W64"
  by (simp add: sz_sub_def)

lemma sz_mul_less [simp]: "sz_mul a b < W64"
  by (simp add: sz_mul_def)

lemma sz_sub_wraps:
  assumes "a < b" and "b < W64"
  shows "sz_sub a b = W64 - (b - a)"
proof -
  have "a + (W64 - b) < W64"
    using assms by simp
  then show ?thesis
    using assms by (simp add: sz_sub_def)
qed

section \<open>Loops\<close>

text \<open>
  The values taken by the index of \<open>for (x = a; x < e; x += step)\<close>. Such loops are folds over
  this list; the code only runs them with a positive step.
\<close>

function for_range :: "size_t \<Rightarrow> size_t \<Rightarrow> size_t \<Rightarrow> size_t list" where
  "for_range a e step = (if 0 < step \<and> a < e then a # for_range (a + step) e step else [])"
  by pat_completeness auto
termination
  by (relation "measure (\<lambda>(a, e, step). e - a)") auto

declare for_range.simps [simp del]

lemma for_range_Cons [simp]:
  "0 < step \<Longrightarrow> a < e \<Longrightarrow> for_range a e step = a # for_range (a + step) e step"
  by (simp add: for_range.simps)

lemma for_range_Nil [simp]: "e \<le> a \<Longrightarrow> for_range a e step = []"
  by (simp add: for_range.simps)

lemma for_range_multiple:
  "0 < step \<Longrightarrow> for_range a (a + n * step) step = map (\<lambda>k. a + k * step) [0..<n]"
proof (induction n arbitrary: a)
  case (Suc n)
  have "for_range a (a + Suc n * step) step = a # for_range (a + step) ((a + step) + n * step) step"
    using Suc.prems by (simp add: add.assoc)
  also have "\<dots> = a # map (\<lambda>k. (a + step) + k * step) [0..<n]"
    using Suc.IH [OF Suc.prems, of "a + step"] by simp
  also have "\<dots> = map (\<lambda>k. a + k * step) [0..<Suc n]"
    by (simp add: upt_conv_Cons map_Suc_upt [symmetric] add.assoc del: upt_Suc)
  finally show ?case .
qed simp

text \<open>A loop whose body may abort.\<close>

fun foldE :: "('x \<Rightarrow> 's \<Rightarrow> 's result) \<Rightarrow> 'x list \<Rightarrow> 's \<Rightarrow> 's result" where
  "foldE f [] s = Inr s"
| "foldE f (x # xs) s = bindE (f x s) (foldE f xs)"

lemma foldE_append: "foldE f (xs @ ys) s = bindE (foldE f xs s) (foldE f ys)"
proof (induction xs arbitrary: s)
  case (Cons x xs)
  then show ?case by (cases "f x s") auto
qed simp

lemma foldE_invariant:
  assumes "foldE f xs s = Inr t" and "P s"
    and "\<And>x s s'. x \<in> set xs \<Longrightarrow> P s \<Longrightarrow> f x s = Inr s' \<Longrightarrow> P s'"
  shows "P t"
  using assms
proof (induction xs arbitrary: s)
  case (Cons x xs)
  then show ?case by (auto elim!: bindE_InrE)
qed simp

section \<open>Lists\<close>

lemma remove1_middle [simp]: "x \<notin> set xs \<Longrightarrow> remove1 x (xs @ x # ys) = xs @ ys"
  by (simp add: remove1_append)

lemma distinct_split_unique:
  assumes "distinct (xs @ x # ys)" and "xs @ x # ys = us @ x # vs"
  shows "xs = us \<and> ys = vs"
  using assms by (auto simp: append_eq_append_conv2 Cons_eq_append_conv append_eq_Cons_conv)

lemma sum_list_map_const:
  fixes c :: nat
  assumes "\<And>x. x \<in> set xs \<Longrightarrow> f x = c"
  shows "sum_list (map f xs) = c * length xs"
  using assms by (induction xs) auto

section \<open>Erasing from a list while iterating\<close>

text \<open>
  Several loops erase the entries that satisfy a condition from a \<open>std::list\<close>. \<open>pre\<close> is the
  part of the list before the iterator. After an erase the iterator is advanced twice, once
  by the body and once by the loop header, so the entry after an erased one is not examined;
  when the erased entry is the last one the second increment moves the end iterator, which on
  the circular list of the standard library implementation gives the first entry again.
\<close>

function erase_skipping :: "('a \<Rightarrow> bool) \<Rightarrow> 'a list \<Rightarrow> 'a list \<Rightarrow> 'a list" where
  "erase_skipping P pre [] = pre"
| "erase_skipping P pre (e # rest) =
     (if P e
      then (case rest of
              [] \<Rightarrow> erase_skipping P [] pre
            | r # rest' \<Rightarrow> erase_skipping P (pre @ [r]) rest')
      else erase_skipping P (pre @ [e]) rest)"
  by pat_completeness auto
termination
  by (relation "measures [\<lambda>(P, pre, rest). length pre + length rest, \<lambda>(P, pre, rest). length rest]")
    auto

lemma erase_skipping_absent:
  "\<forall>e \<in> set rest. \<not> P e \<Longrightarrow> erase_skipping P pre rest = pre @ rest"
  by (induction rest arbitrary: pre) auto

text \<open>With at most one entry per key the loop removes exactly that entry.\<close>

lemma erase_skipping_distinct:
  assumes "distinct (map key (pre @ rest))" and "k \<notin> key ` set pre"
  shows "erase_skipping (\<lambda>e. key e = k) pre rest = filter (\<lambda>e. key e \<noteq> k) (pre @ rest)"
  using assms
proof (induction rest arbitrary: pre)
  case Nil
  then show ?case by (auto intro!: filter_True [symmetric])
next
  case (Cons e rest)
  have pre: "filter (\<lambda>e. key e \<noteq> k) pre = pre"
    using Cons.prems(2) by (auto simp: filter_id_conv)
  show ?case
  proof (cases "key e = k")
    case True
    then have absent: "\<forall>e \<in> set rest. key e \<noteq> k" "\<forall>e \<in> set pre. key e \<noteq> k"
      using Cons.prems by (metis distinct.simps(2) distinct_append image_eqI list.simps(9) map_append
          set_map, metis image_eqI)
    then have "filter (\<lambda>e. key e \<noteq> k) rest = rest"
      by (auto simp: filter_id_conv)
    with True pre absent show ?thesis
      by (auto simp: erase_skipping_absent split: list.split)
  next
    case False
    then show ?thesis
      using Cons.IH [of "pre @ [e]"] Cons.prems pre by simp
  qed
qed

end
