(* ===== verification/UnixOS.thy ===== *)
theory UnixOS
  imports Prelude
begin

text \<open>
  The address space and the operating system services of \<open>src/portability/UnixOS.cpp\<close>.
  The address space has one byte per address and one protection (read, write, execute) per
  page, \<open>None\<close> for a page that is not mapped. The address at which the kernel places a
  new mapping is the parameter \<open>kmmap\<close>, applied to the address space, the hint and the
  sz; \<open>None\<close> is \<open>MAP_FAILED\<close>.
\<close>

section \<open>State and operations\<close>

type_synonym prot = "bool \<times> bool \<times> bool"

record vm =
  vmem :: "addr \<Rightarrow> byte"
  vprot :: "nat \<Rightarrow> prot option"

type_synonym kernel_mmap = "vm \<Rightarrow> addr \<Rightarrow> size_t \<Rightarrow> addr option"

abbreviation UMMAP_PAGE_SIZE :: size_t where
  "UMMAP_PAGE_SIZE \<equiv> 4096"

definition in_range :: "addr \<Rightarrow> size_t \<Rightarrow> addr \<Rightarrow> bool" where
  "in_range base sz a \<longleftrightarrow> base \<le> a \<and> a < base + sz"

definition in_pages :: "addr \<Rightarrow> size_t \<Rightarrow> nat \<Rightarrow> bool" where
  "in_pages base sz pg \<longleftrightarrow>
     base div UMMAP_PAGE_SIZE \<le> pg \<and> pg < (base + sz) div UMMAP_PAGE_SIZE"

text \<open>The system call \<open>mmap\<close> of anonymous private memory at a chosen address.\<close>

definition sys_map :: "addr \<Rightarrow> size_t \<Rightarrow> prot \<Rightarrow> vm \<Rightarrow> vm" where
  "sys_map base sz prot v =
     \<lparr>vmem = \<lambda>a. if in_range base sz a then 0 else vmem v a,
      vprot = \<lambda>pg. if in_pages base sz pg then Some prot else vprot v pg\<rparr>"

definition sys_mprotect :: "addr \<Rightarrow> size_t \<Rightarrow> prot \<Rightarrow> vm \<Rightarrow> vm" where
  "sys_mprotect base sz prot v =
     v\<lparr>vprot := \<lambda>pg. if in_pages base sz pg \<and> vprot v pg \<noteq> None
                       then Some prot else vprot v pg\<rparr>"

definition sys_munmap :: "addr \<Rightarrow> size_t \<Rightarrow> vm \<Rightarrow> vm" where
  "sys_munmap base sz v =
     v\<lparr>vprot := \<lambda>pg. if in_pages base sz pg then None else vprot v pg\<rparr>"

text \<open>\<open>mremap\<close> with \<open>MREMAP_FIXED\<close>: the pages at \<open>new\<close> are replaced by those at \<open>old\<close>.\<close>

definition sys_mremap :: "addr \<Rightarrow> size_t \<Rightarrow> addr \<Rightarrow> vm \<Rightarrow> vm" where
  "sys_mremap old sz new v =
     \<lparr>vmem = \<lambda>a. if in_range new sz a then vmem v (old + (a - new)) else vmem v a,
      vprot = \<lambda>pg. if in_pages new sz pg
                    then vprot v (old div UMMAP_PAGE_SIZE + (pg - new div UMMAP_PAGE_SIZE))
                    else if in_pages old sz pg then None else vprot v pg\<rparr>"

definition pages_mapped :: "addr \<Rightarrow> size_t \<Rightarrow> vm \<Rightarrow> bool" where
  "pages_mapped base sz v \<longleftrightarrow>
     list_all (\<lambda>pg. vprot v pg \<noteq> None)
       [base div UMMAP_PAGE_SIZE..<(base + sz) div UMMAP_PAGE_SIZE]"

definition mmapProtNone ::
  "kernel_mmap \<Rightarrow> addr \<Rightarrow> size_t \<Rightarrow> bool \<Rightarrow> vm \<Rightarrow> (addr \<times> vm) result" where
  "mmapProtNone kmmap addr sz mapFixed v =
     (if \<not> sz mod UMMAP_PAGE_SIZE = 0 then Inl (AssertFailure ''size % UMMAP_PAGE_SIZE == 0'')
      else if \<not> sz > 0 then Inl (AssertFailure ''size > 0'')
      else
        (case (if mapFixed then (if addr mod UMMAP_PAGE_SIZE = 0 then Some addr else None)
               else kmmap v addr sz) of
           None \<Rightarrow> Inl (Fatal ''Fail to call mmap'')
         | Some ptr \<Rightarrow> Inr (ptr, sys_map ptr sz (False, False, False) v)))"

definition mmapProtFull :: "kernel_mmap \<Rightarrow> size_t \<Rightarrow> bool \<Rightarrow> vm \<Rightarrow> (addr \<times> vm) result" where
  "mmapProtFull kmmap sz exec v =
     (if \<not> sz mod UMMAP_PAGE_SIZE = 0 then Inl (AssertFailure ''size % UMMAP_PAGE_SIZE == 0'')
      else if \<not> sz > 0 then Inl (AssertFailure ''size > 0'')
      else
        (case kmmap v 0 sz of
           None \<Rightarrow> Inl (Fatal ''Fail to call mmap'')
         | Some ptr \<Rightarrow> Inr (ptr, sys_map ptr sz (True, True, exec) v)))"

definition munmap :: "addr \<Rightarrow> size_t \<Rightarrow> vm \<Rightarrow> vm result" where
  "munmap ptr sz v =
     (if \<not> ptr \<noteq> 0 then Inl (AssertFailure ''ptr != NULL'')
      else if \<not> sz mod UMMAP_PAGE_SIZE = 0 then Inl (AssertFailure ''size % UMMAP_PAGE_SIZE == 0'')
      else if \<not> sz > 0 then Inl (AssertFailure ''size > 0'')
      else if ptr mod UMMAP_PAGE_SIZE \<noteq> 0 then Inl (Fatal ''Fail to call munmap'')
      else Inr (sys_munmap ptr sz v))"

definition mremapForced :: "addr \<Rightarrow> size_t \<Rightarrow> addr \<Rightarrow> vm \<Rightarrow> vm result" where
  "mremapForced oldPtr sz newPtr v =
     (if \<not> newPtr \<noteq> 0 then Inl (AssertFailure ''newPtr != NULL'')
      else if \<not> oldPtr \<noteq> 0 then Inl (AssertFailure ''oldPtr != NULL'')
      else if \<not> newPtr mod UMMAP_PAGE_SIZE = 0 then Inl (AssertFailure ''newPtr % UMMAP_PAGE_SIZE == 0'')
      else if \<not> oldPtr mod UMMAP_PAGE_SIZE = 0 then Inl (AssertFailure ''oldPtr % UMMAP_PAGE_SIZE == 0'')
      else if \<not> sz > 0 then Inl (AssertFailure ''size > 0'')
      else if \<not> sz mod UMMAP_PAGE_SIZE = 0 then Inl (AssertFailure ''size % UMMAP_PAGE_SIZE == 0'')
      else if newPtr = oldPtr then Inr v
      else if \<not> pages_mapped oldPtr sz v \<or> (oldPtr < newPtr + sz \<and> newPtr < oldPtr + sz)
        then Inl (Fatal ''Fail to call mremap'')
      else Inr (sys_mremap oldPtr sz newPtr v))"

definition mprotect :: "addr \<Rightarrow> size_t \<Rightarrow> bool \<Rightarrow> bool \<Rightarrow> bool \<Rightarrow> vm \<Rightarrow> vm result" where
  "mprotect ptr sz read write exec v =
     (if \<not> ptr \<noteq> 0 then Inl (AssertFailure ''ptr != NULL'')
      else if \<not> ptr mod UMMAP_PAGE_SIZE = 0 then Inl (AssertFailure ''ptr % UMMAP_PAGE_SIZE == 0'')
      else if \<not> sz > 0 then Inl (AssertFailure ''size > 0'')
      else if \<not> sz mod UMMAP_PAGE_SIZE = 0 then Inl (AssertFailure ''size % UMMAP_PAGE_SIZE == 0'')
      else Inr (sys_mprotect ptr sz (read, write, exec) v))"

definition madviseDontNeed :: "addr \<Rightarrow> size_t \<Rightarrow> vm \<Rightarrow> vm" where
  "madviseDontNeed ptr sz v = v\<lparr>vmem := \<lambda>a. if in_range ptr sz a then 0 else vmem v a\<rparr>"

text \<open>A buffer in memory as the function of its offsets, and its update by a read.\<close>

definition load_buf :: "addr \<Rightarrow> vm \<Rightarrow> nat \<Rightarrow> byte" where
  "load_buf ptr v = (\<lambda>i. vmem v (ptr + i))"

definition store_buf :: "addr \<Rightarrow> size_t \<Rightarrow> (nat \<Rightarrow> byte) \<Rightarrow> vm \<Rightarrow> vm" where
  "store_buf ptr sz buf v =
     v\<lparr>vmem := \<lambda>a. if in_range ptr sz a then buf (a - ptr) else vmem v a\<rparr>"

section \<open>Pages and ranges\<close>

abbreviation aligned :: "nat \<Rightarrow> bool" where
  "aligned n \<equiv> n mod UMMAP_PAGE_SIZE = 0"

text \<open>On aligned ranges the pages are exactly those of the addresses.\<close>

lemma in_pages_page:
  assumes "aligned base" and "aligned sz"
  shows "in_pages base sz (a div UMMAP_PAGE_SIZE) \<longleftrightarrow> in_range base sz a"
proof -
  obtain b where b: "base = b * UMMAP_PAGE_SIZE"
    using assms(1) by (metis mod_0_imp_dvd dvdE mult.commute)
  obtain s where s: "sz = s * UMMAP_PAGE_SIZE"
    using assms(2) by (metis mod_0_imp_dvd dvdE mult.commute)
  have "base + sz = (b + s) * UMMAP_PAGE_SIZE"
    by (simp only: b s distrib_right)
  then show ?thesis
    unfolding in_pages_def in_range_def
    by (simp only: b less_eq_div_iff_mult_less_eq div_less_iff_less_mult nonzero_mult_div_cancel_right
        zero_less_numeral numeral_eq_iff zero_neq_numeral simp_thms not_False_eq_True
        numeral_neq_zero)
qed

lemma in_range_disjoint:
  "in_range b1 s1 a \<Longrightarrow> in_range b2 s2 a \<Longrightarrow> \<not> (b1 + s1 \<le> b2 \<or> b2 + s2 \<le> b1)"
  by (auto simp: in_range_def)

text \<open>What an access to one address sees: its byte and the protection of its page.\<close>

definition prot_at :: "vm \<Rightarrow> addr \<Rightarrow> prot option" where
  "prot_at v a = vprot v (a div UMMAP_PAGE_SIZE)"

definition can_read :: "vm \<Rightarrow> addr \<Rightarrow> bool" where
  "can_read v a \<longleftrightarrow> (case prot_at v a of Some (r, w, x) \<Rightarrow> r | None \<Rightarrow> False)"

definition can_write :: "vm \<Rightarrow> addr \<Rightarrow> bool" where
  "can_write v a \<longleftrightarrow> (case prot_at v a of Some (r, w, x) \<Rightarrow> w | None \<Rightarrow> False)"

lemma vmem_ops [simp]:
  "vmem (sys_mprotect b s p v) = vmem v"
  "vmem (sys_munmap b s v) = vmem v"
  "vmem (sys_map b s p v) a = (if in_range b s a then 0 else vmem v a)"
  "vmem (madviseDontNeed b s v) a = (if in_range b s a then 0 else vmem v a)"
  "vmem (store_buf b s buf v) a = (if in_range b s a then buf (a - b) else vmem v a)"
  "vmem (sys_mremap old s b v) a = (if in_range b s a then vmem v (old + (a - b)) else vmem v a)"
  by (simp_all add: sys_mprotect_def sys_munmap_def sys_map_def madviseDontNeed_def store_buf_def
      sys_mremap_def)

lemma prot_at_ops [simp]:
  "prot_at (madviseDontNeed b s v) = prot_at v"
  "prot_at (store_buf b s buf v) = prot_at v"
  by (simp_all add: fun_eq_iff prot_at_def madviseDontNeed_def store_buf_def)

lemma prot_at_mprotect:
  assumes "aligned b" and "aligned s"
  shows "prot_at (sys_mprotect b s p v) a =
    (if in_range b s a \<and> prot_at v a \<noteq> None then Some p else prot_at v a)"
  using in_pages_page [OF assms] by (auto simp: prot_at_def sys_mprotect_def)

lemma prot_at_map:
  assumes "aligned b" and "aligned s"
  shows "prot_at (sys_map b s p v) a = (if in_range b s a then Some p else prot_at v a)"
  using in_pages_page [OF assms] by (simp add: prot_at_def sys_map_def)

lemma prot_at_mremap:
  assumes "aligned old" and "aligned b" and "aligned s"
  shows "prot_at (sys_mremap old s b v) a =
    (if in_range b s a then prot_at v (old + (a - b))
     else if in_range old s a then None else prot_at v a)"
proof (cases "in_range b s a")
  case True
  obtain ob where o: "old = ob * UMMAP_PAGE_SIZE"
    using assms(1) by (metis mod_0_imp_dvd dvdE mult.commute)
  obtain bb where b: "b = bb * UMMAP_PAGE_SIZE"
    using assms(2) by (metis mod_0_imp_dvd dvdE mult.commute)
  obtain d where a: "a = bb * UMMAP_PAGE_SIZE + d"
    using True b by (auto simp: in_range_def le_iff_add)
  have "(old + (a - b)) div UMMAP_PAGE_SIZE =
      old div UMMAP_PAGE_SIZE + (a div UMMAP_PAGE_SIZE - b div UMMAP_PAGE_SIZE)"
    by (simp add: o b a)
  then show ?thesis
    using True in_pages_page [OF assms(2,3)] by (simp add: prot_at_def sys_mremap_def)
next
  case False
  then show ?thesis
    using in_pages_page [OF assms(2,3)] in_pages_page [OF assms(1,3)]
    by (simp add: prot_at_def sys_mremap_def)
qed

lemma pages_mapped_ops:
  "pages_mapped b sz (sys_map b sz p v)"
  "pages_mapped b sz (store_buf c n buf v) = pages_mapped b sz v"
  "pages_mapped b sz (sys_mprotect c n p v) = pages_mapped b sz v"
  by (cases p; auto simp: pages_mapped_def list_all_iff sys_map_def in_pages_def store_buf_def
      sys_mprotect_def)+

end
