(* ===== verification/Driver.thy ===== *)
theory Driver
  imports UnixOS
begin

text \<open>
  The base class \<open>Driver\<close> of \<open>src/core/Driver.cpp\<close>: the state every driver has, the table
  of its virtual methods and the default implementations. A driver object is a value of
  type \<open>'d\<close>; what it stores to (files, objects of a server, shared buffers) is the
  storage \<open>'s\<close> threaded through the methods. A buffer is its address and its bytes by
  offset. A \<open>NULL\<close> result of \<open>directMmap\<close> is 0.
\<close>

section \<open>Base class and method table\<close>

record driver =
  autoclean :: bool
  drv_uri :: string

definition driver_new :: driver where
  "driver_new = \<lparr>autoclean = False, drv_uri = []\<rparr>"

definition setAutoclean :: "bool \<Rightarrow> 'a driver_scheme \<Rightarrow> 'a driver_scheme" where
  "setAutoclean status d = d\<lparr>autoclean := status\<rparr>"

definition hasAutoclean :: "'a driver_scheme \<Rightarrow> bool" where
  "hasAutoclean d = autoclean d"

definition driver_setUri :: "string \<Rightarrow> 'a driver_scheme \<Rightarrow> 'a driver_scheme" where
  "driver_setUri uri d = d\<lparr>drv_uri := uri\<rparr>"

definition driver_getUri :: "'a driver_scheme \<Rightarrow> string" where
  "driver_getUri d = drv_uri d"

type_synonym buffer = "nat \<Rightarrow> byte"

record ('d, 's) driver_ops =
  d_pwrite :: "'d \<Rightarrow> addr \<Rightarrow> buffer \<Rightarrow> size_t \<Rightarrow> size_t \<Rightarrow> 's \<Rightarrow> (int \<times> 's) result"
  d_pread :: "'d \<Rightarrow> addr \<Rightarrow> buffer \<Rightarrow> size_t \<Rightarrow> size_t \<Rightarrow> 's \<Rightarrow> (int \<times> buffer \<times> 's) result"
  d_sync :: "'d \<Rightarrow> addr \<Rightarrow> size_t \<Rightarrow> size_t \<Rightarrow> 's \<Rightarrow> vm \<Rightarrow> ('s \<times> vm) result"
  d_directMmap :: "'d \<Rightarrow> addr \<Rightarrow> size_t \<Rightarrow> size_t \<Rightarrow> prot \<Rightarrow> bool \<Rightarrow> 's \<Rightarrow> vm \<Rightarrow> (addr \<times> 's \<times> vm) result"
  d_directMunmap :: "'d \<Rightarrow> addr \<Rightarrow> size_t \<Rightarrow> size_t \<Rightarrow> 's \<Rightarrow> vm \<Rightarrow> (bool \<times> 's \<times> vm) result"
  d_directMSync :: "'d \<Rightarrow> addr \<Rightarrow> size_t \<Rightarrow> size_t \<Rightarrow> 's \<Rightarrow> vm \<Rightarrow> (bool \<times> 's \<times> vm) result"
  d_establish_mapping :: "'d \<Rightarrow> size_t \<Rightarrow> size_t \<Rightarrow> bool \<Rightarrow> 's \<Rightarrow> (int \<times> 's) result"
  d_erase_mapping :: "'d \<Rightarrow> int \<Rightarrow> size_t \<Rightarrow> size_t \<Rightarrow> bool \<Rightarrow> 's \<Rightarrow> 's result"
  d_checkThreadSafety :: "'d \<Rightarrow> 's \<Rightarrow> bool result"

definition default_directMmap ::
  "'d \<Rightarrow> addr \<Rightarrow> size_t \<Rightarrow> size_t \<Rightarrow> prot \<Rightarrow> bool \<Rightarrow> 's \<Rightarrow> vm \<Rightarrow> (addr \<times> 's \<times> vm) result" where
  "default_directMmap d addr sz offset prot mapFixed s v = Inr (0, s, v)"

definition default_directMunmap ::
  "'d \<Rightarrow> addr \<Rightarrow> size_t \<Rightarrow> size_t \<Rightarrow> 's \<Rightarrow> vm \<Rightarrow> (bool \<times> 's \<times> vm) result" where
  "default_directMunmap d base sz offset s v = Inr (False, s, v)"

definition default_directMSync ::
  "'d \<Rightarrow> addr \<Rightarrow> size_t \<Rightarrow> size_t \<Rightarrow> 's \<Rightarrow> vm \<Rightarrow> (bool \<times> 's \<times> vm) result" where
  "default_directMSync d base sz offset s v = Inr (False, s, v)"

definition default_establish_mapping ::
  "'d \<Rightarrow> size_t \<Rightarrow> size_t \<Rightarrow> bool \<Rightarrow> 's \<Rightarrow> (int \<times> 's) result" where
  "default_establish_mapping d offset sz write s = Inr (0, s)"

definition default_erase_mapping ::
  "'d \<Rightarrow> int \<Rightarrow> size_t \<Rightarrow> size_t \<Rightarrow> bool \<Rightarrow> 's \<Rightarrow> 's result" where
  "default_erase_mapping d data offset sz write s = Inr s"

definition default_checkThreadSafety :: "'d \<Rightarrow> 's \<Rightarrow> bool result" where
  "default_checkThreadSafety d s = Inr True"

lemmas driver_defaults =
  default_directMmap_def default_directMunmap_def default_directMSync_def
  default_establish_mapping_def default_erase_mapping_def default_checkThreadSafety_def

section \<open>What a storage driver promises\<close>

text \<open>
  The contract of a driver \<open>d\<close> that leaves the memory mapping to the library. \<open>content d s\<close> is
  the byte at every offset of the object the driver \<open>d\<close> works on, 0 past its end. A read or a
  write that does not fail returns the number of bytes it transferred, and may stop early: the
  first bytes are transferred, the rest of the buffer is as it was or zero, the rest of the
  object is as it was. \<open>sync\<close> changes neither the content nor the memory, and registering a
  range does not change the content.
\<close>

locale storage_calls =
  fixes ops :: "('d, 's) driver_ops"
    and content :: "'d \<Rightarrow> 's \<Rightarrow> nat \<Rightarrow> byte"
    and d :: 'd
  assumes pread_content:
      "d_pread ops d ptr buf sz off s = Inr (r, buf', s') \<Longrightarrow> 0 \<le> r \<Longrightarrow> content d s' = content d s"
    and pread_bytes:
      "d_pread ops d ptr buf sz off s = Inr (r, buf', s') \<Longrightarrow> 0 \<le> r \<Longrightarrow> i < sz \<Longrightarrow>
       if i < nat r then buf' i = content d s (off + i) else buf' i = buf i \<or> buf' i = 0"
    and pwrite_count:
      "d_pwrite ops d ptr buf sz off s = Inr (r, s') \<Longrightarrow> 0 \<le> r \<Longrightarrow> r \<le> int sz"
    and pwrite_part:
      "d_pwrite ops d ptr buf sz off s = Inr (r, s') \<Longrightarrow> 0 \<le> r \<Longrightarrow>
       content d s' x = (if off \<le> x \<and> x < off + nat r then buf (x - off) else content d s x)"
    and sync_keeps:
      "d_sync ops d ptr off sz s v = Inr (s', v') \<Longrightarrow> content d s' = content d s \<and> v' = v"
    and no_directMSync: "d_directMSync ops d ptr sz off s v = Inr (False, s, v)"
    and no_directMmap: "d_directMmap ops d ptr sz off prot fixed s v = Inr (0, s, v)"
    and no_directMunmap: "d_directMunmap ops d ptr sz off s v = Inr (False, s, v)"
    and establish_keeps: "d_establish_mapping ops d off sz wr s = Inr (k, s') \<Longrightarrow> content d s' = content d s"
    and erase_keeps: "d_erase_mapping ops d k off sz wr s = Inr s' \<Longrightarrow> content d s' = content d s"
begin

text \<open>A write that is not cut short.\<close>

lemma pwrite_whole:
  assumes "d_pwrite ops d ptr buf sz off s = Inr (int sz, s')"
  shows "content d s' x = (if off \<le> x \<and> x < off + sz then buf (x - off) else content d s x)"
  using pwrite_part [OF assms] by simp

end

text \<open>
  A driver whose transfers are never cut short: a read stops early only where the object has
  nothing but zeroes left, which includes its end, and a write that does not fail is complete.
\<close>

locale storage_driver = storage_calls +
  assumes pread_short:
      "d_pread ops d ptr buf sz off s = Inr (r, buf', s') \<Longrightarrow> 0 \<le> r \<Longrightarrow> nat r \<le> i \<Longrightarrow> i < sz \<Longrightarrow>
       content d s (off + i) = 0"
    and pwrite_full:
      "d_pwrite ops d ptr buf sz off s = Inr (r, s') \<Longrightarrow> 0 \<le> r \<Longrightarrow> r = int sz"
begin

lemma pwrite_bytes:
  "d_pwrite ops d ptr buf sz off s = Inr (r, s') \<Longrightarrow> 0 \<le> r \<Longrightarrow>
   content d s' x = (if off \<le> x \<and> x < off + sz then buf (x - off) else content d s x)"
  using pwrite_part pwrite_full by fastforce

text \<open>Reading into zeroed memory gives the content of the object, short read or not.\<close>

lemma pread_zeroed:
  assumes "d_pread ops d ptr buf sz off s = Inr (r, buf', s')" and "0 \<le> r"
    and "\<And>i. i < sz \<Longrightarrow> buf i = 0" and "i < sz"
  shows "buf' i = content d s (off + i)"
  using pread_bytes [OF assms(1,2,4)] pread_short [OF assms(1,2), of i] assms(3,4)
  by (auto split: if_splits)

text \<open>What was written is read back.\<close>

lemma pwrite_pread:
  assumes "d_pwrite ops d p1 buf sz off s = Inr (r, s1)" and "0 \<le> r"
    and "d_pread ops d p2 old sz off s1 = Inr (r', buf', s2)" and "r' = int sz" and "i < sz"
  shows "buf' i = buf i"
  using pread_bytes [OF assms(3) _ assms(5)] pwrite_bytes [OF assms(1,2), of "off + i"] assms(4,5)
  by simp

end

section \<open>Runs without short transfers\<close>

text \<open>
  The methods of a driver under the eye of an observer who stops the run when a transfer is cut
  short. A run that is not stopped is a run of the driver itself in which every transfer was
  complete.
\<close>

definition uncut :: "('d \<Rightarrow> 's \<Rightarrow> nat \<Rightarrow> byte) \<Rightarrow> ('d, 's) driver_ops \<Rightarrow> ('d, 's) driver_ops" where
  "uncut content ops = ops\<lparr>
     d_pwrite := \<lambda>d ptr buf sz off s. bindE (d_pwrite ops d ptr buf sz off s) (\<lambda>(r, s').
       if 0 \<le> r \<and> r \<noteq> int sz then Inl (Undefined ''short write'') else Inr (r, s')),
     d_pread := \<lambda>d ptr buf sz off s. bindE (d_pread ops d ptr buf sz off s) (\<lambda>(r, buf', s').
       if 0 \<le> r \<and> list_ex (\<lambda>i. content d s (off + i) \<noteq> 0) [nat r..<sz]
       then Inl (Undefined ''short read'') else Inr (r, buf', s'))\<rparr>"

lemma uncut_calls:
  "d_pwrite (uncut content ops) d ptr buf sz off s = Inr (r, s') \<longleftrightarrow>
     d_pwrite ops d ptr buf sz off s = Inr (r, s') \<and> (0 \<le> r \<longrightarrow> r = int sz)"
  "d_pread (uncut content ops) d ptr buf sz off s = Inr (r, buf', s') \<longleftrightarrow>
     d_pread ops d ptr buf sz off s = Inr (r, buf', s') \<and>
     (0 \<le> r \<longrightarrow> (\<forall>i. nat r \<le> i \<and> i < sz \<longrightarrow> content d s (off + i) = 0))"
  "d_sync (uncut content ops) = d_sync ops" "d_directMmap (uncut content ops) = d_directMmap ops"
  "d_directMunmap (uncut content ops) = d_directMunmap ops" "d_directMSync (uncut content ops) = d_directMSync ops"
  "d_establish_mapping (uncut content ops) = d_establish_mapping ops"
  "d_erase_mapping (uncut content ops) = d_erase_mapping ops"
  "d_checkThreadSafety (uncut content ops) = d_checkThreadSafety ops"
proof -
  show "d_pwrite (uncut content ops) d ptr buf sz off s = Inr (r, s') \<longleftrightarrow>
     d_pwrite ops d ptr buf sz off s = Inr (r, s') \<and> (0 \<le> r \<longrightarrow> r = int sz)"
    by (cases "d_pwrite ops d ptr buf sz off s") (auto simp: uncut_def split: if_splits)
  show "d_pread (uncut content ops) d ptr buf sz off s = Inr (r, buf', s') \<longleftrightarrow>
     d_pread ops d ptr buf sz off s = Inr (r, buf', s') \<and>
     (0 \<le> r \<longrightarrow> (\<forall>i. nat r \<le> i \<and> i < sz \<longrightarrow> content d s (off + i) = 0))"
    by (cases "d_pread ops d ptr buf sz off s") (auto simp: uncut_def list_ex_iff split: if_splits)
qed (simp_all add: uncut_def)

lemma uncut_storage_driver:
  assumes "storage_calls ops content d"
  shows "storage_driver (uncut content ops) content d"
proof -
  note c = storage_calls.pread_content [OF assms] storage_calls.pread_bytes [OF assms]
    storage_calls.pwrite_count [OF assms] storage_calls.pwrite_part [OF assms]
    storage_calls.sync_keeps [OF assms] storage_calls.establish_keeps [OF assms] storage_calls.erase_keeps [OF assms]
  show ?thesis
    by unfold_locales
      (simp_all only: uncut_calls storage_calls.no_directMSync [OF assms] storage_calls.no_directMmap [OF assms]
        storage_calls.no_directMunmap [OF assms], (rule c; blast | blast)+)
qed

end
