(* ===== verification/MemoryDriver.thy ===== *)
theory MemoryDriver
  imports Driver
begin

text \<open>
  The drivers of \<open>src/drivers/MemoryDriver.cpp\<close> and \<open>src/drivers/DummyDriver.cpp\<close>. Memory
  drivers made from one another share their buffer, so the storage holds the buffers by
  address, each with its share count.
\<close>

section \<open>Memory driver\<close>

record mem_store =
  mem_bytes :: "addr \<Rightarrow> nat \<Rightarrow> byte"
  mem_share :: "addr \<Rightarrow> int option"
  mem_brk :: addr

record mem_driver = driver +
  md_size :: size_t
  md_buffer :: addr

definition newMemoryDriver ::
  "size_t \<Rightarrow> byte \<Rightarrow> mem_store \<Rightarrow> (mem_driver \<times> mem_store) result" where
  "newMemoryDriver sz defaultValue s =
     (if \<not> sz > 0 then Inl (AssertFailure ''size > 0'')
      else let buffer = mem_brk s
           in Inr (driver.extend driver_new \<lparr>md_size = sz, md_buffer = buffer\<rparr>,
                   \<lparr>mem_bytes = (mem_bytes s)(buffer := \<lambda>i. defaultValue),
                    mem_share = (mem_share s)(buffer \<mapsto> 1),
                    mem_brk = buffer + sz\<rparr>))"

text \<open>
  The sharing constructor leaves \<open>size\<close> unset: the parameter \<open>garbage\<close> is the value the
  uninitialised field has.
\<close>

definition shareMemoryDriver ::
  "size_t \<Rightarrow> mem_driver option \<Rightarrow> mem_store \<Rightarrow> (mem_driver \<times> mem_store) result" where
  "shareMemoryDriver garbage other s =
     (case other of
        None \<Rightarrow> Inl (AssertFailure ''driver != NULL'')
      | Some d \<Rightarrow>
          (case mem_share s (md_buffer d) of
             None \<Rightarrow> Inl (AssertFailure ''driver->share != NULL'')
           | Some n \<Rightarrow>
               Inr (driver.extend driver_new \<lparr>md_size = garbage, md_buffer = md_buffer d\<rparr>,
                    s\<lparr>mem_share := (mem_share s)(md_buffer d \<mapsto> n + 1)\<rparr>)))"

definition deleteMemoryDriver :: "mem_driver \<Rightarrow> mem_store \<Rightarrow> mem_store" where
  "deleteMemoryDriver d s =
     (case mem_share s (md_buffer d) of
        None \<Rightarrow> s
      | Some n \<Rightarrow>
          s\<lparr>mem_share := (mem_share s)(md_buffer d := (if n = 1 then None else Some (n - 1)))\<rparr>)"

definition memory_pwrite ::
  "mem_driver \<Rightarrow> addr \<Rightarrow> buffer \<Rightarrow> size_t \<Rightarrow> size_t \<Rightarrow> mem_store \<Rightarrow> (int \<times> mem_store) result" where
  "memory_pwrite d ptr buf sz offset s =
     (if \<not> ptr \<noteq> 0 then Inl (AssertFailure ''buffer != NULL'')
      else if \<not> offset < md_size d then Inl (Fatal ''Invalid position, offset overpass memory limit'')
      else if \<not> sz_add sz offset \<le> md_size d then Inl (Fatal ''Invalid position, overpass memory limit'')
      else Inr (int sz,
             s\<lparr>mem_bytes := (mem_bytes s)(md_buffer d :=
                 \<lambda>x. if offset \<le> x \<and> x < offset + sz then buf (x - offset)
                     else mem_bytes s (md_buffer d) x)\<rparr>))"

definition memory_pread ::
  "mem_driver \<Rightarrow> addr \<Rightarrow> buffer \<Rightarrow> size_t \<Rightarrow> size_t \<Rightarrow> mem_store
    \<Rightarrow> (int \<times> buffer \<times> mem_store) result" where
  "memory_pread d ptr buf sz offset s =
     (if \<not> ptr \<noteq> 0 then Inl (AssertFailure ''buffer != NULL'')
      else if \<not> offset < md_size d then Inl (Fatal ''Invalid position, offset overpass memory limit'')
      else if \<not> sz_add sz offset \<le> md_size d then Inl (Fatal ''Invalid position, overpass memory limit'')
      else Inr (int sz, \<lambda>i. if i < sz then mem_bytes s (md_buffer d) (offset + i) else buf i, s))"

definition memory_sync ::
  "mem_driver \<Rightarrow> addr \<Rightarrow> size_t \<Rightarrow> size_t \<Rightarrow> mem_store \<Rightarrow> vm \<Rightarrow> (mem_store \<times> vm) result" where
  "memory_sync d ptr offset sz s v =
     (if \<not> md_buffer d \<noteq> 0 then Inl (AssertFailure ''buffer != NULL'')
      else if \<not> offset < md_size d then Inl (AssertFailure ''offset < this->size'')
      else Inr (s, v))"

definition memory_ops :: "(mem_driver, mem_store) driver_ops" where
  "memory_ops =
     \<lparr>d_pwrite = memory_pwrite, d_pread = memory_pread, d_sync = memory_sync,
      d_directMmap = default_directMmap, d_directMunmap = default_directMunmap,
      d_directMSync = default_directMSync, d_establish_mapping = default_establish_mapping,
      d_erase_mapping = default_erase_mapping, d_checkThreadSafety = default_checkThreadSafety\<rparr>"

definition memory_content :: "mem_driver \<Rightarrow> mem_store \<Rightarrow> nat \<Rightarrow> byte" where
  "memory_content d s = mem_bytes s (md_buffer d)"

text \<open>The memory driver keeps the contract of a storage driver.\<close>

interpretation md: storage_driver memory_ops memory_content d for d
  by unfold_locales
    (auto simp: memory_ops_def memory_pread_def memory_pwrite_def memory_sync_def memory_content_def
      driver_defaults split: if_splits)

section \<open>Dummy driver\<close>

record dummy_driver = driver +
  dd_value :: byte

definition newDummyDriver :: "byte \<Rightarrow> dummy_driver" where
  "newDummyDriver v = driver.extend driver_new \<lparr>dd_value = v\<rparr>"

definition dummy_pwrite ::
  "dummy_driver \<Rightarrow> addr \<Rightarrow> buffer \<Rightarrow> size_t \<Rightarrow> size_t \<Rightarrow> 's \<Rightarrow> (int \<times> 's) result" where
  "dummy_pwrite d ptr buf sz offset s =
     (if \<not> ptr \<noteq> 0 then Inl (AssertFailure ''buffer != NULL'') else Inr (int sz, s))"

definition dummy_pread ::
  "dummy_driver \<Rightarrow> addr \<Rightarrow> buffer \<Rightarrow> size_t \<Rightarrow> size_t \<Rightarrow> 's \<Rightarrow> (int \<times> buffer \<times> 's) result" where
  "dummy_pread d ptr buf sz offset s =
     (if \<not> ptr \<noteq> 0 then Inl (AssertFailure ''buffer != NULL'')
      else Inr (int sz, \<lambda>i. if i < sz then dd_value d else buf i, s))"

definition dummy_sync ::
  "dummy_driver \<Rightarrow> addr \<Rightarrow> size_t \<Rightarrow> size_t \<Rightarrow> 's \<Rightarrow> vm \<Rightarrow> ('s \<times> vm) result" where
  "dummy_sync d ptr offset sz s v = Inr (s, v)"

definition dummy_ops :: "(dummy_driver, 's) driver_ops" where
  "dummy_ops =
     \<lparr>d_pwrite = dummy_pwrite, d_pread = dummy_pread, d_sync = dummy_sync,
      d_directMmap = default_directMmap, d_directMunmap = default_directMunmap,
      d_directMSync = default_directMSync, d_establish_mapping = default_establish_mapping,
      d_erase_mapping = default_erase_mapping, d_checkThreadSafety = default_checkThreadSafety\<rparr>"

section \<open>Sharing\<close>

text \<open>The share count of a buffer is the number of drivers on it; the last one frees it.\<close>

lemma share_then_delete:
  assumes "mem_share s (md_buffer d) = Some n" and "0 < n"
    and "shareMemoryDriver garbage (Some d) s = Inr (d', s')"
  shows "deleteMemoryDriver d' s' = s" and "memory_content d' s' = memory_content d s"
  using assms by (auto simp: shareMemoryDriver_def deleteMemoryDriver_def memory_content_def
      driver.defs fun_upd_idem)

end
