(* ===== verification/Drivers.thy ===== *)
theory Drivers
  imports MemoryDriver
begin

text \<open>
  The drivers of \<open>src/drivers\<close> that reach outside of the process: \<open>FDDriver\<close>,
  \<open>MmapDriver\<close>, \<open>IocDriver\<close> and \<open>CDriver\<close>. The system calls, the IOC client and the C
  functions of the user are parameters: records of functions on the state \<open>'f\<close> of the
  outside world.
\<close>

section \<open>System calls\<close>

record 'f posix =
  sys_dup :: "int \<Rightarrow> 'f \<Rightarrow> int \<times> 'f"
  sys_close :: "int \<Rightarrow> 'f \<Rightarrow> 'f"
  sys_pread :: "int \<Rightarrow> size_t \<Rightarrow> size_t \<Rightarrow> 'f \<Rightarrow> int \<times> buffer \<times> 'f"
  sys_pwrite :: "int \<Rightarrow> buffer \<Rightarrow> size_t \<Rightarrow> size_t \<Rightarrow> 'f \<Rightarrow> int \<times> 'f"
  sys_fdatasync :: "int \<Rightarrow> 'f \<Rightarrow> 'f"
  sys_fstat :: "int \<Rightarrow> 'f \<Rightarrow> int \<times> size_t"
  sys_ftruncate :: "int \<Rightarrow> size_t \<Rightarrow> 'f \<Rightarrow> int \<times> 'f"
  sys_ficlonerange :: "int \<Rightarrow> int \<times> size_t \<times> size_t \<times> size_t \<Rightarrow> 'f \<Rightarrow> int \<times> 'f"
  sys_mmap_fd :: "addr \<Rightarrow> size_t \<Rightarrow> prot \<Rightarrow> bool \<Rightarrow> int option \<Rightarrow> size_t \<Rightarrow> 'f \<Rightarrow> vm \<Rightarrow> addr option \<times> 'f \<times> vm"
  sys_munmap_fd :: "addr \<Rightarrow> size_t \<Rightarrow> 'f \<Rightarrow> vm \<Rightarrow> int \<times> 'f \<times> vm"
  sys_msync :: "addr \<Rightarrow> size_t \<Rightarrow> 'f \<Rightarrow> vm \<Rightarrow> int \<times> 'f \<times> vm"

text \<open>
  What the manual pages promise for regular files: \<open>fcontent fd f\<close> is the content of the file,
  0 past its end. A read or a write that does not fail returns the number of bytes it
  transferred, at most the number asked for and possibly less; exactly these bytes are
  transferred. \<open>fdatasync\<close> does not change the content.
\<close>

definition posix_ok :: "'f posix \<Rightarrow> (int \<Rightarrow> 'f \<Rightarrow> nat \<Rightarrow> byte) \<Rightarrow> bool" where
  "posix_ok sys fcontent \<longleftrightarrow>
     (\<forall>fd sz off f r buf f'. sys_pread sys fd sz off f = (r, buf, f') \<longrightarrow> 0 \<le> r \<longrightarrow>
        fcontent fd f' = fcontent fd f \<and> (\<forall>i < sz. i < nat r \<longrightarrow> buf i = fcontent fd f (off + i))) \<and>
     (\<forall>fd buf sz off f r f'. sys_pwrite sys fd buf sz off f = (r, f') \<longrightarrow> 0 \<le> r \<longrightarrow>
        r \<le> int sz \<and>
        (\<forall>x. fcontent fd f' x = (if off \<le> x \<and> x < off + nat r then buf (x - off) else fcontent fd f x))) \<and>
     (\<forall>fd f. fcontent fd (sys_fdatasync sys fd f) = fcontent fd f)"

section \<open>File descriptor driver\<close>

record fd_driver = driver +
  fdd_fd :: int

definition newFDDriver :: "'f posix \<Rightarrow> int \<Rightarrow> 'f \<Rightarrow> (fd_driver \<times> 'f) result" where
  "newFDDriver sys fd f =
     (if \<not> fd > 0 then Inl (AssertFailure ''fd > 0'')
      else case sys_dup sys fd f of
        (dupFD, f') \<Rightarrow>
          if \<not> dupFD > 0 then Inl (Fatal ''Fail to dup() the file descriptor'')
          else Inr (driver.extend driver_new \<lparr>fdd_fd = dupFD\<rparr>, f'))"

definition deleteFDDriver :: "'f posix \<Rightarrow> fd_driver \<Rightarrow> 'f \<Rightarrow> 'f" where
  "deleteFDDriver sys d f = sys_close sys (fdd_fd d) f"

definition fd_setFd :: "'f posix \<Rightarrow> int \<Rightarrow> fd_driver \<Rightarrow> 'f \<Rightarrow> (fd_driver \<times> 'f) result" where
  "fd_setFd sys newFd d f =
     (if \<not> newFd > 0 then Inl (AssertFailure ''newFd > 0'')
      else case sys_dup sys newFd (sys_close sys (fdd_fd d) f) of
        (dupFD, f') \<Rightarrow>
          if \<not> dupFD > 0 then Inl (Fatal ''Fail to dup() the file descriptor'')
          else Inr (d\<lparr>fdd_fd := dupFD\<rparr>, f'))"

definition fd_pwrite ::
  "'f posix \<Rightarrow> fd_driver \<Rightarrow> addr \<Rightarrow> buffer \<Rightarrow> size_t \<Rightarrow> size_t \<Rightarrow> 'f \<Rightarrow> (int \<times> 'f) result" where
  "fd_pwrite sys d ptr buf sz offset f =
     (if \<not> ptr \<noteq> 0 then Inl (AssertFailure ''buffer != NULL'')
      else if \<not> sz > 0 then Inl (AssertFailure ''size > 0'')
      else Inr (sys_pwrite sys (fdd_fd d) buf sz offset f))"

definition fd_pread ::
  "'f posix \<Rightarrow> fd_driver \<Rightarrow> addr \<Rightarrow> buffer \<Rightarrow> size_t \<Rightarrow> size_t \<Rightarrow> 'f \<Rightarrow> (int \<times> buffer \<times> 'f) result" where
  "fd_pread sys d ptr buf sz offset f =
     (if \<not> ptr \<noteq> 0 then Inl (AssertFailure ''buffer != NULL'')
      else if \<not> sz > 0 then Inl (AssertFailure ''size > 0'')
      else case sys_pread sys (fdd_fd d) sz offset f of
        (r, bytes, f') \<Rightarrow> Inr (r, \<lambda>i. if int i < r then bytes i else buf i, f'))"

definition fd_sync ::
  "'f posix \<Rightarrow> fd_driver \<Rightarrow> addr \<Rightarrow> size_t \<Rightarrow> size_t \<Rightarrow> 'f \<Rightarrow> vm \<Rightarrow> ('f \<times> vm) result" where
  "fd_sync sys d ptr offset sz f v = Inr (sys_fdatasync sys (fdd_fd d) f, v)"

text \<open>
  The fields of \<open>struct file_clone_range\<close> are, in order, the source descriptor, the source
  offset, the source length and the destination offset; the code gives them as written here.
\<close>

definition fd_cloneRange ::
  "'f posix \<Rightarrow> int \<Rightarrow> size_t \<Rightarrow> size_t \<Rightarrow> fd_driver \<Rightarrow> 'f \<Rightarrow> bool \<times> 'f" where
  "fd_cloneRange sys targetFd offset sz d f =
     (case sys_ficlonerange sys targetFd (fdd_fd d, sz, offset, offset) f of
        (status, f') \<Rightarrow> (status = 0, f'))"

definition fd_ops :: "'f posix \<Rightarrow> (fd_driver, 'f) driver_ops" where
  "fd_ops sys =
     \<lparr>d_pwrite = fd_pwrite sys, d_pread = fd_pread sys, d_sync = fd_sync sys,
      d_directMmap = default_directMmap, d_directMunmap = default_directMunmap,
      d_directMSync = default_directMSync, d_establish_mapping = default_establish_mapping,
      d_erase_mapping = default_erase_mapping, d_checkThreadSafety = default_checkThreadSafety\<rparr>"

lemma posix_okD:
  assumes "posix_ok sys fcontent"
  shows "sys_pread sys fd sz off f = (r, buf, f') \<Longrightarrow> 0 \<le> r \<Longrightarrow> fcontent fd f' = fcontent fd f"
    and "sys_pread sys fd sz off f = (r, buf, f') \<Longrightarrow> 0 \<le> r \<Longrightarrow> i < sz \<Longrightarrow> i < nat r \<Longrightarrow> buf i = fcontent fd f (off + i)"
    and "sys_pwrite sys fd buf sz off f = (r, f') \<Longrightarrow> 0 \<le> r \<Longrightarrow> r \<le> int sz"
    and "sys_pwrite sys fd buf sz off f = (r, f') \<Longrightarrow> 0 \<le> r \<Longrightarrow>
      fcontent fd f' x = (if off \<le> x \<and> x < off + nat r then buf (x - off) else fcontent fd f x)"
    and "fcontent fd (sys_fdatasync sys fd f) = fcontent fd f"
  using assms unfolding posix_ok_def by blast+

lemma fd_preadD:
  assumes "fd_pread sys d ptr buf sz off f = Inr (r, buf', f')"
  obtains bytes where "sys_pread sys (fdd_fd d) sz off f = (r, bytes, f')"
    and "buf' = (\<lambda>i. if int i < r then bytes i else buf i)"
  using assms by (auto simp: fd_pread_def split: if_splits prod.splits)

lemma fd_storage_calls:
  assumes "posix_ok sys fcontent"
  shows "storage_calls (fd_ops sys) (\<lambda>d. fcontent (fdd_fd d)) d"
proof -
  have wr: "d_pwrite (fd_ops sys) d ptr buf sz off f = Inr (r, f') \<Longrightarrow>
      sys_pwrite sys (fdd_fd d) buf sz off f = (r, f')" for d ptr buf sz off f r f'
    by (auto simp: fd_ops_def fd_pwrite_def split: if_splits)
  have rd: "d_pread (fd_ops sys) = fd_pread sys"
    by (simp add: fd_ops_def)
  note ok = posix_okD [OF assms]
  show ?thesis
  proof unfold_locales
    fix ptr buf sz off f r buf' f'
    assume run: "d_pread (fd_ops sys) d ptr buf sz off f = Inr (r, buf', f')" and r: "0 \<le> r"
    obtain bytes where by1: "sys_pread sys (fdd_fd d) sz off f = (r, bytes, f')"
        and by2: "buf' = (\<lambda>i. if int i < r then bytes i else buf i)"
      using run unfolding rd by (rule fd_preadD)
    show "fcontent (fdd_fd d) f' = fcontent (fdd_fd d) f"
      by (rule ok(1) [OF by1 r])
    show "if i < nat r then buf' i = fcontent (fdd_fd d) f (off + i) else buf' i = buf i \<or> buf' i = 0"
      if "i < sz" for i
      using ok(2) [OF by1 r that] by (auto simp: by2)
  next
    fix ptr buf sz off f r f' x
    assume run: "d_pwrite (fd_ops sys) d ptr buf sz off f = Inr (r, f')" and r: "0 \<le> r"
    show "r \<le> int sz"
      by (rule ok(3) [OF wr [OF run] r])
    show "fcontent (fdd_fd d) f' x =
        (if off \<le> x \<and> x < off + nat r then buf (x - off) else fcontent (fdd_fd d) f x)"
      by (rule ok(4) [OF wr [OF run] r])
  qed (auto simp: fd_ops_def fd_sync_def driver_defaults ok(5))
qed

section \<open>Direct memory mapping driver\<close>

record mmap_driver = driver +
  mmd_fd :: int
  allowNotAligned :: bool

definition newMmapDriver :: "'f posix \<Rightarrow> int \<Rightarrow> bool \<Rightarrow> 'f \<Rightarrow> (mmap_driver \<times> 'f) result" where
  "newMmapDriver sys fd notAligned f =
     (if fd = 0 then Inr (driver.extend driver_new \<lparr>mmd_fd = 0, allowNotAligned = notAligned\<rparr>, f)
      else case sys_dup sys fd f of
        (dupFD, f') \<Rightarrow>
          if \<not> dupFD > 0 then Inl (Fatal ''Fail to dup() the file descriptor'')
          else Inr (driver.extend driver_new \<lparr>mmd_fd = dupFD, allowNotAligned = notAligned\<rparr>, f'))"

definition deleteMmapDriver :: "'f posix \<Rightarrow> mmap_driver \<Rightarrow> 'f \<Rightarrow> 'f" where
  "deleteMmapDriver sys d f = (if mmd_fd d \<noteq> 0 then sys_close sys (mmd_fd d) f else f)"

definition mmap_setFd :: "'f posix \<Rightarrow> int \<Rightarrow> mmap_driver \<Rightarrow> 'f \<Rightarrow> (mmap_driver \<times> 'f) result" where
  "mmap_setFd sys newFd d f =
     (if \<not> newFd > 0 then Inl (AssertFailure ''newFd > 0'')
      else case sys_dup sys newFd (sys_close sys (mmd_fd d) f) of
        (dupFD, f') \<Rightarrow>
          if \<not> dupFD > 0 then Inl (Fatal ''Fail to dup() the file descriptor'')
          else Inr (d\<lparr>mmd_fd := dupFD\<rparr>, f'))"

text \<open>The aligned size, the aligned offset and the offset of the address in its page.\<close>

definition checkAndSetAlign :: "bool \<Rightarrow> size_t \<Rightarrow> size_t \<Rightarrow> (size_t \<times> size_t \<times> size_t) result" where
  "checkAndSetAlign notAligned sz offset =
     (if \<not> notAligned \<and> \<not> sz mod UMMAP_PAGE_SIZE = 0
      then Inl (Fatal ''Size must be aligned to page size'')
      else if \<not> notAligned \<and> \<not> offset mod UMMAP_PAGE_SIZE = 0
      then Inl (Fatal ''Offset must be aligned to page size'')
      else
        let (addrOffset, offset1, sz1) =
              (if offset mod UMMAP_PAGE_SIZE \<noteq> 0
               then (offset mod UMMAP_PAGE_SIZE, offset - offset mod UMMAP_PAGE_SIZE,
                     sz_add sz (offset mod UMMAP_PAGE_SIZE))
               else (0, offset, sz));
            sz2 = (if sz1 mod UMMAP_PAGE_SIZE \<noteq> 0
                   then sz_add sz1 (UMMAP_PAGE_SIZE - sz1 mod UMMAP_PAGE_SIZE) else sz1)
        in Inr (sz2, offset1, addrOffset))"

definition mmap_pwrite ::
  "mmap_driver \<Rightarrow> addr \<Rightarrow> buffer \<Rightarrow> size_t \<Rightarrow> size_t \<Rightarrow> 'f \<Rightarrow> (int \<times> 'f) result" where
  "mmap_pwrite d ptr buf sz offset f = Inl (AssertFailure ''false'')"

definition mmap_pread ::
  "mmap_driver \<Rightarrow> addr \<Rightarrow> buffer \<Rightarrow> size_t \<Rightarrow> size_t \<Rightarrow> 'f \<Rightarrow> (int \<times> buffer \<times> 'f) result" where
  "mmap_pread d ptr buf sz offset f = Inl (AssertFailure ''false'')"

definition mmap_sync ::
  "mmap_driver \<Rightarrow> addr \<Rightarrow> size_t \<Rightarrow> size_t \<Rightarrow> 'f \<Rightarrow> vm \<Rightarrow> ('f \<times> vm) result" where
  "mmap_sync d ptr offset sz f v = Inl (AssertFailure ''false'')"

definition mmap_directMSync ::
  "'f posix \<Rightarrow> mmap_driver \<Rightarrow> addr \<Rightarrow> size_t \<Rightarrow> size_t \<Rightarrow> 'f \<Rightarrow> vm \<Rightarrow> (bool \<times> 'f \<times> vm) result" where
  "mmap_directMSync sys d base sz offset f v =
     bindE (checkAndSetAlign (allowNotAligned d) sz offset) (\<lambda>(sz', offset', addrOffset).
       case sys_msync sys (base - addrOffset) sz' f v of
         (res, f', v') \<Rightarrow>
           if \<not> res = 0 then Inl (Fatal ''Fail to msync'') else Inr (True, f', v'))"

definition mmap_directMmap ::
  "'f posix \<Rightarrow> mmap_driver \<Rightarrow> addr \<Rightarrow> size_t \<Rightarrow> size_t \<Rightarrow> prot \<Rightarrow> bool \<Rightarrow> 'f \<Rightarrow> vm
    \<Rightarrow> (addr \<times> 'f \<times> vm) result" where
  "mmap_directMmap sys d addr sz offset prot mapFixed f v =
     (case prot of (read, write, exec) \<Rightarrow>
       bindE (checkAndSetAlign (allowNotAligned d) sz offset) (\<lambda>(sz', offset', addrOffset).
         bindE (if write \<and> mmd_fd d \<noteq> 0
                then (case sys_fstat sys (mmd_fd d) f of (status, origSize) \<Rightarrow>
                       if \<not> status = 0 then Inl (Fatal ''Fail to fstat the file before memory mapping it'')
                       else if origSize < sz_add offset' sz'
                       then (case sys_ftruncate sys (mmd_fd d) (sz_add offset' sz') f of (status', f') \<Rightarrow>
                              if \<not> status' = 0
                              then Inl (Fatal ''Fail to truncate the file brefore memory mapping it'')
                              else Inr f')
                       else Inr f)
                else Inr f)
           (\<lambda>f1.
             let kprot = (read, write, write);
                 fd = (if mmd_fd d = 0 then None else Some (mmd_fd d));
                 off = (if mmd_fd d = 0 then 0 else offset')
             in case sys_mmap_fd sys addr sz' kprot mapFixed fd off f1 v of
                  (None, f2, v2) \<Rightarrow> Inl (Fatal ''Fail to mmap'')
                | (Some res, f2, v2) \<Rightarrow> Inr (res + addrOffset, f2, v2))))"

definition mmap_directMunmap ::
  "'f posix \<Rightarrow> mmap_driver \<Rightarrow> addr \<Rightarrow> size_t \<Rightarrow> size_t \<Rightarrow> 'f \<Rightarrow> vm \<Rightarrow> (bool \<times> 'f \<times> vm) result" where
  "mmap_directMunmap sys d base sz offset f v =
     bindE (checkAndSetAlign (allowNotAligned d) sz offset) (\<lambda>(sz', offset', addrOffset).
       case sys_munmap_fd sys (base - addrOffset) sz' f v of
         (res, f', v') \<Rightarrow>
           if \<not> res = 0 then Inl (Fatal ''Fail to munmap'') else Inr (True, f', v'))"

definition mmap_ops :: "'f posix \<Rightarrow> (mmap_driver, 'f) driver_ops" where
  "mmap_ops sys =
     \<lparr>d_pwrite = mmap_pwrite, d_pread = mmap_pread, d_sync = mmap_sync,
      d_directMmap = mmap_directMmap sys, d_directMunmap = mmap_directMunmap sys,
      d_directMSync = mmap_directMSync sys, d_establish_mapping = default_establish_mapping,
      d_erase_mapping = default_erase_mapping, d_checkThreadSafety = default_checkThreadSafety\<rparr>"

text \<open>
  The aligned range is made of whole pages, starts in the page of the offset and covers the
  requested range.
\<close>

lemma checkAndSetAlign_covers:
  assumes run: "checkAndSetAlign notAligned sz offset = Inr (sz', offset', addrOffset)"
    and fits: "offset + sz + 2 * UMMAP_PAGE_SIZE < W64"
  shows "aligned sz'" and "aligned offset'" and "offset' + addrOffset = offset"
    and "addrOffset < UMMAP_PAGE_SIZE" and "offset + sz \<le> offset' + sz'"
    and "sz' < sz + addrOffset + UMMAP_PAGE_SIZE"
proof -
  define a where "a = offset mod UMMAP_PAGE_SIZE"
  have a: "a < UMMAP_PAGE_SIZE" "a \<le> offset" "aligned (offset - a)"
    by (simp_all add: a_def minus_mod_eq_mult_div)
  define t where "t = (sz + a) mod UMMAP_PAGE_SIZE"
  have t: "t < UMMAP_PAGE_SIZE"
    by (simp add: t_def)
  have eqs: "offset' = offset - a" "addrOffset = a" "sz' = (if t = 0 then sz + a else sz + a + (UMMAP_PAGE_SIZE - t))"
    using run fits a t by (auto simp: checkAndSetAlign_def a_def [symmetric] t_def split: if_splits)
  have "aligned (sz + a + (UMMAP_PAGE_SIZE - t))" if "t \<noteq> 0"
  proof -
    have "sz + a = (sz + a) div UMMAP_PAGE_SIZE * UMMAP_PAGE_SIZE + t"
      unfolding t_def by (rule div_mult_mod_eq [symmetric])
    then have "sz + a + (UMMAP_PAGE_SIZE - t) = Suc ((sz + a) div UMMAP_PAGE_SIZE) * UMMAP_PAGE_SIZE"
      using t by simp
    then show ?thesis by (metis mod_mult_self2_is_0)
  qed
  then show "aligned sz'"
    using t_def by (simp add: eqs)
  show "aligned offset'" "offset' + addrOffset = offset" "addrOffset < UMMAP_PAGE_SIZE"
    "offset + sz \<le> offset' + sz'" "sz' < sz + addrOffset + UMMAP_PAGE_SIZE"
    using a t by (auto simp: eqs)
qed

section \<open>C driver\<close>

text \<open>
  \<open>ummap_c_driver_t\<close>, the table of C functions given by the user; the functions of direct
  mapping may be \<open>NULL\<close>. \<open>driver_data\<close> is the address handed back to them.
\<close>

record 's c_functions =
  c_pwrite :: "addr \<Rightarrow> addr \<Rightarrow> buffer \<Rightarrow> size_t \<Rightarrow> size_t \<Rightarrow> 's \<Rightarrow> int \<times> 's"
  c_pread :: "addr \<Rightarrow> addr \<Rightarrow> buffer \<Rightarrow> size_t \<Rightarrow> size_t \<Rightarrow> 's \<Rightarrow> int \<times> buffer \<times> 's"
  c_sync :: "addr \<Rightarrow> addr \<Rightarrow> size_t \<Rightarrow> size_t \<Rightarrow> 's \<Rightarrow> 's"
  c_direct_mmap :: "(addr \<Rightarrow> addr \<Rightarrow> size_t \<Rightarrow> size_t \<Rightarrow> prot \<Rightarrow> bool \<Rightarrow> 's \<Rightarrow> vm \<Rightarrow> addr \<times> 's \<times> vm) option"
  c_direct_munmap :: "(addr \<Rightarrow> addr \<Rightarrow> size_t \<Rightarrow> size_t \<Rightarrow> 's \<Rightarrow> vm \<Rightarrow> bool \<times> 's \<times> vm) option"
  c_direct_msync :: "(addr \<Rightarrow> addr \<Rightarrow> size_t \<Rightarrow> size_t \<Rightarrow> 's \<Rightarrow> vm \<Rightarrow> bool \<times> 's \<times> vm) option"
  c_finalize :: "addr \<Rightarrow> 's \<Rightarrow> 's"

record 's c_driver = driver +
  cd_functions :: "'s c_functions"
  cd_data :: addr

definition newCDriver :: "'s c_functions option \<Rightarrow> addr \<Rightarrow> 's c_driver result" where
  "newCDriver c_driver driver_data =
     (case c_driver of
        None \<Rightarrow> Inl (AssertFailure ''c_driver != NULL'')
      | Some fns \<Rightarrow> Inr (driver.extend driver_new \<lparr>cd_functions = fns, cd_data = driver_data\<rparr>))"

definition deleteCDriver :: "'s c_driver \<Rightarrow> 's \<Rightarrow> 's" where
  "deleteCDriver d s = c_finalize (cd_functions d) (cd_data d) s"

definition cdriver_pwrite ::
  "'s c_driver \<Rightarrow> addr \<Rightarrow> buffer \<Rightarrow> size_t \<Rightarrow> size_t \<Rightarrow> 's \<Rightarrow> (int \<times> 's) result" where
  "cdriver_pwrite d ptr buf sz offset s = Inr (c_pwrite (cd_functions d) (cd_data d) ptr buf sz offset s)"

definition cdriver_pread ::
  "'s c_driver \<Rightarrow> addr \<Rightarrow> buffer \<Rightarrow> size_t \<Rightarrow> size_t \<Rightarrow> 's \<Rightarrow> (int \<times> buffer \<times> 's) result" where
  "cdriver_pread d ptr buf sz offset s = Inr (c_pread (cd_functions d) (cd_data d) ptr buf sz offset s)"

text \<open>The code of \<open>sync\<close> calls the function \<open>pread\<close> of the table, on the mapped memory.\<close>

definition cdriver_sync ::
  "'s c_driver \<Rightarrow> addr \<Rightarrow> size_t \<Rightarrow> size_t \<Rightarrow> 's \<Rightarrow> vm \<Rightarrow> ('s \<times> vm) result" where
  "cdriver_sync d ptr offset sz s v =
     (case c_pread (cd_functions d) (cd_data d) ptr (load_buf ptr v) offset sz s of
        (r, buf, s') \<Rightarrow> Inr (s', store_buf ptr offset buf v))"

definition cdriver_directMSync ::
  "'s c_driver \<Rightarrow> addr \<Rightarrow> size_t \<Rightarrow> size_t \<Rightarrow> 's \<Rightarrow> vm \<Rightarrow> (bool \<times> 's \<times> vm) result" where
  "cdriver_directMSync d base sz offset s v =
     (case c_direct_msync (cd_functions d) of
        None \<Rightarrow> Inr (False, s, v)
      | Some f \<Rightarrow> Inr (f (cd_data d) base sz offset s v))"

definition cdriver_directMmap ::
  "'s c_driver \<Rightarrow> addr \<Rightarrow> size_t \<Rightarrow> size_t \<Rightarrow> prot \<Rightarrow> bool \<Rightarrow> 's \<Rightarrow> vm \<Rightarrow> (addr \<times> 's \<times> vm) result" where
  "cdriver_directMmap d addr sz offset prot mapFixed s v =
     (case c_direct_mmap (cd_functions d) of
        None \<Rightarrow> Inr (0, s, v)
      | Some f \<Rightarrow> Inr (f addr (cd_data d) sz offset prot mapFixed s v))"

definition cdriver_directMunmap ::
  "'s c_driver \<Rightarrow> addr \<Rightarrow> size_t \<Rightarrow> size_t \<Rightarrow> 's \<Rightarrow> vm \<Rightarrow> (bool \<times> 's \<times> vm) result" where
  "cdriver_directMunmap d base sz offset s v =
     (case c_direct_munmap (cd_functions d) of
        None \<Rightarrow> Inr (False, s, v)
      | Some f \<Rightarrow> Inr (f (cd_data d) base sz offset s v))"

definition c_ops :: "('s c_driver, 's) driver_ops" where
  "c_ops =
     \<lparr>d_pwrite = cdriver_pwrite, d_pread = cdriver_pread, d_sync = cdriver_sync,
      d_directMmap = cdriver_directMmap, d_directMunmap = cdriver_directMunmap,
      d_directMSync = cdriver_directMSync, d_establish_mapping = default_establish_mapping,
      d_erase_mapping = default_erase_mapping, d_checkThreadSafety = default_checkThreadSafety\<rparr>"

section \<open>IOC driver\<close>

text \<open>The functions of the IOC client library that the driver calls.\<close>

record 's ioc_client =
  ioc_obj_create :: "int \<Rightarrow> int \<Rightarrow> 's \<Rightarrow> 's"
  ioc_obj_write :: "int \<Rightarrow> int \<Rightarrow> buffer \<Rightarrow> size_t \<Rightarrow> size_t \<Rightarrow> 's \<Rightarrow> int \<times> 's"
  ioc_obj_read :: "int \<Rightarrow> int \<Rightarrow> buffer \<Rightarrow> size_t \<Rightarrow> size_t \<Rightarrow> 's \<Rightarrow> int \<times> buffer \<times> 's"
  ioc_obj_flush :: "int \<Rightarrow> int \<Rightarrow> size_t \<Rightarrow> size_t \<Rightarrow> 's \<Rightarrow> 's"
  ioc_range_register :: "int \<Rightarrow> int \<Rightarrow> size_t \<Rightarrow> size_t \<Rightarrow> bool \<Rightarrow> 's \<Rightarrow> int \<times> 's"
  ioc_range_unregister :: "int \<Rightarrow> int \<Rightarrow> int \<Rightarrow> size_t \<Rightarrow> size_t \<Rightarrow> bool \<Rightarrow> 's \<Rightarrow> int \<times> 's"
  ioc_obj_cow :: "int \<Rightarrow> int \<Rightarrow> int \<Rightarrow> int \<Rightarrow> bool \<Rightarrow> size_t \<Rightarrow> size_t \<Rightarrow> 's \<Rightarrow> int \<times> 's"

record ioc_driver = driver +
  ioc_high :: int
  ioc_low :: int

definition newIocDriver :: "'s ioc_client \<Rightarrow> int \<Rightarrow> int \<Rightarrow> bool \<Rightarrow> 's \<Rightarrow> ioc_driver \<times> 's" where
  "newIocDriver ioc high low create s =
     (driver.extend driver_new \<lparr>ioc_high = high, ioc_low = low\<rparr>,
      if create then ioc_obj_create ioc high low s else s)"

definition ioc_pwrite ::
  "'s ioc_client \<Rightarrow> ioc_driver \<Rightarrow> addr \<Rightarrow> buffer \<Rightarrow> size_t \<Rightarrow> size_t \<Rightarrow> 's \<Rightarrow> (int \<times> 's) result" where
  "ioc_pwrite ioc d ptr buf sz offset s =
     Inr (ioc_obj_write ioc (ioc_high d) (ioc_low d) buf sz offset s)"

text \<open>The first byte of every page of the buffer is touched before the read.\<close>

definition ioc_pread ::
  "'s ioc_client \<Rightarrow> ioc_driver \<Rightarrow> addr \<Rightarrow> buffer \<Rightarrow> size_t \<Rightarrow> size_t \<Rightarrow> 's \<Rightarrow> (int \<times> buffer \<times> 's) result" where
  "ioc_pread ioc d ptr buf sz offset s =
     (let touched = (\<lambda>i. if i mod 4096 = 0 \<and> i < sz then 0 else buf i)
      in Inr (ioc_obj_read ioc (ioc_high d) (ioc_low d) touched sz offset s))"

definition ioc_sync ::
  "'s ioc_client \<Rightarrow> ioc_driver \<Rightarrow> addr \<Rightarrow> size_t \<Rightarrow> size_t \<Rightarrow> 's \<Rightarrow> vm \<Rightarrow> ('s \<times> vm) result" where
  "ioc_sync ioc d ptr offset sz s v = Inr (ioc_obj_flush ioc (ioc_high d) (ioc_low d) offset sz s, v)"

definition ioc_establish_mapping ::
  "'s ioc_client \<Rightarrow> ioc_driver \<Rightarrow> size_t \<Rightarrow> size_t \<Rightarrow> bool \<Rightarrow> 's \<Rightarrow> (int \<times> 's) result" where
  "ioc_establish_mapping ioc d offset sz write s =
     (case ioc_range_register ioc (ioc_high d) (ioc_low d) offset sz write s of (i, s') \<Rightarrow>
        if \<not> i \<ge> 0 then Inl (Fatal ''Fail to register range to establish IOC mapping'')
        else Inr (i, s'))"

definition ioc_erase_mapping ::
  "'s ioc_client \<Rightarrow> ioc_driver \<Rightarrow> int \<Rightarrow> size_t \<Rightarrow> size_t \<Rightarrow> bool \<Rightarrow> 's \<Rightarrow> 's result" where
  "ioc_erase_mapping ioc d data offset sz write s =
     (case ioc_range_unregister ioc data (ioc_high d) (ioc_low d) offset sz write s of (res, s') \<Rightarrow>
        if \<not> res = 0 then Inl (Fatal ''Fail to unregister the given mapping on the IOC server !'')
        else Inr s')"

definition ioc_cow ::
  "'s ioc_client \<Rightarrow> int \<Rightarrow> int \<Rightarrow> bool \<Rightarrow> size_t \<Rightarrow> size_t \<Rightarrow> ioc_driver \<Rightarrow> 's
    \<Rightarrow> (int \<times> ioc_driver \<times> 's) result" where
  "ioc_cow ioc high low allowExist offset sz d s =
     (if ioc_high d = high \<and> ioc_low d = low then Inr (0, d, s)
      else
        (case ioc_obj_cow ioc (ioc_high d) (ioc_low d) high low allowExist offset sz
                (ioc_obj_create ioc high low s) of (status, s') \<Rightarrow>
           if \<not> status = 0 then Inl (Fatal ''Failed to apply COW operation of the given driver !'')
           else Inr (status, d\<lparr>ioc_high := high, ioc_low := low\<rparr>, s')))"

definition ioc_switchDestination ::
  "'s ioc_client \<Rightarrow> int \<Rightarrow> int \<Rightarrow> ioc_driver \<Rightarrow> 's \<Rightarrow> ioc_driver \<times> 's" where
  "ioc_switchDestination ioc high low d s =
     (d\<lparr>ioc_high := high, ioc_low := low\<rparr>, ioc_obj_create ioc high low s)"

text \<open>
  The kernel version is asked once and kept in static variables; a kernel that is too old
  aborts, so every call that returns gives the same answer. \<open>release\<close> is what \<open>uname\<close>
  and the parsing of its string give, \<open>None\<close> when \<open>uname\<close> fails.
\<close>

definition ioc_checkThreadSafety ::
  "('s \<Rightarrow> nat list option) \<Rightarrow> ioc_driver \<Rightarrow> 's \<Rightarrow> bool result" where
  "ioc_checkThreadSafety uname d s =
     (case uname s of
        None \<Rightarrow> Inl (Fatal ''Fail to call uname() to check OS version !'')
      | Some release \<Rightarrow>
          if \<not> length release = 3 then Inl (Fatal ''Fail to parse kernel version'')
          else if \<not> release ! 0 > 3
          then Inl (Fatal ''You are using 3.X kernel version'')
          else Inr True)"

definition ioc_ops :: "'s ioc_client \<Rightarrow> ('s \<Rightarrow> nat list option) \<Rightarrow> (ioc_driver, 's) driver_ops" where
  "ioc_ops ioc uname =
     \<lparr>d_pwrite = ioc_pwrite ioc, d_pread = ioc_pread ioc, d_sync = ioc_sync ioc,
      d_directMmap = default_directMmap, d_directMunmap = default_directMunmap,
      d_directMSync = default_directMSync, d_establish_mapping = ioc_establish_mapping ioc,
      d_erase_mapping = ioc_erase_mapping ioc, d_checkThreadSafety = ioc_checkThreadSafety uname\<rparr>"

text \<open>
  What the driver relies on, which is what the interface \<open>Driver\<close> asks of a read and a write (they
  return the size that was read or written): \<open>icontent high low s\<close> is the content of the object,
  0 where it was never written; a read or a write that does not fail transfers as many bytes as
  it returns, and flushes and range registrations keep the content.
\<close>

definition ioc_ok :: "'s ioc_client \<Rightarrow> (int \<Rightarrow> int \<Rightarrow> 's \<Rightarrow> nat \<Rightarrow> byte) \<Rightarrow> bool" where
  "ioc_ok ioc icontent \<longleftrightarrow>
     (\<forall>h l buf sz off s r buf' s'. ioc_obj_read ioc h l buf sz off s = (r, buf', s') \<longrightarrow> 0 \<le> r \<longrightarrow>
        icontent h l s' = icontent h l s \<and>
        (\<forall>i < sz. buf' i = (if i < nat r then icontent h l s (off + i) else buf i))) \<and>
     (\<forall>h l buf sz off s r s'. ioc_obj_write ioc h l buf sz off s = (r, s') \<longrightarrow> 0 \<le> r \<longrightarrow>
        r \<le> int sz \<and>
        (\<forall>x. icontent h l s' x = (if off \<le> x \<and> x < off + nat r then buf (x - off) else icontent h l s x))) \<and>
     (\<forall>h l off sz s. icontent h l (ioc_obj_flush ioc h l off sz s) = icontent h l s) \<and>
     (\<forall>h l off sz w s. icontent h l (snd (ioc_range_register ioc h l off sz w s)) = icontent h l s) \<and>
     (\<forall>k h l off sz w s. icontent h l (snd (ioc_range_unregister ioc k h l off sz w s)) = icontent h l s)"

lemma ioc_okD:
  assumes "ioc_ok ioc icontent"
  shows "ioc_obj_read ioc h l buf sz off s = (r, buf', s') \<Longrightarrow> 0 \<le> r \<Longrightarrow> icontent h l s' = icontent h l s"
    and "ioc_obj_read ioc h l buf sz off s = (r, buf', s') \<Longrightarrow> 0 \<le> r \<Longrightarrow> i < sz \<Longrightarrow>
      buf' i = (if i < nat r then icontent h l s (off + i) else buf i)"
    and "ioc_obj_write ioc h l buf sz off s = (r, s') \<Longrightarrow> 0 \<le> r \<Longrightarrow> r \<le> int sz"
    and "ioc_obj_write ioc h l buf sz off s = (r, s') \<Longrightarrow> 0 \<le> r \<Longrightarrow>
      icontent h l s' x = (if off \<le> x \<and> x < off + nat r then buf (x - off) else icontent h l s x)"
    and "icontent h l (ioc_obj_flush ioc h l off sz s) = icontent h l s"
    and "icontent h l (snd (ioc_range_register ioc h l off sz w s)) = icontent h l s"
    and "icontent h l (snd (ioc_range_unregister ioc k h l off sz w s)) = icontent h l s"
  using assms unfolding ioc_ok_def by metis+

lemma ioc_storage_calls:
  assumes "ioc_ok ioc icontent"
  shows "storage_calls (ioc_ops ioc uname) (\<lambda>d. icontent (ioc_high d) (ioc_low d)) d"
proof -
  note ok = ioc_okD [OF assms]
  show ?thesis
  proof unfold_locales
    fix ptr buf sz off s r buf' s'
    assume "d_pread (ioc_ops ioc uname) d ptr buf sz off s = Inr (r, buf', s')" and r: "0 \<le> r"
    then have rd: "ioc_obj_read ioc (ioc_high d) (ioc_low d)
        (\<lambda>i. if i mod 4096 = 0 \<and> i < sz then 0 else buf i) sz off s = (r, buf', s')"
      by (simp add: ioc_ops_def ioc_pread_def)
    show "icontent (ioc_high d) (ioc_low d) s' = icontent (ioc_high d) (ioc_low d) s"
      by (rule ok(1) [OF rd r])
    show "if i < nat r then buf' i = icontent (ioc_high d) (ioc_low d) s (off + i)
        else buf' i = buf i \<or> buf' i = 0" if "i < sz" for i
      using ok(2) [OF rd r that] by (auto split: if_splits)
  next
    fix ptr buf sz off s r s' x
    assume "d_pwrite (ioc_ops ioc uname) d ptr buf sz off s = Inr (r, s')" and r: "0 \<le> r"
    then have wr: "ioc_obj_write ioc (ioc_high d) (ioc_low d) buf sz off s = (r, s')"
      by (simp add: ioc_ops_def ioc_pwrite_def)
    show "r \<le> int sz"
      by (rule ok(3) [OF wr r])
    show "icontent (ioc_high d) (ioc_low d) s' x =
        (if off \<le> x \<and> x < off + nat r then buf (x - off) else icontent (ioc_high d) (ioc_low d) s x)"
      by (rule ok(4) [OF wr r])
  next
    fix off sz wr s k s'
    assume "d_establish_mapping (ioc_ops ioc uname) d off sz wr s = Inr (k, s')"
    then have "s' = snd (ioc_range_register ioc (ioc_high d) (ioc_low d) off sz wr s)"
      by (auto simp: ioc_ops_def ioc_establish_mapping_def split: prod.splits if_splits)
    then show "icontent (ioc_high d) (ioc_low d) s' = icontent (ioc_high d) (ioc_low d) s"
      by (simp add: ok(6))
  next
    fix k off sz wr s s'
    assume "d_erase_mapping (ioc_ops ioc uname) d k off sz wr s = Inr s'"
    then have "s' = snd (ioc_range_unregister ioc k (ioc_high d) (ioc_low d) off sz wr s)"
      by (auto simp: ioc_ops_def ioc_erase_mapping_def split: prod.splits if_splits)
    then show "icontent (ioc_high d) (ioc_low d) s' = icontent (ioc_high d) (ioc_low d) s"
      by (simp add: ok(7))
  qed (auto simp: ioc_ops_def ioc_sync_def driver_defaults ok(5))
qed

end
