(* ===== verification/ClovisDriver.thy ===== *)
theory ClovisDriver
  imports Driver
begin

text \<open>
  The Mero/Motr driver of \<open>src/drivers/ClovisDriver.cpp\<close>. The object store is a parameter:
  with Motr the calls \<open>c0appz_mr\<close> and \<open>c0appz_mw\<close>, with Mero the vectored operations
  \<open>read_data_from_object\<close> and \<open>write_data_to_object\<close>, whose extents are pairs of an
  index and a length. The driver cuts a transfer into operations of at most
  \<open>CLOVIS_MAX_DATA_UNIT_PER_OPS\<close> data units. The C type \<open>int\<close> has 32 bits.
\<close>

section \<open>State and operations\<close>

abbreviation (input) CLOVIS_MAX_DATA_UNIT_PER_OPS :: nat where
  "CLOVIS_MAX_DATA_UNIT_PER_OPS \<equiv> 50"

record clovis_driver = driver +
  obj_hi :: int
  obj_lo :: int

record 's mero =
  mero_read :: "int \<times> int \<Rightarrow> (nat \<times> size_t) list \<Rightarrow> 's \<Rightarrow> int \<times> (nat \<Rightarrow> buffer) \<times> 's"
  mero_write :: "int \<times> int \<Rightarrow> (nat \<times> size_t) list \<Rightarrow> (nat \<Rightarrow> buffer) \<Rightarrow> 's \<Rightarrow> int \<times> 's"
  mero_unit_size :: "'s \<Rightarrow> size_t"
  mero_create :: "int \<times> int \<Rightarrow> 's \<Rightarrow> 's"

definition newClovisDriver :: "'s mero \<Rightarrow> int \<Rightarrow> int \<Rightarrow> bool \<Rightarrow> 's \<Rightarrow> clovis_driver \<times> 's" where
  "newClovisDriver mero high low create s =
     (driver.extend driver_new \<lparr>obj_hi = high, obj_lo = low\<rparr>,
      if create then mero_create mero (high, low) s else s)"

definition setObjectId :: "int \<Rightarrow> int \<Rightarrow> clovis_driver \<Rightarrow> clovis_driver" where
  "setObjectId high low d = d\<lparr>obj_hi := high, obj_lo := low\<rparr>"

text \<open>Conversion to a 32-bit \<open>int\<close>, and of such an \<open>int\<close> to an unsigned 64-bit index.\<close>

definition int32 :: "int \<Rightarrow> int" where
  "int32 x = (x + 2147483648) mod 4294967296 - 2147483648"

definition index64 :: "int \<Rightarrow> nat" where
  "index64 x = nat (x mod 18446744073709551616)"

text \<open>The extents of one operation and the value of \<open>last_index\<close> after them.\<close>

fun extents :: "size_t \<Rightarrow> nat \<Rightarrow> int \<Rightarrow> (nat \<times> size_t) list \<times> int" where
  "extents du 0 last_index = ([], last_index)"
| "extents du (Suc n) last_index =
     (case extents du n (int32 (last_index + int du)) of
        (es, last') \<Rightarrow> ((index64 last_index, du) # es, last'))"

text \<open>
  The size of a unit and the number of units, which the code keeps in an \<open>int\<close>: a negative count
  does not enter the loops and is 0 here.
\<close>

definition total_blocks :: "size_t \<Rightarrow> size_t \<Rightarrow> (size_t \<times> nat) result" where
  "total_blocks du sz =
     (if \<not> du > 0 then Inl (AssertFailure ''data_units_size > 0'')
      else if du > sz then Inr (sz, 1)
      else if sz mod du \<noteq> 0
      then Inl (AssertFailure ''We do not handle the case where the IO size is not a multiple of the data units'')
      else Inr (du, nat (int32 (int (sz div du)))))"

text \<open>The copy of the data units of one operation to the buffer, as the code addresses it.\<close>

definition copy_units :: "size_t \<Rightarrow> nat \<Rightarrow> nat \<Rightarrow> (nat \<Rightarrow> buffer) \<Rightarrow> buffer \<Rightarrow> buffer" where
  "copy_units du block_size j units buf =
     (let base = j * block_size * du
      in (\<lambda>k. if base \<le> k \<and> k < base + block_size * du
              then units ((k - base) div du) ((k - base) mod du) else buf k))"

function clovis_read_loop ::
  "'s mero \<Rightarrow> int \<times> int \<Rightarrow> size_t \<Rightarrow> nat \<Rightarrow> int \<Rightarrow> nat \<Rightarrow> buffer \<Rightarrow> 's \<Rightarrow> int \<times> buffer \<times> 's" where
  "clovis_read_loop mero obj du blocks last_index j buf s =
     (if blocks > 0
      then
        let block_size = (if blocks > CLOVIS_MAX_DATA_UNIT_PER_OPS then CLOVIS_MAX_DATA_UNIT_PER_OPS else blocks)
        in case extents du block_size last_index of (ext, last') \<Rightarrow>
             (case mero_read mero obj ext s of (ret, units, s') \<Rightarrow>
                if ret \<noteq> 0 then (ret, buf, s')
                else clovis_read_loop mero obj du (blocks - block_size) last' (j + 1)
                       (copy_units du block_size j units buf) s')
      else (0, buf, s))"
  by pat_completeness auto
termination
  by (relation "measure (\<lambda>(mero, obj, du, blocks, l, j, buf, s). blocks)") auto

declare clovis_read_loop.simps [simp del]

definition clovis_pread ::
  "'s mero \<Rightarrow> clovis_driver \<Rightarrow> addr \<Rightarrow> buffer \<Rightarrow> size_t \<Rightarrow> size_t \<Rightarrow> 's \<Rightarrow> (int \<times> buffer \<times> 's) result" where
  "clovis_pread mero d ptr buf sz offset s =
     (if \<not> ptr \<noteq> 0 then Inl (AssertFailure ''buffer != NULL'')
      else bindE (total_blocks (mero_unit_size mero s) sz) (\<lambda>(du, blocks).
        case clovis_read_loop mero (obj_hi d, obj_lo d) du blocks (int32 (int offset)) 0 buf s of
          (ret, buf', s') \<Rightarrow> Inr (if ret = 0 then ssize sz else -1, buf', s')))"

function clovis_write_loop ::
  "'s mero \<Rightarrow> int \<times> int \<Rightarrow> size_t \<Rightarrow> nat \<Rightarrow> int \<Rightarrow> nat \<Rightarrow> buffer \<Rightarrow> 's \<Rightarrow> int \<times> 's" where
  "clovis_write_loop mero obj du blocks last_index j buf s =
     (if blocks > 0
      then
        let block_size = (if blocks > CLOVIS_MAX_DATA_UNIT_PER_OPS then CLOVIS_MAX_DATA_UNIT_PER_OPS else blocks);
            units = (\<lambda>i k. buf (i * du + j * block_size * du + k))
        in case extents du block_size last_index of (ext, last') \<Rightarrow>
             (case mero_write mero obj ext units s of (ret, s') \<Rightarrow>
                if ret \<noteq> 0 then (ret, s')
                else clovis_write_loop mero obj du (blocks - block_size) last' (j + 1) buf s')
      else (0, s))"
  by pat_completeness auto
termination
  by (relation "measure (\<lambda>(mero, obj, du, blocks, l, j, buf, s). blocks)") auto

declare clovis_write_loop.simps [simp del]

definition clovis_pwrite ::
  "'s mero \<Rightarrow> clovis_driver \<Rightarrow> addr \<Rightarrow> buffer \<Rightarrow> size_t \<Rightarrow> size_t \<Rightarrow> 's \<Rightarrow> (int \<times> 's) result" where
  "clovis_pwrite mero d ptr buf sz offset s =
     (if \<not> ptr \<noteq> 0 then Inl (AssertFailure ''buffer != NULL'')
      else bindE (total_blocks (mero_unit_size mero s) sz) (\<lambda>(du, blocks).
        case clovis_write_loop mero (obj_hi d, obj_lo d) du blocks (int32 (int offset)) 0 buf s of
          (ret, s') \<Rightarrow> Inr (if ret = 0 then ssize sz else -1, s')))"

definition clovis_sync ::
  "clovis_driver \<Rightarrow> addr \<Rightarrow> size_t \<Rightarrow> size_t \<Rightarrow> 's \<Rightarrow> vm \<Rightarrow> ('s \<times> vm) result" where
  "clovis_sync d ptr offset sz s v = Inr (s, v)"

section \<open>Extents\<close>

lemma int32_id: "0 \<le> x \<Longrightarrow> x < 2147483648 \<Longrightarrow> int32 x = x"
  by (simp add: int32_def)

lemma extents_exact:
  "int l + int n * int du < 2147483648 \<Longrightarrow>
   extents du n (int l) = (map (\<lambda>i. (l + i * du, du)) [0..<n], int (l + n * du))"
proof (induction n arbitrary: l)
  case (Suc n)
  have "int l + int du < 2147483648"
    using Suc.prems by (simp add: distrib_right) (smt (verit) mult_nonneg_nonneg of_nat_0_le_iff)
  then have "int32 (int l + int du) = int (l + du)"
    by (simp add: int32_id)
  moreover have "extents du n (int (l + du)) = (map (\<lambda>i. (l + du + i * du, du)) [0..<n], int (l + du + n * du))"
    using Suc.prems by (intro Suc.IH) (simp add: distrib_right)
  moreover have "index64 (int l) = l"
    using Suc.prems by (simp add: index64_def distrib_right)
      (smt (verit) mod_pos_pos_trivial mult_nonneg_nonneg nat_int of_nat_0_le_iff)
  moreover have "(l, du) # map (\<lambda>i. (l + du + i * du, du)) [0..<n] = map (\<lambda>i. (l + i * du, du)) [0..<Suc n]"
    by (simp add: upt_conv_Cons map_Suc_upt [symmetric] add.assoc del: upt_Suc)
  ultimately show ?case by (simp add: add.assoc del: upt_Suc)
qed simp

section \<open>Transfers\<close>

text \<open>
  What the driver relies on: \<open>ocontent obj s\<close> is the content of the object; a vectored read
  that returns 0 gives the bytes of every extent.
\<close>

definition mero_read_ok :: "'s mero \<Rightarrow> (int \<times> int \<Rightarrow> 's \<Rightarrow> nat \<Rightarrow> byte) \<Rightarrow> bool" where
  "mero_read_ok mero ocontent \<longleftrightarrow>
     (\<forall>obj ext s units s'. mero_read mero obj ext s = (0, units, s') \<longrightarrow>
        ocontent obj s' = ocontent obj s \<and>
        (\<forall>i < length ext. \<forall>k < snd (ext ! i). units i k = ocontent obj s (fst (ext ! i) + k)))"

text \<open>
  A transfer of a whole number of full operations, or of a single operation, reads every
  byte to its place.
\<close>

lemma clovis_read_loop_correct:
  assumes ok: "mero_read_ok mero ocontent" and du: "0 < du"
    and "clovis_read_loop mero obj du blocks (int (l + j * 50 * du)) j buf s = (0, buf', s')"
    and "50 dvd blocks \<or> j = 0 \<and> blocks \<le> 50"
    and "l + (j * 50 + blocks) * du < 2147483648"
    and "\<forall>k < j * 50 * du. buf k = ocontent obj s (l + k)"
  shows "ocontent obj s' = ocontent obj s \<and> (\<forall>k < (j * 50 + blocks) * du. buf' k = ocontent obj s (l + k))"
  using assms(3-)
proof (induction blocks arbitrary: j buf s rule: less_induct)
  case (less blocks)
  show ?case
  proof (cases "blocks = 0")
    case True
    with less.prems show ?thesis by (simp add: clovis_read_loop.simps)
  next
    case False
    define b where "b = (if blocks > 50 then 50 else blocks)"
    have b: "0 < b" "b \<le> blocks" and jb: "j * b = j * 50"
      using False less.prems(2) by (auto simp: b_def dvd_def)
    let ?l = "l + j * 50 * du"
    have le: "b * du \<le> blocks * du"
      using b by simp
    then have "?l + b * du < 2147483648"
      using less.prems(3) unfolding distrib_right by linarith
    then have ex: "extents du b (int ?l) = (map (\<lambda>i. (?l + i * du, du)) [0..<b], int (?l + b * du))"
      by (intro extents_exact) (simp flip: of_nat_add of_nat_mult)
    obtain ret units s1 where rd: "mero_read mero obj (map (\<lambda>i. (?l + i * du, du)) [0..<b]) s = (ret, units, s1)"
      by (cases "mero_read mero obj (map (\<lambda>i. (?l + i * du, du)) [0..<b]) s") auto
    have "ret = 0"
      and run: "clovis_read_loop mero obj du (blocks - b) (int (?l + b * du)) (Suc j)
        (copy_units du b j units buf) s1 = (0, buf', s')"
      using less.prems(1) False rd ex
      by (auto simp: clovis_read_loop.simps [of mero obj du blocks] b_def [symmetric] split: if_splits)
    then have s1: "ocontent obj s1 = ocontent obj s"
      and un: "\<And>i k. i < b \<Longrightarrow> k < du \<Longrightarrow> units i k = ocontent obj s (?l + i * du + k)"
      using ok rd unfolding mero_read_ok_def by fastforce+
    have filled: "copy_units du b j units buf k = ocontent obj s1 (l + k)" if k: "k < (j * 50 + b) * du" for k
    proof (cases "j * 50 * du \<le> k")
      case True
      then obtain x where x: "k = j * 50 * du + x"
        by (auto simp: le_iff_add)
      then have "x < b * du"
        using k by (simp add: distrib_right)
      then have "x div du < b" and "x mod du < du"
        using du by (simp_all add: less_mult_imp_div_less)
      with un have "units (x div du) (x mod du) = ocontent obj s (?l + x div du * du + x mod du)"
        by blast
      also have "?l + x div du * du + x mod du = l + k"
        using x by (metis add.assoc div_mult_mod_eq)
      finally show ?thesis
        using x \<open>x < b * du\<close> by (simp add: copy_units_def Let_def jb s1)
    next
      case False
      then show ?thesis
        using less.prems(4) by (simp add: copy_units_def Let_def jb s1)
    qed
    show ?thesis
    proof (cases "blocks - b = 0")
      case True
      then have "b = blocks"
        using b by simp
      with run filled s1 show ?thesis by (simp add: clovis_read_loop.simps)
    next
      case more: False
      then have b50: "b = 50" "50 \<le> blocks"
        by (auto simp: b_def split: if_splits)
      have tot: "Suc j * 50 + (blocks - b) = j * 50 + blocks"
        using b50 by simp
      have "ocontent obj s' = ocontent obj s1 \<and>
          (\<forall>k < (Suc j * 50 + (blocks - b)) * du. buf' k = ocontent obj s1 (l + k))"
      proof (rule less.IH)
        show "blocks - b < blocks"
          using b by simp
        show "clovis_read_loop mero obj du (blocks - b) (int (l + Suc j * 50 * du)) (Suc j)
            (copy_units du b j units buf) s1 = (0, buf', s')"
          using run by (simp add: b50 algebra_simps)
        show "50 dvd blocks - b \<or> Suc j = 0 \<and> blocks - b \<le> 50"
          using less.prems(2) more b50 by (auto simp: b_def split: if_splits)
        show "l + (Suc j * 50 + (blocks - b)) * du < 2147483648"
          unfolding tot by (rule less.prems(3))
        show "\<forall>k < Suc j * 50 * du. copy_units du b j units buf k = ocontent obj s1 (l + k)"
          using filled by (simp add: b50 add.commute)
      qed
      then show ?thesis
        unfolding tot s1 .
    qed
  qed
qed

text \<open>
  Otherwise the last, shorter operation is copied to the wrong place. With one unit more
  than an operation holds, the last unit of the buffer is never written.
\<close>

lemma clovis_read_loop_tail:
  assumes "clovis_read_loop mero obj du 51 last_index 0 buf s = (ret, buf', s')" and "50 * du \<le> k"
    and "0 < du"
  shows "buf' k = buf k"
proof -
  have "\<not> k < du + du"
    using assms(2,3) by linarith
  with assms show ?thesis
    by (auto simp: clovis_read_loop.simps [of mero obj du "51"] clovis_read_loop.simps [of mero obj du "1"]
        clovis_read_loop.simps [of mero obj du "0"] clovis_read_loop.simps [of mero obj du "Suc 0"]
        copy_units_def Let_def split: prod.splits if_splits)
qed

end
