(* ===== verification/LibDriver.thy ===== *)
theory LibDriver
  imports Drivers ClovisDriver
begin

text \<open>
  The virtual calls on a \<open>Driver *\<close>: a value of \<open>lib_driver\<close> is an object of one of the
  driver classes and \<open>lib_ops\<close> dispatches on it. The storage is the buffers of the memory
  drivers and the outside world.
\<close>

section \<open>Dispatch\<close>

datatype 'f lib_driver =
    DMemory mem_driver
  | DDummy dummy_driver
  | DFD fd_driver
  | DMmap mmap_driver
  | DC "'f c_driver"
  | DIoc ioc_driver
  | DClovis clovis_driver

record 'f lib_store =
  mems :: mem_store
  outside :: 'f

record 'f lib_env =
  env_posix :: "'f posix"
  env_ioc :: "'f ioc_client"
  env_mero :: "'f mero"
  env_uname :: "'f \<Rightarrow> nat list option"

definition on_mems :: "('a \<times> mem_store) result \<Rightarrow> 'f lib_store \<Rightarrow> ('a \<times> 'f lib_store) result" where
  "on_mems r s = bindE r (\<lambda>(x, ms). Inr (x, s\<lparr>mems := ms\<rparr>))"

definition on_outside :: "('a \<times> 'f) result \<Rightarrow> 'f lib_store \<Rightarrow> ('a \<times> 'f lib_store) result" where
  "on_outside r s = bindE r (\<lambda>(x, f). Inr (x, s\<lparr>outside := f\<rparr>))"

definition swap3 :: "('a \<times> 'b \<times> 'c) result \<Rightarrow> (('a \<times> 'b) \<times> 'c) result" where
  "swap3 r = bindE r (\<lambda>(a, b, c). Inr ((a, b), c))"

definition unswap3 :: "(('a \<times> 'b) \<times> 'c) result \<Rightarrow> ('a \<times> 'b \<times> 'c) result" where
  "unswap3 r = bindE r (\<lambda>((a, b), c). Inr (a, b, c))"

definition vm_first :: "('s \<times> vm) result \<Rightarrow> (vm \<times> 's) result" where
  "vm_first r = bindE r (\<lambda>(s, v). Inr (v, s))"

definition vm_last :: "(vm \<times> 's) result \<Rightarrow> ('s \<times> vm) result" where
  "vm_last r = bindE r (\<lambda>(v, s). Inr (s, v))"

definition mid :: "('a \<times> 's \<times> vm) result \<Rightarrow> (('a \<times> vm) \<times> 's) result" where
  "mid r = bindE r (\<lambda>(a, s, v). Inr ((a, v), s))"

definition unmid :: "(('a \<times> vm) \<times> 's) result \<Rightarrow> ('a \<times> 's \<times> vm) result" where
  "unmid r = bindE r (\<lambda>((a, v), s). Inr (a, s, v))"

lemmas lib_plumbing =
  on_mems_def on_outside_def swap3_def unswap3_def vm_first_def vm_last_def mid_def unmid_def

definition lib_pwrite ::
  "'f lib_env \<Rightarrow> 'f lib_driver \<Rightarrow> addr \<Rightarrow> buffer \<Rightarrow> size_t \<Rightarrow> size_t \<Rightarrow> 'f lib_store
    \<Rightarrow> (int \<times> 'f lib_store) result" where
  "lib_pwrite env d ptr buf sz off s =
     (case d of
        DMemory o' \<Rightarrow> on_mems (memory_pwrite o' ptr buf sz off (mems s)) s
      | DDummy o' \<Rightarrow> dummy_pwrite o' ptr buf sz off s
      | DFD o' \<Rightarrow> on_outside (fd_pwrite (env_posix env) o' ptr buf sz off (outside s)) s
      | DMmap o' \<Rightarrow> mmap_pwrite o' ptr buf sz off s
      | DC o' \<Rightarrow> on_outside (cdriver_pwrite o' ptr buf sz off (outside s)) s
      | DIoc o' \<Rightarrow> on_outside (ioc_pwrite (env_ioc env) o' ptr buf sz off (outside s)) s
      | DClovis o' \<Rightarrow> on_outside (clovis_pwrite (env_mero env) o' ptr buf sz off (outside s)) s)"

definition lib_pread ::
  "'f lib_env \<Rightarrow> 'f lib_driver \<Rightarrow> addr \<Rightarrow> buffer \<Rightarrow> size_t \<Rightarrow> size_t \<Rightarrow> 'f lib_store
    \<Rightarrow> (int \<times> buffer \<times> 'f lib_store) result" where
  "lib_pread env d ptr buf sz off s =
     (case d of
        DMemory o' \<Rightarrow> unswap3 (on_mems (swap3 (memory_pread o' ptr buf sz off (mems s))) s)
      | DDummy o' \<Rightarrow> dummy_pread o' ptr buf sz off s
      | DFD o' \<Rightarrow> unswap3 (on_outside (swap3 (fd_pread (env_posix env) o' ptr buf sz off (outside s))) s)
      | DMmap o' \<Rightarrow> mmap_pread o' ptr buf sz off s
      | DC o' \<Rightarrow> unswap3 (on_outside (swap3 (cdriver_pread o' ptr buf sz off (outside s))) s)
      | DIoc o' \<Rightarrow> unswap3 (on_outside (swap3 (ioc_pread (env_ioc env) o' ptr buf sz off (outside s))) s)
      | DClovis o' \<Rightarrow> unswap3 (on_outside (swap3 (clovis_pread (env_mero env) o' ptr buf sz off (outside s))) s))"

definition lib_sync ::
  "'f lib_env \<Rightarrow> 'f lib_driver \<Rightarrow> addr \<Rightarrow> size_t \<Rightarrow> size_t \<Rightarrow> 'f lib_store \<Rightarrow> vm
    \<Rightarrow> ('f lib_store \<times> vm) result" where
  "lib_sync env d ptr off sz s v =
     (case d of
        DMemory o' \<Rightarrow> vm_last (on_mems (vm_first (memory_sync o' ptr off sz (mems s) v)) s)
      | DDummy o' \<Rightarrow> dummy_sync o' ptr off sz s v
      | DFD o' \<Rightarrow> vm_last (on_outside (vm_first (fd_sync (env_posix env) o' ptr off sz (outside s) v)) s)
      | DMmap o' \<Rightarrow> mmap_sync o' ptr off sz s v
      | DC o' \<Rightarrow> vm_last (on_outside (vm_first (cdriver_sync o' ptr off sz (outside s) v)) s)
      | DIoc o' \<Rightarrow> vm_last (on_outside (vm_first (ioc_sync (env_ioc env) o' ptr off sz (outside s) v)) s)
      | DClovis o' \<Rightarrow> vm_last (on_outside (vm_first (clovis_sync o' ptr off sz (outside s) v)) s))"

definition lib_directMmap ::
  "'f lib_env \<Rightarrow> 'f lib_driver \<Rightarrow> addr \<Rightarrow> size_t \<Rightarrow> size_t \<Rightarrow> prot \<Rightarrow> bool \<Rightarrow> 'f lib_store \<Rightarrow> vm
    \<Rightarrow> (addr \<times> 'f lib_store \<times> vm) result" where
  "lib_directMmap env d addr sz off prot fixed s v =
     (case d of
        DMmap o' \<Rightarrow> unmid (on_outside (mid (mmap_directMmap (env_posix env) o' addr sz off prot fixed (outside s) v)) s)
      | DC o' \<Rightarrow> unmid (on_outside (mid (cdriver_directMmap o' addr sz off prot fixed (outside s) v)) s)
      | _ \<Rightarrow> default_directMmap d addr sz off prot fixed s v)"

definition lib_directMunmap ::
  "'f lib_env \<Rightarrow> 'f lib_driver \<Rightarrow> addr \<Rightarrow> size_t \<Rightarrow> size_t \<Rightarrow> 'f lib_store \<Rightarrow> vm
    \<Rightarrow> (bool \<times> 'f lib_store \<times> vm) result" where
  "lib_directMunmap env d base sz off s v =
     (case d of
        DMmap o' \<Rightarrow> unmid (on_outside (mid (mmap_directMunmap (env_posix env) o' base sz off (outside s) v)) s)
      | DC o' \<Rightarrow> unmid (on_outside (mid (cdriver_directMunmap o' base sz off (outside s) v)) s)
      | _ \<Rightarrow> default_directMunmap d base sz off s v)"

definition lib_directMSync ::
  "'f lib_env \<Rightarrow> 'f lib_driver \<Rightarrow> addr \<Rightarrow> size_t \<Rightarrow> size_t \<Rightarrow> 'f lib_store \<Rightarrow> vm
    \<Rightarrow> (bool \<times> 'f lib_store \<times> vm) result" where
  "lib_directMSync env d base sz off s v =
     (case d of
        DMmap o' \<Rightarrow> unmid (on_outside (mid (mmap_directMSync (env_posix env) o' base sz off (outside s) v)) s)
      | DC o' \<Rightarrow> unmid (on_outside (mid (cdriver_directMSync o' base sz off (outside s) v)) s)
      | _ \<Rightarrow> default_directMSync d base sz off s v)"

definition lib_establish_mapping ::
  "'f lib_env \<Rightarrow> 'f lib_driver \<Rightarrow> size_t \<Rightarrow> size_t \<Rightarrow> bool \<Rightarrow> 'f lib_store \<Rightarrow> (int \<times> 'f lib_store) result" where
  "lib_establish_mapping env d off sz write s =
     (case d of
        DIoc o' \<Rightarrow> on_outside (ioc_establish_mapping (env_ioc env) o' off sz write (outside s)) s
      | _ \<Rightarrow> default_establish_mapping d off sz write s)"

definition lib_erase_mapping ::
  "'f lib_env \<Rightarrow> 'f lib_driver \<Rightarrow> int \<Rightarrow> size_t \<Rightarrow> size_t \<Rightarrow> bool \<Rightarrow> 'f lib_store \<Rightarrow> 'f lib_store result" where
  "lib_erase_mapping env d data off sz write s =
     (case d of
        DIoc o' \<Rightarrow> bindE (ioc_erase_mapping (env_ioc env) o' data off sz write (outside s))
                     (\<lambda>f. Inr (s\<lparr>outside := f\<rparr>))
      | _ \<Rightarrow> default_erase_mapping d data off sz write s)"

definition lib_checkThreadSafety :: "'f lib_env \<Rightarrow> 'f lib_driver \<Rightarrow> 'f lib_store \<Rightarrow> bool result" where
  "lib_checkThreadSafety env d s =
     (case d of
        DIoc o' \<Rightarrow> ioc_checkThreadSafety (env_uname env) o' (outside s)
      | _ \<Rightarrow> default_checkThreadSafety d s)"

definition lib_ops :: "'f lib_env \<Rightarrow> ('f lib_driver, 'f lib_store) driver_ops" where
  "lib_ops env =
     \<lparr>d_pwrite = lib_pwrite env, d_pread = lib_pread env, d_sync = lib_sync env,
      d_directMmap = lib_directMmap env, d_directMunmap = lib_directMunmap env,
      d_directMSync = lib_directMSync env, d_establish_mapping = lib_establish_mapping env,
      d_erase_mapping = lib_erase_mapping env, d_checkThreadSafety = lib_checkThreadSafety env\<rparr>"

text \<open>The destructors.\<close>

definition lib_delete :: "'f lib_env \<Rightarrow> 'f lib_driver \<Rightarrow> 'f lib_store \<Rightarrow> 'f lib_store" where
  "lib_delete env d s =
     (case d of
        DMemory o' \<Rightarrow> s\<lparr>mems := deleteMemoryDriver o' (mems s)\<rparr>
      | DFD o' \<Rightarrow> s\<lparr>outside := deleteFDDriver (env_posix env) o' (outside s)\<rparr>
      | DMmap o' \<Rightarrow> s\<lparr>outside := deleteMmapDriver (env_posix env) o' (outside s)\<rparr>
      | DC o' \<Rightarrow> s\<lparr>outside := deleteCDriver o' (outside s)\<rparr>
      | _ \<Rightarrow> s)"

definition lib_hasAutoclean :: "'f lib_driver \<Rightarrow> bool" where
  "lib_hasAutoclean d =
     (case d of
        DMemory o' \<Rightarrow> hasAutoclean o' | DDummy o' \<Rightarrow> hasAutoclean o' | DFD o' \<Rightarrow> hasAutoclean o'
      | DMmap o' \<Rightarrow> hasAutoclean o' | DC o' \<Rightarrow> hasAutoclean o' | DIoc o' \<Rightarrow> hasAutoclean o'
      | DClovis o' \<Rightarrow> hasAutoclean o')"

definition lib_setAutoclean :: "bool \<Rightarrow> 'f lib_driver \<Rightarrow> 'f lib_driver" where
  "lib_setAutoclean b d =
     (case d of
        DMemory o' \<Rightarrow> DMemory (setAutoclean b o') | DDummy o' \<Rightarrow> DDummy (setAutoclean b o')
      | DFD o' \<Rightarrow> DFD (setAutoclean b o') | DMmap o' \<Rightarrow> DMmap (setAutoclean b o')
      | DC o' \<Rightarrow> DC (setAutoclean b o') | DIoc o' \<Rightarrow> DIoc (setAutoclean b o')
      | DClovis o' \<Rightarrow> DClovis (setAutoclean b o'))"

definition lib_setUri :: "string \<Rightarrow> 'f lib_driver \<Rightarrow> 'f lib_driver" where
  "lib_setUri uri d =
     (case d of
        DMemory o' \<Rightarrow> DMemory (driver_setUri uri o') | DDummy o' \<Rightarrow> DDummy (driver_setUri uri o')
      | DFD o' \<Rightarrow> DFD (driver_setUri uri o') | DMmap o' \<Rightarrow> DMmap (driver_setUri uri o')
      | DC o' \<Rightarrow> DC (driver_setUri uri o') | DIoc o' \<Rightarrow> DIoc (driver_setUri uri o')
      | DClovis o' \<Rightarrow> DClovis (driver_setUri uri o'))"

section \<open>The contract of the storage drivers\<close>

text \<open>
  What is assumed of the outside world: a content for every file and every object, with
  which the system calls and the IOC client agree. Transfers may be cut short.
\<close>

record 'f world_content =
  wc_file :: "int \<Rightarrow> 'f \<Rightarrow> nat \<Rightarrow> byte"
  wc_object :: "int \<Rightarrow> int \<Rightarrow> 'f \<Rightarrow> nat \<Rightarrow> byte"

definition env_ok :: "'f lib_env \<Rightarrow> 'f world_content \<Rightarrow> bool" where
  "env_ok env wc \<longleftrightarrow> posix_ok (env_posix env) (wc_file wc) \<and> ioc_ok (env_ioc env) (wc_object wc)"

definition lib_content :: "'f world_content \<Rightarrow> 'f lib_driver \<Rightarrow> 'f lib_store \<Rightarrow> nat \<Rightarrow> byte" where
  "lib_content wc d s =
     (case d of
        DMemory o' \<Rightarrow> memory_content o' (mems s)
      | DFD o' \<Rightarrow> wc_file wc (fdd_fd o') (outside s)
      | DIoc o' \<Rightarrow> wc_object wc (ioc_high o') (ioc_low o') (outside s)
      | _ \<Rightarrow> (\<lambda>x. 0))"

text \<open>The drivers that keep what they are given.\<close>

fun soft_driver :: "'f lib_driver \<Rightarrow> bool" where
  "soft_driver (DMemory d) = True"
| "soft_driver (DFD d) = True"
| "soft_driver (DIoc d) = True"
| "soft_driver d = False"

text \<open>
  A contract of a driver class on its own storage is a contract of the dispatching table.
\<close>

lemma storage_calls_lift:
  assumes "storage_calls ops1 content1 ob"
    and rd: "\<And>ptr buf sz off s r buf' s'. d_pread ops d ptr buf sz off s = Inr (r, buf', s') \<Longrightarrow>
      d_pread ops1 ob ptr buf sz off (get s) = Inr (r, buf', get s')"
    and wr: "\<And>ptr buf sz off s r s'. d_pwrite ops d ptr buf sz off s = Inr (r, s') \<Longrightarrow>
      d_pwrite ops1 ob ptr buf sz off (get s) = Inr (r, get s')"
    and sy: "\<And>ptr off sz s v s' v'. d_sync ops d ptr off sz s v = Inr (s', v') \<Longrightarrow>
      d_sync ops1 ob ptr off sz (get s) v = Inr (get s', v')"
    and ms: "\<And>ptr sz off s v. d_directMSync ops d ptr sz off s v = Inr (False, s, v)"
    and mm: "\<And>ptr sz off prot fixed s v. d_directMmap ops d ptr sz off prot fixed s v = Inr (0, s, v)"
    and mu: "\<And>ptr sz off s v. d_directMunmap ops d ptr sz off s v = Inr (False, s, v)"
    and es: "\<And>off sz w s k s'. d_establish_mapping ops d off sz w s = Inr (k, s') \<Longrightarrow>
      d_establish_mapping ops1 ob off sz w (get s) = Inr (k, get s')"
    and er: "\<And>k off sz w s s'. d_erase_mapping ops d k off sz w s = Inr s' \<Longrightarrow>
      d_erase_mapping ops1 ob k off sz w (get s) = Inr (get s')"
    and ct: "\<And>s. content d s = content1 ob (get s)"
  shows "storage_calls ops content d"
proof -
  note c = storage_calls.pread_content [OF assms(1)] storage_calls.pread_bytes [OF assms(1)]
    storage_calls.pwrite_count [OF assms(1)] storage_calls.pwrite_part [OF assms(1)] storage_calls.sync_keeps [OF assms(1)]
    storage_calls.establish_keeps [OF assms(1)] storage_calls.erase_keeps [OF assms(1)]
  show ?thesis
    by unfold_locales (simp_all only: ct, (rule c ms mm mu; (rule rd wr sy es er)?; assumption)+)
qed

lemma lib_storage_calls:
  assumes ok: "env_ok env wc" and "soft_driver d"
  shows "storage_calls (lib_ops env) (lib_content wc) d"
proof (cases d)
  case (DMemory o1)
  show ?thesis
    by (rule storage_calls_lift [OF md.storage_calls_axioms [of o1], where get = mems])
      (auto simp: lib_ops_def lib_pread_def lib_pwrite_def lib_sync_def lib_directMSync_def
        lib_directMmap_def lib_directMunmap_def lib_establish_mapping_def lib_erase_mapping_def lib_plumbing memory_ops_def driver_defaults lib_content_def DMemory)
next
  case (DFD o1)
  have "posix_ok (env_posix env) (wc_file wc)"
    using ok by (simp add: env_ok_def)
  from fd_storage_calls [OF this] show ?thesis
    by (rule storage_calls_lift [where get = outside and ob = o1])
      (auto simp: lib_ops_def lib_pread_def lib_pwrite_def lib_sync_def lib_directMSync_def
        lib_directMmap_def lib_directMunmap_def lib_establish_mapping_def lib_erase_mapping_def lib_plumbing fd_ops_def driver_defaults lib_content_def DFD)
next
  case (DIoc o1)
  have "ioc_ok (env_ioc env) (wc_object wc)"
    using ok by (simp add: env_ok_def)
  from ioc_storage_calls [OF this] show ?thesis
    by (rule storage_calls_lift [where get = outside and ob = o1])
      (auto simp: lib_ops_def lib_pread_def lib_pwrite_def lib_sync_def lib_directMSync_def
        lib_directMmap_def lib_directMunmap_def lib_establish_mapping_def lib_erase_mapping_def lib_plumbing ioc_ops_def driver_defaults lib_content_def DIoc)
qed (use assms in simp_all)

text \<open>As long as no transfer is cut short the drivers keep what they are given.\<close>

lemmas lib_storage_driver = uncut_storage_driver [OF lib_storage_calls]

end
