(* ===== verification/MappingCore.thy ===== *)
theory MappingCore
  imports Driver
begin

text \<open>
  The class \<open>Mapping\<close> of \<open>src/core/Mapping.cpp\<close>: the segments of one memory mapping, the
  faults that load them and the flushes that write them back. The methods work on the
  mapping, the storage behind the drivers and the address space. \<open>ops\<close> is the method table
  of the drivers, \<open>d\<close> the driver object of the mapping and \<open>kmmap\<close> the placement of new
  memory by the kernel. The calls to the policies are in theory \<open>World\<close>.
\<close>

unbundle bit_operations_syntax

section \<open>State\<close>

record segment_status =
  mapped :: bool
  dirty :: bool
  needRead :: bool

record mapping =
  mp_driver :: addr
  localPolicy :: addr
  globalPolicy :: addr
  protection :: nat
  baseAddress :: addr
  segments :: size_t
  segmentSize :: size_t
  mp_size :: size_t
  storageOffset :: size_t
  segmentStatus :: "segment_status list"
  mappingDriverId :: int
  segmentMutexesCnt :: size_t
  threadSafe :: bool

definition has_flag :: "nat \<Rightarrow> nat \<Rightarrow> bool" where
  "has_flag flags flag \<longleftrightarrow> flags AND flag \<noteq> 0"

abbreviation (input) "PROT_READ \<equiv> 1 :: nat"
abbreviation (input) "PROT_WRITE \<equiv> 2 :: nat"
abbreviation (input) "PROT_EXEC \<equiv> 4 :: nat"
abbreviation (input) "UMMAP_NO_FIRST_READ \<equiv> 1 :: nat"
abbreviation (input) "UMMAP_THREAD_UNSAFE \<equiv> 2 :: nat"
abbreviation (input) "UMMAP_FIXED \<equiv> 4 :: nat"
abbreviation (input) "UMMAP_FLUSH_DEFAULT \<equiv> 0 :: nat"
abbreviation (input) "UMMAP_FLUSH_SYNC \<equiv> 1 :: nat"
abbreviation (input) "UMMAP_FLUSH_UNMAP \<equiv> 2 :: nat"
abbreviation (input) "UMMAP_FLUSH_NO_LOCK \<equiv> 4 :: nat"

abbreviation (input) exec_flag :: "mapping \<Rightarrow> bool" where
  "exec_flag m \<equiv> has_flag (protection m) PROT_EXEC"

section \<open>Accessors\<close>

definition getAddress :: "mapping \<Rightarrow> addr" where
  "getAddress m = baseAddress m"

definition getSize :: "mapping \<Rightarrow> size_t" where
  "getSize m = mp_size m"

definition getAlignedSize :: "mapping \<Rightarrow> size_t" where
  "getAlignedSize m = sz_mul (segmentSize m) (segments m)"

definition getSegmentSize :: "mapping \<Rightarrow> size_t" where
  "getSegmentSize m = segmentSize m"

definition getDriver :: "mapping \<Rightarrow> addr" where
  "getDriver m = mp_driver m"

definition getStorageOffset :: "mapping \<Rightarrow> size_t" where
  "getStorageOffset m = storageOffset m"

definition disableThreadSafety :: "mapping \<Rightarrow> mapping" where
  "disableThreadSafety m = m\<lparr>threadSafe := False\<rparr>"

definition getSegmentStatus :: "size_t \<Rightarrow> mapping \<Rightarrow> segment_status result" where
  "getSegmentStatus offset m =
     (if \<not> offset < getSize m then Inl (AssertFailure ''offset < this->getSize()'')
      else Inr (segmentStatus m ! (offset div segmentSize m)))"

definition skipFirstRead :: "mapping \<Rightarrow> mapping" where
  "skipFirstRead m = m\<lparr>segmentStatus := map (\<lambda>st. st\<lparr>needRead := False\<rparr>) (segmentStatus m)\<rparr>"

definition readWriteSize :: "size_t \<Rightarrow> mapping \<Rightarrow> size_t" where
  "readWriteSize offset m =
     (if sz_sub (mp_size m) offset \<ge> segmentSize m then segmentSize m
      else sz_sub (mp_size m) offset)"

text \<open>The mutexes that protect a range of segments, by index.\<close>

definition getMutexRange :: "size_t \<Rightarrow> size_t \<Rightarrow> mapping \<Rightarrow> bool list result" where
  "getMutexRange offset sz m =
     (if \<not> offset < getSize m then Inl (AssertFailure ''offset < this->getSize()'')
      else if \<not> offset mod segmentSize m = 0 then Inl (AssertFailure ''offset % this->segmentSize == 0'')
      else if \<not> sz_add offset sz \<le> getAlignedSize m then Inl (AssertFailure ''offset + size <= this->getAlignedSize()'')
      else if \<not> sz mod segmentSize m = 0 then Inl (AssertFailure ''size % this->segmentSize == 0'')
      else
        (let list = replicate (segmentMutexesCnt m) False;
             baseId = offset div segmentSize m;
             cnt = sz div segmentSize m
         in Inr (fold (\<lambda>id l. l[id mod segmentMutexesCnt m := True]) [baseId..<baseId + cnt] list)))"

section \<open>Construction and destruction\<close>

definition registerRange ::
  "('d, 's) driver_ops \<Rightarrow> 'd \<Rightarrow> mapping \<Rightarrow> 's \<Rightarrow> (mapping \<times> 's) result" where
  "registerRange ops d m s =
     bindE (d_establish_mapping ops d (storageOffset m) (mp_size m) (has_flag (protection m) PROT_WRITE) s)
       (\<lambda>(i, s'). if \<not> i \<ge> 0 then Inl (Fatal ''Faild to register range of the given mapping !'')
                  else Inr (m\<lparr>mappingDriverId := i\<rparr>, s'))"

definition unregisterRange ::
  "('d, 's) driver_ops \<Rightarrow> 'd \<Rightarrow> mapping \<Rightarrow> 's \<Rightarrow> (mapping \<times> 's) result" where
  "unregisterRange ops d m s =
     bindE (d_erase_mapping ops d (mappingDriverId m) (storageOffset m) (mp_size m)
              (has_flag (protection m) PROT_WRITE) s)
       (\<lambda>s'. Inr (m\<lparr>mappingDriverId := -1\<rparr>, s'))"

definition mapSize_of :: "size_t \<Rightarrow> size_t \<Rightarrow> size_t" where
  "mapSize_of sz segSz = (if sz mod segSz \<noteq> 0 then sz_add sz (segSz - sz mod segSz) else sz)"

text \<open>
  The constructor, without its calls to the policies: \<open>cpus\<close> is \<open>OS::cpuNumber()\<close>.
\<close>

definition newMapping_core ::
  "('d, 's) driver_ops \<Rightarrow> kernel_mmap \<Rightarrow> nat \<Rightarrow> 'd \<Rightarrow> addr \<Rightarrow> size_t \<Rightarrow> size_t \<Rightarrow> size_t \<Rightarrow> nat \<Rightarrow> nat
    \<Rightarrow> addr \<Rightarrow> addr \<Rightarrow> addr \<Rightarrow> 's \<Rightarrow> vm \<Rightarrow> (mapping \<times> 's \<times> vm) result" where
  "newMapping_core ops kmmap cpus d addr sz segSz offset prot flags driver lpol gpol s v =
     (if \<not> sz > 0 then Inl (Fatal ''Do not accept null size mapping'')
      else if \<not> segSz > 0 then Inl (Fatal ''Do not accept null segment size'')
      else if \<not> segSz mod UMMAP_PAGE_SIZE = 0 then Inl (Fatal ''Segment size should be multiple of page size'')
      else let mapSize = mapSize_of sz segSz in
      if \<not> mapSize mod UMMAP_PAGE_SIZE = 0 then Inl (Fatal ''Size should be multiple of page size'')
      else if \<not> mapSize mod segSz = 0 then Inl (Fatal ''Size should be multiple of segment size'')
      else
        let segs = mapSize div segSz;
            m0 = \<lparr>mp_driver = driver, localPolicy = lpol, globalPolicy = gpol, protection = prot,
                  baseAddress = 0, segments = segs, segmentSize = segSz, mp_size = sz,
                  storageOffset = offset,
                  segmentStatus = replicate segs \<lparr>mapped = False, dirty = False, needRead = True\<rparr>,
                  mappingDriverId = -1, segmentMutexesCnt = min (cpus * 4 + 1) segs,
                  threadSafe = True\<rparr>
        in bindE (registerRange ops d m0 s) (\<lambda>(m1, s1).
             let m2 = m1\<lparr>threadSafe := \<not> has_flag flags UMMAP_THREAD_UNSAFE\<rparr>;
                 mapFixed = has_flag flags UMMAP_FIXED
             in bindE (if threadSafe m2 then d_checkThreadSafety ops d s1 else Inr True) (\<lambda>ok.
                  if \<not> ok then Inl (Fatal ''Ask for mapping thread safety but the driver does not support it !'')
                  else bindE (d_directMmap ops d addr sz offset
                                (has_flag prot PROT_READ, has_flag prot PROT_WRITE, has_flag prot PROT_EXEC)
                                mapFixed s1 v) (\<lambda>(base, s2, v2).
                    bindE (if base = 0 then mmapProtNone kmmap addr mapSize mapFixed v2
                           else Inr (base, v2)) (\<lambda>(base', v3).
                      let m3 = m2\<lparr>baseAddress := base'\<rparr>
                      in Inr (if has_flag flags UMMAP_NO_FIRST_READ then skipFirstRead m3 else m3,
                              s2, v3))))))"

text \<open>The destructor up to the release of the policy storages.\<close>

definition deleteMapping_core ::
  "('d, 's) driver_ops \<Rightarrow> 'd \<Rightarrow> mapping \<Rightarrow> 's \<Rightarrow> vm \<Rightarrow> (mapping \<times> 's \<times> vm) result" where
  "deleteMapping_core ops d m s v =
     bindE (unregisterRange ops d m s) (\<lambda>(m1, s1).
       bindE (d_directMunmap ops d (baseAddress m1) (mp_size m1) (storageOffset m1) s1 v)
         (\<lambda>(done, s2, v2).
            bindE (if done then Inr v2 else munmap (baseAddress m1) (getAlignedSize m1) v2)
              (\<lambda>v3. Inr (m1, s2, v3))))"

text \<open>
  Before the old pages are replaced the code calls \<open>msync\<close> on them and does not look at its result.
  It moves no byte of the address space and is left out.
\<close>

definition directMmapCow ::
  "('d, 's) driver_ops \<Rightarrow> 'd \<Rightarrow> mapping \<Rightarrow> 's \<Rightarrow> vm \<Rightarrow> ('s \<times> vm) result" where
  "directMmapCow ops newDriver m s v =
     bindE (d_directMmap ops newDriver (baseAddress m) (mp_size m) (storageOffset m)
              (has_flag (protection m) PROT_READ, has_flag (protection m) PROT_WRITE, exec_flag m)
              False s v)
       (\<lambda>(newAddr, s1, v1).
          if \<not> newAddr \<noteq> 0
          then Inl (Fatal ''Try to call directMmapCow() on a driver not supporting direct mmap !'')
          else bindE (mremapForced newAddr (mp_size m) (baseAddress m)
                        (store_buf newAddr (mp_size m) (load_buf (baseAddress m) v1) v1))
                 (\<lambda>v2. Inr (s1, v2)))"

section \<open>Faults\<close>

definition loadAndSwapSegment ::
  "('d, 's) driver_ops \<Rightarrow> kernel_mmap \<Rightarrow> 'd \<Rightarrow> size_t \<Rightarrow> bool \<Rightarrow> mapping \<Rightarrow> 's \<Rightarrow> vm
    \<Rightarrow> ('s \<times> vm) result" where
  "loadAndSwapSegment ops kmmap d offset writeAccess m s v =
     bindE (if threadSafe m then mmapProtFull kmmap (segmentSize m) (exec_flag m) v
            else bindE (mprotect (baseAddress m + offset) (segmentSize m) True True (exec_flag m) v)
                   (\<lambda>v'. Inr (baseAddress m + offset, v')))
       (\<lambda>(ptr, v1).
          bindE (d_pread ops d ptr (load_buf ptr v1) (readWriteSize offset m)
                   (sz_add (storageOffset m) offset) s)
            (\<lambda>(res, buf, s1).
               if \<not> res \<ge> 0 then Inl (Fatal ''Fail to read all data'')
               else let v2 = store_buf ptr (readWriteSize offset m) buf v1
                    in bindE (if \<not> writeAccess
                              then mprotect ptr (segmentSize m) True False (exec_flag m) v2
                              else Inr v2)
                         (\<lambda>v3. bindE (if threadSafe m
                                       then mremapForced ptr (segmentSize m) (baseAddress m + offset) v3
                                       else Inr v3)
                                  (\<lambda>v4. Inr (s1, v4)))))"

definition set_status :: "nat \<Rightarrow> segment_status \<Rightarrow> mapping \<Rightarrow> mapping" where
  "set_status i st m = m\<lparr>segmentStatus := (segmentStatus m)[i := st]\<rparr>"

text \<open>
  The handler of a fault up to the notification of the policies. The last component is
  \<open>None\<close> when the access is already possible and the handler returns early, and otherwise
  the segment and its status before the fault, which the policies are told.
\<close>

definition onSegmentationFault_cs ::
  "('d, 's) driver_ops \<Rightarrow> kernel_mmap \<Rightarrow> 'd \<Rightarrow> addr \<Rightarrow> bool \<Rightarrow> mapping \<Rightarrow> 's \<Rightarrow> vm
    \<Rightarrow> (mapping \<times> 's \<times> vm \<times> (size_t \<times> segment_status) option) result" where
  "onSegmentationFault_cs ops kmmap d address isWrite m s v =
     (if \<not> (address \<ge> baseAddress m \<and> address < baseAddress m + segments m * segmentSize m)
      then Inl (Fatal ''Invalid address, not fit into the current segment !'')
      else
        let segmentId = (address - baseAddress m) div segmentSize m;
            offset = sz_mul (segmentSize m) segmentId;
            segmentBase = baseAddress m + offset
        in if protection m = 0 then Inl (Fatal ''Try to access a segment which is PROT_NONE'')
        else if isWrite \<and> \<not> has_flag (protection m) PROT_WRITE
        then Inl (Fatal ''Try to write access a segment which is not writable'')
        else let status = segmentStatus m ! segmentId
        in if isWrite = dirty status \<and> mapped status then Inr (m, s, v, None)
        else bindE
          (if \<not> mapped status \<and> needRead status
           then bindE (loadAndSwapSegment ops kmmap d offset isWrite m s v)
                  (\<lambda>(s1, v1). Inr (if isWrite then status\<lparr>dirty := True\<rparr> else status, s1, v1))
           else if isWrite
           then bindE (mprotect segmentBase (segmentSize m) True True (exec_flag m) v)
                  (\<lambda>v1. Inr (status\<lparr>dirty := True\<rparr>, s, v1))
           else bindE (mprotect segmentBase (segmentSize m) True False (exec_flag m) v)
                  (\<lambda>v1. Inr (status, s, v1)))
          (\<lambda>(st, s1, v1).
             Inr (set_status segmentId (st\<lparr>mapped := True\<rparr>) m, s1, v1, Some (segmentId, status))))"

section \<open>Flush, eviction and loss of clean segments\<close>

definition flush_segment ::
  "('d, 's) driver_ops \<Rightarrow> 'd \<Rightarrow> bool \<Rightarrow> size_t \<Rightarrow> mapping \<times> 's \<times> vm \<Rightarrow> (mapping \<times> 's \<times> vm) result" where
  "flush_segment ops d unmap curOffset = (\<lambda>(m, s, v).
     let id = curOffset div segmentSize m;
         status = segmentStatus m ! id;
         segmentPtr = baseAddress m + curOffset
     in bindE
          (if dirty status \<and> mapped status
           then bindE (if threadSafe m
                       then mprotect segmentPtr (segmentSize m) True (\<not> threadSafe m) (exec_flag m) v
                       else Inr v)
                  (\<lambda>v1. bindE (d_pwrite ops d segmentPtr (load_buf segmentPtr v1)
                                 (readWriteSize curOffset m) (sz_add (storageOffset m) curOffset) s)
                     (\<lambda>(res, s1).
                        if \<not> res \<noteq> -1 then Inl (Fatal ''Fail to pwrite'')
                        else if \<not> res \<ge> 0 then Inl (Fatal ''Fail to fully write the segment'')
                        else Inr (status\<lparr>dirty := False, needRead := True\<rparr>, s1, v1)))
           else Inr (status, s, v))
          (\<lambda>(st, s1, v1).
             if mapped st
             then if unmap
                  then bindE (mprotect segmentPtr (segmentSize m) False False (exec_flag m) v1)
                         (\<lambda>v2. Inr (set_status id (st\<lparr>mapped := False\<rparr>) m, s1,
                                    madviseDontNeed segmentPtr (segmentSize m) v2))
                  else if \<not> threadSafe m
                  then bindE (mprotect segmentPtr (segmentSize m) True False (exec_flag m) v1)
                         (\<lambda>v2. Inr (set_status id st m, s1, v2))
                  else Inr (set_status id st m, s1, v1)
             else Inr (set_status id st m, s1, v1)))"

definition flush ::
  "('d, 's) driver_ops \<Rightarrow> 'd \<Rightarrow> size_t \<Rightarrow> size_t \<Rightarrow> nat \<Rightarrow> mapping \<Rightarrow> 's \<Rightarrow> vm
    \<Rightarrow> (mapping \<times> 's \<times> vm) result" where
  "flush ops d offset sz flags m s v =
     (if \<not> offset < getSize m then Inl (Fatal ''Offset is not in valid range !'')
      else if \<not> sz_add offset sz \<le> getAlignedSize m then Inl (Fatal ''Offset + size is not in valid range !'')
      else if \<not> offset mod segmentSize m = 0 then Inl (Fatal ''Should get offset multiple of segment size !'')
      else if \<not> sz mod segmentSize m = 0 then Inl (Fatal ''Should get size multiple of segment size !'')
      else
        let sync = has_flag flags UMMAP_FLUSH_SYNC;
            unmap = has_flag flags UMMAP_FLUSH_UNMAP
        in bindE (d_directMSync ops d (getAddress m + offset) sz (storageOffset m) s v)
             (\<lambda>(res, s1, v1).
                if res then Inr (m, s1, v1)
                else bindE (getMutexRange offset sz m) (\<lambda>toLock.
                  bindE (foldE (flush_segment ops d unmap)
                           (for_range offset (sz_add offset sz) (segmentSize m)) (m, s1, v1))
                    (\<lambda>(m2, s2, v2).
                       if sync
                       then bindE (d_sync ops d (getAddress m) offset sz s2 v2)
                              (\<lambda>(s3, v3). Inr (m2, s3, v3))
                       else Inr (m2, s2, v2)))))"

text \<open>The overload of \<open>flush\<close> for the whole mapping.\<close>

definition flush_all ::
  "('d, 's) driver_ops \<Rightarrow> 'd \<Rightarrow> bool \<Rightarrow> mapping \<Rightarrow> 's \<Rightarrow> vm \<Rightarrow> (mapping \<times> 's \<times> vm) result" where
  "flush_all ops d sync m s v =
     flush ops d 0 (getSize m) (if sync then UMMAP_FLUSH_DEFAULT OR UMMAP_FLUSH_SYNC else UMMAP_FLUSH_DEFAULT) m s v"

text \<open>The flush at the end of \<open>evict\<close>.\<close>

definition evict_flush ::
  "('d, 's) driver_ops \<Rightarrow> 'd \<Rightarrow> size_t \<Rightarrow> mapping \<Rightarrow> 's \<Rightarrow> vm \<Rightarrow> (mapping \<times> 's \<times> vm) result" where
  "evict_flush ops d segmentId m s v =
     flush ops d (sz_mul segmentId (segmentSize m)) (segmentSize m)
       (UMMAP_FLUSH_UNMAP OR UMMAP_FLUSH_NO_LOCK) m s v"

definition dropClean_segment :: "nat \<Rightarrow> mapping \<times> vm \<Rightarrow> (mapping \<times> vm) result" where
  "dropClean_segment i = (\<lambda>(m, v).
     let status = segmentStatus m ! i; addr = baseAddress m + sz_mul (segmentSize m) i
     in if mapped status \<and> \<not> dirty status
        then bindE (mprotect addr (segmentSize m) False False (exec_flag m) v)
               (\<lambda>v1. Inr (set_status i (status\<lparr>mapped := False\<rparr>) m,
                          madviseDontNeed addr (segmentSize m) v1))
        else Inr (m, v))"

definition dropClean :: "mapping \<Rightarrow> vm \<Rightarrow> (mapping \<times> vm) result" where
  "dropClean m v = foldE dropClean_segment [0..<segments m] (m, v)"

definition markCleanAsDirty_segment :: "nat \<Rightarrow> mapping \<times> vm \<Rightarrow> (mapping \<times> vm) result" where
  "markCleanAsDirty_segment i = (\<lambda>(m, v).
     let status = segmentStatus m ! i; addr = baseAddress m + sz_mul (segmentSize m) i
     in if mapped status \<and> \<not> dirty status \<and> has_flag (protection m) PROT_WRITE
        then bindE (mprotect addr (segmentSize m) True True (exec_flag m) v)
               (\<lambda>v1. Inr (set_status i (status\<lparr>dirty := True\<rparr>) m, v1))
        else Inr (m, v))"

definition markCleanAsDirty :: "mapping \<Rightarrow> vm \<Rightarrow> (mapping \<times> vm) result" where
  "markCleanAsDirty m v = foldE markCleanAsDirty_segment [0..<segments m] (m, v)"

section \<open>Copy to another driver\<close>

text \<open>The buffer of the copies is a fresh allocation: \<open>bufPtr\<close> is its address.\<close>

definition copyMappedPart_segment ::
  "('d, 's) driver_ops \<Rightarrow> 'd \<Rightarrow> 'd \<Rightarrow> mapping \<Rightarrow> vm \<Rightarrow> addr \<Rightarrow> size_t \<Rightarrow> size_t
    \<Rightarrow> buffer \<times> 's \<Rightarrow> (buffer \<times> 's) result" where
  "copyMappedPart_segment ops d newDriver m v bufPtr sizeToDump i = (\<lambda>(buf, s).
     let mappingEnd = sz_add (getStorageOffset m) (getSize m);
         c1 = (if sz_add i (segmentSize m) > sizeToDump then sz_sub sizeToDump i else segmentSize m);
         copySize = (if sz_add (sz_add (getStorageOffset m) i) c1 > mappingEnd
                     then sz_sub (sz_sub mappingEnd (getStorageOffset m)) i else c1);
         curStatus = segmentStatus m ! (i div segmentSize m);
         offset = sz_add (storageOffset m) i
     in if mapped curStatus \<and> \<not> dirty curStatus
        then let addr = baseAddress m + i
             in bindE (d_pwrite ops newDriver addr (load_buf addr v) copySize offset s) (\<lambda>(status, s1).
                  if \<not> status = ssize copySize
                  then Inl (Fatal ''Failed to write data from the target driver !'')
                  else Inr (buf, s1))
        else bindE (d_pread ops d bufPtr buf copySize offset s) (\<lambda>(status, buf1, s1).
               if \<not> status = ssize copySize
               then Inl (Fatal ''Failed to read data from the original driver !'')
               else bindE (d_pwrite ops newDriver bufPtr buf1 copySize offset s1) (\<lambda>(status2, s2).
                      if \<not> status2 = ssize copySize
                      then Inl (Fatal ''Failed to write data from the target driver !'')
                      else Inr (buf1, s2))))"

definition copyMappedPart ::
  "('d, 's) driver_ops \<Rightarrow> 'd \<Rightarrow> 'd \<Rightarrow> mapping \<Rightarrow> vm \<Rightarrow> addr \<Rightarrow> buffer \<Rightarrow> size_t \<Rightarrow> 's \<Rightarrow> 's result" where
  "copyMappedPart ops d newDriver m v bufPtr buf storageSize s =
     (let sizeToDump = (if mp_size m > storageSize then storageSize else mp_size m)
      in bindE (foldE (copyMappedPart_segment ops d newDriver m v bufPtr sizeToDump)
                  (for_range 0 sizeToDump (segmentSize m)) (buf, s))
           (\<lambda>(_, s'). Inr s'))"

definition copyExtra_segment ::
  "('d, 's) driver_ops \<Rightarrow> 'd \<Rightarrow> 'd \<Rightarrow> mapping \<Rightarrow> addr \<Rightarrow> size_t \<Rightarrow> size_t \<Rightarrow> size_t
    \<Rightarrow> buffer \<times> 's \<Rightarrow> (buffer \<times> 's) result" where
  "copyExtra_segment ops d newDriver m bufPtr offset sz i = (\<lambda>(buf, s).
     let copySize = (if sz_add i (segmentSize m) > sz then sz_sub sz i else segmentSize m)
     in bindE (d_pread ops d bufPtr buf copySize (sz_add offset i) s) (\<lambda>(status, buf1, s1).
          if \<not> status = ssize copySize
          then Inl (Fatal ''Failed to read data from the original driver !'')
          else bindE (d_pwrite ops newDriver bufPtr buf1 copySize (sz_add offset i) s1) (\<lambda>(status2, s2).
                 if \<not> status2 = ssize copySize
                 then Inl (Fatal ''Failed to write data from the target driver !'')
                 else Inr (buf1, s2))))"

definition copyExtraNotMappedPart ::
  "('d, 's) driver_ops \<Rightarrow> 'd \<Rightarrow> 'd \<Rightarrow> mapping \<Rightarrow> addr \<Rightarrow> buffer \<Rightarrow> size_t \<Rightarrow> size_t \<Rightarrow> 's
    \<Rightarrow> 's result" where
  "copyExtraNotMappedPart ops d newDriver m bufPtr buf offset sz s =
     bindE (foldE (copyExtra_segment ops d newDriver m bufPtr offset sz)
              (for_range 0 sz (segmentSize m)) (buf, s))
       (\<lambda>(_, s'). Inr s')"

definition copyToDriver ::
  "('d, 's) driver_ops \<Rightarrow> 'd \<Rightarrow> 'd option \<Rightarrow> mapping \<Rightarrow> vm \<Rightarrow> addr \<Rightarrow> buffer \<Rightarrow> size_t \<Rightarrow> 's
    \<Rightarrow> 's result" where
  "copyToDriver ops d newDriver m v bufPtr buf storageSize s =
     (case newDriver of
        None \<Rightarrow> Inl (Fatal ''Got invalid NULL driver !'')
      | Some d' \<Rightarrow>
          if \<not> storageSize \<ge> storageOffset m
          then Inl (Fatal ''Try to copy and change driver with a size which is smaller than the mapping size !'')
          else copyMappedPart ops d d' m v bufPtr buf (sz_sub storageSize (storageOffset m)) s)"

definition getPolicyMaxMemory :: "size_t option \<Rightarrow> size_t option \<Rightarrow> size_t" where
  "getPolicyMaxMemory localMax globalMax =
     (let max0 = SIZE_MAX;
          max1 = (case localMax of Some policyMax \<Rightarrow> if policyMax < max0 then policyMax else max0
                  | None \<Rightarrow> max0)
      in case globalMax of Some policyMax \<Rightarrow> if policyMax < max1 then policyMax else max1
         | None \<Rightarrow> max1)"

end
