(* ===== verification/MappingView.thy ===== *)
theory MappingView
  imports MappingCore
begin

text \<open>
  The correctness of theory \<open>MappingCore\<close>. A mapping presents the object behind its driver
  as an array of bytes, its \<open>view\<close>: the memory of the segments that are loaded, the storage
  for those that are not. The invariant \<open>mapping_ok\<close> ties the status of every segment to
  the protection and the bytes of its pages. Faults, flushes, evictions and drops keep the
  invariant and the view; only the stores of the program change the view.
\<close>

section \<open>Frames of the address space\<close>

text \<open>An operation with frame \<open>S\<close> leaves the mapped memory outside \<open>S\<close> alone.\<close>

definition frame :: "addr set \<Rightarrow> vm \<Rightarrow> vm \<Rightarrow> bool" where
  "frame S v v' \<longleftrightarrow>
     (\<forall>a. a \<notin> S \<longrightarrow> prot_at v a \<noteq> None \<longrightarrow> vmem v' a = vmem v a \<and> prot_at v' a = prot_at v a)"

lemma frame_refl [simp, intro]: "frame S v v"
  by (simp add: frame_def)

lemma frame_trans: "frame S v v1 \<Longrightarrow> frame S v1 v2 \<Longrightarrow> frame S v v2"
  by (simp add: frame_def)

lemma frame_mono: "frame S v v' \<Longrightarrow> S \<subseteq> T \<Longrightarrow> frame T v v'"
  by (auto simp: frame_def)

definition range_set :: "addr \<Rightarrow> size_t \<Rightarrow> addr set" where
  "range_set base sz = {a. in_range base sz a}"

lemma in_range_set [simp]: "a \<in> range_set base sz \<longleftrightarrow> in_range base sz a"
  by (simp add: range_set_def)

lemma frame_mprotect:
  "aligned b \<Longrightarrow> aligned s \<Longrightarrow> frame (range_set b s) v (sys_mprotect b s p v)"
  by (simp add: frame_def prot_at_mprotect)

lemma frame_madvise: "frame (range_set b s) v (madviseDontNeed b s v)"
  by (simp add: frame_def)

lemma frame_store_buf: "sz \<le> s \<Longrightarrow> frame (range_set b s) v (store_buf b sz buf v)"
  by (auto simp: frame_def in_range_def)

text \<open>What the kernel promises of the address it chooses: it is aligned and free.\<close>

definition kmmap_ok :: "kernel_mmap \<Rightarrow> bool" where
  "kmmap_ok kmmap \<longleftrightarrow>
     (\<forall>v hint sz p. kmmap v hint sz = Some p \<longrightarrow> aligned sz \<longrightarrow>
        p \<noteq> 0 \<and> aligned p \<and> (\<forall>a. in_range p sz a \<longrightarrow> prot_at v a = None))"

section \<open>Geometry of the segments\<close>

definition shape :: "mapping \<Rightarrow> bool" where
  "shape m \<longleftrightarrow>
     segmentSize m > 0 \<and> aligned (segmentSize m) \<and> aligned (baseAddress m) \<and> baseAddress m \<noteq> 0 \<and>
     segments m > 0 \<and> length (segmentStatus m) = segments m \<and>
     (segments m - 1) * segmentSize m < mp_size m \<and> mp_size m \<le> segments m * segmentSize m \<and>
     storageOffset m + segments m * segmentSize m < W64"

definition seg_addrs :: "mapping \<Rightarrow> nat \<Rightarrow> addr set" where
  "seg_addrs m i = range_set (baseAddress m + i * segmentSize m) (segmentSize m)"

lemma in_range_segment [simp]:
  "0 < sg \<Longrightarrow> in_range (base + i * sg) sg (base + x) \<longleftrightarrow> x div sg = i"
  using dividend_less_div_times [of sg x] by (auto simp: in_range_def div_nat_eqI mult.commute add.commute)

lemma segment_bounds:
  fixes x sg :: nat
  assumes "0 < sg" and "x div sg = i"
  shows "i * sg \<le> x" and "x - i * sg < sg"
proof -
  have x: "x = i * sg + x mod sg"
    using assms(2) by (metis div_mult_mod_eq)
  then show "i * sg \<le> x"
    by linarith
  from x have "x - i * sg = x mod sg"
    by linarith
  with assms(1) show "x - i * sg < sg"
    by simp
qed

lemma in_seg_addrs [simp]: "shape m \<Longrightarrow> baseAddress m + x \<in> seg_addrs m i \<longleftrightarrow> x div segmentSize m = i"
  by (simp add: seg_addrs_def shape_def)

lemma aligned_segment: "shape m \<Longrightarrow> aligned (baseAddress m + i * segmentSize m)"
  by (auto simp: shape_def)

lemma segment_offset:
  assumes "shape m" and "i < segments m"
  shows "i * segmentSize m < mp_size m" and "i * segmentSize m < W64"
    and "storageOffset m + i * segmentSize m < W64"
    and "i * segmentSize m + segmentSize m \<le> segments m * segmentSize m"
proof -
  have le: "i * segmentSize m \<le> (segments m - 1) * segmentSize m"
    using assms(2) by (intro mult_right_mono) auto
  have sz: "(segments m - 1) * segmentSize m < mp_size m" "mp_size m \<le> segments m * segmentSize m"
      "storageOffset m + segments m * segmentSize m < W64"
    using assms(1) unfolding shape_def by blast+
  show "i * segmentSize m < mp_size m"
    using le sz(1) by (rule le_less_trans)
  with sz(2,3) show "i * segmentSize m < W64" and "storageOffset m + i * segmentSize m < W64"
    by linarith+
  have "Suc i * segmentSize m \<le> segments m * segmentSize m"
    using assms by (intro mult_right_mono) auto
  then show "i * segmentSize m + segmentSize m \<le> segments m * segmentSize m"
    by simp
qed

lemma readWriteSize_segment:
  assumes "shape m" and "i < segments m"
  shows "readWriteSize (i * segmentSize m) m = min (segmentSize m) (mp_size m - i * segmentSize m)"
proof -
  have "mp_size m < W64"
    using assms by (auto simp: shape_def)
  then have "sz_sub (mp_size m) (i * segmentSize m) = mp_size m - i * segmentSize m"
    using segment_offset(1) [OF assms] by (intro sz_sub_exact) auto
  then show ?thesis by (simp add: readWriteSize_def)
qed

text \<open>The bytes read or written for a segment are those below the size of the mapping.\<close>

lemma readWriteSize_range:
  assumes "shape m" and "i < segments m"
  shows "i * segmentSize m \<le> x \<and> x < i * segmentSize m + readWriteSize (i * segmentSize m) m \<longleftrightarrow>
    x div segmentSize m = i \<and> x < mp_size m"
  using in_range_segment [of "segmentSize m" 0 i x] assms segment_offset(1) [OF assms]
  by (auto simp: readWriteSize_segment [OF assms] in_range_def shape_def)

lemma mprotect_segment [simp]:
  assumes "shape m"
  shows "mprotect (baseAddress m + i * segmentSize m) (segmentSize m) r w e v =
    Inr (sys_mprotect (baseAddress m + i * segmentSize m) (segmentSize m) (r, w, e) v)"
  using assms aligned_segment [OF assms, of i] by (simp add: mprotect_def shape_def)

lemma prot_at_segment:
  assumes "shape m"
  shows "prot_at (sys_mprotect (baseAddress m + i * segmentSize m) (segmentSize m) p v) (baseAddress m + x) =
    (if x div segmentSize m = i \<and> prot_at v (baseAddress m + x) \<noteq> None then Some p
     else prot_at v (baseAddress m + x))"
  using assms aligned_segment [OF assms, of i]
  by (simp add: prot_at_mprotect shape_def)

lemma frame_mprotect_segment:
  "shape m \<Longrightarrow> frame (seg_addrs m i) v
     (sys_mprotect (baseAddress m + i * segmentSize m) (segmentSize m) p v)"
  unfolding seg_addrs_def by (rule frame_mprotect) (simp_all add: aligned_segment shape_def)

section \<open>View and invariant\<close>

text \<open>
  \<open>cont x\<close> is the byte of the storage behind the byte \<open>x\<close> of the mapping.
\<close>

definition view :: "(nat \<Rightarrow> byte) \<Rightarrow> mapping \<Rightarrow> vm \<Rightarrow> nat \<Rightarrow> byte" where
  "view cont m v x =
     (let st = segmentStatus m ! (x div segmentSize m)
      in if mapped st then vmem v (baseAddress m + x) else if needRead st then cont x else 0)"

definition byte_ok :: "(nat \<Rightarrow> byte) \<Rightarrow> mapping \<Rightarrow> vm \<Rightarrow> segment_status \<Rightarrow> nat \<Rightarrow> bool" where
  "byte_ok cont m v st x \<longleftrightarrow>
     (\<exists>w e. prot_at v (baseAddress m + x) = Some (mapped st, w, e) \<and> (w \<longrightarrow> dirty st)) \<and>
     (\<not> mapped st \<longrightarrow> vmem v (baseAddress m + x) = 0) \<and>
     (mapped st \<and> \<not> dirty st \<and> x < mp_size m \<longrightarrow>
        vmem v (baseAddress m + x) = (if needRead st then cont x else 0))"

definition seg_ok :: "(nat \<Rightarrow> byte) \<Rightarrow> mapping \<Rightarrow> vm \<Rightarrow> nat \<Rightarrow> bool" where
  "seg_ok cont m v i \<longleftrightarrow>
     (dirty (segmentStatus m ! i) \<longrightarrow> mapped (segmentStatus m ! i)) \<and>
     (\<forall>x. x div segmentSize m = i \<longrightarrow> byte_ok cont m v (segmentStatus m ! i) x)"

definition mapping_ok :: "(nat \<Rightarrow> byte) \<Rightarrow> mapping \<Rightarrow> vm \<Rightarrow> bool" where
  "mapping_ok cont m v \<longleftrightarrow> shape m \<and> (\<forall>i < segments m. seg_ok cont m v i)"

lemma mapping_okD:
  assumes "mapping_ok cont m v"
  shows "shape m" and "i < segments m \<Longrightarrow> seg_ok cont m v i"
  using assms by (simp_all add: mapping_ok_def)

lemma seg_okD:
  assumes "seg_ok cont m v i"
  shows "dirty (segmentStatus m ! i) \<Longrightarrow> mapped (segmentStatus m ! i)"
    and "x div segmentSize m = i \<Longrightarrow> byte_ok cont m v (segmentStatus m ! i) x"
  using assms by (simp_all add: seg_ok_def)

lemma byte_ok_mapped: "byte_ok cont m v st x \<Longrightarrow> prot_at v (baseAddress m + x) \<noteq> None"
  by (auto simp: byte_ok_def)

lemma set_status_simps [simp]:
  "mp_driver (set_status i st m) = mp_driver m"
  "localPolicy (set_status i st m) = localPolicy m"
  "globalPolicy (set_status i st m) = globalPolicy m"
  "protection (set_status i st m) = protection m"
  "baseAddress (set_status i st m) = baseAddress m"
  "segments (set_status i st m) = segments m"
  "segmentSize (set_status i st m) = segmentSize m"
  "mp_size (set_status i st m) = mp_size m"
  "storageOffset (set_status i st m) = storageOffset m"
  "segmentStatus (set_status i st m) = (segmentStatus m)[i := st]"
  "threadSafe (set_status i st m) = threadSafe m"
  "segmentMutexesCnt (set_status i st m) = segmentMutexesCnt m"
  by (simp_all add: set_status_def)

lemma shape_set_status [simp]: "shape (set_status i st m) \<longleftrightarrow> shape m"
  by (simp add: shape_def)

text \<open>
  A step that works on segment \<open>i\<close> keeps the invariant when it restores it on that
  segment, and the view when it keeps the bytes of that segment.
\<close>

lemma mapping_ok_step:
  assumes ok: "mapping_ok cont m v" and fr: "frame (seg_addrs m i) v v'" and i: "i < segments m"
    and cont: "\<And>x. x < mp_size m \<Longrightarrow> x div segmentSize m \<noteq> i \<Longrightarrow> cont' x = cont x"
    and st: "dirty st \<longrightarrow> mapped st"
    and new: "\<And>x. x div segmentSize m = i \<Longrightarrow> byte_ok cont' m v' st x"
  shows "mapping_ok cont' (set_status i st m) v'"
proof -
  have sh: "shape m" and len: "length (segmentStatus m) = segments m"
    using ok by (simp_all add: mapping_ok_def shape_def)
  have "seg_ok cont' (set_status i st m) v' j" if j: "j < segments m" for j
  proof (cases "j = i")
    case True
    with new st i len show ?thesis by (simp add: seg_ok_def byte_ok_def)
  next
    case False
    note so = mapping_okD(2) [OF ok j]
    have "byte_ok cont' m v' (segmentStatus m ! j) x" if x: "x div segmentSize m = j" for x
    proof -
      note b = seg_okD(2) [OF so x]
      have "vmem v' (baseAddress m + x) = vmem v (baseAddress m + x) \<and>
          prot_at v' (baseAddress m + x) = prot_at v (baseAddress m + x)"
        using fr byte_ok_mapped [OF b] False x sh by (simp add: frame_def)
      with b cont [of x] False x show ?thesis by (simp add: byte_ok_def)
    qed
    with so False show ?thesis by (simp add: seg_ok_def byte_ok_def)
  qed
  with sh show ?thesis by (simp add: mapping_ok_def)
qed

lemma view_step:
  assumes ok: "mapping_ok cont m v" and fr: "frame (seg_addrs m i) v v'" and i: "i < segments m"
    and cont: "\<And>x. x < mp_size m \<Longrightarrow> x div segmentSize m \<noteq> i \<Longrightarrow> cont' x = cont x"
    and same: "\<And>x. x < mp_size m \<Longrightarrow> x div segmentSize m = i \<Longrightarrow>
      (if mapped st then vmem v' (baseAddress m + x) else if needRead st then cont' x else 0) =
      view cont m v x"
    and x: "x < mp_size m"
  shows "view cont' (set_status i st m) v' x = view cont m v x"
proof (cases "x div segmentSize m = i")
  case True
  have "length (segmentStatus m) = segments m"
    using ok by (simp add: mapping_ok_def shape_def)
  with True i have "view cont' (set_status i st m) v' x =
      (if mapped st then vmem v' (baseAddress m + x) else if needRead st then cont' x else 0)"
    by (simp add: view_def Let_def)
  with same [OF x True] show ?thesis by simp
next
  case False
  have sh: "shape m"
    using ok by (rule mapping_okD)
  have "x < segments m * segmentSize m"
    using sh x by (simp add: shape_def)
  then have "x div segmentSize m < segments m"
    by (rule less_mult_imp_div_less)
  from seg_okD(2) [OF mapping_okD(2) [OF ok this]]
  have "prot_at v (baseAddress m + x) \<noteq> None"
    by (intro byte_ok_mapped) blast
  with fr False sh have "vmem v' (baseAddress m + x) = vmem v (baseAddress m + x)"
    by (simp add: frame_def)
  with cont [OF x False] False show ?thesis by (simp add: view_def Let_def)
qed

section \<open>Loading a segment\<close>

definition backing ::
  "('d \<Rightarrow> 's \<Rightarrow> nat \<Rightarrow> byte) \<Rightarrow> 'd \<Rightarrow> 's \<Rightarrow> mapping \<Rightarrow> nat \<Rightarrow> byte" where
  "backing content d s m x = content d s (storageOffset m + x)"

lemma backing_status [simp]: "backing content d s (m\<lparr>segmentStatus := sts\<rparr>) = backing content d s m"
  by (simp add: fun_eq_iff backing_def)

lemma backing_set_status [simp]: "backing content d s (set_status i st m) = backing content d s m"
  by (simp add: fun_eq_iff backing_def)

text \<open>The memory and the protection of segment \<open>i\<close> once it is loaded.\<close>

definition loaded :: "(nat \<Rightarrow> byte) \<Rightarrow> mapping \<Rightarrow> nat \<Rightarrow> bool \<Rightarrow> vm \<Rightarrow> bool" where
  "loaded cont m i w v \<longleftrightarrow>
     (\<forall>x. x div segmentSize m = i \<longrightarrow>
        vmem v (baseAddress m + x) = (if x < mp_size m then cont x else 0) \<and>
        prot_at v (baseAddress m + x) = Some (True, w, exec_flag m))"

lemma free_not_segment:
  assumes "mapping_ok cont m v" and "i < segments m" and "kmmap_ok kmmap"
    and "kmmap v hint (segmentSize m) = Some p" and "x div segmentSize m = i"
  shows "\<not> in_range p (segmentSize m) (baseAddress m + x)"
proof
  assume "in_range p (segmentSize m) (baseAddress m + x)"
  moreover have "aligned (segmentSize m)"
    using assms(1) by (simp add: mapping_ok_def shape_def)
  ultimately have "prot_at v (baseAddress m + x) = None"
    using assms(3,4) by (simp add: kmmap_ok_def)
  with seg_okD(2) [OF mapping_okD(2) [OF assms(1,2)] assms(5)] show False
    by (simp add: byte_ok_def)
qed

text \<open>The status of a segment after a fault that made it accessible.\<close>

definition opened :: "bool \<Rightarrow> segment_status \<Rightarrow> segment_status" where
  "opened w st = (if w then st\<lparr>dirty := True\<rparr> else st)\<lparr>mapped := True\<rparr>"

lemma opened_simps [simp]:
  "mapped (opened w st)" "dirty (opened w st) \<longleftrightarrow> w \<or> dirty st" "needRead (opened w st) = needRead st"
  by (simp_all add: opened_def)

text \<open>
  What a step that works on the segments \<open>I\<close> guarantees: it leaves all other memory and
  status alone, keeps the invariant and keeps the view.
\<close>

definition segment_step ::
  "('d \<Rightarrow> 's \<Rightarrow> nat \<Rightarrow> byte) \<Rightarrow> nat set \<Rightarrow> 'd \<Rightarrow> mapping \<times> 's \<times> vm \<Rightarrow> mapping \<times> 's \<times> vm \<Rightarrow> bool" where
  "segment_step content I d = (\<lambda>(m, s, v) (m', s', v').
     frame (\<Union>i \<in> I. seg_addrs m i) v v' \<and> mapping_ok (backing content d s' m') m' v' \<and>
     (\<forall>x < mp_size m. view (backing content d s' m') m' v' x = view (backing content d s m) m v x) \<and>
     (\<exists>sts. m' = m\<lparr>segmentStatus := sts\<rparr> \<and> (\<forall>i. i \<notin> I \<longrightarrow> sts ! i = segmentStatus m ! i)))"

lemma seg_addrs_status [simp]: "seg_addrs (m\<lparr>segmentStatus := sts\<rparr>) i = seg_addrs m i"
  by (simp add: seg_addrs_def)

lemma segment_step_refl:
  "mapping_ok (backing content d s m) m v \<Longrightarrow> segment_step content I d (m, s, v) (m, s, v)"
  by (auto simp: segment_step_def intro!: exI [of _ "segmentStatus m"])

lemma segment_step_trans:
  assumes 1: "segment_step content I d (m, s, v) (m1, s1, v1)"
    and 2: "segment_step content J d (m1, s1, v1) (m2, s2, v2)"
  shows "segment_step content (I \<union> J) d (m, s, v) (m2, s2, v2)"
proof -
  obtain sts where m1: "m1 = m\<lparr>segmentStatus := sts\<rparr>" "\<And>i. i \<notin> I \<Longrightarrow> sts ! i = segmentStatus m ! i"
    using 1 by (auto simp: segment_step_def)
  obtain sts2 where m2: "m2 = m\<lparr>segmentStatus := sts2\<rparr>" "\<And>i. i \<notin> J \<Longrightarrow> sts2 ! i = sts ! i"
    using 2 m1(1) by (auto simp: segment_step_def)
  have "frame (\<Union>i \<in> I. seg_addrs m i) v v1" and "frame (\<Union>i \<in> J. seg_addrs m i) v1 v2"
    using 1 2 m1(1) by (simp_all add: segment_step_def)
  then have "frame (\<Union>i \<in> I \<union> J. seg_addrs m i) v v2"
    by (meson UN_mono frame_mono frame_trans order_refl sup_ge1 sup_ge2)
  moreover have "\<exists>sts. m2 = m\<lparr>segmentStatus := sts\<rparr> \<and> (\<forall>i. i \<notin> I \<union> J \<longrightarrow> sts ! i = segmentStatus m ! i)"
    using m1 m2 by auto
  ultimately show ?thesis
    using 1 2 m1(1) by (auto simp: segment_step_def)
qed

lemma segment_step_ok:
  assumes "segment_step content I d (m, s, v) (m', s', v')"
  shows "mapping_ok (backing content d s' m') m' v'" and "frame (\<Union>i \<in> I. seg_addrs m i) v v'"
    and "x < mp_size m \<Longrightarrow> view (backing content d s' m') m' v' x = view (backing content d s m) m v x"
    and "\<exists>sts. m' = m\<lparr>segmentStatus := sts\<rparr>"
    and "i \<notin> I \<Longrightarrow> segmentStatus m' ! i = segmentStatus m ! i"
  using assms by (auto simp: segment_step_def)

text \<open>A clean segment that is backed by the storage has the bytes of the storage.\<close>

lemma clean_view:
  assumes ok: "mapping_ok cont m v" and x: "x < mp_size m"
    and st: "\<not> dirty (segmentStatus m ! (x div segmentSize m))" "needRead (segmentStatus m ! (x div segmentSize m))"
  shows "view cont m v x = cont x"
proof -
  have "x < segments m * segmentSize m"
    using ok x by (simp add: mapping_ok_def shape_def)
  then have "x div segmentSize m < segments m"
    by (rule less_mult_imp_div_less)
  from seg_okD(2) [OF mapping_okD(2) [OF ok this] refl] x st show ?thesis
    by (simp add: byte_ok_def view_def Let_def)
qed

text \<open>The status of a segment after a flush.\<close>

definition flushed :: "bool \<Rightarrow> segment_status \<Rightarrow> segment_status" where
  "flushed unmap st =
     st\<lparr>dirty := False, needRead := needRead st \<or> dirty st, mapped := mapped st \<and> \<not> unmap\<rparr>"

lemma flushed_simps [simp]:
  "\<not> dirty (flushed u st)" "needRead (flushed u st) \<longleftrightarrow> needRead st \<or> dirty st"
  "mapped (flushed u st) \<longleftrightarrow> mapped st \<and> \<not> u"
  by (simp_all add: flushed_def)

lemma fault_segment:
  assumes "shape m" and "baseAddress m \<le> a" and "a < baseAddress m + segments m * segmentSize m"
    and "i = (a - baseAddress m) div segmentSize m"
  shows "i < segments m" and "sz_mul (segmentSize m) i = i * segmentSize m"
    and "\<exists>x. a = baseAddress m + x \<and> x div segmentSize m = i"
proof -
  show i: "i < segments m"
    using assms by (simp add: less_mult_imp_div_less)
  show "sz_mul (segmentSize m) i = i * segmentSize m"
    using segment_offset(2) [OF assms(1) i] by (simp add: mult.commute)
  show "\<exists>x. a = baseAddress m + x \<and> x div segmentSize m = i"
    using assms by (intro exI [of _ "a - baseAddress m"]) simp
qed

context storage_driver
begin

text \<open>Reading a segment into zeroed memory at \<open>ptr\<close> gives the bytes of the storage.\<close>

lemma pread_segment:
  assumes sh: "shape m" and i: "i < segments m"
    and zero: "\<And>k. k < segmentSize m \<Longrightarrow> vmem v (ptr + k) = 0"
    and run: "d_pread ops d ptr (load_buf ptr v) (readWriteSize (i * segmentSize m) m)
      (sz_add (storageOffset m) (i * segmentSize m)) s = Inr (res, buf, s')" and "0 \<le> res"
    and x: "x div segmentSize m = i"
  shows "vmem (store_buf ptr (readWriteSize (i * segmentSize m) m) buf v) (ptr + (x - i * segmentSize m)) =
    (if x < mp_size m then backing content d s m x else 0)"
proof -
  let ?off = "i * segmentSize m" and ?rw = "readWriteSize (i * segmentSize m) m"
  have off: "sz_add (storageOffset m) ?off = storageOffset m + ?off"
    using segment_offset(3) [OF sh i] by simp
  have lo: "?off \<le> x" and hi: "x - ?off < segmentSize m"
    using segment_bounds [OF _ x] sh by (simp_all add: shape_def)
  have rw: "x - ?off < ?rw \<longleftrightarrow> x < mp_size m"
    using readWriteSize_range [OF sh i, of x] x lo by (simp add: less_diff_conv2 add.commute)
  have "?rw \<le> segmentSize m"
    by (simp add: readWriteSize_segment [OF sh i])
  then have "buf (x - ?off) = content d s (storageOffset m + ?off + (x - ?off))" if "x - ?off < ?rw"
    using pread_zeroed [OF run \<open>0 \<le> res\<close> _ that] zero by (simp add: off load_buf_def)
  with rw zero [OF hi] lo show ?thesis
    by (auto simp: in_range_def backing_def)
qed

lemma load_in_place:
  assumes ok: "mapping_ok (backing content d s m) m v" and i: "i < segments m"
    and un: "\<not> mapped (segmentStatus m ! i)" and ts: "\<not> threadSafe m"
    and run: "loadAndSwapSegment ops kmmap d (i * segmentSize m) w m s v = Inr (s', v')"
  shows "content d s' = content d s \<and> frame (seg_addrs m i) v v' \<and>
    loaded (backing content d s m) m i w v'"
proof -
  let ?p = "baseAddress m + i * segmentSize m" and ?rw = "readWriteSize (i * segmentSize m) m"
  have sh: "shape m"
    using ok by (rule mapping_okD)
  note so = seg_okD(2) [OF mapping_okD(2) [OF ok i]]
  define v1 where "v1 = sys_mprotect ?p (segmentSize m) (True, True, exec_flag m) v"
  obtain res buf where
      rd: "d_pread ops d ?p (load_buf ?p v1) ?rw (sz_add (storageOffset m) (i * segmentSize m)) s =
        Inr (res, buf, s')" and res: "0 \<le> res"
      and v': "v' = (if w then store_buf ?p ?rw buf v1
        else sys_mprotect ?p (segmentSize m) (True, False, exec_flag m) (store_buf ?p ?rw buf v1))"
    using run ts sh by (auto simp: loadAndSwapSegment_def v1_def Let_def split: if_splits)
  have zero: "vmem v1 (?p + k) = 0" if "k < segmentSize m" for k
    using so [of "i * segmentSize m + k"] un that by (simp add: v1_def byte_ok_def add.assoc)
  have ld: "vmem v' (baseAddress m + x) = (if x < mp_size m then backing content d s m x else 0)"
    if x: "x div segmentSize m = i" for x
  proof -
    have "i * segmentSize m \<le> x"
      using segment_bounds [OF _ x] sh by (simp add: shape_def)
    then have "?p + (x - i * segmentSize m) = baseAddress m + x"
      by simp
    then show ?thesis
      using pread_segment [OF sh i zero rd res x] by (simp add: v' del: vmem_ops(5))
  qed
  have "prot_at v' (baseAddress m + x) = Some (True, w, exec_flag m)" if x: "x div segmentSize m = i" for x
    using byte_ok_mapped [OF so [OF x]] x by (auto simp: v' v1_def prot_at_segment [OF sh])
  moreover have "?rw \<le> segmentSize m"
    by (simp add: readWriteSize_segment [OF sh i])
  then have "frame (seg_addrs m i) v v'"
    using frame_trans [OF frame_mprotect_segment [OF sh]
        frame_store_buf [where b = ?p and s = "segmentSize m", folded seg_addrs_def]]
      frame_mprotect_segment [OF sh]
    unfolding v' v1_def by (simp, blast intro: frame_trans)
  ultimately show ?thesis
    using ld pread_content [OF rd res] by (simp add: loaded_def)
qed

lemma load_and_swap:
  assumes ok: "mapping_ok (backing content d s m) m v" and i: "i < segments m"
    and ts: "threadSafe m" and k: "kmmap_ok kmmap"
    and run: "loadAndSwapSegment ops kmmap d (i * segmentSize m) w m s v = Inr (s', v')"
  shows "content d s' = content d s \<and> frame (seg_addrs m i) v v' \<and>
    loaded (backing content d s m) m i w v'"
proof -
  let ?b = "baseAddress m + i * segmentSize m" and ?rw = "readWriteSize (i * segmentSize m) m"
  have sh: "shape m"
    using ok by (rule mapping_okD)
  then have sg: "0 < segmentSize m" "aligned (segmentSize m)"
    by (simp_all add: shape_def)
  obtain p where p: "kmmap v 0 (segmentSize m) = Some p"
    using run ts sg by (auto simp: loadAndSwapSegment_def mmapProtFull_def split: option.splits)
  have al: "p \<noteq> 0" "aligned p" and free: "\<And>a. in_range p (segmentSize m) a \<Longrightarrow> prot_at v a = None"
    using k p sg(2) by (auto simp: kmmap_ok_def)
  define v1 where "v1 = sys_map p (segmentSize m) (True, True, exec_flag m) v"
  obtain res buf v3 where
      rd: "d_pread ops d p (load_buf p v1) ?rw (sz_add (storageOffset m) (i * segmentSize m)) s =
        Inr (res, buf, s')" and res: "0 \<le> res"
      and v3: "v3 = (if w then store_buf p ?rw buf v1
        else sys_mprotect p (segmentSize m) (True, False, exec_flag m) (store_buf p ?rw buf v1))"
      and mv: "mremapForced p (segmentSize m) ?b v3 = Inr v'"
    using run ts sg al p
    by (auto simp: loadAndSwapSegment_def mmapProtFull_def mprotect_def v1_def Let_def split: if_splits)
  have "p \<noteq> ?b"
    using free_not_segment [OF ok i k p, of "i * segmentSize m"] sg by (auto simp: in_range_def)
  then have v': "v' = sys_mremap p (segmentSize m) ?b v3"
    using mv by (auto simp: mremapForced_def split: if_splits)
  have zero: "vmem v1 (p + k) = 0" if "k < segmentSize m" for k
    using that by (simp add: v1_def in_range_def)
  have rw: "?rw \<le> segmentSize m"
    by (simp add: readWriteSize_segment [OF sh i])
  have prot3: "prot_at v3 a = (if in_range p (segmentSize m) a then Some (True, w, exec_flag m) else prot_at v a)"
    for a
    using al sg by (auto simp: v3 v1_def prot_at_mprotect prot_at_map)
  have mem3: "vmem v3 a = vmem v a" if "\<not> in_range p (segmentSize m) a" for a
    using that rw by (auto simp: v3 v1_def in_range_def)
  have "vmem v' (baseAddress m + x) = (if x < mp_size m then backing content d s m x else 0) \<and>
      prot_at v' (baseAddress m + x) = Some (True, w, exec_flag m)"
    if x: "x div segmentSize m = i" for x
  proof -
    have lo: "i * segmentSize m \<le> x" and hi: "x - i * segmentSize m < segmentSize m"
      using segment_bounds [OF sg(1) x] by simp_all
    then have d: "baseAddress m + x - ?b = x - i * segmentSize m"
      and pk: "in_range p (segmentSize m) (p + (x - i * segmentSize m))"
      unfolding in_range_def by linarith+
    have "in_range ?b (segmentSize m) (baseAddress m + x)"
      using x sg by simp
    then have "vmem v' (baseAddress m + x) = vmem (store_buf p ?rw buf v1) (p + (x - i * segmentSize m))"
      and "prot_at v' (baseAddress m + x) = prot_at v3 (p + (x - i * segmentSize m))"
      using al sg by (simp_all only: v' vmem_ops(6) prot_at_mremap aligned_segment [OF sh] d if_True)
        (simp add: v3)
    with pread_segment [OF sh i zero rd res x] pk show ?thesis
      by (simp only: prot3 if_True simp_thms)
  qed
  moreover have "frame (seg_addrs m i) v v'"
    unfolding frame_def
  proof (intro allI impI)
    fix a
    assume a: "a \<notin> seg_addrs m i" and "prot_at v a \<noteq> None"
    then have na: "\<not> in_range p (segmentSize m) a"
      using free by auto
    have "\<not> in_range ?b (segmentSize m) a"
      using a by (simp add: seg_addrs_def)
    with na show "vmem v' a = vmem v a \<and> prot_at v' a = prot_at v a"
      using al sg by (simp add: v' prot_at_mremap aligned_segment [OF sh] mem3 prot3)
  qed
  ultimately show ?thesis
    using pread_content [OF rd res] by (simp add: loaded_def)
qed

lemma loadAndSwap_effect:
  assumes "mapping_ok (backing content d s m) m v" and "i < segments m"
    and "\<not> mapped (segmentStatus m ! i)" and "kmmap_ok kmmap"
    and "loadAndSwapSegment ops kmmap d (i * segmentSize m) w m s v = Inr (s', v')"
  shows "content d s' = content d s" and "frame (seg_addrs m i) v v'"
    and "loaded (backing content d s m) m i w v'"
  using load_in_place [OF assms(1-3) _ assms(5)] load_and_swap [OF assms(1,2) _ assms(4,5)]
  by (cases "threadSafe m"; simp)+

section \<open>Faults keep the view\<close>

text \<open>The three ways through the handler.\<close>

lemma fault_cases:
  assumes sh: "shape m"
    and run: "onSegmentationFault_cs ops kmmap d a w m s v = Inr (m', s', v', r)"
  obtains (already) i where "i < segments m" "a \<in> seg_addrs m i" "mapped (segmentStatus m ! i)"
      "w = dirty (segmentStatus m ! i)" "m' = m" "s' = s" "v' = v" "r = None"
  | (load) i where "i < segments m" "a \<in> seg_addrs m i" "\<not> mapped (segmentStatus m ! i)"
      "needRead (segmentStatus m ! i)"
      "loadAndSwapSegment ops kmmap d (i * segmentSize m) w m s v = Inr (s', v')"
      "m' = set_status i (opened w (segmentStatus m ! i)) m"
      "r = Some (i, segmentStatus m ! i)" "w \<longrightarrow> has_flag (protection m) PROT_WRITE"
  | (open_access) i where "i < segments m" "a \<in> seg_addrs m i"
      "mapped (segmentStatus m ! i) \<Longrightarrow> w \<noteq> dirty (segmentStatus m ! i)"
      "mapped (segmentStatus m ! i) \<or> \<not> needRead (segmentStatus m ! i)" "s' = s"
      "v' = sys_mprotect (baseAddress m + i * segmentSize m) (segmentSize m) (True, w, exec_flag m) v"
      "m' = set_status i (opened w (segmentStatus m ! i)) m"
      "r = Some (i, segmentStatus m ! i)" "w \<longrightarrow> has_flag (protection m) PROT_WRITE"
proof -
  define i where "i = (a - baseAddress m) div segmentSize m"
  let ?st = "segmentStatus m ! i"
  have rng: "baseAddress m \<le> a" "a < baseAddress m + segments m * segmentSize m"
    and wr: "w \<longrightarrow> has_flag (protection m) PROT_WRITE"
    using run by (auto simp: onSegmentationFault_cs_def Let_def split: if_splits)
  note seg = fault_segment [OF sh rng i_def]
  have a: "a \<in> seg_addrs m i"
    using seg(3) sh by auto
  have eq: "onSegmentationFault_cs ops kmmap d a w m s v =
     (if protection m = 0 then Inl (Fatal ''Try to access a segment which is PROT_NONE'')
      else if w = dirty ?st \<and> mapped ?st then Inr (m, s, v, None)
      else if \<not> mapped ?st \<and> needRead ?st
      then bindE (loadAndSwapSegment ops kmmap d (i * segmentSize m) w m s v)
        (\<lambda>(s1, v1). Inr (set_status i (opened w ?st) m, s1, v1, Some (i, ?st)))
      else Inr (set_status i (opened w ?st) m, s,
        sys_mprotect (baseAddress m + i * segmentSize m) (segmentSize m) (True, w, exec_flag m) v,
        Some (i, ?st)))"
    using rng wr
    by (cases w; cases "dirty ?st"; cases "mapped ?st"; cases "needRead ?st")
      (simp_all add: onSegmentationFault_cs_def Let_def i_def [symmetric] seg(2) bindE_assoc
        split_def opened_def mprotect_segment [OF sh])
  have pr: "protection m \<noteq> 0"
    using run unfolding eq by (cases "protection m = 0") simp_all
  consider (1) "w = dirty ?st \<and> mapped ?st" | (2) "\<not> mapped ?st \<and> needRead ?st"
    | (3) "\<not> (w = dirty ?st \<and> mapped ?st)" "\<not> (\<not> mapped ?st \<and> needRead ?st)"
    by blast
  then show thesis
  proof cases
    case 1
    with run pr show thesis unfolding eq by (intro already [OF seg(1) a]) simp_all
  next
    case 2
    with run pr show thesis unfolding eq by (intro load [OF seg(1) a]) (auto simp: wr)
  next
    case 3
    then have no: "mapped ?st \<or> \<not> needRead ?st" "mapped ?st \<Longrightarrow> w \<noteq> dirty ?st"
      by blast+
    from run pr 3 show thesis
      unfolding eq by (intro open_access [OF seg(1) a no(2,1)]) (auto simp: wr)
  qed
qed

lemma segment_stepI:
  assumes ok: "mapping_ok (backing content d s m) m v" and i: "i < segments m"
    and fr: "frame (seg_addrs m i) v v'"
    and bk: "\<And>x. x < mp_size m \<Longrightarrow> x div segmentSize m \<noteq> i \<Longrightarrow>
      backing content d s' m x = backing content d s m x"
    and st: "dirty st \<longrightarrow> mapped st"
    and new: "\<And>x. x div segmentSize m = i \<Longrightarrow> byte_ok (backing content d s' m) m v' st x"
    and same: "\<And>x. x < mp_size m \<Longrightarrow> x div segmentSize m = i \<Longrightarrow>
      (if mapped st then vmem v' (baseAddress m + x) else if needRead st then backing content d s' m x else 0) =
      view (backing content d s m) m v x"
  shows "segment_step content {i} d (m, s, v) (set_status i st m, s', v')"
proof -
  have "mapping_ok (backing content d s' m) (set_status i st m) v'"
    by (rule mapping_ok_step [OF ok fr i bk st new])
  moreover have "view (backing content d s' m) (set_status i st m) v' x = view (backing content d s m) m v x"
    if "x < mp_size m" for x
    by (rule view_step [OF ok fr i bk same that])
  ultimately show ?thesis
    using fr by (auto simp: segment_step_def set_status_def)
qed

lemma set_status_same: "set_status i (segmentStatus m ! i) m = m"
  by (simp add: set_status_def)

lemma fault_load:
  assumes ok: "mapping_ok (backing content d s m) m v" and k: "kmmap_ok kmmap"
    and i: "i < segments m" and un: "\<not> mapped (segmentStatus m ! i)" "needRead (segmentStatus m ! i)"
    and run: "loadAndSwapSegment ops kmmap d (i * segmentSize m) w m s v = Inr (s', v')"
  shows "segment_step content {i} d (m, s, v)
    (set_status i (opened w (segmentStatus m ! i)) m, s', v')"
proof -
  note eff = loadAndSwap_effect [OF ok i un(1) k run]
  have bk: "backing content d s' m = backing content d s m"
    using eff(1) by (simp add: fun_eq_iff backing_def)
  show ?thesis
    using eff(3) un by (intro segment_stepI [OF ok i eff(2)]) (simp_all add: bk loaded_def byte_ok_def view_def)
qed

lemma fault_open:
  assumes ok: "mapping_ok (backing content d s m) m v" and i: "i < segments m"
    and st: "mapped (segmentStatus m ! i) \<Longrightarrow> w \<noteq> dirty (segmentStatus m ! i)"
      "mapped (segmentStatus m ! i) \<or> \<not> needRead (segmentStatus m ! i)"
    and v': "v' = sys_mprotect (baseAddress m + i * segmentSize m) (segmentSize m) (True, w, e) v"
  shows "segment_step content {i} d (m, s, v)
    (set_status i (opened w (segmentStatus m ! i)) m, s, v')"
proof -
  have sh: "shape m"
    using ok by (rule mapping_okD)
  note so = seg_okD(2) [OF mapping_okD(2) [OF ok i]]
  show ?thesis
  proof (intro segment_stepI [OF ok i])
    show "frame (seg_addrs m i) v v'"
      unfolding v' by (rule frame_mprotect_segment [OF sh])
    show "byte_ok (backing content d s m) m v'
        (opened w (segmentStatus m ! i)) x"
      if "x div segmentSize m = i" for x
      using so [OF that] st that by (auto simp: byte_ok_def v' prot_at_segment [OF sh])
  qed (use so st in \<open>auto simp: view_def Let_def v' byte_ok_def\<close>)
qed

text \<open>A fault keeps the invariant and the view, and only touches the segment of the address.\<close>

lemma fault_step:
  assumes ok: "mapping_ok (backing content d s m) m v" and k: "kmmap_ok kmmap"
    and run: "onSegmentationFault_cs ops kmmap d a w m s v = Inr (m', s', v', r)"
  obtains i where "i < segments m" and "a \<in> seg_addrs m i"
    and "segment_step content {i} d (m, s, v) (m', s', v')"
    and "mapped (segmentStatus m' ! i)" and "content d s' = content d s"
proof -
  have sh: "shape m"
    using ok by (rule mapping_okD)
  then have len: "length (segmentStatus m) = segments m"
    by (simp add: shape_def)
  from sh run show thesis
  proof (cases rule: fault_cases)
    case (already i)
    then have "segment_step content {i} d (m, s, v) (m', s', v')"
      using segment_step_refl [OF ok] by simp
    with already that show thesis by blast
  next
    case (load i)
    with fault_load [OF ok k load(1,3,4,5)] that [of i] len loadAndSwap_effect(1) [OF ok load(1,3) k load(5)]
    show thesis by simp
  next
    case (open_access i)
    with fault_open [OF ok open_access(1,3,4,6)] that [of i] len show thesis by simp
  qed
qed

section \<open>Flush and eviction keep the view\<close>

text \<open>Writing a segment changes the storage exactly behind its bytes.\<close>

lemma pwrite_segment:
  assumes sh: "shape m" and i: "i < segments m"
    and run: "d_pwrite ops d ptr (load_buf (baseAddress m + i * segmentSize m) v)
      (readWriteSize (i * segmentSize m) m) (sz_add (storageOffset m) (i * segmentSize m)) s = Inr (res, s')"
    and "0 \<le> res"
  shows "content d s' y = (if \<exists>x. y = storageOffset m + x \<and> x div segmentSize m = i \<and> x < mp_size m
      then vmem v (baseAddress m + (y - storageOffset m)) else content d s y)"
proof -
  let ?off = "i * segmentSize m" and ?rw = "readWriteSize (i * segmentSize m) m"
  have off: "sz_add (storageOffset m) ?off = storageOffset m + ?off"
    using segment_offset(3) [OF sh i] by simp
  have iff: "storageOffset m + ?off \<le> y \<and> y < storageOffset m + ?off + ?rw \<longleftrightarrow>
      (\<exists>x. y = storageOffset m + x \<and> x div segmentSize m = i \<and> x < mp_size m)"
  proof (cases "storageOffset m \<le> y")
    case True
    then obtain x where "y = storageOffset m + x"
      by (auto simp: le_iff_add)
    with readWriteSize_range [OF sh i, of x] show ?thesis by simp
  qed auto
  have "baseAddress m + ?off + (y - (storageOffset m + ?off)) = baseAddress m + (y - storageOffset m)"
    if "storageOffset m + ?off \<le> y"
    using that by linarith
  with pwrite_bytes [OF run \<open>0 \<le> res\<close>, of y] show ?thesis
    unfolding off iff load_buf_def using iff by auto
qed

lemma backing_pwrite:
  assumes "shape m" and "i < segments m"
    and "d_pwrite ops d ptr (load_buf (baseAddress m + i * segmentSize m) v)
      (readWriteSize (i * segmentSize m) m) (sz_add (storageOffset m) (i * segmentSize m)) s = Inr (res, s')"
    and "0 \<le> res"
  shows "backing content d s' m x =
    (if x div segmentSize m = i \<and> x < mp_size m then vmem v (baseAddress m + x) else backing content d s m x)"
  by (simp add: backing_def pwrite_segment [OF assms])

lemma flush_segment_effect:
  assumes ok: "mapping_ok (backing content d s m) m v" and i: "i < segments m"
    and st: "st = segmentStatus m ! i" and b: "b = baseAddress m + i * segmentSize m"
    and run: "flush_segment ops d unmap (i * segmentSize m) (m, s, v) = Inr (m', s', v')"
  obtains w where
    "m' = set_status i (flushed unmap st) m"
    and "w = (if dirty st \<and> threadSafe m then sys_mprotect b (segmentSize m) (True, False, exec_flag m) v else v)"
    and "v' = (if mapped st \<and> unmap
               then madviseDontNeed b (segmentSize m) (sys_mprotect b (segmentSize m) (False, False, exec_flag m) w)
               else if mapped st \<and> \<not> threadSafe m
               then sys_mprotect b (segmentSize m) (True, False, exec_flag m) w else w)"
    and "\<not> dirty st \<Longrightarrow> s' = s"
    and "dirty st \<Longrightarrow> \<exists>res. 0 \<le> res \<and>
      d_pwrite ops d b (load_buf b w) (readWriteSize (i * segmentSize m) m)
        (sz_add (storageOffset m) (i * segmentSize m)) s = Inr (res, s')"
proof -
  have sh: "shape m"
    using ok by (rule mapping_okD)
  then have id: "i * segmentSize m div segmentSize m = i"
    by (simp add: shape_def)
  have dm: "dirty st \<longrightarrow> mapped st"
    using seg_okD(1) [OF mapping_okD(2) [OF ok i]] by (simp add: st)
  define w where "w = (if dirty st \<and> threadSafe m
    then sys_mprotect b (segmentSize m) (True, False, exec_flag m) v else v)"
  have mp [simp]: "mprotect b (segmentSize m) r w' e u = Inr (sys_mprotect b (segmentSize m) (r, w', e) u)"
    for r w' e u
    unfolding b by (rule mprotect_segment [OF sh])
  note run' = run [unfolded flush_segment_def Let_def prod.case id, folded b st]
  consider (clean) "\<not> dirty st" | (dirty) "dirty st" "mapped st"
    using dm by blast
  then show thesis
  proof cases
    case clean
    then have "s' = s"
      using run' by (auto split: if_splits)
    then show thesis
      using clean run' by (intro that [of w]) (cases st; auto simp: w_def flushed_def split: if_splits)+
  next
    case dirty
    from dirty run' obtain res where
        "d_pwrite ops d b (load_buf b w) (readWriteSize (i * segmentSize m) m)
          (sz_add (storageOffset m) (i * segmentSize m)) s = Inr (res, s')" "0 \<le> res"
      and "m' = set_status i (flushed unmap st) m"
      and "v' = (if unmap
               then madviseDontNeed b (segmentSize m) (sys_mprotect b (segmentSize m) (False, False, exec_flag m) w)
               else if \<not> threadSafe m
               then sys_mprotect b (segmentSize m) (True, False, exec_flag m) w else w)"
      by (cases st) (auto simp: w_def flushed_def split: if_splits)
    with dirty show thesis
      by (intro that [of w]) (auto simp: w_def)
  qed
qed

lemma flush_segment_step:
  assumes ok: "mapping_ok (backing content d s m) m v" and i: "i < segments m"
    and run: "flush_segment ops d unmap (i * segmentSize m) (m, s, v) = Inr (m', s', v')"
  shows "segment_step content {i} d (m, s, v) (m', s', v')"
    and "m' = set_status i (flushed unmap (segmentStatus m ! i)) m"
    and "content d s' y = content d s y \<or>
      (\<exists>x < mp_size m. y = storageOffset m + x \<and> x div segmentSize m = i \<and> dirty (segmentStatus m ! i))"
proof -
  let ?st = "segmentStatus m ! i" and ?b = "baseAddress m + i * segmentSize m"
  have sh: "shape m"
    using ok by (rule mapping_okD)
  obtain w where
      m': "m' = set_status i (flushed unmap ?st) m"
    and w: "w = (if dirty ?st \<and> threadSafe m then sys_mprotect ?b (segmentSize m) (True, False, exec_flag m) v else v)"
    and v': "v' = (if mapped ?st \<and> unmap
               then madviseDontNeed ?b (segmentSize m) (sys_mprotect ?b (segmentSize m) (False, False, exec_flag m) w)
               else if mapped ?st \<and> \<not> threadSafe m
               then sys_mprotect ?b (segmentSize m) (True, False, exec_flag m) w else w)"
    and s': "\<not> dirty ?st \<Longrightarrow> s' = s"
    and wr: "dirty ?st \<Longrightarrow> \<exists>res. 0 \<le> res \<and>
      d_pwrite ops d ?b (load_buf ?b w) (readWriteSize (i * segmentSize m) m)
        (sz_add (storageOffset m) (i * segmentSize m)) s = Inr (res, s')"
    by (rule flush_segment_effect [OF ok i refl refl run], rule that) blast+
  show "m' = set_status i (flushed unmap ?st) m"
    by (rule m')
  have mem: "vmem w = vmem v"
    by (simp add: w)
  have bk: "backing content d s' m x =
      (if dirty ?st \<and> x div segmentSize m = i \<and> x < mp_size m then vmem v (baseAddress m + x)
       else backing content d s m x)" for x
    using s' wr backing_pwrite [OF sh i] mem by (cases "dirty ?st") auto
  show "content d s' y = content d s y \<or>
      (\<exists>x < mp_size m. y = storageOffset m + x \<and> x div segmentSize m = i \<and> dirty ?st)"
    using s' wr pwrite_segment [OF sh i, of ?b w s _ s' y] by (cases "dirty ?st") auto
  note so = mapping_okD(2) [OF ok i]
  show "segment_step content {i} d (m, s, v) (m', s', v')"
    unfolding m'
  proof (intro segment_stepI [OF ok i])
    have "frame (seg_addrs m i) v w"
      using frame_mprotect_segment [OF sh] by (simp add: w)
    moreover have "frame (seg_addrs m i) w v'"
      using frame_mprotect_segment [OF sh]
        frame_trans [OF frame_mprotect_segment [OF sh] frame_madvise [of ?b "segmentSize m", folded seg_addrs_def]]
      by (simp add: v')
    ultimately show "frame (seg_addrs m i) v v'"
      by (rule frame_trans)
    show "byte_ok (backing content d s' m) m v' (flushed unmap ?st) x" if x: "x div segmentSize m = i" for x
      using seg_okD(2) [OF so x] seg_okD(1) [OF so] x sh mem bk [of x]
      by (auto simp: byte_ok_def v' w prot_at_segment [OF sh] shape_def)
  qed (use bk mem seg_okD [OF so] sh in \<open>auto simp: view_def Let_def v' byte_ok_def shape_def\<close>)
qed

lemma flush_loop:
  assumes "mapping_ok (backing content d s m) m v" and "\<forall>i \<in> set is. i < segments m" and "distinct is"
    and "foldE (flush_segment ops d unmap) (map (\<lambda>i. i * segmentSize m) is) (m, s, v) = Inr (m', s', v')"
  shows "segment_step content (set is) d (m, s, v) (m', s', v')"
    and "i \<in> set is \<Longrightarrow> segmentStatus m' ! i = flushed unmap (segmentStatus m ! i)"
    and "content d s' y = content d s y \<or>
      (\<exists>x < mp_size m. y = storageOffset m + x \<and> x div segmentSize m \<in> set is \<and>
         dirty (segmentStatus m ! (x div segmentSize m)))"
proof -
  have "segment_step content (set is) d (m, s, v) (m', s', v') \<and>
    (\<forall>i \<in> set is. segmentStatus m' ! i = flushed unmap (segmentStatus m ! i)) \<and>
    (content d s' y = content d s y \<or>
      (\<exists>x < mp_size m. y = storageOffset m + x \<and> x div segmentSize m \<in> set is \<and>
         dirty (segmentStatus m ! (x div segmentSize m))))"
    using assms
  proof (induction "is" arbitrary: m s v)
    case Nil
    then show ?case by (simp add: segment_step_refl)
  next
    case (Cons i "is")
    have i: "i < segments m" and len: "length (segmentStatus m) = segments m"
      using Cons.prems(1,2) by (simp_all add: mapping_ok_def shape_def)
    obtain m1 s1 v1 where one: "flush_segment ops d unmap (i * segmentSize m) (m, s, v) = Inr (m1, s1, v1)"
      and rest: "foldE (flush_segment ops d unmap) (map (\<lambda>i. i * segmentSize m) is) (m1, s1, v1) = Inr (m', s', v')"
      using Cons.prems(4) by auto
    note st = flush_segment_step [OF Cons.prems(1) i one]
    note m1 = st(2)
    have g: "segmentSize m1 = segmentSize m" "segments m1 = segments m" "mp_size m1 = mp_size m"
        "storageOffset m1 = storageOffset m"
      by (simp_all add: m1)
    have other: "segmentStatus m1 ! j = segmentStatus m ! j" if "j \<in> set is" for j
      using segment_step_ok(5) [OF st(1), of j] that Cons.prems(3) by auto
    have "\<forall>i \<in> set is. i < segments m1" and "distinct is"
      using Cons.prems(2,3) by (simp_all add: g)
    from Cons.IH [OF segment_step_ok(1) [OF st(1)] this] rest other
    have IH: "segment_step content (set is) d (m1, s1, v1) (m', s', v')"
        "\<forall>j \<in> set is. segmentStatus m' ! j = flushed unmap (segmentStatus m ! j)"
        "content d s' y = content d s1 y \<or>
          (\<exists>x < mp_size m. y = storageOffset m + x \<and> x div segmentSize m \<in> set is \<and>
             dirty (segmentStatus m ! (x div segmentSize m)))"
      by (auto simp: g)
    have "segmentStatus m' ! i = flushed unmap (segmentStatus m ! i)"
      using segment_step_ok(5) [OF IH(1), of i] Cons.prems(3) i len by (simp add: m1)
    moreover have "segment_step content (set (i # is)) d (m, s, v) (m', s', v')"
      using segment_step_trans [OF st(1) IH(1)] by simp
    ultimately show ?case
      using IH(2,3) st(3) [of y] by auto
  qed
  then show "segment_step content (set is) d (m, s, v) (m', s', v')"
    and "i \<in> set is \<Longrightarrow> segmentStatus m' ! i = flushed unmap (segmentStatus m ! i)"
    and "content d s' y = content d s y \<or>
      (\<exists>x < mp_size m. y = storageOffset m + x \<and> x div segmentSize m \<in> set is \<and>
         dirty (segmentStatus m ! (x div segmentSize m)))"
    by blast+
qed

text \<open>
  A flush writes the dirty bytes of its range back, leaves the rest of the storage alone and
  keeps the view; with \<open>UMMAP_FLUSH_UNMAP\<close> the segments are unloaded.
\<close>

lemma flush_correct:
  assumes ok: "mapping_ok (backing content d s m) m v" and sz: "offset + sz < W64"
    and run: "flush ops d offset sz flags m s v = Inr (m', s', v')"
    and I: "I = {offset div segmentSize m..<(offset + sz) div segmentSize m}"
  shows "segment_step content I d (m, s, v) (m', s', v')"
    and "i \<in> I \<Longrightarrow> segmentStatus m' ! i = flushed (has_flag flags UMMAP_FLUSH_UNMAP) (segmentStatus m ! i)"
    and "content d s' y = content d s y \<or>
      (\<exists>x < mp_size m. y = storageOffset m + x \<and> x div segmentSize m \<in> I \<and>
         dirty (segmentStatus m ! (x div segmentSize m)))"
    and "I \<subseteq> {..<segments m}"
proof -
  have sh: "shape m"
    using ok by (rule mapping_okD)
  then have sg: "0 < segmentSize m" and al: "getAlignedSize m = segments m * segmentSize m"
    by (simp_all add: shape_def getAlignedSize_def mult.commute)
  have off: "offset mod segmentSize m = 0" "sz mod segmentSize m = 0"
      and le: "offset + sz \<le> segments m * segmentSize m"
    using run sz by (auto simp: flush_def al split: if_splits)
  define k n where "k = offset div segmentSize m" and "n = sz div segmentSize m"
  have k: "offset = k * segmentSize m" and n: "sz = n * segmentSize m"
    using off by (simp_all add: k_def n_def mod_eq_0_iff_dvd)
  have sum: "offset + sz = (k + n) * segmentSize m"
    by (simp add: k n distrib_right)
  then have kn: "k + n \<le> segments m"
    using le sg by (metis mult_le_cancel2)
  have I': "I = set [k..<k + n]"
    using sg by (simp add: I sum k [symmetric]) (simp add: k)
  have lst: "for_range offset (sz_add offset sz) (segmentSize m) = map (\<lambda>i. i * segmentSize m) [k..<k + n]"
  proof -
    have "for_range offset (offset + sz) (segmentSize m) = map (\<lambda>j. offset + j * segmentSize m) [0..<n]"
      unfolding n by (rule for_range_multiple [OF sg])
    also have "\<dots> = map (\<lambda>i. i * segmentSize m) [k..<k + n]"
      by (rule nth_equalityI) (simp_all add: k distrib_right)
    finally show ?thesis
      using sz by simp
  qed
  obtain s1 v1 where
      loop: "foldE (flush_segment ops d (has_flag flags UMMAP_FLUSH_UNMAP))
        (map (\<lambda>i. i * segmentSize m) [k..<k + n]) (m, s, v) = Inr (m', s1, v1)"
      and fin: "content d s' = content d s1 \<and> v' = v1"
    using run unfolding flush_def lst no_directMSync
    by (auto simp: Let_def split: if_splits dest!: sync_keeps)
  have "backing content d s' m' = backing content d s1 m'"
    using fin by (simp add: fun_eq_iff backing_def)
  then have eq: "segment_step content J d (m, s, v) (m', s', v') = segment_step content J d (m, s, v) (m', s1, v1)"
    for J
    using fin by (simp add: segment_step_def)
  note fl = flush_loop [OF ok _ _ loop]
  show "segment_step content I d (m, s, v) (m', s', v')"
    unfolding eq I' using kn by (intro fl(1)) auto
  show "segmentStatus m' ! i = flushed (has_flag flags UMMAP_FLUSH_UNMAP) (segmentStatus m ! i)" if "i \<in> I"
    using that kn unfolding I' by (intro fl(2)) auto
  show "content d s' y = content d s y \<or>
      (\<exists>x < mp_size m. y = storageOffset m + x \<and> x div segmentSize m \<in> I \<and>
         dirty (segmentStatus m ! (x div segmentSize m)))"
    unfolding I' using fl(3) [of y] fin kn by auto
  show "I \<subseteq> {..<segments m}"
    using kn by (auto simp: I')
qed

section \<open>Dropping and dirtying clean segments\<close>

text \<open>A loop over segments whose body always returns and works on its own segment.\<close>

lemma fold_segments:
  assumes body: "\<And>i m v. mapping_ok (backing content d s m) m v \<Longrightarrow> i < segments m \<Longrightarrow> protection m = pr \<Longrightarrow>
      \<exists>v'. f i (m, v) = Inr (set_status i (g (segmentStatus m ! i)) m, v') \<and>
        segment_step content {i} d (m, s, v) (set_status i (g (segmentStatus m ! i)) m, s, v')"
    and "mapping_ok (backing content d s m) m v" and "\<forall>i \<in> set js. i < segments m" and "distinct js"
    and "protection m = pr"
  shows "\<exists>m' v'. foldE f js (m, v) = Inr (m', v') \<and>
    segment_step content (set js) d (m, s, v) (m', s, v') \<and>
    (\<forall>i \<in> set js. segmentStatus m' ! i = g (segmentStatus m ! i))"
  using assms(2-5)
proof (induction js arbitrary: m v)
  case Nil
  then show ?case by (simp add: segment_step_refl)
next
  case (Cons i js)
  have i: "i < segments m" and len: "length (segmentStatus m) = segments m"
    using Cons.prems(1,2) by (simp_all add: mapping_ok_def shape_def)
  define m1 where "m1 = set_status i (g (segmentStatus m ! i)) m"
  obtain v1 where one: "f i (m, v) = Inr (m1, v1)" and st: "segment_step content {i} d (m, s, v) (m1, s, v1)"
    using body [OF Cons.prems(1) i Cons.prems(4)] by (auto simp: m1_def)
  have other: "segmentStatus m1 ! j = segmentStatus m ! j" if "j \<in> set js" for j
    using segment_step_ok(5) [OF st, of j] that Cons.prems(3) by auto
  have "\<forall>i \<in> set js. i < segments m1" and "distinct js" and "protection m1 = pr"
    using Cons.prems(2-4) by (simp_all add: m1_def)
  from Cons.IH [OF segment_step_ok(1) [OF st] this] obtain m' v' where
      rest: "foldE f js (m1, v1) = Inr (m', v')"
    and IH: "segment_step content (set js) d (m1, s, v1) (m', s, v')"
      "\<forall>i \<in> set js. segmentStatus m' ! i = g (segmentStatus m1 ! i)"
    by blast
  have "segmentStatus m' ! i = g (segmentStatus m ! i)"
    using segment_step_ok(5) [OF IH(1), of i] Cons.prems(3) i len by (simp add: m1_def)
  with segment_step_trans [OF st IH(1)] IH(2) rest one other show ?case
    by auto
qed

lemma dropClean_segment_step:
  assumes ok: "mapping_ok (backing content d s m) m v" and i: "i < segments m"
  defines "g \<equiv> \<lambda>st. if mapped st \<and> \<not> dirty st then st\<lparr>mapped := False\<rparr> else st"
  shows "\<exists>v'. dropClean_segment i (m, v) = Inr (set_status i (g (segmentStatus m ! i)) m, v') \<and>
    segment_step content {i} d (m, s, v) (set_status i (g (segmentStatus m ! i)) m, s, v')"
proof (cases "mapped (segmentStatus m ! i) \<and> \<not> dirty (segmentStatus m ! i)")
  case True
  let ?b = "baseAddress m + i * segmentSize m"
  have sh: "shape m"
    using ok by (rule mapping_okD)
  define v' where "v' = madviseDontNeed ?b (segmentSize m)
    (sys_mprotect ?b (segmentSize m) (False, False, exec_flag m) v)"
  have mul: "sz_mul (segmentSize m) i = i * segmentSize m"
    using segment_offset(2) [OF sh i] by (simp add: mult.commute)
  note so = seg_okD(2) [OF mapping_okD(2) [OF ok i]]
  have "dropClean_segment i (m, v) = Inr (set_status i (g (segmentStatus m ! i)) m, v')"
    using True by (simp add: dropClean_segment_def Let_def g_def v'_def mul mprotect_segment [OF sh])
  moreover have "segment_step content {i} d (m, s, v) (set_status i (g (segmentStatus m ! i)) m, s, v')"
  proof (intro segment_stepI [OF ok i])
    show "frame (seg_addrs m i) v v'"
      unfolding v'_def
      by (rule frame_trans [OF frame_mprotect_segment [OF sh] frame_madvise [of ?b "segmentSize m", folded seg_addrs_def]])
    show "byte_ok (backing content d s m) m v' (g (segmentStatus m ! i)) x" if "x div segmentSize m = i" for x
      using so [OF that] that True sh
      by (auto simp: byte_ok_def v'_def g_def prot_at_segment [OF sh] shape_def)
  qed (use so True in \<open>auto simp: view_def Let_def byte_ok_def g_def\<close>)
  ultimately show ?thesis by blast
next
  case False
  then have "dropClean_segment i (m, v) = Inr (m, v)" and "g (segmentStatus m ! i) = segmentStatus m ! i"
    by (auto simp: dropClean_segment_def g_def)
  with segment_step_refl [OF ok] show ?thesis by (simp add: set_status_same)
qed

lemma markCleanAsDirty_segment_step:
  assumes ok: "mapping_ok (backing content d s m) m v" and i: "i < segments m"
    and pr: "protection m = pr"
  defines "g \<equiv> \<lambda>st. if mapped st \<and> \<not> dirty st \<and> has_flag pr PROT_WRITE then st\<lparr>dirty := True\<rparr> else st"
  shows "\<exists>v'. markCleanAsDirty_segment i (m, v) = Inr (set_status i (g (segmentStatus m ! i)) m, v') \<and>
    segment_step content {i} d (m, s, v) (set_status i (g (segmentStatus m ! i)) m, s, v')"
proof (cases "mapped (segmentStatus m ! i) \<and> \<not> dirty (segmentStatus m ! i) \<and> has_flag pr PROT_WRITE")
  case True
  let ?b = "baseAddress m + i * segmentSize m"
  have sh: "shape m"
    using ok by (rule mapping_okD)
  define v' where "v' = sys_mprotect ?b (segmentSize m) (True, True, exec_flag m) v"
  have mul: "sz_mul (segmentSize m) i = i * segmentSize m"
    using segment_offset(2) [OF sh i] by (simp add: mult.commute)
  note so = seg_okD(2) [OF mapping_okD(2) [OF ok i]]
  have "markCleanAsDirty_segment i (m, v) = Inr (set_status i (g (segmentStatus m ! i)) m, v')"
    using True pr by (simp add: markCleanAsDirty_segment_def Let_def g_def v'_def mul mprotect_segment [OF sh])
  moreover have "segment_step content {i} d (m, s, v) (set_status i (g (segmentStatus m ! i)) m, s, v')"
  proof (intro segment_stepI [OF ok i])
    show "frame (seg_addrs m i) v v'"
      unfolding v'_def by (rule frame_mprotect_segment [OF sh])
    show "byte_ok (backing content d s m) m v' (g (segmentStatus m ! i)) x" if "x div segmentSize m = i" for x
      using so [OF that] that True sh
      by (auto simp: byte_ok_def v'_def g_def prot_at_segment [OF sh] shape_def)
  qed (use so True in \<open>auto simp: view_def Let_def byte_ok_def g_def v'_def\<close>)
  ultimately show ?thesis by blast
next
  case False
  then have "markCleanAsDirty_segment i (m, v) = Inr (m, v)"
    and "g (segmentStatus m ! i) = segmentStatus m ! i"
    using pr by (auto simp: markCleanAsDirty_segment_def g_def)
  with segment_step_refl [OF ok] show ?thesis by (simp add: set_status_same)
qed

lemma dropClean_correct:
  assumes "mapping_ok (backing content d s m) m v"
  shows "\<exists>m' v'. dropClean m v = Inr (m', v') \<and>
    segment_step content {..<segments m} d (m, s, v) (m', s, v') \<and>
    (\<forall>i < segments m. segmentStatus m' ! i =
       (if mapped (segmentStatus m ! i) \<and> \<not> dirty (segmentStatus m ! i)
        then (segmentStatus m ! i)\<lparr>mapped := False\<rparr> else segmentStatus m ! i))"
  using fold_segments [OF dropClean_segment_step assms, where js = "[0..<segments m]"]
  by (simp add: dropClean_def lessThan_atLeast0 [symmetric] lessThan_def)

lemma markCleanAsDirty_correct:
  assumes "mapping_ok (backing content d s m) m v"
  shows "\<exists>m' v'. markCleanAsDirty m v = Inr (m', v') \<and>
    segment_step content {..<segments m} d (m, s, v) (m', s, v') \<and>
    (\<forall>i < segments m. segmentStatus m' ! i =
       (if mapped (segmentStatus m ! i) \<and> \<not> dirty (segmentStatus m ! i) \<and> has_flag (protection m) PROT_WRITE
        then (segmentStatus m ! i)\<lparr>dirty := True\<rparr> else segmentStatus m ! i))"
  using fold_segments [OF markCleanAsDirty_segment_step [where pr = "protection m"] assms,
      where js = "[0..<segments m]"]
  by (simp add: markCleanAsDirty_def lessThan_atLeast0 [symmetric] lessThan_def)

end

section \<open>Accesses of the program\<close>

definition store_byte :: "addr \<Rightarrow> byte \<Rightarrow> vm \<Rightarrow> vm" where
  "store_byte a b v = v\<lparr>vmem := (vmem v)(a := b)\<rparr>"

lemma vmem_store_byte [simp]: "vmem (store_byte a b v) x = (if x = a then b else vmem v x)"
  by (simp add: store_byte_def)

lemma prot_at_store_byte [simp]: "prot_at (store_byte a b v) = prot_at v"
  by (simp add: fun_eq_iff prot_at_def store_byte_def)

lemma mapped_segment:
  assumes "mapping_ok cont m v" and "x < segments m * segmentSize m"
  shows "byte_ok cont m v (segmentStatus m ! (x div segmentSize m)) x"
proof -
  have "x div segmentSize m < segments m"
    using assms(2) by (rule less_mult_imp_div_less)
  from seg_okD(2) [OF mapping_okD(2) [OF assms(1) this] refl] show ?thesis .
qed

text \<open>A load that does not fault returns the byte of the view.\<close>

lemma load_correct:
  assumes "mapping_ok cont m v" and "x < mp_size m" and "can_read v (baseAddress m + x)"
  shows "vmem v (baseAddress m + x) = view cont m v x"
proof -
  have "x < segments m * segmentSize m"
    using assms by (simp add: mapping_ok_def shape_def)
  from mapped_segment [OF assms(1) this] assms(3) show ?thesis
    by (auto simp: byte_ok_def can_read_def view_def Let_def)
qed

text \<open>A store that does not fault changes the view at its address only.\<close>

lemma store_correct:
  assumes ok: "mapping_ok cont m v" and x: "x < segments m * segmentSize m"
    and wr: "can_write v (baseAddress m + x)"
  shows "mapping_ok cont m (store_byte (baseAddress m + x) b v)"
    and "view cont m (store_byte (baseAddress m + x) b v) y = (if y = x then b else view cont m v y)"
proof -
  let ?i = "x div segmentSize m" and ?v = "store_byte (baseAddress m + x) b v"
  have i: "?i < segments m"
    using x by (rule less_mult_imp_div_less)
  have d: "dirty (segmentStatus m ! ?i)"
    using mapped_segment [OF ok x] wr by (auto simp: byte_ok_def can_write_def)
  then have m: "mapped (segmentStatus m ! ?i)"
    by (rule seg_okD(1) [OF mapping_okD(2) [OF ok i]])
  have "seg_ok cont m ?v j" if "j < segments m" for j
    using mapping_okD(2) [OF ok that] d m by (auto simp: seg_ok_def byte_ok_def)
  then show "mapping_ok cont m ?v"
    using mapping_okD(1) [OF ok] by (simp add: mapping_ok_def)
  show "view cont m ?v y = (if y = x then b else view cont m v y)"
    using m by (auto simp: view_def Let_def)
qed

end
