(* ===== verification/MappingLife.thy ===== *)
theory MappingLife
  imports MappingView
begin

text \<open>
  The life of a mapping: the state the constructor of \<open>src/core/Mapping.cpp\<close> leaves, that a
  fault makes the access of the program possible and when it succeeds, and the runs of a
  mapping, which refine a plain array of bytes.
\<close>

section \<open>A new mapping\<close>

lemma mapSize_of_exact:
  assumes "0 < sg" and "sz + sg < W64"
  obtains n where "mapSize_of sz sg = n * sg" and "(n - 1) * sg < sz \<or> sz = 0" and "sz \<le> n * sg"
    and "n * sg < sz + sg"
proof (cases "sz mod sg = 0")
  case True
  then obtain n where n: "sz = n * sg"
    by (metis mod_0_imp_dvd dvdE mult.commute)
  show thesis
  proof (rule that [of n])
    show "mapSize_of sz sg = n * sg"
      using True n by (simp add: mapSize_of_def)
    show "(n - 1) * sg < sz \<or> sz = 0"
      using assms(1) by (cases n) (simp_all add: n)
  qed (use n assms(1) in simp_all)
next
  case False
  define q where "q = sz div sg"
  have sz: "sz = q * sg + sz mod sg"
    unfolding q_def by (rule div_mult_mod_eq [symmetric])
  have r: "sz mod sg < sg"
    using assms(1) by simp
  then have e: "sz + (sg - sz mod sg) = Suc q * sg"
    using sz by simp
  show thesis
  proof (rule that [of "Suc q"])
    show "mapSize_of sz sg = Suc q * sg"
      using False e assms(2) by (simp add: mapSize_of_def)
    show "(Suc q - 1) * sg < sz \<or> sz = 0"
      using sz False by simp
    show "sz \<le> Suc q * sg" "Suc q * sg < sz + sg"
      using sz r False by simp_all
  qed
qed

context storage_calls
begin

text \<open>The constructor: every segment unloaded, the view is the storage, or zero on request.\<close>

lemma newMapping_ok:
  assumes k: "kmmap_ok kmmap" and fits: "offset + sz + sg < W64"
    and nofix: "\<not> has_flag flags UMMAP_FIXED"
    and run: "newMapping_core ops kmmap cpus d addr sz sg offset prot flags drv lp gp s v = Inr (m, s', v')"
  shows "mapping_ok (backing content d s' m) m v'" and "content d s' = content d s"
    and "frame {} v v'" and "mp_size m = sz" and "segmentSize m = sg" and "storageOffset m = offset"
    and "x < sz \<Longrightarrow> view (backing content d s' m) m v' x =
      (if has_flag flags UMMAP_NO_FIRST_READ then 0 else content d s (offset + x))"
    and "x < segments m * sg \<Longrightarrow> prot_at v (baseAddress m + x) = None"
proof -
  have pos: "0 < sz" "0 < sg" "aligned sg"
    using run by (auto simp: newMapping_core_def split: if_splits)
  obtain n where n: "mapSize_of sz sg = n * sg" "(n - 1) * sg < sz" "sz \<le> n * sg" "n * sg < sz + sg"
  proof -
    have "sz + sg < W64"
      using fits by simp
    from pos(2) this show thesis
      by (rule mapSize_of_exact) (use pos(1) that in auto)
  qed
  have n0: "0 < n"
    using n(3) pos(1) by (cases "n = 0") simp_all
  have al: "aligned (n * sg)"
    using pos(3) by (metis mod_mult_right_eq mult_0_right mod_0)
  define st where "st = \<lparr>mapped = False, dirty = False, needRead = \<not> has_flag flags UMMAP_NO_FIRST_READ\<rparr>"
  let ?ts = "\<not> has_flag flags UMMAP_THREAD_UNSAFE"
  let ?m = "\<lambda>base i st ts. \<lparr>mp_driver = drv, localPolicy = lp, globalPolicy = gp, protection = prot,
        baseAddress = base, segments = n, segmentSize = sg, mp_size = sz, storageOffset = offset,
        segmentStatus = replicate n st, mappingDriverId = i, segmentMutexesCnt = min (cpus * 4 + 1) n,
        threadSafe = ts\<rparr>"
  have div: "n * sg div sg = n"
    using pos by simp
  note run1 = run [unfolded newMapping_core_def n(1) Let_def div registerRange_def no_directMmap]
  obtain i where es: "d_establish_mapping ops d offset sz (has_flag prot PROT_WRITE) s = Inr (i, s')" "0 \<le> i"
    using run1 pos al by (auto split: if_splits)
  obtain base where base: "kmmap v addr (n * sg) = Some base"
    using run1 pos al nofix n0 es by (auto simp: mmapProtNone_def split: if_splits option.splits)
  have ts: "?ts \<Longrightarrow> d_checkThreadSafety ops d s' = Inr True"
    using run1 pos al es by (auto split: if_splits)
  have v': "v' = sys_map base (n * sg) (False, False, False) v" and m: "m = ?m base i st ?ts"
    using run1 pos al nofix n0 es base ts
    by (cases ?ts; cases "has_flag flags UMMAP_NO_FIRST_READ";
        simp add: mmapProtNone_def skipFirstRead_def st_def)+
  show c: "content d s' = content d s"
    by (rule establish_keeps [OF es(1)])
  have fresh: "base \<noteq> 0" "aligned base" "\<And>a. in_range base (n * sg) a \<Longrightarrow> prot_at v a = None"
    using k base al by (auto simp: kmmap_ok_def)
  have rng: "in_range base (n * sg) (base + x)" if "x < n * sg" for x
    using that by (simp add: in_range_def)
  show "mp_size m = sz" and "segmentSize m = sg" and "storageOffset m = offset"
    by (simp_all add: m)
  show "prot_at v (baseAddress m + x) = None" if "x < segments m * sg"
    using fresh(3) rng that by (simp add: m)
  show "frame {} v v'"
    using fresh al by (auto simp: frame_def v' prot_at_map)
  show "view (backing content d s' m) m v' x =
      (if has_flag flags UMMAP_NO_FIRST_READ then 0 else content d s (offset + x))" if "x < sz"
  proof -
    have "x div sg < n"
      using that n(3) by (intro less_mult_imp_div_less) simp
    then show ?thesis by (simp add: view_def Let_def m st_def backing_def c)
  qed
  have "shape m"
    using pos n fresh n0 fits by (simp add: shape_def m)
  moreover have "seg_ok (backing content d s' m) m v' j" if j: "j < n" for j
  proof -
    have "byte_ok (backing content d s' m) m v' st x" if x: "x div sg = j" for x
    proof -
      have "x < Suc j * sg"
        using segment_bounds [OF pos(2) x] by simp
      also have "\<dots> \<le> n * sg"
        using j by (intro mult_right_mono) auto
      finally show ?thesis
        using rng fresh al by (auto simp: byte_ok_def m st_def v' prot_at_map)
    qed
    then show ?thesis
      using j by (simp add: seg_ok_def m st_def)
  qed
  ultimately show "mapping_ok (backing content d s' m) m v'"
    by (simp add: mapping_ok_def m)
qed

end


section \<open>A fault makes the access possible\<close>

lemma segment_address:
  assumes "shape m" and "a \<in> seg_addrs m i"
  obtains x where "a = baseAddress m + x" and "x div segmentSize m = i"
proof -
  have "baseAddress m \<le> a"
    using assms(2) by (simp add: seg_addrs_def in_range_def)
  then obtain x where "a = baseAddress m + x"
    by (auto simp: le_iff_add)
  with assms that show thesis by simp
qed

context storage_driver
begin

lemma fault_enables:
  assumes ok: "mapping_ok (backing content d s m) m v" and k: "kmmap_ok kmmap"
    and run: "onSegmentationFault_cs ops kmmap d a w m s v = Inr (m', s', v', r)"
  shows "can_read v' a" and "w \<Longrightarrow> r \<noteq> None \<Longrightarrow> can_write v' a"
proof -
  have sh: "shape m"
    using ok by (rule mapping_okD)
  from ok k run obtain i where i: "i < segments m" "a \<in> seg_addrs m i"
    and st: "segment_step content {i} d (m, s, v) (m', s', v')" "mapped (segmentStatus m' ! i)"
    by (rule fault_step)
  obtain x where x: "a = baseAddress m + x" "x div segmentSize m = i"
    by (rule segment_address [OF sh i(2)])
  have m': "segments m' = segments m" "baseAddress m' = baseAddress m" "segmentSize m' = segmentSize m"
    using segment_step_ok(4) [OF st(1)] by auto
  then have "seg_ok (backing content d s' m') m' v' i"
    using mapping_okD(2) [OF segment_step_ok(1) [OF st(1)]] i(1) by simp
  from seg_okD(2) [OF this, of x] st(2) x m' show "can_read v' a"
    by (auto simp: byte_ok_def can_read_def)
  show "can_write v' a" if "w" "r \<noteq> None"
    using sh run
  proof (cases rule: fault_cases)
    case (already j)
    with that show ?thesis by simp
  next
    case (load j)
    with x sh have "j = i" by simp
    with loadAndSwap_effect(3) [OF ok load(1,3) k load(5)] x that show ?thesis
      by (simp add: loaded_def can_write_def)
  next
    case (open_access j)
    with x sh have "j = i" by simp
    moreover have "prot_at v a \<noteq> None"
      using seg_okD(2) [OF mapping_okD(2) [OF ok i(1)] x(2)] x(1) by (auto simp: byte_ok_def)
    ultimately show ?thesis
      using open_access(6) x that by (simp add: can_write_def prot_at_segment [OF sh])
  qed
qed

end

section \<open>A fault succeeds when the storage can be read\<close>

lemma mremap_free:
  assumes ok: "mapping_ok cont m v" and i: "i < segments m" and k: "kmmap_ok kmmap"
    and p: "kmmap v 0 (segmentSize m) = Some p" and pm: "pages_mapped p (segmentSize m) v3"
  shows "mremapForced p (segmentSize m) (baseAddress m + i * segmentSize m) v3 =
    Inr (sys_mremap p (segmentSize m) (baseAddress m + i * segmentSize m) v3)"
proof -
  let ?sg = "segmentSize m" and ?b = "baseAddress m + i * segmentSize m"
  have sh: "shape m"
    using ok by (rule mapping_okD)
  then have sg: "0 < ?sg" "aligned ?sg" "?b \<noteq> 0"
    by (simp_all add: shape_def)
  have al: "p \<noteq> 0" "aligned p"
    using k p sg(2) by (auto simp: kmmap_ok_def)
  have free: "\<not> in_range p ?sg (baseAddress m + x)" if "x div ?sg = i" for x
    by (rule free_not_segment [OF ok i k p that])
  have "\<not> (p < ?b + ?sg \<and> ?b < p + ?sg)"
  proof
    assume lap: "p < ?b + ?sg \<and> ?b < p + ?sg"
    have "in_range ?b ?sg (max p ?b)" and in_p: "in_range p ?sg (max p ?b)"
      using lap sg(1) by (auto simp: in_range_def)
    then obtain x where "max p ?b = baseAddress m + x" "x div ?sg = i"
      using segment_address [OF sh, of "max p ?b" i] by (auto simp: seg_addrs_def)
    with free in_p show False by simp
  qed
  moreover have "p \<noteq> ?b"
    using free [of "i * ?sg"] sg by (auto simp: in_range_def)
  ultimately show ?thesis
    using al sg aligned_segment [OF sh, of i] pm by (auto simp: mremapForced_def)
qed

context storage_calls
begin

lemma loadAndSwap_returns:
  assumes ok: "mapping_ok (backing content d s m) m v" and i: "i < segments m"
    and k: "kmmap_ok kmmap" and mem: "threadSafe m \<longrightarrow> kmmap v 0 (segmentSize m) \<noteq> None"
    and rd: "\<And>ptr buf. ptr \<noteq> 0 \<Longrightarrow> \<exists>r buf' s'. 0 \<le> r \<and>
      d_pread ops d ptr buf (readWriteSize (i * segmentSize m) m) (storageOffset m + i * segmentSize m) s
      = Inr (r, buf', s')"
  shows "\<exists>s' v'. loadAndSwapSegment ops kmmap d (i * segmentSize m) w m s v = Inr (s', v')"
proof -
  have sh: "shape m"
    using ok by (rule mapping_okD)
  have off: "sz_add (storageOffset m) (i * segmentSize m) = storageOffset m + i * segmentSize m"
    using segment_offset(3) [OF sh i] by simp
  show ?thesis
  proof (cases "threadSafe m")
    case True
    then obtain p where p: "kmmap v 0 (segmentSize m) = Some p"
      using mem by auto
    have al: "p \<noteq> 0" "aligned p" and sg: "0 < segmentSize m" "aligned (segmentSize m)"
      using k p sh by (auto simp: kmmap_ok_def shape_def)
    let ?v1 = "sys_map p (segmentSize m) (True, True, exec_flag m) v"
    obtain r buf s' where r: "0 \<le> r" "d_pread ops d p (load_buf p ?v1) (readWriteSize (i * segmentSize m) m)
        (storageOffset m + i * segmentSize m) s = Inr (r, buf, s')"
      using rd [OF al(1)] by metis
    show ?thesis
      using True p al sg r mremap_free [OF ok i k p]
      by (cases w) (simp_all add: loadAndSwapSegment_def mmapProtFull_def Let_def off mprotect_def pages_mapped_ops)
  next
    case False
    let ?b = "baseAddress m + i * segmentSize m"
    let ?v1 = "sys_mprotect ?b (segmentSize m) (True, True, exec_flag m) v"
    have "?b \<noteq> 0"
      using sh by (simp add: shape_def)
    then obtain r buf s' where r: "0 \<le> r" "d_pread ops d ?b (load_buf ?b ?v1)
        (readWriteSize (i * segmentSize m) m) (storageOffset m + i * segmentSize m) s = Inr (r, buf, s')"
      using rd by metis
    show ?thesis
      using False r by (cases w) (simp_all add: loadAndSwapSegment_def Let_def off mprotect_segment [OF sh])
  qed
qed

lemma fault_returns:
  assumes ok: "mapping_ok (backing content d s m) m v"
    and rng: "baseAddress m \<le> a" "a < baseAddress m + segments m * segmentSize m"
    and pr: "protection m \<noteq> 0" "w \<longrightarrow> has_flag (protection m) PROT_WRITE"
    and k: "kmmap_ok kmmap" and mem: "threadSafe m \<longrightarrow> kmmap v 0 (segmentSize m) \<noteq> None"
    and rd: "\<And>ptr buf i. ptr \<noteq> 0 \<Longrightarrow> i < segments m \<Longrightarrow> \<exists>r buf' s'. 0 \<le> r \<and>
      d_pread ops d ptr buf (readWriteSize (i * segmentSize m) m) (storageOffset m + i * segmentSize m) s
      = Inr (r, buf', s')"
  shows "\<exists>m' s' v' r. onSegmentationFault_cs ops kmmap d a w m s v = Inr (m', s', v', r)"
proof -
  have sh: "shape m"
    using ok by (rule mapping_okD)
  define i where "i = (a - baseAddress m) div segmentSize m"
  note seg = fault_segment [OF sh rng i_def]
  obtain s1 v1 where ld: "loadAndSwapSegment ops kmmap d (i * segmentSize m) w m s v = Inr (s1, v1)"
    using loadAndSwap_returns [OF ok seg(1) k mem] rd seg(1) by metis
  show ?thesis
    using rng pr ld
    by (auto simp: onSegmentationFault_cs_def Let_def i_def [symmetric] seg(2) mprotect_segment [OF sh])
qed

end

section \<open>Runs of a mapping refine an array of bytes\<close>

text \<open>
  The events of one mapping: accesses of the program that do not fault, faults, and the
  operations of the library in any order. A load carries the byte it returns.
\<close>

datatype event =
    Load nat byte
  | Store nat byte
  | Fault addr bool
  | Flush size_t size_t nat
  | Evict nat
  | DropClean
  | MarkDirty

inductive mstep ::
  "('d, 's) driver_ops \<Rightarrow> kernel_mmap \<Rightarrow> 'd \<Rightarrow> mapping \<times> 's \<times> vm \<Rightarrow> event \<Rightarrow> mapping \<times> 's \<times> vm \<Rightarrow> bool"
  for ops kmmap d where
  Load: "x < mp_size m \<Longrightarrow> can_read v (baseAddress m + x) \<Longrightarrow>
     mstep ops kmmap d (m, s, v) (Load x (vmem v (baseAddress m + x))) (m, s, v)"
| Store: "x < mp_size m \<Longrightarrow> can_write v (baseAddress m + x) \<Longrightarrow>
     mstep ops kmmap d (m, s, v) (Store x b) (m, s, store_byte (baseAddress m + x) b v)"
| Fault: "onSegmentationFault_cs ops kmmap d a w m s v = Inr (m', s', v', r) \<Longrightarrow>
     mstep ops kmmap d (m, s, v) (Fault a w) (m', s', v')"
| Flush: "offset + sz < W64 \<Longrightarrow> flush ops d offset sz flags m s v = Inr (m', s', v') \<Longrightarrow>
     mstep ops kmmap d (m, s, v) (Flush offset sz flags) (m', s', v')"
| Evict: "i < segments m \<Longrightarrow> evict_flush ops d i m s v = Inr (m', s', v') \<Longrightarrow>
     mstep ops kmmap d (m, s, v) (Evict i) (m', s', v')"
| DropClean: "dropClean m v = Inr (m', v') \<Longrightarrow> mstep ops kmmap d (m, s, v) DropClean (m', s, v')"
| MarkDirty: "markCleanAsDirty m v = Inr (m', v') \<Longrightarrow> mstep ops kmmap d (m, s, v) MarkDirty (m', s, v')"

inductive_cases mstepE: "mstep ops kmmap d (m, s, v) e (m', s', v')"

lemmas mstep_cases =
  mstepE [consumes 1, case_names Load Store Fault Flush Evict DropClean MarkDirty]

inductive mrun ::
  "('d, 's) driver_ops \<Rightarrow> kernel_mmap \<Rightarrow> 'd \<Rightarrow> mapping \<times> 's \<times> vm \<Rightarrow> event list \<Rightarrow> mapping \<times> 's \<times> vm \<Rightarrow> bool"
  for ops kmmap d where
  Done: "mrun ops kmmap d \<sigma> [] \<sigma>"
| Step: "mstep ops kmmap d \<sigma> e \<sigma>1 \<Longrightarrow> mrun ops kmmap d \<sigma>1 es \<sigma>2 \<Longrightarrow> mrun ops kmmap d \<sigma> (e # es) \<sigma>2"

text \<open>The specification: an array of bytes.\<close>

fun array_step :: "event \<Rightarrow> (nat \<Rightarrow> byte) \<Rightarrow> nat \<Rightarrow> byte" where
  "array_step (Store x b) A = A(x := b)"
| "array_step e A = A"

fun array_accepts :: "(nat \<Rightarrow> byte) \<Rightarrow> event list \<Rightarrow> bool" where
  "array_accepts A [] = True"
| "array_accepts A (e # es) =
     ((case e of Load x b \<Rightarrow> A x = b | _ \<Rightarrow> True) \<and> array_accepts (array_step e A) es)"

text \<open>The state of a mapping of size \<open>n\<close> that shows the array \<open>A\<close>.\<close>

definition represents ::
  "('d \<Rightarrow> 's \<Rightarrow> nat \<Rightarrow> byte) \<Rightarrow> 'd \<Rightarrow> (nat \<Rightarrow> byte) \<Rightarrow> nat \<Rightarrow> mapping \<times> 's \<times> vm \<Rightarrow> bool" where
  "represents content d A n = (\<lambda>(m, s, v). mapping_ok (backing content d s m) m v \<and> mp_size m = n \<and>
     (\<forall>x < n. view (backing content d s m) m v x = A x))"

context storage_driver
begin

lemma represents_step:
  assumes "represents content d A n (m, s, v)" and "segment_step content I d (m, s, v) (m', s', v')"
  shows "represents content d A n (m', s', v')"
  using assms segment_step_ok(4) [OF assms(2)] segment_step_ok(1,3) [OF assms(2)]
  by (auto simp: represents_def)

lemma mstep_represents:
  assumes st: "mstep ops kmmap d (m, s, v) e (m', s', v')" and k: "kmmap_ok kmmap"
    and A: "represents content d A n (m, s, v)"
  shows "represents content d (array_step e A) n (m', s', v')" and "case e of Load x b \<Rightarrow> A x = b | _ \<Rightarrow> True"
proof -
  have ok: "mapping_ok (backing content d s m) m v"
    using A by (simp add: represents_def)
  have "represents content d (array_step e A) n (m', s', v') \<and> (case e of Load x b \<Rightarrow> A x = b | _ \<Rightarrow> True)"
    using st
  proof (cases rule: mstep_cases)
    case (Load x)
    with A load_correct [OF ok] show ?thesis by (simp add: represents_def)
  next
    case (Store x b)
    moreover have "x < segments m * segmentSize m"
      using ok Store by (simp add: mapping_ok_def shape_def)
    ultimately show ?thesis
      using A store_correct [OF ok] by (simp add: represents_def)
  next
    case (Fault a w r)
    obtain i where "segment_step content {i} d (m, s, v) (m', s', v')"
      by (rule fault_step [OF ok k Fault(2)])
    from represents_step [OF A this] Fault show ?thesis by simp
  next
    case (Flush offset sz flags)
    with represents_step [OF A flush_correct(1) [OF ok Flush(2,3) refl]] show ?thesis by simp
  next
    case (Evict i)
    let ?sg = "segmentSize m"
    have sh: "shape m"
      using ok by (rule mapping_okD)
    have "sz_mul i ?sg = i * ?sg" and "i * ?sg + ?sg < W64"
      using segment_offset [OF sh Evict(2)] sh by (auto simp: shape_def)
    with Evict represents_step [OF A flush_correct(1) [OF ok _ _ refl]] show ?thesis
      by (auto simp: evict_flush_def)
  next
    case DropClean
    with represents_step [OF A] dropClean_correct [OF ok] show ?thesis by auto
  next
    case MarkDirty
    with represents_step [OF A] markCleanAsDirty_correct [OF ok] show ?thesis by auto
  qed
  then show "represents content d (array_step e A) n (m', s', v')" and "case e of Load x b \<Rightarrow> A x = b | _ \<Rightarrow> True"
    by blast+
qed

lemma mrun_refines:
  assumes "mrun ops kmmap d \<sigma> es \<sigma>'" and "kmmap_ok kmmap" and "represents content d A n \<sigma>"
  shows "array_accepts A es \<and> represents content d (fold array_step es A) n \<sigma>'"
  using assms
proof (induction arbitrary: A rule: mrun.induct)
  case (Step \<sigma> e \<sigma>1 es \<sigma>2)
  obtain m s v m1 s1 v1 where "\<sigma> = (m, s, v)" and "\<sigma>1 = (m1, s1, v1)"
    by (cases \<sigma>; cases \<sigma>1)
  with Step mstep_represents [of kmmap m s v e m1 s1 v1 A n] show ?case by simp
qed simp

end

end
