(* ===== verification/Instances.thy ===== *)
theory Instances
  imports LibDriver MappingLife
begin

text \<open>
  A concrete outside world on which the development can be run: files and objects are
  functions from offsets to bytes, and the kernel places memory at the first free of a few
  addresses. It shows that the assumptions made of the system calls, of the IOC client and of
  the kernel can hold together.
\<close>

section \<open>Files and objects\<close>

record outside_state =
  files :: "int \<Rightarrow> nat \<Rightarrow> byte"
  objects :: "int \<times> int \<Rightarrow> nat \<Rightarrow> byte"

definition write_bytes :: "buffer \<Rightarrow> size_t \<Rightarrow> size_t \<Rightarrow> (nat \<Rightarrow> byte) \<Rightarrow> nat \<Rightarrow> byte" where
  "write_bytes buf sz off c = (\<lambda>x. if off \<le> x \<and> x < off + sz then buf (x - off) else c x)"

definition ram_posix :: "outside_state posix" where
  "ram_posix =
     \<lparr>sys_dup = \<lambda>fd f. (fd, f), sys_close = \<lambda>fd f. f,
      sys_pread = \<lambda>fd sz off f. (int sz, \<lambda>i. files f fd (off + i), f),
      sys_pwrite = \<lambda>fd buf sz off f.
        (int sz, f\<lparr>files := (files f)(fd := write_bytes buf sz off (files f fd))\<rparr>),
      sys_fdatasync = \<lambda>fd f. f, sys_fstat = \<lambda>fd f. (0, 0), sys_ftruncate = \<lambda>fd n f. (0, f),
      sys_ficlonerange = \<lambda>fd r f. (-1, f),
      sys_mmap_fd = \<lambda>a sz p fx fd off f v. (None, f, v),
      sys_munmap_fd = \<lambda>a sz f v. (-1, f, v), sys_msync = \<lambda>a sz f v. (-1, f, v)\<rparr>"

definition ram_ioc :: "outside_state ioc_client" where
  "ram_ioc =
     \<lparr>ioc_obj_create = \<lambda>h l s. s,
      ioc_obj_write = \<lambda>h l buf sz off s.
        (int sz, s\<lparr>objects := (objects s)((h, l) := write_bytes buf sz off (objects s (h, l)))\<rparr>),
      ioc_obj_read = \<lambda>h l buf sz off s. (int sz, \<lambda>i. objects s (h, l) (off + i), s),
      ioc_obj_flush = \<lambda>h l off sz s. s,
      ioc_range_register = \<lambda>h l off sz w s. (0, s),
      ioc_range_unregister = \<lambda>k h l off sz w s. (0, s),
      ioc_obj_cow = \<lambda>h l h2 l2 ex off sz s.
        (0, s\<lparr>objects := (objects s)((h2, l2) := objects s (h, l))\<rparr>)\<rparr>"

definition ram_mero :: "outside_state mero" where
  "ram_mero =
     \<lparr>mero_read = \<lambda>obj ext s. (0, \<lambda>i k. objects s obj (fst (ext ! i) + k), s),
      mero_write = \<lambda>obj ext units s. (0, s), mero_unit_size = \<lambda>s. 4096,
      mero_create = \<lambda>obj s. s\<rparr>"

definition ram_env :: "outside_state lib_env" where
  "ram_env = \<lparr>env_posix = ram_posix, env_ioc = ram_ioc, env_mero = ram_mero,
     env_uname = \<lambda>s. Some [5, 4, 0]\<rparr>"

definition ram_content :: "outside_state world_content" where
  "ram_content = \<lparr>wc_file = \<lambda>fd f. files f fd, wc_object = \<lambda>h l f. objects f (h, l)\<rparr>"

lemma ram_env_ok: "env_ok ram_env ram_content"
  by (auto simp: env_ok_def ram_env_def ram_content_def posix_ok_def ioc_ok_def ram_posix_def
      ram_ioc_def write_bytes_def)

section \<open>Kernel\<close>

definition free_pages :: "vm \<Rightarrow> addr \<Rightarrow> size_t \<Rightarrow> bool" where
  "free_pages v p sz \<longleftrightarrow>
     list_all (\<lambda>pg. vprot v pg = None) [p div UMMAP_PAGE_SIZE..<(p + sz) div UMMAP_PAGE_SIZE]"

definition first_fit :: kernel_mmap where
  "first_fit v hint sz = find (\<lambda>p. free_pages v p sz) [1048576, 2097152, 3145728, 4194304]"

lemma first_fit_ok: "kmmap_ok first_fit"
  unfolding kmmap_ok_def
proof (intro allI impI)
  fix v hint sz p
  assume ff: "first_fit v hint sz = Some p" and al: "aligned sz"
  have p: "p \<noteq> 0" "aligned p" and fr: "free_pages v p sz"
    using ff by (auto simp: first_fit_def split: if_splits)
  have "prot_at v a = None" if "in_range p sz a" for a
    using in_pages_page [OF p(2) al, of a] that fr
    by (simp add: free_pages_def list_all_iff prot_at_def in_pages_def)
  with p show "p \<noteq> 0 \<and> aligned p \<and> (\<forall>a. in_range p sz a \<longrightarrow> prot_at v a = None)"
    by blast
qed

section \<open>A small scenario\<close>

definition vm0 :: vm where
  "vm0 = \<lparr>vmem = \<lambda>a. 0, vprot = \<lambda>pg. None\<rparr>"

text \<open>A memory driver of two pages with the byte 7 everywhere.\<close>

definition mem0 :: mem_store where
  "mem0 = \<lparr>mem_bytes = \<lambda>a i. 7, mem_share = [16 \<mapsto> 1], mem_brk = 32768\<rparr>"

definition drv0 :: mem_driver where
  "drv0 = driver.extend driver_new \<lparr>md_size = 8192, md_buffer = 16\<rparr>"

definition store0 :: "outside_state lib_store" where
  "store0 = \<lparr>mems = mem0, outside = \<lparr>files = \<lambda>fd x. 0, objects = \<lambda>ob x. 0\<rparr>\<rparr>"

definition map0 :: mapping where
  "map0 = \<lparr>mp_driver = 1, localPolicy = 0, globalPolicy = 0, protection = 3, baseAddress = 1048576,
     segments = 2, segmentSize = 4096, mp_size = 5000, storageOffset = 0,
     segmentStatus = replicate 2 \<lparr>mapped = False, dirty = False, needRead = True\<rparr>,
     mappingDriverId = 0, segmentMutexesCnt = 2, threadSafe = True\<rparr>"

definition vm1 :: vm where
  "vm1 = sys_map 1048576 8192 (False, False, False) vm0"

lemma map0_new:
  "newMapping_core (lib_ops ram_env) first_fit 4 (DMemory drv0) 0 5000 4096 0 3 0 1 0 0 store0 vm0 =
     Inr (map0, store0, vm1)"
  by (simp add: newMapping_core_def mapSize_of_def registerRange_def lib_ops_def lib_establish_mapping_def
      lib_checkThreadSafety_def lib_directMmap_def driver_defaults has_flag_def mmapProtNone_def
      first_fit_def free_pages_def vm0_def vm1_def map0_def list_all_iff)

section \<open>A write fault of the scenario\<close>

lemma map0_simps [simp]:
  "mp_driver map0 = 1" "localPolicy map0 = 0" "globalPolicy map0 = 0" "protection map0 = 3"
  "baseAddress map0 = 1048576" "segments map0 = 2" "segmentSize map0 = 4096" "mp_size map0 = 5000"
  "storageOffset map0 = 0" "threadSafe map0" "segmentMutexesCnt map0 = 2"
  "segmentStatus map0 = replicate 2 \<lparr>mapped = False, dirty = False, needRead = True\<rparr>"
  by (simp_all add: map0_def)

definition vm2 :: vm where
  "vm2 = sys_mremap 2097152 4096 1052672
     (store_buf 2097152 904 (\<lambda>i. if i < 904 then 7 else load_buf 2097152 (sys_map 2097152 4096 (True, True, False) vm1) i)
        (sys_map 2097152 4096 (True, True, False) vm1))"

definition map1 :: mapping where
  "map1 = set_status 1 \<lparr>mapped = True, dirty = True, needRead = True\<rparr> map0"

text \<open>The steps of a write fault on the second segment.\<close>

lemma free1: "first_fit vm1 0 4096 = Some 2097152"
  by (simp add: first_fit_def free_pages_def vm1_def sys_map_def in_pages_def vm0_def)

lemma rw1: "readWriteSize 4096 map0 = 904"
  by (simp add: readWriteSize_def)

lemma pread1: "d_pread (lib_ops ram_env) (DMemory drv0) 2097152 buf 904 4096 store0 =
   Inr (904, \<lambda>i. if i < 904 then 7 else buf i, store0)"
  by (simp add: lib_ops_def lib_pread_def lib_plumbing memory_pread_def drv0_def store0_def mem0_def
    driver.defs fun_eq_iff)

lemma load1: "loadAndSwapSegment (lib_ops ram_env) first_fit (DMemory drv0) 4096 True map0 store0 vm1 = Inr (store0, vm2)"
  by (simp add: loadAndSwapSegment_def mmapProtFull_def free1 has_flag_def rw1 pread1 Let_def
    mremapForced_def pages_mapped_ops vm2_def)

lemma fault1: "onSegmentationFault_cs (lib_ops ram_env) first_fit (DMemory drv0) 1052676 True map0 store0 vm1 =
  Inr (map1, store0, vm2, Some (1, \<lparr>mapped = False, dirty = False, needRead = True\<rparr>))"
  by (simp add: onSegmentationFault_cs_def load1 has_flag_def Let_def map1_def)

lemma vm2_write: "can_write vm2 1052676" "vmem vm2 1052678 = 7" "can_read vm2 1052678"
  by (simp_all add: can_write_def can_read_def prot_at_def vm2_def sys_mremap_def in_pages_def
   store_buf_def sys_map_def in_range_def)

end
