(* ===== verification/Transfers.thy ===== *)
theory Transfers
  imports LibDriver MappingLife
begin

text \<open>
  What a mapping does with a driver whose transfers may be cut short. A run that is watched
  for short transfers and is not stopped is a run of the code; and whatever the driver
  transfers, a mapping stays well formed, since its statuses and its protections depend on the
  driver only through the calls that fail.
\<close>

section \<open>Drivers that abort more often\<close>

lemma bindE_mono:
  assumes "bindE a f = Inr x" and "\<And>y. a = Inr y \<Longrightarrow> b = Inr y" and "\<And>y. f y = Inr x \<Longrightarrow> g y = Inr x"
  shows "bindE b g = Inr x"
  using assms by (auto simp: bindE_eq_Inr)

lemma if_mono:
  "(if c then a else b) = Inr x \<Longrightarrow> (a = Inr x \<Longrightarrow> a' = Inr x) \<Longrightarrow> (if c then a' else b) = Inr x"
  by (simp split: if_splits)

lemma guard_passed: "(if \<not> c then Inl e else a) = Inr x \<Longrightarrow> c \<and> a = Inr x"
  by (simp split: if_splits)

lemma foldE_mono:
  assumes "foldE f xs s = Inr s'" and "\<And>x s s'. f x s = Inr s' \<Longrightarrow> g x s = Inr s'"
  shows "foldE g xs s = Inr s'"
  using assms(1) by (induction xs arbitrary: s) (auto simp: bindE_eq_Inr dest: assms(2))

locale stricter_ops =
  fixes strict ops :: "('d, 's) driver_ops" and d :: 'd
  assumes strict_pread: "d_pread strict d ptr buf sz off s = Inr x \<Longrightarrow> d_pread ops d ptr buf sz off s = Inr x"
    and strict_pwrite: "d_pwrite strict d ptr buf sz off s = Inr y \<Longrightarrow> d_pwrite ops d ptr buf sz off s = Inr y"
    and strict_same: "d_sync strict d = d_sync ops d" "d_directMmap strict d = d_directMmap ops d"
      "d_directMSync strict d = d_directMSync ops d" "d_establish_mapping strict d = d_establish_mapping ops d"
      "d_checkThreadSafety strict d = d_checkThreadSafety ops d"
begin

lemma strict_load:
  assumes "loadAndSwapSegment strict kmmap d off w m s v = Inr x"
  shows "loadAndSwapSegment ops kmmap d off w m s v = Inr x"
  using assms unfolding loadAndSwapSegment_def
  by (rule bindE_mono) (assumption, simp only: split_paired_all prod.case, erule bindE_mono, erule strict_pread, assumption)

lemma strict_fault:
  assumes "onSegmentationFault_cs strict kmmap d a w m s v = Inr x"
  shows "onSegmentationFault_cs ops kmmap d a w m s v = Inr x"
  using assms
  by (auto simp: onSegmentationFault_cs_def Let_def bindE_eq_Inr dest!: strict_load split: if_splits)

lemma strict_flush_segment:
  assumes "flush_segment strict d unmap off x = Inr y"
  shows "flush_segment ops d unmap off x = Inr y"
proof (cases x)
  case (fields m s v)
  show ?thesis
    using assms unfolding fields flush_segment_def prod.case Let_def
    by (rule bindE_mono)
      (erule if_mono, erule bindE_mono, assumption, erule bindE_mono, erule strict_pwrite, assumption, assumption)
qed

lemma strict_flush:
  assumes "flush strict d off sz flags m s v = Inr x"
  shows "flush ops d off sz flags m s v = Inr x"
proof -
  have fold: "foldE (flush_segment strict d u) xs s0 = Inr s1 \<Longrightarrow> foldE (flush_segment ops d u) xs s0 = Inr s1"
    for u xs s0 s1
    by (erule foldE_mono) (rule strict_flush_segment)
  show ?thesis
    using assms unfolding flush_def Let_def strict_same
    by (auto simp: bindE_eq_Inr dest!: fold split: if_splits prod.splits) blast+
qed

lemma strict_newMapping:
  "newMapping_core strict kmmap cpus d addr sz sg offset prot flags drv lp gp s v =
   newMapping_core ops kmmap cpus d addr sz sg offset prot flags drv lp gp s v"
proof -
  have "registerRange strict d = registerRange ops d"
    by (simp add: fun_eq_iff registerRange_def strict_same)
  then show ?thesis
    unfolding newMapping_core_def by (simp only: strict_same)
qed

lemma strict_mstep:
  assumes "mstep strict kmmap d \<sigma> e \<sigma>'"
  shows "mstep ops kmmap d \<sigma> e \<sigma>'"
  using assms
proof (cases rule: mstep.cases)
  case (Fault a w m s v m' s' v' r)
  then show ?thesis by (auto intro: mstep.Fault strict_fault)
next
  case (Flush offset sz flags m s v m' s' v')
  then show ?thesis by (auto intro: mstep.Flush strict_flush)
next
  case (Evict i m s v m' s' v')
  then show ?thesis by (auto simp: evict_flush_def intro!: mstep.Evict strict_flush)
qed (auto intro: mstep.intros)

lemma strict_mrun:
  assumes "mrun strict kmmap d \<sigma> es \<sigma>'"
  shows "mrun ops kmmap d \<sigma> es \<sigma>'"
  using assms by (induction rule: mrun.induct) (auto intro: mrun.intros strict_mstep)

end

text \<open>The watched driver aborts more often than the driver.\<close>

interpretation uncut: stricter_ops "uncut content ops" ops d for content ops d
proof
  fix ptr buf sz off s x
  assume "d_pread (uncut content ops) d ptr buf sz off s = Inr x"
  then show "d_pread ops d ptr buf sz off s = Inr x"
    by (cases x) (simp add: uncut_calls)
next
  fix ptr buf sz off s y
  assume "d_pwrite (uncut content ops) d ptr buf sz off s = Inr y"
  then show "d_pwrite ops d ptr buf sz off s = Inr y"
    by (cases y) (simp add: uncut_calls)
qed (simp_all add: uncut_calls)

text \<open>A driver whose transfers are never cut short is not stopped by the watching.\<close>

lemma never_cut:
  assumes "storage_driver ops content d"
  shows "stricter_ops ops (uncut content ops) d"
proof
  fix ptr buf sz off s x
  assume rd: "d_pread ops d ptr buf sz off s = Inr x"
  obtain r buf' s' where x: "x = (r, buf', s')" by (cases x)
  from storage_driver.pread_short [OF assms rd [unfolded x]] rd show "d_pread (uncut content ops) d ptr buf sz off s = Inr x"
    by (auto simp: uncut_calls x)
next
  fix ptr buf sz off s y
  assume wr: "d_pwrite ops d ptr buf sz off s = Inr y"
  obtain r s' where y: "y = (r, s')" by (cases y)
  from storage_driver.pwrite_full [OF assms wr [unfolded y]] wr show "d_pwrite (uncut content ops) d ptr buf sz off s = Inr y"
    by (simp add: uncut_calls y)
qed (simp_all add: uncut_calls)

section \<open>Well-formedness does not depend on the transfers\<close>

text \<open>The ideal driver: an array of bytes, read and written completely.\<close>

definition array_ops :: "(unit, nat \<Rightarrow> byte) driver_ops" where
  "array_ops =
     \<lparr>d_pwrite = \<lambda>d ptr buf sz off c. Inr (int sz, \<lambda>x. if off \<le> x \<and> x < off + sz then buf (x - off) else c x),
      d_pread = \<lambda>d ptr buf sz off c. Inr (int sz, \<lambda>i. if i < sz then c (off + i) else buf i, c),
      d_sync = \<lambda>d ptr off sz c v. Inr (c, v),
      d_directMmap = default_directMmap, d_directMunmap = default_directMunmap,
      d_directMSync = default_directMSync, d_establish_mapping = default_establish_mapping,
      d_erase_mapping = default_erase_mapping, d_checkThreadSafety = default_checkThreadSafety\<rparr>"

abbreviation array_content :: "unit \<Rightarrow> (nat \<Rightarrow> byte) \<Rightarrow> nat \<Rightarrow> byte" where
  "array_content \<equiv> \<lambda>d c. c"

interpretation array: storage_driver array_ops array_content "()"
  by unfold_locales (auto simp: array_ops_def driver_defaults)

lemma array_sync [simp]: "d_sync array_ops d ptr off sz c v = Inr (c, v)"
  by (simp add: array_ops_def)

lemma array_backing:
  "mapping_ok cont m v \<Longrightarrow> mapping_ok (backing array_content () (\<lambda>y. cont (y - storageOffset m)) m) m v"
proof -
  have "backing array_content () (\<lambda>y. cont (y - storageOffset m)) m = cont"
    by (simp add: fun_eq_iff backing_def)
  then show "mapping_ok cont m v \<Longrightarrow> ?thesis" by simp
qed

context storage_calls
begin

lemma array_flush_segment:
  assumes "flush_segment ops d unmap off (m, s, v) = Inr (m', s', v')"
  shows "\<exists>c'. flush_segment array_ops () unmap off (m, c, v) = Inr (m', c', v')"
  using assms
  by (auto simp: flush_segment_def array_ops_def Let_def bindE_eq_Inr split: if_splits)

lemma array_flush_fold:
  assumes "foldE (flush_segment ops d unmap) offs (m, s, v) = Inr (m', s', v')"
  shows "\<exists>c'. foldE (flush_segment array_ops () unmap) offs (m, c, v) = Inr (m', c', v')"
  using assms
proof (induction offs arbitrary: m s v c)
  case (Cons off offs)
  obtain m1 s1 v1 where one: "flush_segment ops d unmap off (m, s, v) = Inr (m1, s1, v1)"
    and rest: "foldE (flush_segment ops d unmap) offs (m1, s1, v1) = Inr (m', s', v')"
    using Cons.prems by (auto simp: bindE_eq_Inr)
  obtain c1 where "flush_segment array_ops () unmap off (m, c, v) = Inr (m1, c1, v1)"
    using array_flush_segment [OF one] by blast
  with Cons.IH [OF rest, of c1] show ?case by simp
qed simp

lemma array_flush:
  assumes "flush ops d off sz flags m s v = Inr (m', s', v')"
  shows "\<exists>c'. flush array_ops () off sz flags m c v = Inr (m', c', v')"
proof -
  let ?range = "for_range off (sz_add off sz) (segmentSize m)" and ?unmap = "has_flag flags UMMAP_FLUSH_UNMAP"
  obtain s2 v2 where fold: "foldE (flush_segment ops d ?unmap) ?range (m, s, v) = Inr (m', s2, v2)" and v2: "v2 = v'"
    using assms by (auto simp: flush_def no_directMSync Let_def bindE_eq_Inr dest: sync_keeps split: if_splits)
  obtain c' where "foldE (flush_segment array_ops () ?unmap) ?range (m, c, v) = Inr (m', c', v')"
    using array_flush_fold [OF fold] v2 by blast
  then show ?thesis
    using assms array.no_directMSync
    by (auto simp: flush_def no_directMSync array_sync Let_def bindE_eq_Inr split: if_splits)
qed

lemma array_load:
  assumes sh: "shape m" and i: "i < segments m"
    and run: "loadAndSwapSegment ops kmmap d (i * segmentSize m) w m s v = Inr (s1, v1)"
  shows "\<exists>c'. (\<forall>x < mp_size m. x div segmentSize m \<noteq> i \<longrightarrow> c' (storageOffset m + x) = c (storageOffset m + x)) \<and>
    loadAndSwapSegment array_ops kmmap () (i * segmentSize m) w m c' v = Inr (c', v1)"
proof -
  let ?off = "i * segmentSize m"
  let ?rw = "readWriteSize ?off m"
  have off: "sz_add (storageOffset m) ?off = storageOffset m + ?off"
    using segment_offset(3) [OF sh i] by simp
  obtain ptr va r buf s2 where first: "(if threadSafe m then mmapProtFull kmmap (segmentSize m) (exec_flag m) v
        else bindE (mprotect (baseAddress m + ?off) (segmentSize m) True True (exec_flag m) v)
               (\<lambda>v'. Inr (baseAddress m + ?off, v'))) = Inr (ptr, va)"
    and r: "0 \<le> (r :: int)"
    and rest: "bindE (if \<not> w then mprotect ptr (segmentSize m) True False (exec_flag m) (store_buf ptr ?rw buf va)
        else Inr (store_buf ptr ?rw buf va))
        (\<lambda>v3. bindE (if threadSafe m then mremapForced ptr (segmentSize m) (baseAddress m + ?off) v3 else Inr v3)
          (\<lambda>v4. Inr (s2, v4))) = Inr (s1, v1)"
    using run unfolding loadAndSwapSegment_def
    by - (erule bindE_InrE, simp only: split_paired_all prod.case, erule bindE_InrE,
      simp only: split_paired_all prod.case Let_def, drule guard_passed, erule conjE, rule that, assumption+)
  define c' where "c' y = (if storageOffset m + ?off \<le> y \<and> y < storageOffset m + ?off + ?rw
    then buf (y - (storageOffset m + ?off)) else c y)" for y
  have "c' (storageOffset m + x) = c (storageOffset m + x)" if "x < mp_size m" "x div segmentSize m \<noteq> i" for x
    using readWriteSize_range [OF sh i, of x] that by (auto simp: c'_def)
  moreover have "store_buf ptr ?rw (\<lambda>j. if j < ?rw then c' (storageOffset m + ?off + j) else load_buf ptr va j) va =
      store_buf ptr ?rw buf va"
    unfolding store_buf_def by (intro arg_cong [where f = "\<lambda>f. va\<lparr>vmem := f\<rparr>"] ext) (simp add: c'_def in_range_def, linarith?)
  ultimately show ?thesis
    using rest first
    by (intro exI [of _ c']) (simp add: loadAndSwapSegment_def array_ops_def off Let_def, auto simp: bindE_eq_Inr)
qed

text \<open>A fault loads from the ideal driver what it loaded from the driver.\<close>

lemma array_fault:
  assumes ok: "mapping_ok cont m v"
    and run: "onSegmentationFault_cs ops kmmap d a w m s v = Inr (m', s', v', r)"
  shows "\<exists>c. mapping_ok (backing array_content () c m) m v \<and>
    onSegmentationFault_cs array_ops kmmap () a w m c v = Inr (m', c, v', r)"
proof -
  note sh = mapping_okD(1) [OF ok]
  let ?c = "\<lambda>y. cont (y - storageOffset m)" and ?i = "(a - baseAddress m) div segmentSize m"
  have "baseAddress m \<le> a" "a < baseAddress m + segments m * segmentSize m"
    using run by (auto simp: onSegmentationFault_cs_def split: if_splits)
  note i = fault_segment(1,2) [OF sh this refl]
  show ?thesis
  proof (cases "\<not> mapped (segmentStatus m ! ?i) \<and> needRead (segmentStatus m ! ?i)")
    case False
    then have "onSegmentationFault_cs array_ops kmmap () a w m ?c v = Inr (m', ?c, v', r)"
      using run by (auto simp: onSegmentationFault_cs_def Let_def split: if_splits)
    then show ?thesis using array_backing [OF ok] by blast
  next
    case True
    then obtain s1 v1 where ld: "loadAndSwapSegment ops kmmap d (?i * segmentSize m) w m s v = Inr (s1, v1)"
      and m': "m' = set_status ?i ((if w then (segmentStatus m ! ?i)\<lparr>dirty := True\<rparr> else segmentStatus m ! ?i)\<lparr>mapped := True\<rparr>) m"
        "v' = v1" "r = Some (?i, segmentStatus m ! ?i)" "\<not> (w = dirty (segmentStatus m ! ?i) \<and> mapped (segmentStatus m ! ?i))"
      and p: "protection m \<noteq> 0" "\<not> (w \<and> \<not> has_flag (protection m) PROT_WRITE)"
      using run i(2) by (auto simp: onSegmentationFault_cs_def Let_def split: if_splits)
    from array_load [OF sh i(1) ld, of ?c] obtain c' where
      same: "\<And>x. x < mp_size m \<Longrightarrow> x div segmentSize m \<noteq> ?i \<Longrightarrow> c' (storageOffset m + x) = cont x"
      and c': "loadAndSwapSegment array_ops kmmap () (?i * segmentSize m) w m c' v = Inr (c', v1)"
      by auto
    have "mapping_ok (backing array_content () c' m) m v"
      using ok True same by (auto simp: mapping_ok_def seg_ok_def byte_ok_def backing_def) metis
    moreover have "onSegmentationFault_cs array_ops kmmap () a w m c' v = Inr (m', c', v', r)"
      using run True p c' m' i(2) by (auto simp: onSegmentationFault_cs_def Let_def split: if_splits)
    ultimately show ?thesis by blast
  qed
qed

lemma array_simulates:
  assumes ok: "mapping_ok cont m v" and st: "mstep ops kmmap d (m, s, v) e (m', s', v')"
  shows "\<exists>c c'. mapping_ok (backing array_content () c m) m v \<and> mstep array_ops kmmap () (m, c, v) e (m', c', v')"
proof -
  let ?c = "\<lambda>y. cont (y - storageOffset m)"
  note bk = array_backing [OF ok]
  from st show ?thesis
  proof (cases rule: mstep_cases)
    case (Fault a w r)
    with array_fault [OF ok Fault(2)] show ?thesis by (blast intro: mstep.Fault)
  next
    case (Flush offset sz flags)
    with array_flush [OF Flush(3), of ?c] bk show ?thesis by (blast intro: mstep.Flush)
  next
    case (Evict i)
    with array_flush [of "sz_mul i (segmentSize m)" _ _ m s v m' s' v' ?c] bk show ?thesis
      unfolding evict_flush_def by (blast intro: mstep.Evict [unfolded evict_flush_def])
  qed (use bk in \<open>blast intro: mstep.intros\<close>)+
qed

text \<open>Whatever the driver transfers, a mapping keeps a size and stays well formed.\<close>

lemma mrun_wellformed:
  assumes "mrun ops kmmap d \<sigma> es \<sigma>'" and k: "kmmap_ok kmmap"
    and "mapping_ok cont (fst \<sigma>) (snd (snd \<sigma>))"
  shows "\<exists>cont'. mapping_ok cont' (fst \<sigma>') (snd (snd \<sigma>')) \<and> mp_size (fst \<sigma>') = mp_size (fst \<sigma>)"
  using assms(1,3)
proof (induction arbitrary: cont rule: mrun.induct)
  case (Step \<sigma> e \<sigma>1 es \<sigma>2)
  obtain m s v m1 s1 v1 where [simp]: "\<sigma> = (m, s, v)" "\<sigma>1 = (m1, s1, v1)"
    by (cases \<sigma>, cases \<sigma>1) auto
  obtain c c' where "mapping_ok (backing array_content () c m) m v" "mstep array_ops kmmap () (m, c, v) e (m1, c', v1)"
    using array_simulates [of cont m v kmmap s e m1 s1 v1] Step by auto
  then have "represents array_content () (view (backing array_content () c m) m v) (mp_size m) (m, c, v)"
    by (simp add: represents_def)
  from array.mstep_represents(1) [OF \<open>mstep array_ops _ _ _ _ _\<close> k this]
  have "mapping_ok (backing array_content () c' m1) m1 v1" and "mp_size m1 = mp_size m"
    by (simp_all add: represents_def)
  with Step.IH [of "backing array_content () c' m1"] show ?case by simp
qed auto

end

section \<open>Faults and flushes on drivers that may transfer less\<close>

lemma for_range_flush:
  assumes "0 < sg" and "offset mod sg = 0" and "sz mod sg = 0"
  shows "for_range offset (offset + sz) sg = map (\<lambda>i. i * sg) [offset div sg..<(offset + sz) div sg]"
proof -
  obtain k n where k: "offset = k * sg" and n: "sz = n * sg"
    using assms(2,3) by (metis mod_eq_0_iff_dvd dvd_def mult.commute)
  have "for_range offset (offset + sz) sg = map (\<lambda>j. offset + j * sg) [0..<n]"
    unfolding n by (rule for_range_multiple [OF assms(1)])
  also have "\<dots> = map (\<lambda>i. i * sg) [k..<k + n]"
    by (rule nth_equalityI) (simp_all add: k distrib_right)
  finally show ?thesis
    using assms(1) by (simp add: k n flip: distrib_right)
qed

lemma flush_guards:
  assumes "shape m" and "offset + sz < W64" and "flush ops d offset sz flags m s v = Inr \<sigma>"
  shows "offset mod segmentSize m = 0" and "sz mod segmentSize m = 0" and "offset + sz \<le> segments m * segmentSize m"
  using assms by (auto simp: flush_def shape_def getAlignedSize_def mult.commute split: if_splits)

context storage_calls
begin

text \<open>A fault gives the access whatever the driver transfers.\<close>

lemma fault_gives_access:
  assumes ok: "mapping_ok cont m v" and k: "kmmap_ok kmmap" and i: "i < segments m" and a: "a \<in> seg_addrs m i"
    and run: "onSegmentationFault_cs ops kmmap d a w m s v = Inr (m', s', v', r)"
  shows "can_read v' a" and "w \<Longrightarrow> \<not> (mapped (segmentStatus m ! i) \<and> dirty (segmentStatus m ! i)) \<Longrightarrow> can_write v' a"
    and "\<exists>cont'. mapping_ok cont' m' v'"
proof -
  obtain c where c: "mapping_ok (backing array_content () c m) m v"
    and run': "onSegmentationFault_cs array_ops kmmap () a w m c v = Inr (m', c, v', r)"
    using array_fault [OF ok run] by blast
  note acc = array.fault_enables [OF c k run']
  show "can_read v' a" by (rule acc(1))
  obtain j where "segment_step array_content {j} () (m, c, v) (m', c, v')"
    by (rule array.fault_step [OF c k run'])
  from segment_step_ok(1) [OF this] show "\<exists>cont'. mapping_ok cont' m' v'" by blast
  assume w: "w" and st: "\<not> (mapped (segmentStatus m ! i) \<and> dirty (segmentStatus m ! i))"
  note sh = mapping_okD(1) [OF ok]
  obtain x where "a = baseAddress m + x" "x div segmentSize m = i"
    by (rule segment_address [OF sh a])
  then have "r \<noteq> None"
    using run' w st by (auto simp: onSegmentationFault_cs_def Let_def split: if_splits)
  with acc(2) w show "can_write v' a" by simp
qed

lemma flush_segment_writes:
  assumes sh: "shape m" and i: "i < segments m"
    and run: "flush_segment ops d u (i * segmentSize m) (m, s, v) = Inr (m', s', v')"
  shows "content d s' y = content d s y \<or>
      (\<exists>x < mp_size m. y = storageOffset m + x \<and> x div segmentSize m = i \<and> dirty (segmentStatus m ! i))"
    and "\<exists>st. m' = set_status i st m"
proof -
  let ?off = "i * segmentSize m"
  let ?rw = "readWriteSize ?off m" and ?st = "segmentStatus m ! i"
  have off: "sz_add (storageOffset m) ?off = storageOffset m + ?off" and idx: "?off div segmentSize m = i"
    using segment_offset(3) [OF sh i] sh by (simp_all add: shape_def)
  note body = run [unfolded flush_segment_def Let_def prod.case idx off]
  show "\<exists>st. m' = set_status i st m"
    using body by (auto simp: bindE_eq_Inr split: if_splits)
  show "content d s' y = content d s y \<or>
      (\<exists>x < mp_size m. y = storageOffset m + x \<and> x div segmentSize m = i \<and> dirty ?st)"
  proof (cases "dirty ?st \<and> mapped ?st")
    case True
    then obtain ptr buf r where wr: "d_pwrite ops d ptr buf ?rw (storageOffset m + ?off) s = Inr (r, s')" and r: "0 \<le> r"
      using body by (auto simp: bindE_eq_Inr split: if_splits)
    have "\<exists>x < mp_size m. y = storageOffset m + x \<and> x div segmentSize m = i"
      if in_seg: "storageOffset m + ?off \<le> y \<and> y < storageOffset m + ?off + nat r"
    proof -
      have "?off \<le> y - storageOffset m \<and> y - storageOffset m < ?off + ?rw"
        using in_seg pwrite_count [OF wr r] by linarith
      with in_seg show ?thesis
        unfolding readWriteSize_range [OF sh i] by (intro exI [of _ "y - storageOffset m"]) simp
    qed
    with pwrite_part [OF wr r, of y] True show ?thesis by auto
  next
    case False
    then show ?thesis
      using body by (auto simp: bindE_eq_Inr split: if_splits)
  qed
qed

lemma flush_fold_writes:
  assumes "shape m" and "set is \<subseteq> {..<segments m}" and "distinct is"
    and "foldE (flush_segment ops d u) (map (\<lambda>i. i * segmentSize m) is) (m, s, v) = Inr (m', s', v')"
  shows "content d s' y = content d s y \<or>
      (\<exists>x < mp_size m. y = storageOffset m + x \<and> x div segmentSize m \<in> set is \<and> dirty (segmentStatus m ! (x div segmentSize m)))"
  using assms
proof (induction "is" arbitrary: m s v)
  case (Cons i "is")
  obtain m1 s1 v1 where one: "flush_segment ops d u (i * segmentSize m) (m, s, v) = Inr (m1, s1, v1)"
    and rest: "foldE (flush_segment ops d u) (map (\<lambda>i. i * segmentSize m) is) (m1, s1, v1) = Inr (m', s', v')"
    using Cons.prems(4) by (auto simp: bindE_eq_Inr)
  have i: "i < segments m"
    using Cons.prems(2) by simp
  note f = flush_segment_writes [OF Cons.prems(1) i one]
  obtain st where m1: "m1 = set_status i st m"
    using f(2) by blast
  have "segmentStatus m1 ! j = segmentStatus m ! j" if "j \<in> set is" for j
    using that Cons.prems(3) by (cases "j = i") (simp_all add: m1 set_status_def)
  with Cons.IH [of m1 s1 v1] Cons.prems rest f(1) [of y] show ?case
    by (auto simp: m1)
qed simp

lemma flush_writes:
  assumes ok: "mapping_ok cont m v" and sz: "offset + sz < W64"
    and run: "flush ops d offset sz flags m s v = Inr (m', s', v')"
  defines "I \<equiv> {offset div segmentSize m..<(offset + sz) div segmentSize m}"
  shows "content d s' y = content d s y \<or>
      (\<exists>x < mp_size m. y = storageOffset m + x \<and> x div segmentSize m \<in> I \<and> dirty (segmentStatus m ! (x div segmentSize m)))"
    and "i \<in> I \<Longrightarrow> segmentStatus m' ! i = flushed (has_flag flags UMMAP_FLUSH_UNMAP) (segmentStatus m ! i)"
proof -
  note sh = mapping_okD(1) [OF ok]
  then have sg: "0 < segmentSize m" by (simp add: shape_def)
  note g = flush_guards [OF sh sz run]
  obtain s1 v1 where loop: "foldE (flush_segment ops d (has_flag flags UMMAP_FLUSH_UNMAP))
      (map (\<lambda>i. i * segmentSize m) [offset div segmentSize m..<(offset + sz) div segmentSize m]) (m, s, v) = Inr (m', s1, v1)"
    and fin: "content d s' = content d s1"
    using run sz unfolding flush_def no_directMSync
    by (auto simp: Let_def for_range_flush [OF sg g(1,2)] split: if_splits dest!: sync_keeps)
  have "(offset + sz) div segmentSize m \<le> segments m"
    using g(3) sg by (metis div_le_mono div_mult_self_is_m)
  then have sub: "set [offset div segmentSize m..<(offset + sz) div segmentSize m] \<subseteq> {..<segments m}"
    by auto
  from flush_fold_writes [OF sh sub distinct_upt loop, of y] show "content d s' y = content d s y \<or>
      (\<exists>x < mp_size m. y = storageOffset m + x \<and> x div segmentSize m \<in> I \<and> dirty (segmentStatus m ! (x div segmentSize m)))"
    by (simp add: fin I_def)
  show "segmentStatus m' ! i = flushed (has_flag flags UMMAP_FLUSH_UNMAP) (segmentStatus m ! i)" if "i \<in> I"
    using array_flush [OF run, of "\<lambda>y. cont (y - storageOffset m)"] array.flush_correct(2) [OF array_backing [OF ok] sz _ refl, folded I_def]
      that by blast
qed

text \<open>An eviction flushes one segment; it forgets the bytes that were not transferred.\<close>

lemma evict_is_flush_segment:
  assumes sh: "shape m" and i: "i < segments m"
  shows "evict_flush ops d i m s v = flush_segment ops d True (i * segmentSize m) (m, s, v)"
proof -
  let ?sg = "segmentSize m"
  note o = segment_offset [OF sh i]
  have sg: "0 < ?sg" and al: "getAlignedSize m = segments m * ?sg"
    using sh by (simp_all add: shape_def getAlignedSize_def mult.commute)
  have w: "i * ?sg + ?sg < W64"
    using o(4) sh by (simp add: shape_def)
  have rng: "for_range (i * ?sg) (i * ?sg + ?sg) ?sg = [i * ?sg]"
    using for_range_flush [OF sg, of "i * ?sg" ?sg] sg by simp
  obtain l where l: "getMutexRange (i * ?sg) ?sg m = Inr l"
    using o w by (simp add: getMutexRange_def getSize_def al Let_def)
  have fl: "has_flag (UMMAP_FLUSH_UNMAP OR UMMAP_FLUSH_NO_LOCK) UMMAP_FLUSH_UNMAP"
    "\<not> has_flag (UMMAP_FLUSH_UNMAP OR UMMAP_FLUSH_NO_LOCK) UMMAP_FLUSH_SYNC"
    by (simp_all add: has_flag_def)
  show ?thesis
    using o w fl
    by (cases "flush_segment ops d True (i * ?sg) (m, s, v)")
      (auto simp: evict_flush_def flush_def getSize_def al no_directMSync rng l Let_def)
qed

lemma evict_short_write:
  assumes ok: "mapping_ok cont m v" and i: "i < segments m" and dt: "dirty (segmentStatus m ! i)"
    and wr: "d_pwrite ops d (baseAddress m + i * segmentSize m) (load_buf (baseAddress m + i * segmentSize m) v)
      (readWriteSize (i * segmentSize m) m) (storageOffset m + i * segmentSize m) s = Inr (r, s1)" and r: "0 \<le> r"
    and x: "x div segmentSize m = i" "x < mp_size m" "nat r \<le> x - i * segmentSize m"
  shows "\<exists>m' v'. evict_flush ops d i m s v = Inr (m', s1, v') \<and>
    segmentStatus m' ! i = \<lparr>mapped = False, dirty = False, needRead = True\<rparr> \<and>
    view (backing content d s1 m') m' v' x = content d s (storageOffset m + x)"
proof -
  let ?off = "i * segmentSize m"
  let ?v1 = "if threadSafe m then sys_mprotect (baseAddress m + ?off) (segmentSize m) (True, False, exec_flag m) v else v"
  let ?v2 = "madviseDontNeed (baseAddress m + ?off) (segmentSize m)
    (sys_mprotect (baseAddress m + ?off) (segmentSize m) (False, False, exec_flag m) ?v1)"
  let ?m = "set_status i \<lparr>mapped = False, dirty = False, needRead = True\<rparr> m"
  note sh = mapping_okD(1) [OF ok]
  have off: "sz_add (storageOffset m) ?off = storageOffset m + ?off" and idx: "?off div segmentSize m = i"
    using segment_offset(3) [OF sh i] sh by (simp_all add: shape_def)
  have mp: "mapped (segmentStatus m ! i)"
    using seg_okD(1) [OF mapping_okD(2) [OF ok i] dt] .
  have ld: "load_buf (baseAddress m + ?off) ?v1 = load_buf (baseAddress m + ?off) v"
    by (simp add: fun_eq_iff load_buf_def sys_mprotect_def)
  have st: "st\<lparr>dirty := False, needRead := True, mapped := False\<rparr> = \<lparr>mapped = False, dirty = False, needRead = True\<rparr>"
    for st :: segment_status
    by (cases st) simp
  have "evict_flush ops d i m s v = Inr (?m, s1, ?v2)"
    using dt mp wr r ld
    by (cases "threadSafe m")
      (simp_all add: evict_is_flush_segment [OF sh i] flush_segment_def Let_def idx off mprotect_segment [OF sh] st)
  moreover have "content d s1 (storageOffset m + x) = content d s (storageOffset m + x)"
  proof -
    have "\<not> storageOffset m + x < storageOffset m + ?off + nat r"
      using x segment_bounds(1) [of "segmentSize m" x i] sh by (simp add: shape_def)
    with pwrite_part [OF wr r, of "storageOffset m + x"] show ?thesis by simp
  qed
  moreover have "i < length (segmentStatus m)"
    using i sh by (simp add: shape_def)
  ultimately show ?thesis
    using x by (intro exI [of _ ?m] exI [of _ ?v2]) (simp add: view_def backing_def set_status_def)
qed

end

end
