(* ===== verification/MappingProps.thy ===== *)
theory MappingProps
  imports Instances Transfers
begin

text \<open>
  What the mapping promises to the program: the stored bytes reach the storage when the
  mapping is flushed, a fault makes the access possible, and the cases in which the code
  does not keep the promise (a read fault on a dirty segment, a flush of a mapping whose size
  is not a multiple of the segment size).
\<close>

section \<open>Segments that read their storage\<close>

text \<open>Without \<open>UMMAP_NO_FIRST_READ\<close> every segment is filled from the storage, for ever.\<close>

definition all_read :: "mapping \<Rightarrow> bool" where
  "all_read m \<longleftrightarrow> (\<forall>i < segments m. needRead (segmentStatus m ! i))"

lemma all_read_step:
  assumes st: "segment_step content I d (m, s, v) (m', s', v')" and "all_read m"
    and I: "\<And>i. i \<in> I \<Longrightarrow> i < segments m \<Longrightarrow> needRead (segmentStatus m' ! i)"
  shows "all_read m'"
proof -
  obtain sts where m': "m' = m\<lparr>segmentStatus := sts\<rparr>" and other: "\<And>i. i \<notin> I \<Longrightarrow> sts ! i = segmentStatus m ! i"
    using st by (auto simp: segment_step_def)
  show ?thesis
    unfolding all_read_def
  proof (intro allI impI)
    fix i assume "i < segments m'"
    with assms(2) I [of i] other [of i] show "needRead (segmentStatus m' ! i)"
      by (cases "i \<in> I") (auto simp: m' all_read_def)
  qed
qed

lemma newMapping_all_read:
  assumes "newMapping_core ops kmmap cpus d addr sz sg offset prot flags drv lp gp s v = Inr (m, s', v')"
    and "\<not> has_flag flags UMMAP_NO_FIRST_READ"
  shows "all_read m"
  using assms
  by (auto simp: newMapping_core_def registerRange_def Let_def all_read_def split: if_splits)

context storage_driver
begin

lemma evict_step:
  assumes ok: "mapping_ok (backing content d s m) m v" and i: "i < segments m"
    and run: "evict_flush ops d i m s v = Inr (m', s', v')"
  shows "segment_step content {i} d (m, s, v) (m', s', v')"
    and "segmentStatus m' ! i = flushed True (segmentStatus m ! i)"
proof -
  let ?sg = "segmentSize m"
  note sh = mapping_okD(1) [OF ok]
  have off: "sz_mul i ?sg = i * ?sg" and w: "i * ?sg + ?sg < W64"
    using segment_offset [OF sh i] sh by (auto simp: shape_def)
  have "(i * ?sg + ?sg) div ?sg = Suc i"
    using sh by (simp add: shape_def)
  then have I: "{i} = {i * ?sg div ?sg..<(i * ?sg + ?sg) div ?sg}"
    using sh by (auto simp: shape_def)
  note f = flush_correct [OF ok w run [unfolded evict_flush_def off] I]
  show "segment_step content {i} d (m, s, v) (m', s', v')"
    by (rule f(1))
  have "has_flag (UMMAP_FLUSH_UNMAP OR UMMAP_FLUSH_NO_LOCK) UMMAP_FLUSH_UNMAP"
    by (simp add: has_flag_def)
  with f(2) [of i] show "segmentStatus m' ! i = flushed True (segmentStatus m ! i)"
    by simp
qed

lemma mstep_all_read:
  assumes st: "mstep ops kmmap d (m, s, v) e (m', s', v')" and k: "kmmap_ok kmmap"
    and ok: "mapping_ok (backing content d s m) m v" and r: "all_read m"
  shows "all_read m'"
  using st
proof (cases rule: mstep_cases)
  case (Fault a w r')
  note sh = mapping_okD(1) [OF ok]
  then have len: "length (segmentStatus m) = segments m"
    by (simp add: shape_def)
  from sh Fault(2) r len show ?thesis
    by (cases rule: fault_cases) (auto simp: all_read_def set_status_def nth_list_update opened_def)
next
  case (Flush offset sz flags)
  note f = flush_correct [OF ok Flush(2,3) refl]
  show ?thesis
    by (rule all_read_step [OF f(1) r]) (use f(2) r in \<open>auto simp: all_read_def\<close>)
next
  case (Evict i)
  note f = evict_step [OF ok Evict(2,3)]
  show ?thesis
    by (rule all_read_step [OF f(1) r]) (use f(2) r in \<open>auto simp: all_read_def\<close>)
next
  case DropClean
  with dropClean_correct [OF ok] r show ?thesis
    by (auto simp: all_read_def segment_step_def)
next
  case MarkDirty
  with markCleanAsDirty_correct [OF ok] r show ?thesis
    by (auto simp: all_read_def segment_step_def)
qed (use r in auto)

lemma mstep_offset:
  assumes st: "mstep ops kmmap d (m, s, v) e (m', s', v')" and k: "kmmap_ok kmmap"
    and ok: "mapping_ok (backing content d s m) m v"
  shows "storageOffset m' = storageOffset m"
  using st
proof (cases rule: mstep_cases)
  case (Fault a w r')
  from mapping_okD(1) [OF ok] Fault(2) show ?thesis
    by (cases rule: fault_cases) (simp_all add: set_status_def)
next
  case (Flush offset sz flags)
  with segment_step_ok(4) [OF flush_correct(1) [OF ok Flush(2,3) refl]] show ?thesis by auto
next
  case (Evict i)
  then show ?thesis
    using segment_step_ok(4) [OF evict_step(1) [OF ok Evict(2,3)]] by auto
next
  case DropClean
  with dropClean_correct [OF ok] show ?thesis
    by (auto simp: segment_step_def)
next
  case MarkDirty
  with markCleanAsDirty_correct [OF ok] show ?thesis
    by (auto simp: segment_step_def)
qed auto

lemma mrun_all_read:
  assumes "mrun ops kmmap d \<sigma> es \<sigma>'" and "kmmap_ok kmmap" and "represents content d A n \<sigma>"
    and "all_read (fst \<sigma>)"
  shows "all_read (fst \<sigma>')"
  using assms
proof (induction arbitrary: A rule: mrun.induct)
  case (Step \<sigma> e \<sigma>1 es \<sigma>2)
  obtain m s v m1 s1 v1 where \<sigma>: "\<sigma> = (m, s, v)" "\<sigma>1 = (m1, s1, v1)"
    by (cases \<sigma>; cases \<sigma>1)
  have ok: "mapping_ok (backing content d s m) m v"
    using Step.prems(2) by (simp add: \<sigma> represents_def)
  show ?case
    using Step.IH [OF Step.prems(1), of "array_step e A"] Step.prems
      mstep_represents(1) [OF Step.hyps(1) [unfolded \<sigma>] Step.prems(1)]
      mstep_all_read [OF Step.hyps(1) [unfolded \<sigma>] Step.prems(1) ok]
    by (simp add: \<sigma>)
qed simp

lemma mrun_config:
  assumes "mrun ops kmmap d \<sigma> es \<sigma>'" and "kmmap_ok kmmap" and "represents content d A n \<sigma>"
  shows "storageOffset (fst \<sigma>') = storageOffset (fst \<sigma>)"
  using assms
proof (induction arbitrary: A rule: mrun.induct)
  case (Step \<sigma> e \<sigma>1 es \<sigma>2)
  obtain m s v m1 s1 v1 where \<sigma>: "\<sigma> = (m, s, v)" "\<sigma>1 = (m1, s1, v1)"
    by (cases \<sigma>; cases \<sigma>1)
  have ok: "mapping_ok (backing content d s m) m v"
    using Step.prems(2) by (simp add: \<sigma> represents_def)
  show ?case
    using Step.IH [OF Step.prems(1), of "array_step e A"] Step.prems
      mstep_represents(1) [OF Step.hyps(1) [unfolded \<sigma>] Step.prems(1)]
      mstep_offset [OF Step.hyps(1) [unfolded \<sigma>] Step.prems(1) ok]
    by (simp add: \<sigma>)
qed simp

text \<open>A flush of the whole mapping leaves the array in the storage.\<close>

lemma flush_stores:
  assumes A: "represents content d A n (m, s, v)" and r: "all_read m"
    and run: "flush ops d 0 (getAlignedSize m) flags m s v = Inr (m', s', v')" and x: "x < n"
  shows "content d s' (storageOffset m + x) = A x"
proof -
  have ok: "mapping_ok (backing content d s m) m v" and n: "mp_size m = n"
    and vw: "view (backing content d s m) m v x = A x"
    using A x by (simp_all add: represents_def)
  note sh = mapping_okD(1) [OF ok]
  have al: "getAlignedSize m = segments m * segmentSize m"
    using sh by (simp add: shape_def getAlignedSize_def sz_mul_exact mult.commute)
  have w: "0 + getAlignedSize m < W64"
    using sh unfolding al by (simp add: shape_def)
  note f = flush_correct [OF ok w run refl]
  have xs: "x div segmentSize m < segments m" and sg: "segmentSize m > 0"
    using sh x n by (auto simp: shape_def intro: less_mult_imp_div_less)
  have I: "x div segmentSize m \<in> {0 div segmentSize m..<(0 + getAlignedSize m) div segmentSize m}"
    using xs sg by (simp add: al)
  have st': "\<not> dirty (segmentStatus m' ! (x div segmentSize m))" "needRead (segmentStatus m' ! (x div segmentSize m))"
    using f(2) [OF I] r xs seg_okD(1) [OF mapping_okD(2) [OF ok xs]] by (auto simp: all_read_def flushed_def)
  have m': "segmentSize m' = segmentSize m" "mp_size m' = mp_size m" "storageOffset m' = storageOffset m"
    using segment_step_ok(4) [OF f(1)] by auto
  have "view (backing content d s' m') m' v' x = backing content d s' m' x"
    by (rule clean_view [OF segment_step_ok(1) [OF f(1)]]) (use st' m' x n in simp_all)
  then show ?thesis
    using segment_step_ok(3) [OF f(1)] vw x n m' by (simp add: backing_def)
qed

end

section \<open>The promise to the program\<close>

text \<open>
  C3. What the program stored is what the storage holds after a flush: for any sequence of
  accesses, faults, flushes, evictions, drops and re-dirtyings since the construction of the
  mapping (on a memory, file or IOC driver, without \<open>UMMAP_FIXED\<close> and without
  \<open>UMMAP_NO_FIRST_READ\<close>), a flush of the whole mapping that succeeds leaves in the driver, at
  every offset of the mapping, the byte last stored there, and the byte that was there when it
  was never stored to, provided no transfer was cut short: the hypotheses run the code on the
  driver watched by \<open>uncut\<close>, and the conclusion adds that this is the run on the driver itself.
\<close>

theorem flush_stores_array:
  assumes "env_ok env wc" and "soft_driver d" and "kmmap_ok kmmap"
    and "offset + sz + sg < W64" and "\<not> has_flag flags UMMAP_FIXED" and "\<not> has_flag flags UMMAP_NO_FIRST_READ"
    and "newMapping_core (lib_ops env) kmmap cpus d addr sz sg offset prot flags drv lp gp s v = Inr (m, s0, v0)"
    and "mrun (uncut (lib_content wc) (lib_ops env)) kmmap d (m, s0, v0) es (m', s', v')"
    and "flush (uncut (lib_content wc) (lib_ops env)) d 0 (getAlignedSize m') fl m' s' v' = Inr (m2, s2, v2)"
  shows "mrun (lib_ops env) kmmap d (m, s0, v0) es (m', s', v') \<and>
    flush (lib_ops env) d 0 (getAlignedSize m') fl m' s' v' = Inr (m2, s2, v2) \<and>
    (\<forall>x < sz. lib_content wc d s2 (offset + x) = fold array_step es (\<lambda>x. lib_content wc d s (offset + x)) x)"
proof -
  note sd = lib_storage_driver [OF assms(1,2)]
  note new = storage_calls.newMapping_ok [OF lib_storage_calls [OF assms(1,2)] assms(3-5,7)]
  let ?A = "\<lambda>x. lib_content wc d s (offset + x)"
  have A: "represents (lib_content wc) d ?A sz (m, s0, v0)"
    using new(1,4,7) assms(6) by (simp add: represents_def)
  have r: "all_read (fst (m, s0, v0))"
    using newMapping_all_read [OF assms(7,6)] by simp
  have A': "represents (lib_content wc) d (fold array_step es ?A) sz (m', s', v')"
    using storage_driver.mrun_refines [OF sd assms(8,3) A] by blast
  have "all_read m'"
    using storage_driver.mrun_all_read [OF sd assms(8,3) A r] by simp
  moreover have "storageOffset m' = offset"
    using storage_driver.mrun_config [OF sd assms(8,3) A] new(6) by simp
  ultimately show ?thesis
    using storage_driver.flush_stores [OF sd A' _ assms(9)] uncut.strict_mrun [OF assms(8)] uncut.strict_flush [OF assms(9)]
    by simp
qed

text \<open>The scenario of theory \<open>Instances\<close>, continued: a store after the write fault, then a flush.\<close>

definition vm3 :: vm where
  "vm3 = sys_mprotect 1052672 4096 (True, False, False) (store_byte 1052676 9 vm2)"

definition store1 :: "outside_state lib_store" where
  "store1 = store0\<lparr>mems := mem0\<lparr>mem_bytes := (mem_bytes mem0)
     (16 := \<lambda>i. if 4096 \<le> i \<and> i < 5000 then load_buf 1052672 vm3 (i - 4096) else 7)\<rparr>\<rparr>"

definition mapF :: mapping where
  "mapF = set_status 1 \<lparr>mapped = True, dirty = False, needRead = True\<rparr> map1"

lemma run1: "mrun (lib_ops ram_env) first_fit (DMemory drv0) (map0, store0, vm1)
    [MappingLife.Fault 1052676 True, Store 4100 9] (map1, store0, store_byte 1052676 9 vm2)"
proof -
  have 1: "mstep (lib_ops ram_env) first_fit (DMemory drv0) (map0, store0, vm1) (Fault 1052676 True)
      (map1, store0, vm2)"
    by (rule mstep.Fault [OF fault1])
  have 2: "mstep (lib_ops ram_env) first_fit (DMemory drv0) (map1, store0, vm2) (Store 4100 9)
      (map1, store0, store_byte 1052676 9 vm2)"
    using mstep.Store [of 4100 map1 vm2] vm2_write by (simp add: map1_def)
  show ?thesis
    by (rule mrun.Step [OF 1 mrun.Step [OF 2 mrun.Done]])
qed

lemma pwrite1: "d_pwrite (lib_ops ram_env) (DMemory drv0) 1052672 (load_buf 1052672 vm3) 904 4096 store0 = Inr (904, store1)"
  by (simp add: lib_ops_def lib_pwrite_def lib_plumbing memory_pwrite_def drv0_def store0_def mem0_def store1_def
    driver.defs fun_eq_iff)

lemma range1: "for_range 0 8192 4096 = [0, 4096]"
  by simp

lemma map1_simps [simp]:
  "segmentStatus map1 = [\<lparr>mapped = False, dirty = False, needRead = True\<rparr>,
     \<lparr>mapped = True, dirty = True, needRead = True\<rparr>]"
  "baseAddress map1 = 1048576" "segments map1 = 2" "segmentSize map1 = 4096" "mp_size map1 = 5000"
  "storageOffset map1 = 0" "threadSafe map1" "segmentMutexesCnt map1 = 2" "protection map1 = 3"
  by (simp_all add: map1_def set_status_def numeral_2_eq_2)

lemma protect1: "mprotect 1052672 4096 True False False (store_byte 1052676 9 vm2) = Inr vm3"
  by (simp add: mprotect_def vm3_def)

lemma flush1_0: "flush_segment (lib_ops ram_env) (DMemory drv0) False 0 (map1, store0, v) = Inr (map1, store0, v)"
  by (simp add: flush_segment_def set_status_def Let_def)

lemma rw1': "readWriteSize 4096 map1 = 904"
  by (simp add: readWriteSize_def)

lemma flush1_1: "flush_segment (lib_ops ram_env) (DMemory drv0) False 4096
    (map1, store0, store_byte 1052676 9 vm2) = Inr (mapF, store1, vm3)"
  by (simp add: flush_segment_def Let_def has_flag_def protect1 rw1' pwrite1 mapF_def)

lemma flush1: "flush (lib_ops ram_env) (DMemory drv0) 0 8192 0 map1 store0 (store_byte 1052676 9 vm2) =
   Inr (mapF, store1, vm3)"
proof -
  have "d_directMSync (lib_ops ram_env) (DMemory drv0) a n off s v = Inr (False, s, v)" for a n off s v
    by (simp add: lib_ops_def lib_directMSync_def driver_defaults)
  then show ?thesis
    by (simp add: flush_def getSize_def getAlignedSize_def getAddress_def has_flag_def getMutexRange_def Let_def
      range1 flush1_0 flush1_1)
qed

text \<open>A memory driver never cuts a transfer.\<close>

lemma memory_whole: "storage_driver (lib_ops env) (lib_content wc) (DMemory md)" if "env_ok env wc"
proof (rule storage_driver.intro [OF lib_storage_calls [OF that]])
  show "storage_driver_axioms (lib_ops env) (lib_content wc) (DMemory md)"
    by unfold_locales
      (auto simp: lib_ops_def lib_pread_def lib_pwrite_def lib_plumbing memory_pread_def memory_pwrite_def split: if_splits)
qed simp

lemmas ram_whole = memory_whole [OF ram_env_ok]
lemmas ram_watched = never_cut [OF ram_whole]

theorem flush_stores_array_witness:
  "lib_content ram_content (DMemory drv0) store1 (0 + 4100) =
     fold array_step [Fault 1052676 True, Store 4100 9] (\<lambda>x. lib_content ram_content (DMemory drv0) store0 (0 + x)) 4100 \<and>
   lib_content ram_content (DMemory drv0) store1 (0 + 4100) = 9"
proof -
  have "4100 < (5000 :: nat)" by simp
  moreover have "flush (uncut (lib_content ram_content) (lib_ops ram_env)) (DMemory drv0) 0 (getAlignedSize map1) 0
      map1 store0 (store_byte 1052676 9 vm2) = Inr (mapF, store1, vm3)"
    using stricter_ops.strict_flush [OF ram_watched flush1] by (simp add: getAlignedSize_def)
  then have "\<forall>x < 5000. lib_content ram_content (DMemory drv0) store1 (0 + x) =
     fold array_step [Fault 1052676 True, Store 4100 9] (\<lambda>x. lib_content ram_content (DMemory drv0) store0 (0 + x)) x"
    using flush_stores_array [OF ram_env_ok _ first_fit_ok _ _ _ map0_new stricter_ops.strict_mrun [OF ram_watched run1]]
    by (simp add: has_flag_def)
  ultimately have "lib_content ram_content (DMemory drv0) store1 (0 + 4100) =
     fold array_step [Fault 1052676 True, Store 4100 9] (\<lambda>x. lib_content ram_content (DMemory drv0) store0 (0 + x)) 4100"
    by blast
  then show ?thesis by simp
qed

text \<open>
  C9. A fault on an address of a segment is served: when the access is allowed by the
  protection, the kernel gives memory and the driver reads, even less than it was asked for, the
  handler returns and the mapping is well formed. The byte can then be read, and after a write
  fault it can be written unless the segment was already dirty; the handler reports nothing only
  when it has changed nothing. When the read was not cut short the bytes of the mapping are
  those it showed before the fault.
\<close>

theorem fault_serves:
  assumes "env_ok env wc" and "soft_driver d" and "kmmap_ok kmmap"
    and "mapping_ok (backing (lib_content wc) d s m) m v"
    and "i < segments m" and "a \<in> seg_addrs m i"
    and "protection m \<noteq> 0" and "w \<longrightarrow> has_flag (protection m) PROT_WRITE"
    and "threadSafe m \<longrightarrow> kmmap v 0 (segmentSize m) \<noteq> None"
    and "\<And>ptr buf j. ptr \<noteq> 0 \<Longrightarrow> j < segments m \<Longrightarrow> \<exists>r buf' s'. 0 \<le> r \<and>
      d_pread (lib_ops env) d ptr buf (readWriteSize (j * segmentSize m) m) (storageOffset m + j * segmentSize m) s
      = Inr (r, buf', s')"
  shows "\<exists>m' s' v' r. onSegmentationFault_cs (lib_ops env) kmmap d a w m s v = Inr (m', s', v', r) \<and>
    can_read v' a \<and> (w \<and> \<not> dirty (segmentStatus m ! i) \<longrightarrow> can_write v' a) \<and>
    (r = None \<longrightarrow> m' = m \<and> s' = s \<and> v' = v) \<and> (\<exists>cont'. mapping_ok cont' m' v') \<and>
    (onSegmentationFault_cs (uncut (lib_content wc) (lib_ops env)) kmmap d a w m s v = Inr (m', s', v', r) \<longrightarrow>
      mapping_ok (backing (lib_content wc) d s' m') m' v' \<and>
      (\<forall>x < mp_size m. view (backing (lib_content wc) d s' m') m' v' x = view (backing (lib_content wc) d s m) m v x))"
proof -
  note sh = mapping_okD(1) [OF assms(4)]
  note sc = lib_storage_calls [OF assms(1,2)] and sd = lib_storage_driver [OF assms(1,2)]
  obtain x where x: "a = baseAddress m + x" "x div segmentSize m = i"
    by (rule segment_address [OF sh assms(6)])
  have "x < segments m * segmentSize m"
    using assms(5) x(2) sh div_less_iff_less_mult [of "segmentSize m" x "segments m"] by (simp add: shape_def)
  then have rng: "baseAddress m \<le> a" "a < baseAddress m + segments m * segmentSize m"
    using x(1) by simp_all
  obtain m' s' v' r where run: "onSegmentationFault_cs (lib_ops env) kmmap d a w m s v = Inr (m', s', v', r)"
    using storage_calls.fault_returns [OF sc assms(4) rng assms(7,8,3,9,10)] by blast
  have "r = None \<longrightarrow> m' = m \<and> s' = s \<and> v' = v"
    using run by (auto simp: onSegmentationFault_cs_def Let_def split: if_splits)
  moreover have "mapping_ok (backing (lib_content wc) d s' m') m' v' \<and>
      (\<forall>x < mp_size m. view (backing (lib_content wc) d s' m') m' v' x = view (backing (lib_content wc) d s m) m v x)"
    if watched: "onSegmentationFault_cs (uncut (lib_content wc) (lib_ops env)) kmmap d a w m s v = Inr (m', s', v', r)"
  proof -
    obtain j where st: "segment_step (lib_content wc) {j} d (m, s, v) (m', s', v')"
      by (rule storage_driver.fault_step [OF sd assms(4,3) watched])
    from segment_step_ok(1,3) [OF st] show ?thesis by blast
  qed
  ultimately show ?thesis
    using run storage_calls.fault_gives_access [OF sc assms(4,3,5,6) run] by blast
qed

lemma map0_ok: "mapping_ok (backing (lib_content ram_content) (DMemory drv0) store0 map0) map0 vm1"
  by (rule storage_calls.newMapping_ok(1) [OF lib_storage_calls [OF ram_env_ok] first_fit_ok _ _ map0_new])
    (simp_all add: has_flag_def)

lemma map0_reads:
  "i < 2 \<Longrightarrow> ptr \<noteq> 0 \<Longrightarrow>
   \<exists>buf' s'. d_pread (lib_ops ram_env) (DMemory drv0) ptr buf (readWriteSize (i * 4096) map0) (i * 4096) store0
     = Inr (int (readWriteSize (i * 4096) map0), buf', s')"
  by (auto simp: less_2_cases_iff readWriteSize_def lib_ops_def lib_pread_def lib_plumbing memory_pread_def
      drv0_def store0_def mem0_def driver.defs)

theorem fault_serves_witness:
  "onSegmentationFault_cs (lib_ops ram_env) first_fit (DMemory drv0) 1052676 True map0 store0 vm1 =
     Inr (map1, store0, vm2, Some (1, \<lparr>mapped = False, dirty = False, needRead = True\<rparr>)) \<and>
   can_read vm2 1052676 \<and> can_write vm2 1052676 \<and>
   view (backing (lib_content ram_content) (DMemory drv0) store0 map1) map1 vm2 4100 =
     view (backing (lib_content ram_content) (DMemory drv0) store0 map0) map0 vm1 4100"
proof -
  have rd: "\<exists>r buf' s'. 0 \<le> r \<and>
      d_pread (lib_ops ram_env) (DMemory drv0) ptr buf (readWriteSize (i * segmentSize map0) map0)
        (storageOffset map0 + i * segmentSize map0) store0 = Inr (r, buf', s')"
    if "ptr \<noteq> 0" "i < segments map0" for ptr buf i
    using map0_reads [of i ptr buf] that by auto
  have side: "soft_driver (DMemory drv0)" "1 < segments map0" "1052676 \<in> seg_addrs map0 1" "protection map0 \<noteq> 0"
    "True \<longrightarrow> has_flag (protection map0) PROT_WRITE" "threadSafe map0 \<longrightarrow> first_fit vm1 0 (segmentSize map0) \<noteq> None"
    by (simp_all add: seg_addrs_def in_range_def has_flag_def free1)
  note f = fault_serves [OF ram_env_ok side(1) first_fit_ok map0_ok side(2-6) rd, simplified]
  from f show ?thesis
    using stricter_ops.strict_fault [OF ram_watched fault1] by (simp add: fault1)
qed

text \<open>
  C11. A flush of a range changes only bytes of the storage behind dirty segments inside the
  range and leaves every segment of the range clean, whatever the driver transfers. When no
  write was cut short it changes no byte of the mapping's content.
\<close>

theorem flush_writes_dirty_only:
  assumes "env_ok env wc" and "soft_driver d"
    and "mapping_ok (backing (lib_content wc) d s m) m v" and "offset + sz < W64"
    and "flush (lib_ops env) d offset sz flags m s v = Inr (m', s', v')"
  shows "(\<forall>y. lib_content wc d s' y \<noteq> lib_content wc d s y \<longrightarrow>
       (\<exists>x. y = storageOffset m + x \<and> offset \<le> x \<and> x < offset + sz \<and> x < mp_size m \<and>
          dirty (segmentStatus m ! (x div segmentSize m)))) \<and>
    (\<forall>x. offset \<le> x \<and> x < offset + sz \<longrightarrow> \<not> dirty (segmentStatus m' ! (x div segmentSize m))) \<and>
    (flush (uncut (lib_content wc) (lib_ops env)) d offset sz flags m s v = Inr (m', s', v') \<longrightarrow>
     (\<forall>x < mp_size m. view (backing (lib_content wc) d s' m') m' v' x = view (backing (lib_content wc) d s m) m v x))"
proof -
  let ?sg = "segmentSize m"
  note sh = mapping_okD(1) [OF assms(3)]
  note f = storage_calls.flush_writes [OF lib_storage_calls [OF assms(1,2)] assms(3-5)]
  have sg: "?sg > 0"
    using sh by (simp add: shape_def)
  note g = flush_guards(1,2) [OF sh assms(4,5)]
  obtain k n where o: "offset = k * ?sg" and z: "sz = n * ?sg"
    using g by (metis mod_eq_0_iff_dvd dvd_def mult.commute)
  have I: "x div ?sg \<in> {offset div ?sg..<(offset + sz) div ?sg} \<longleftrightarrow> offset \<le> x \<and> x < offset + sz" for x
  proof -
    have "(offset + sz) div ?sg = k + n"
      using sg by (simp add: o z flip: distrib_right)
    then show ?thesis
      using sg by (simp add: o z less_eq_div_iff_mult_less_eq div_less_iff_less_mult flip: distrib_right)
  qed
  have "\<not> dirty (segmentStatus m' ! (x div ?sg))" if "offset \<le> x \<and> x < offset + sz" for x
    using f(2) [of "x div ?sg"] that by (simp only: I flushed_simps(1) simp_thms)
  moreover have "\<exists>x. y = storageOffset m + x \<and> offset \<le> x \<and> x < offset + sz \<and> x < mp_size m \<and>
      dirty (segmentStatus m ! (x div ?sg))" if "lib_content wc d s' y \<noteq> lib_content wc d s y" for y
    using f(1) [of y] that unfolding I by blast
  moreover have "view (backing (lib_content wc) d s' m') m' v' x = view (backing (lib_content wc) d s m) m v x"
    if "flush (uncut (lib_content wc) (lib_ops env)) d offset sz flags m s v = Inr (m', s', v')" "x < mp_size m" for x
    using segment_step_ok(3) [OF storage_driver.flush_correct(1) [OF lib_storage_driver [OF assms(1,2)] assms(3,4) that(1) refl] that(2)] .
  ultimately show ?thesis by blast
qed

lemma map1_ok: "mapping_ok (backing (lib_content ram_content) (DMemory drv0) store0 map1) map1 (store_byte 1052676 9 vm2)"
proof -
  have new: "represents (lib_content ram_content) (DMemory drv0)
      (view (backing (lib_content ram_content) (DMemory drv0) store0 map0) map0 vm1) 5000 (map0, store0, vm1)"
    using map0_ok by (simp add: represents_def)
  show ?thesis
    using storage_driver.mrun_refines [OF ram_whole run1 first_fit_ok new]
    by (simp add: represents_def)
qed

theorem flush_writes_dirty_only_witness:
  "flush (lib_ops ram_env) (DMemory drv0) 0 8192 0 map1 store0 (store_byte 1052676 9 vm2) = Inr (mapF, store1, vm3) \<and>
   lib_content ram_content (DMemory drv0) store1 4100 \<noteq> lib_content ram_content (DMemory drv0) store0 4100 \<and>
   dirty (segmentStatus map1 ! (4100 div 4096)) \<and> \<not> dirty (segmentStatus mapF ! (4100 div 4096)) \<and>
   view (backing (lib_content ram_content) (DMemory drv0) store1 mapF) mapF vm3 4100 =
     view (backing (lib_content ram_content) (DMemory drv0) store0 map1) map1 (store_byte 1052676 9 vm2) 4100"
proof -
  have new: "lib_content ram_content (DMemory drv0) store1 4100 \<noteq> lib_content ram_content (DMemory drv0) store0 4100"
    by (simp add: lib_content_def memory_content_def store1_def store0_def mem0_def drv0_def driver.defs load_buf_def
      vm3_def sys_mprotect_def)
  have side: "soft_driver (DMemory drv0)" "0 + 8192 < W64"
    by simp_all
  note f = flush_writes_dirty_only [OF ram_env_ok side(1) map1_ok side(2) flush1]
  from f [THEN conjunct1, THEN spec, of 4100] f [THEN conjunct2, THEN conjunct1, THEN spec, of 4100]
  have "dirty (segmentStatus map1 ! (4100 div 4096))" and "\<not> dirty (segmentStatus mapF ! (4100 div 4096))"
    using new by auto
  moreover note f [THEN conjunct2, THEN conjunct2, rule_format, OF stricter_ops.strict_flush [OF ram_watched flush1], of 4100, simplified]
  ultimately show ?thesis
    using flush1 new by simp
qed

section \<open>Where the promise is not kept\<close>

text \<open>
  C20. A short write loses data. When the storage accepts only the first \<open>r\<close> bytes of a dirty
  segment, which \<open>pwrite\<close> may do, an eviction still succeeds, marks the segment clean and gives its
  memory back: every byte of the segment past the first \<open>r\<close> shows from then on what the storage
  held before, whatever the program had stored there.
\<close>

theorem short_write_lost:
  assumes "env_ok env wc" and "soft_driver d"
    and "mapping_ok (backing (lib_content wc) d s m) m v" and "i < segments m" and "dirty (segmentStatus m ! i)"
    and "d_pwrite (lib_ops env) d (baseAddress m + i * segmentSize m) (load_buf (baseAddress m + i * segmentSize m) v)
      (readWriteSize (i * segmentSize m) m) (storageOffset m + i * segmentSize m) s = Inr (r, s1)" and "0 \<le> r"
    and "x div segmentSize m = i" and "x < mp_size m" and "nat r \<le> x - i * segmentSize m"
  shows "\<exists>m' v'. evict_flush (lib_ops env) d i m s v = Inr (m', s1, v') \<and>
    segmentStatus m' ! i = \<lparr>mapped = False, dirty = False, needRead = True\<rparr> \<and>
    view (backing (lib_content wc) d s1 m') m' v' x = lib_content wc d s (storageOffset m + x)"
  by (rule storage_calls.evict_short_write [OF lib_storage_calls [OF assms(1,2)] assms(3-10)])

text \<open>A file that accepts one hundred bytes of every write.\<close>

definition short_env :: "outside_state lib_env" where
  "short_env = ram_env\<lparr>env_posix := ram_posix\<lparr>sys_pwrite := \<lambda>fd buf sz off f.
     (int (min 100 sz), f\<lparr>files := (files f)(fd := write_bytes buf (min 100 sz) off (files f fd))\<rparr>)\<rparr>\<rparr>"

lemma short_env_ok: "env_ok short_env ram_content"
  by (auto simp: short_env_def env_ok_def ram_env_def ram_content_def posix_ok_def ioc_ok_def ram_posix_def
      ram_ioc_def write_bytes_def)

definition fdrv0 :: fd_driver where
  "fdrv0 = driver.extend driver_new \<lparr>fdd_fd = 5\<rparr>"

lemma map1_any: "mapping_ok cont map1 (store_byte 1052676 9 vm2)"
proof -
  have "\<not> (mapped (segmentStatus map1 ! i) \<and> \<not> dirty (segmentStatus map1 ! i))" if "i < 2" for i
    using that by (auto simp: less_2_cases_iff)
  with map1_ok show ?thesis
    by (auto simp: mapping_ok_def seg_ok_def byte_ok_def)
qed

theorem short_write_lost_witness:
  "\<exists>m' s' v'. evict_flush (lib_ops short_env) (DFD fdrv0) 1 map1 store0 (store_byte 1052676 9 vm2) = Inr (m', s', v') \<and>
    \<not> dirty (segmentStatus m' ! 1) \<and>
    view (backing (lib_content ram_content) (DFD fdrv0) store0 map1) map1 (store_byte 1052676 9 vm2) 4600 = 7 \<and>
    view (backing (lib_content ram_content) (DFD fdrv0) s' m') m' v' 4600 = 0"
proof -
  have vw: "view (backing (lib_content ram_content) (DFD fdrv0) store0 map1) map1 (store_byte 1052676 9 vm2) 4600 = 7"
    by (simp add: view_def vm2_def sys_mremap_def store_buf_def sys_map_def in_range_def load_buf_def)
  have side: "soft_driver (DFD fdrv0)" "1 < segments map1" "dirty (segmentStatus map1 ! 1)" "(0 :: int) \<le> 100"
    "4600 div segmentSize map1 = 1" "4600 < mp_size map1" "nat 100 \<le> 4600 - 1 * segmentSize map1"
    by simp_all
  obtain s1 where wr: "d_pwrite (lib_ops short_env) (DFD fdrv0) (baseAddress map1 + 1 * segmentSize map1)
      (load_buf (baseAddress map1 + 1 * segmentSize map1) (store_byte 1052676 9 vm2))
      (readWriteSize (1 * segmentSize map1) map1) (storageOffset map1 + 1 * segmentSize map1) store0 = Inr (100, s1)"
    by (simp add: lib_ops_def lib_pwrite_def lib_plumbing fd_pwrite_def short_env_def rw1')
  from short_write_lost [OF short_env_ok side(1) map1_any side(2,3) wr side(4-7)]
  obtain m' v' where "evict_flush (lib_ops short_env) (DFD fdrv0) 1 map1 store0 (store_byte 1052676 9 vm2) = Inr (m', s1, v')"
    "segmentStatus m' ! 1 = \<lparr>mapped = False, dirty = False, needRead = True\<rparr>"
    "view (backing (lib_content ram_content) (DFD fdrv0) s1 m') m' v' 4600 =
      lib_content ram_content (DFD fdrv0) store0 (storageOffset map1 + 4600)"
    by blast
  with vw show ?thesis
    by (auto simp: lib_content_def ram_content_def store0_def)
qed

text \<open>
  C29. A read fault on a segment that is already mapped and dirty (two threads, one reading
  and one writing, fault on the same segment and the writer is served first) takes the write
  permission away and leaves the segment dirty. From then on a write fault returns at once
  without changing anything, so the writing thread faults for ever.
\<close>

theorem read_fault_blocks_writer:
  assumes "mapping_ok cont m v" and "i < segments m" and "a \<in> seg_addrs m i"
    and "mapped (segmentStatus m ! i)" and "dirty (segmentStatus m ! i)"
    and "has_flag (protection m) PROT_WRITE"
  shows "\<exists>v'. onSegmentationFault_cs ops kmmap d a False m s v = Inr (m, s, v', Some (i, segmentStatus m ! i)) \<and>
    \<not> can_write v' a \<and> onSegmentationFault_cs ops kmmap d a True m s v' = Inr (m, s, v', None)"
proof -
  note sh = mapping_okD(1) [OF assms(1)]
  have "baseAddress m \<le> a"
    using assms(3) by (simp add: seg_addrs_def in_range_def)
  then obtain x where x: "a = baseAddress m + x"
    by (auto simp: le_iff_add)
  with assms(3) sh have x: "a = baseAddress m + x" "x div segmentSize m = i"
    by simp_all
  have "x < segments m * segmentSize m"
    using assms(2) x(2) sh div_less_iff_less_mult [of "segmentSize m" x "segments m"] by (simp add: shape_def)
  then have rng: "baseAddress m \<le> a" "a < baseAddress m + segments m * segmentSize m"
    and i: "(a - baseAddress m) div segmentSize m = i"
    using x by auto
  have off: "sz_mul (segmentSize m) i = i * segmentSize m"
    using segment_offset(2) [OF sh assms(2)] by (simp add: mult.commute)
  have pr: "protection m \<noteq> 0"
    using assms(6) by (intro notI) (simp add: has_flag_def)
  let ?v = "sys_mprotect (baseAddress m + i * segmentSize m) (segmentSize m) (True, False, exec_flag m) v"
  have "(segmentStatus m ! i)\<lparr>mapped := True\<rparr> = segmentStatus m ! i"
    using assms(4) by (cases "segmentStatus m ! i") simp
  then have st: "set_status i ((segmentStatus m ! i)\<lparr>mapped := True\<rparr>) m = m"
    by (simp add: set_status_def)
  have "onSegmentationFault_cs ops kmmap d a False m s v = Inr (m, s, ?v, Some (i, segmentStatus m ! i))"
    using rng i pr assms(4,5) by (simp add: onSegmentationFault_cs_def Let_def off mprotect_segment [OF sh] st)
  moreover have "\<not> can_write ?v a"
    using x by (auto simp: can_write_def prot_at_segment [OF sh] split: option.splits)
  moreover have "onSegmentationFault_cs ops kmmap d a True m s ?v = Inr (m, s, ?v, None)"
    using rng i pr assms(4,5,6) by (simp add: onSegmentationFault_cs_def Let_def)
  ultimately show ?thesis by blast
qed

theorem read_fault_blocks_writer_witness:
  "\<exists>v'. onSegmentationFault_cs (lib_ops ram_env) first_fit (DMemory drv0) 1052676 False map1 store0
        (store_byte 1052676 9 vm2) = Inr (map1, store0, v', Some (1, segmentStatus map1 ! 1)) \<and>
    \<not> can_write v' 1052676 \<and>
    onSegmentationFault_cs (lib_ops ram_env) first_fit (DMemory drv0) 1052676 True map1 store0 v' =
      Inr (map1, store0, v', None)"
  by (rule read_fault_blocks_writer [OF map1_ok])
    (simp_all add: seg_addrs_def in_range_def has_flag_def)

text \<open>
  C31. The flush of a whole mapping (the overload \<open>flush(bool)\<close>) passes the exact size to the
  flush of a range: it aborts on every mapping whose size is not a multiple of the segment
  size, whatever the state, although such mappings are accepted by the constructor.
\<close>

theorem flush_all_unaligned:
  assumes "0 < mp_size m" and "mp_size m \<le> getAlignedSize m" and "mp_size m mod segmentSize m \<noteq> 0"
  shows "flush_all ops d sync m s v = Inl (Fatal ''Should get size multiple of segment size !'')"
proof -
  have "getAlignedSize m < W64"
    by (simp add: getAlignedSize_def sz_mul_def)
  then have "sz_add 0 (mp_size m) = mp_size m"
    using assms(2) by (simp add: sz_add_def)
  then show ?thesis
    using assms by (simp add: flush_all_def flush_def getSize_def)
qed

theorem flush_all_unaligned_witness:
  "newMapping_core (lib_ops ram_env) first_fit 4 (DMemory drv0) 0 5000 4096 0 3 0 1 0 0 store0 vm0 = Inr (map0, store0, vm1) \<and>
   flush_all (lib_ops ram_env) (DMemory drv0) True map0 store0 vm1 =
     Inl (Fatal ''Should get size multiple of segment size !'')"
proof -
  have "flush_all (lib_ops ram_env) (DMemory drv0) True map0 store0 vm1 =
     Inl (Fatal ''Should get size multiple of segment size !'')"
    by (rule flush_all_unaligned) (simp_all add: getAlignedSize_def)
  then show ?thesis
    using map0_new by blast
qed

section \<open>The geometry of a mapping\<close>

text \<open>
  A mapping that is constructed has the geometry the rest of the code relies on: the
  sizes were not zero and the segment size is a multiple of the page size, there are as many
  segments as are needed to cover the size, the tail of the last segment is shorter than a
  segment, no segment is mapped or dirty, the bytes of the mapping are those of the storage,
  and the address range was free before.
\<close>

theorem newMapping_geometry:
  assumes "env_ok env wc" and "soft_driver d" and "kmmap_ok kmmap"
    and "offset + sz + sg < W64" and "\<not> has_flag flags UMMAP_FIXED"
    and "newMapping_core (lib_ops env) kmmap cpus d addr sz sg offset prot flags drv lp gp s v = Inr (m, s', v')"
  shows "0 < sz \<and> 0 < sg \<and> sg mod UMMAP_PAGE_SIZE = 0 \<and> segments m = (sz + sg - 1) div sg \<and>
    sz \<le> getAlignedSize m \<and> getAlignedSize m < sz + sg \<and>
    (\<forall>i < segments m. \<not> mapped (segmentStatus m ! i) \<and> \<not> dirty (segmentStatus m ! i)) \<and>
    (\<forall>x < sz. view (backing (lib_content wc) d s' m) m v' x =
       (if has_flag flags UMMAP_NO_FIRST_READ then 0 else lib_content wc d s (offset + x))) \<and>
    (\<forall>x < getAlignedSize m. prot_at v (baseAddress m + x) = None)"
proof -
  note new = storage_calls.newMapping_ok [OF lib_storage_calls [OF assms(1,2)] assms(3-6)]
  have st: "\<forall>st \<in> set (segmentStatus m). \<not> mapped st \<and> \<not> dirty st"
    and g: "sz > 0" "sg > 0" "sg mod UMMAP_PAGE_SIZE = 0"
    using assms(6) by (auto simp: newMapping_core_def registerRange_def skipFirstRead_def Let_def split: if_splits)
  have sh: "shape m"
    using new(1) by (rule mapping_okD)
  have al: "getAlignedSize m = segments m * sg"
    using sh new(5) by (simp add: shape_def getAlignedSize_def sz_mul_exact mult.commute)
  have b: "(segments m - 1) * sg < sz" "sz \<le> segments m * sg" "segments m > 0" "length (segmentStatus m) = segments m"
    using sh new(4,5) by (simp_all add: shape_def)
  have lt: "segments m * sg < sz + sg"
    using b by (cases "segments m") auto
  have "segments m = (sz + sg - 1) div sg"
  proof (rule sym, rule div_nat_eqI)
    show "sg * segments m \<le> sz + sg - 1"
      using lt g by (simp add: mult.commute)
    show "sz + sg - 1 < sg * Suc (segments m)"
      using b(2) g by (simp add: mult.commute)
  qed
  then show ?thesis
    using g st b lt new(5,7,8) by (simp add: al)
qed

theorem newMapping_geometry_witness:
  "newMapping_core (lib_ops ram_env) first_fit 4 (DMemory drv0) 0 5000 4096 0 3 0 1 0 0 store0 vm0 = Inr (map0, store0, vm1) \<and>
   segments map0 = (5000 + 4096 - 1) div 4096 \<and> 5000 \<le> getAlignedSize map0 \<and> getAlignedSize map0 < 5000 + 4096"
  using newMapping_geometry [OF ram_env_ok _ first_fit_ok _ _ map0_new] map0_new
  by (simp add: has_flag_def)

end
