(* ===== verification/CopyProps.thy ===== *)
theory CopyProps
  imports MappingProps
begin

text \<open>
  Copy on write: \<open>copyToDriver\<close> fills the new object so that the mapping, once it is attached
  to it, still shows the same bytes, and the old object keeps its content.
\<close>

section \<open>Two storages that do not share anything\<close>

definition independent ::
  "('d, 's) driver_ops \<Rightarrow> ('d \<Rightarrow> 's \<Rightarrow> nat \<Rightarrow> byte) \<Rightarrow> 'd \<Rightarrow> 'd \<Rightarrow> bool" where
  "independent ops content d d' \<longleftrightarrow>
     (\<forall>ptr buf sz off s r s'. d_pwrite ops d' ptr buf sz off s = Inr (r, s') \<longrightarrow> content d s' = content d s) \<and>
     (\<forall>ptr buf sz off s r buf' s'. d_pread ops d ptr buf sz off s = Inr (r, buf', s') \<longrightarrow> content d' s' = content d' s)"

lemma independentD:
  assumes "independent ops content d d'"
  shows "d_pwrite ops d' ptr buf sz off s = Inr (r, s') \<Longrightarrow> content d s' = content d s"
    and "d_pread ops d ptr buf sz off s = Inr (r, buf', s') \<Longrightarrow> content d' s' = content d' s"
  using assms unfolding independent_def by blast+

text \<open>Two memory drivers are independent when they do not share their buffer.\<close>

lemma memory_independent:
  assumes "md_buffer a \<noteq> md_buffer b"
  shows "independent (lib_ops env) (lib_content wc) (DMemory a) (DMemory b)"
  using assms unfolding independent_def
  by (auto simp: lib_ops_def lib_pwrite_def lib_pread_def lib_plumbing memory_pwrite_def memory_pread_def
      lib_content_def memory_content_def split: if_splits sum.splits prod.splits)

section \<open>The copy loop\<close>

text \<open>The byte the loop puts at \<open>x\<close>: memory for a clean mapped segment, else the old object.\<close>

definition copied :: "(nat \<Rightarrow> byte) \<Rightarrow> mapping \<Rightarrow> vm \<Rightarrow> nat \<Rightarrow> byte" where
  "copied cont m v x =
     (let st = segmentStatus m ! (x div segmentSize m)
      in if mapped st \<and> \<not> dirty st then vmem v (baseAddress m + x) else cont x)"

lemma copy_size:
  assumes "shape m" and "i < segments m"
  defines "a \<equiv> i * segmentSize m"
  defines "c1 \<equiv> (if sz_add a (segmentSize m) > mp_size m then sz_sub (mp_size m) a else segmentSize m)"
  shows "(if sz_add (sz_add (getStorageOffset m) a) c1 > sz_add (getStorageOffset m) (getSize m)
     then sz_sub (sz_sub (sz_add (getStorageOffset m) (getSize m)) (getStorageOffset m)) a else c1) = readWriteSize a m"
proof -
  note o = segment_offset [OF assms(1,2), folded a_def]
  have w: "storageOffset m + segments m * segmentSize m < W64" "mp_size m \<le> segments m * segmentSize m"
    using assms(1) by (simp_all add: shape_def)
  have fit: "mp_size m < W64" "a + segmentSize m < W64"
    using o(4) w by linarith+
  have e: "sz_add a (segmentSize m) = a + segmentSize m" "sz_sub (mp_size m) a = mp_size m - a"
    using fit o(1) by (simp_all only: sz_add_exact) (rule sz_sub_exact, simp_all)
  have c1: "c1 = min (segmentSize m) (mp_size m - a)"
    using o(1) by (auto simp: c1_def e)
  then have le: "a + c1 \<le> mp_size m"
    using o(1) by auto
  have "sz_add (storageOffset m) a = storageOffset m + a" "sz_add (storageOffset m) (mp_size m) = storageOffset m + mp_size m"
    "sz_add (storageOffset m + a) c1 = storageOffset m + a + c1"
    using le w o(1) by (auto intro!: sz_add_exact)
  then have "\<not> sz_add (sz_add (getStorageOffset m) a) c1 > sz_add (getStorageOffset m) (getSize m)"
    using le by (simp add: getStorageOffset_def getSize_def)
  then show ?thesis
    unfolding readWriteSize_segment [OF assms(1,2), folded a_def] c1 by simp
qed

lemma copy_segment:
  assumes D: "storage_calls ops content d" and D': "storage_calls ops content d'" and ind: "independent ops content d d'"
    and sh: "shape m" and i: "i < segments m" and small: "segmentSize m < 9223372036854775808"
    and run: "copyMappedPart_segment ops d d' m v p (mp_size m) (i * segmentSize m) (buf, s) = Inr (buf', s')"
  shows "content d s' = content d s \<and>
    (\<forall>y. content d' s' y = (if \<exists>x. y = storageOffset m + x \<and> x div segmentSize m = i \<and> x < mp_size m
       then copied (backing content d s m) m v (y - storageOffset m) else content d' s y))"
proof -
  let ?a = "i * segmentSize m" and ?rw = "readWriteSize (i * segmentSize m) m"
  let ?off = "storageOffset m + i * segmentSize m" and ?st = "segmentStatus m ! i"
  note o = segment_offset [OF sh i]
  have off: "sz_add (storageOffset m) ?a = ?off" and idx: "?a div segmentSize m = i"
    using o(3) sh by (simp_all add: shape_def)
  have "?rw \<le> segmentSize m"
    by (simp add: readWriteSize_segment [OF sh i])
  then have ss: "ssize ?rw = int ?rw"
    using small by (simp add: ssize_def)
  have rng: "?off \<le> y \<and> y < ?off + ?rw \<longleftrightarrow> (\<exists>x. y = storageOffset m + x \<and> x div segmentSize m = i \<and> x < mp_size m)" for y
  proof (cases "storageOffset m \<le> y")
    case True
    then obtain x where "y = storageOffset m + x"
      by (auto simp: le_iff_add)
    with readWriteSize_range [OF sh i, of x] show ?thesis by simp
  qed auto
  note body = run [unfolded copyMappedPart_segment_def Let_def prod.case copy_size [OF sh i] off idx ss]
  obtain q b s1 where wr: "d_pwrite ops d' q b ?rw ?off s1 = Inr (int ?rw, s')"
    and old: "content d s1 = content d s" "content d' s1 = content d' s"
    and b: "\<And>x. x div segmentSize m = i \<Longrightarrow> x < mp_size m \<Longrightarrow> b (x - ?a) = copied (backing content d s m) m v x"
  proof (cases "mapped ?st \<and> \<not> dirty ?st")
    case True
    then have wr: "d_pwrite ops d' (baseAddress m + ?a) (load_buf (baseAddress m + ?a) v) ?rw ?off s = Inr (int ?rw, s')"
      using body by (auto simp: bindE_eq_Inr split: if_splits)
    show thesis
    proof (rule that [OF wr refl refl])
      fix x assume x: "x div segmentSize m = i" "x < mp_size m"
      have "?a \<le> x"
        using segment_bounds(1) [OF _ x(1)] sh by (simp add: shape_def)
      then show "load_buf (baseAddress m + ?a) v (x - ?a) = copied (backing content d s m) m v x"
        unfolding copied_def Let_def x(1) if_P [OF True] by (simp add: load_buf_def)
    qed
  next
    case False
    then obtain b s1 where rd: "d_pread ops d p buf ?rw ?off s = Inr (int ?rw, b, s1)"
      and wr: "d_pwrite ops d' p b ?rw ?off s1 = Inr (int ?rw, s')"
      using body by (auto simp: bindE_eq_Inr split: if_splits)
    have bx: "b (x - ?a) = copied (backing content d s m) m v x" if x: "x div segmentSize m = i" "x < mp_size m" for x
    proof -
      have "?a \<le> x \<and> x < ?a + ?rw"
        using readWriteSize_range [OF sh i, of x] x by blast
      then have bd: "?a \<le> x" "x - ?a < ?rw"
        by linarith+
      have "b (x - ?a) = content d s (?off + (x - ?a))"
        using storage_calls.pread_bytes [OF D rd _ bd(2)] bd(2) by simp
      moreover have "?off + (x - ?a) = storageOffset m + x"
        using bd(1) by simp
      moreover have "copied (backing content d s m) m v x = content d s (storageOffset m + x)"
        unfolding copied_def backing_def Let_def x(1) by (rule if_not_P [OF False])
      ultimately show ?thesis by simp
    qed
    have "content d s1 = content d s"
      by (rule storage_calls.pread_content [OF D rd]) simp
    from that [OF wr this independentD(2) [OF ind rd] bx] show thesis .
  qed
  have "content d' s' y = (if \<exists>x. y = storageOffset m + x \<and> x div segmentSize m = i \<and> x < mp_size m
       then copied (backing content d s m) m v (y - storageOffset m) else content d' s y)" for y
  proof -
    have "content d' s' y = (if ?off \<le> y \<and> y < ?off + ?rw then b (y - ?off) else content d' s y)"
      using storage_calls.pwrite_whole [OF D' wr] old(2) by simp
    moreover have "b (y - ?off) = copied (backing content d s m) m v (y - storageOffset m)" if in_seg: "?off \<le> y \<and> y < ?off + ?rw"
    proof -
      obtain x where x: "y = storageOffset m + x" "x div segmentSize m = i" "x < mp_size m"
        using in_seg unfolding rng by blast
      have "y - ?off = x - ?a" using x(1) by simp
      with b [OF x(2,3)] x(1) show ?thesis by simp
    qed
    ultimately show ?thesis unfolding rng [symmetric] by simp
  qed
  then show ?thesis
    using independentD(1) [OF ind wr] old(1) by simp
qed

lemma copy_loop:
  assumes D: "storage_calls ops content d" and D': "storage_calls ops content d'" and ind: "independent ops content d d'"
    and sh: "shape m" and small: "segmentSize m < 9223372036854775808"
    and "foldE (copyMappedPart_segment ops d d' m v p (mp_size m)) (map (\<lambda>k. k * segmentSize m) is) (buf, s) = Inr (buf', s')"
    and "set is \<subseteq> {..<segments m}"
  shows "content d s' = content d s \<and>
    (\<forall>y. content d' s' y = (if \<exists>x. y = storageOffset m + x \<and> x div segmentSize m \<in> set is \<and> x < mp_size m
       then copied (backing content d s m) m v (y - storageOffset m) else content d' s y))"
  using assms(6,7)
proof (induction "is" arbitrary: buf s)
  case (Cons i "is")
  obtain buf1 s1 where one: "copyMappedPart_segment ops d d' m v p (mp_size m) (i * segmentSize m) (buf, s) = Inr (buf1, s1)"
    and rest: "foldE (copyMappedPart_segment ops d d' m v p (mp_size m)) (map (\<lambda>k. k * segmentSize m) is) (buf1, s1) = Inr (buf', s')"
    using Cons.prems(1) by (auto simp: bindE_eq_Inr)
  have i: "i < segments m" and sub: "set is \<subseteq> {..<segments m}"
    using Cons.prems(2) by simp_all
  note c = copy_segment [OF D D' ind sh i small one]
  have "backing content d s1 m = backing content d s m"
    using c by (simp add: fun_eq_iff backing_def)
  with Cons.IH [OF rest sub] c show ?case
    by auto
qed simp

lemma for_range_segments:
  assumes sh: "shape m"
  shows "for_range 0 (mp_size m) (segmentSize m) = map (\<lambda>k. k * segmentSize m) [0..<segments m]"
proof -
  have up: "for_range (k * sg) e sg = map (\<lambda>k. k * sg) [k..<n]"
    if "0 < sg" "(n - 1) * sg < e" "e \<le> n * sg" "k \<le> n" "0 < n" for k n sg e :: nat
    using that(4)
  proof (induction "n - k" arbitrary: k)
    case 0
    then have "e \<le> k * sg"
      using that(3) by simp
    then show ?case using 0 by simp
  next
    case (Suc j)
    then have k: "k < n" by simp
    then have "k * sg \<le> (n - 1) * sg"
      by (intro mult_right_mono) auto
    then have "k * sg < e"
      using that(2) by (rule le_less_trans)
    then have "for_range (k * sg) e sg = k * sg # for_range (Suc k * sg) e sg"
      using that(1) by (simp add: add.commute)
    with Suc.hyps(1) [of "Suc k"] Suc.hyps(2) k show ?case
      by (simp add: upt_conv_Cons)
  qed
  from up [of "segmentSize m" "segments m" "mp_size m" 0] sh show ?thesis
    by (simp add: shape_def)
qed

lemma copyToDriver_content:
  assumes D: "storage_calls ops content d" and D': "storage_calls ops content d'" and ind: "independent ops content d d'"
    and sh: "shape m" and small: "segmentSize m < 9223372036854775808"
    and run: "copyToDriver ops d (Some d') m v p buf (sz_add (getStorageOffset m) (getSize m)) s = Inr s'"
  shows "content d s' = content d s"
    and "x < mp_size m \<Longrightarrow> content d' s' (storageOffset m + x) = copied (backing content d s m) m v x"
    and "y < storageOffset m \<or> storageOffset m + mp_size m \<le> y \<Longrightarrow> content d' s' y = content d' s y"
proof -
  have w: "storageOffset m + mp_size m < W64" "segmentSize m > 0"
    using sh by (auto simp: shape_def)
  then have "sz_sub (sz_add (getStorageOffset m) (getSize m)) (storageOffset m) = mp_size m"
    by (simp add: getStorageOffset_def getSize_def)
  then obtain buf' where lp: "foldE (copyMappedPart_segment ops d d' m v p (mp_size m))
      (map (\<lambda>k. k * segmentSize m) [0..<segments m]) (buf, s) = Inr (buf', s')"
    using run for_range_segments [OF sh]
    by (auto simp: copyToDriver_def copyMappedPart_def bindE_eq_Inr split: if_splits)
  have "set [0..<segments m] \<subseteq> {..<segments m}"
    by auto
  note c = copy_loop [OF D D' ind sh small lp this, simplified]
  show "content d s' = content d s"
    using c by blast
  show "content d' s' (storageOffset m + x) = copied (backing content d s m) m v x" if "x < mp_size m"
  proof -
    have "x div segmentSize m < segments m"
      using that sh by (auto simp: shape_def less_mult_imp_div_less)
    with c that show ?thesis by simp
  qed
  show "content d' s' y = content d' s y" if "y < storageOffset m \<or> storageOffset m + mp_size m \<le> y"
    using c that by auto
qed

section \<open>Copy on write\<close>

text \<open>
  C10. Copy on write keeps the bytes of the mapping: when \<open>copyToDriver\<close> returns, a mapping that
  is attached to the new object satisfies its invariant there and shows, at every offset, the
  byte it showed on the old object; the bytes of the new object outside the range of the mapping
  and the whole old object are as before. This holds for two objects of which neither changes
  when the other is accessed.
\<close>

theorem copy_on_write_keeps_view:
  assumes "env_ok env wc" and "soft_driver d" and "soft_driver d'"
    and "independent (lib_ops env) (lib_content wc) d d'"
    and "mapping_ok (backing (lib_content wc) d s m) m v" and "segmentSize m < 9223372036854775808"
    and "copyToDriver (lib_ops env) d (Some d') m v bufPtr buf (sz_add (getStorageOffset m) (getSize m)) s = Inr s'"
  shows "mapping_ok (backing (lib_content wc) d' s' m) m v \<and>
    (\<forall>x < mp_size m. view (backing (lib_content wc) d' s' m) m v x = view (backing (lib_content wc) d s m) m v x) \<and>
    (\<forall>y. y < storageOffset m \<or> storageOffset m + mp_size m \<le> y \<longrightarrow> lib_content wc d' s' y = lib_content wc d' s y) \<and>
    lib_content wc d s' = lib_content wc d s"
proof -
  note sh = mapping_okD(1) [OF assms(5)]
  note c = copyToDriver_content [OF lib_storage_calls [OF assms(1,2)] lib_storage_calls [OF assms(1,3)] assms(4) sh assms(6,7)]
  let ?old = "backing (lib_content wc) d s m" and ?new = "backing (lib_content wc) d' s' m"
  have new: "?new x = copied ?old m v x" if "x < mp_size m" for x
    using c(2) [OF that] by (simp add: backing_def)
  have ok: "byte_ok ?new m v (segmentStatus m ! i) x" if i: "i < segments m" and x: "x div segmentSize m = i" for i x
    using seg_okD(2) [OF mapping_okD(2) [OF assms(5) i] x] new [of x] x
    by (auto simp: byte_ok_def copied_def Let_def)
  then have "mapping_ok ?new m v"
    using assms(5) by (auto simp: mapping_ok_def seg_ok_def)
  moreover have "view ?new m v x = view ?old m v x" if "x < mp_size m" for x
    using new [OF that] by (simp add: view_def copied_def Let_def)
  ultimately show ?thesis
    using c(1,3) by blast
qed

text \<open>The mapping of the scenario, with its dirty second segment, moved to a second memory driver.\<close>

definition drv1 :: mem_driver where
  "drv1 = drv0\<lparr>md_buffer := 16384\<rparr>"

definition store2 :: "outside_state lib_store" where
  "store2 = store0\<lparr>mems := (mems store0)\<lparr>mem_bytes := (mem_bytes (mems store0))(16384 := \<lambda>x. 0)\<rparr>\<rparr>"

lemma copy1:
  "\<exists>s'. copyToDriver (lib_ops ram_env) (DMemory drv0) (Some (DMemory drv1)) map1 (store_byte 1052676 9 vm2) 64 (\<lambda>x. 0)
     (sz_add (getStorageOffset map1) (getSize map1)) store2 = Inr s'"
  by (simp add: copyToDriver_def copyMappedPart_def copyMappedPart_segment_def Let_def getStorageOffset_def getSize_def
      map1_def set_status_def for_range.simps lib_ops_def lib_pread_def lib_pwrite_def lib_plumbing memory_pread_def
      memory_pwrite_def drv0_def drv1_def store2_def store0_def mem0_def driver.defs ssize_def)

theorem copy_on_write_keeps_view_witness:
  "\<exists>s'. copyToDriver (lib_ops ram_env) (DMemory drv0) (Some (DMemory drv1)) map1 (store_byte 1052676 9 vm2) 64 (\<lambda>x. 0)
     (sz_add (getStorageOffset map1) (getSize map1)) store2 = Inr s' \<and>
   view (backing (lib_content ram_content) (DMemory drv1) s' map1) map1 (store_byte 1052676 9 vm2) 4100 = 9 \<and>
   view (backing (lib_content ram_content) (DMemory drv1) s' map1) map1 (store_byte 1052676 9 vm2) 100 = 7"
proof -
  let ?v = "store_byte 1052676 9 vm2"
  obtain s' where run: "copyToDriver (lib_ops ram_env) (DMemory drv0) (Some (DMemory drv1)) map1 ?v 64 (\<lambda>x. 0)
     (sz_add (getStorageOffset map1) (getSize map1)) store2 = Inr s'"
    using copy1 by blast
  have ind: "independent (lib_ops ram_env) (lib_content ram_content) (DMemory drv0) (DMemory drv1)"
    by (rule memory_independent) (simp add: drv0_def drv1_def driver.defs)
  have bk: "backing (lib_content ram_content) (DMemory drv0) store2 map1 = backing (lib_content ram_content) (DMemory drv0) store0 map1"
    by (simp add: fun_eq_iff backing_def lib_content_def memory_content_def drv0_def driver.defs store2_def)
  then have ok: "mapping_ok (backing (lib_content ram_content) (DMemory drv0) store2 map1) map1 ?v"
    using map1_ok by simp
  have side: "soft_driver (DMemory drv0 :: outside_state lib_driver)" "soft_driver (DMemory drv1 :: outside_state lib_driver)"
    "segmentSize map1 < 9223372036854775808"
    by simp_all
  have same: "view (backing (lib_content ram_content) (DMemory drv1) s' map1) map1 ?v x =
      view (backing (lib_content ram_content) (DMemory drv0) store0 map1) map1 ?v x" if "x < mp_size map1" for x
    using copy_on_write_keeps_view [OF ram_env_ok side(1,2) ind ok side(3) run] that unfolding bk by blast
  have "view (backing (lib_content ram_content) (DMemory drv0) store0 map1) map1 ?v 4100 = 9"
    "view (backing (lib_content ram_content) (DMemory drv0) store0 map1) map1 ?v 100 = 7"
    by (simp_all add: view_def map1_def set_status_def backing_def lib_content_def memory_content_def store0_def mem0_def)
  with run same [of 4100] same [of 100] show ?thesis by auto
qed

end
