(* ===== verification/CString.thy ===== *)
theory CString
  imports Prelude
begin

text \<open>
  The functions of the C and C++ libraries that the parsers use on characters and strings:
  \<open>atol\<close>, \<open>sscanf\<close> with \<open>%ld\<close> and \<open>%s\<close>, \<open>printf\<close> of decimal numbers, \<open>find\<close>, and the
  assignment \<open>m[k] = v\<close> of a \<open>std::map\<close>.
\<close>

section \<open>Characters and numbers\<close>

definition is_digit :: "char \<Rightarrow> bool" where
  "is_digit c \<longleftrightarrow> 48 \<le> (of_char c :: nat) \<and> (of_char c :: nat) \<le> 57"

definition is_space :: "char \<Rightarrow> bool" where
  "is_space c \<longleftrightarrow> (of_char c :: nat) = 32 \<or> 9 \<le> (of_char c :: nat) \<and> (of_char c :: nat) \<le> 13"

definition digit_value :: "char \<Rightarrow> nat" where
  "digit_value c = of_char c - 48"

fun digits_value :: "nat \<Rightarrow> string \<Rightarrow> nat" where
  "digits_value acc [] = acc"
| "digits_value acc (c # cs) = digits_value (10 * acc + digit_value c) cs"

text \<open>
  \<open>%ld\<close>: blanks, an optional sign and at least one digit. The value is not reduced; the
  conversions below are undefined in C when it does not fit the type.
\<close>

definition scan_ld :: "string \<Rightarrow> (int \<times> string) option" where
  "scan_ld s =
     (let s1 = dropWhile is_space s;
          neg = (s1 \<noteq> [] \<and> hd s1 = CHR ''-'');
          s2 = (if s1 \<noteq> [] \<and> (hd s1 = CHR ''-'' \<or> hd s1 = CHR ''+'') then tl s1 else s1);
          ds = takeWhile is_digit s2;
          v = int (digits_value 0 ds)
      in if ds = [] then None else Some (if neg then - v else v, dropWhile is_digit s2))"

definition fits_long :: "int \<Rightarrow> bool" where
  "fits_long v \<longleftrightarrow> - (2 ^ 63) \<le> v \<and> v < 2 ^ 63"

definition fits_int :: "int \<Rightarrow> bool" where
  "fits_int v \<longleftrightarrow> - (2 ^ 31) \<le> v \<and> v < 2 ^ 31"

definition atol :: "string \<Rightarrow> int result" where
  "atol s =
     (case scan_ld s of
        None \<Rightarrow> Inr 0
      | Some (v, _) \<Rightarrow> if fits_long v then Inr v else Inl (Undefined ''atol: value out of range''))"

definition atoi :: "string \<Rightarrow> int result" where
  "atoi s =
     (case scan_ld s of
        None \<Rightarrow> Inr 0
      | Some (v, _) \<Rightarrow> if fits_int v then Inr v else Inl (Undefined ''atoi: value out of range''))"

text \<open>Conversion of a \<open>long\<close> to \<open>size_t\<close>.\<close>

definition to_size :: "int \<Rightarrow> size_t" where
  "to_size v = nat (v mod int W64)"

text \<open>\<open>sscanf(s, "%ld:%ld", ...) == 2\<close>, and the two values.\<close>

definition scan_pair :: "string \<Rightarrow> (int \<times> int) option result" where
  "scan_pair s =
     (case scan_ld s of
        None \<Rightarrow> Inr None
      | Some (high, r) \<Rightarrow>
          if \<not> fits_long high then Inl (Undefined ''sscanf: value out of range'')
          else if r = [] \<or> hd r \<noteq> CHR '':'' then Inr None
          else (case scan_ld (tl r) of
                  None \<Rightarrow> Inr None
                | Some (low, _) \<Rightarrow>
                    if \<not> fits_long low then Inl (Undefined ''sscanf: value out of range'')
                    else Inr (Some (high, low))))"

section \<open>Printing numbers\<close>

definition digit :: "nat \<Rightarrow> char" where
  "digit n = char_of (48 + n)"

fun dec :: "nat \<Rightarrow> string" where
  "dec n = (if n < 10 then [digit n] else dec (n div 10) @ [digit (n mod 10)])"

definition dec_int :: "int \<Rightarrow> string" where
  "dec_int v = (if v < 0 then CHR ''-'' # dec (nat (- v)) else dec (nat v))"

declare dec.simps [simp del]

lemma digit_simps [simp]:
  assumes "n < 10"
  shows "is_digit (digit n)" and "digit_value (digit n) = n"
proof -
  have "(of_char (digit n) :: nat) = 48 + n"
    using assms by (simp add: digit_def)
  then show "is_digit (digit n)" and "digit_value (digit n) = n"
    using assms by (simp_all add: is_digit_def digit_value_def)
qed

lemma digits_value_append: "digits_value a (s @ t) = digits_value (digits_value a s) t"
  by (induction s arbitrary: a) simp_all

lemma dec_digits: "c \<in> set (dec n) \<Longrightarrow> is_digit c" and dec_value: "digits_value 0 (dec n) = n"
  and dec_not_Nil [simp]: "dec n \<noteq> []"
proof -
  have "(\<forall>c \<in> set (dec n). is_digit c) \<and> digits_value 0 (dec n) = n \<and> dec n \<noteq> []"
  proof (induction n rule: dec.induct)
    case (1 n)
    show ?case
    proof (cases "n < 10")
      case True
      then show ?thesis by (subst (1 2 3) dec.simps) simp
    next
      case False
      with 1 have "\<forall>c \<in> set (dec (n div 10)). is_digit c" and "digits_value 0 (dec (n div 10)) = n div 10"
        by blast+
      with False show ?thesis
        by (subst (1 2 3) dec.simps) (simp add: digits_value_append)
    qed
  qed
  then show "c \<in> set (dec n) \<Longrightarrow> is_digit c" and "digits_value 0 (dec n) = n" and "dec n \<noteq> []"
    by blast+
qed

lemma digit_not_space: "is_digit c \<Longrightarrow> \<not> is_space c \<and> c \<noteq> CHR ''-'' \<and> c \<noteq> CHR ''+'' \<and> c \<noteq> CHR '':''"
  by (auto simp: is_digit_def is_space_def)

lemma takeWhile_digits:
  assumes "\<forall>c \<in> set s. is_digit c" and "t = [] \<or> \<not> is_digit (hd t)"
  shows "takeWhile is_digit (s @ t) = s" and "dropWhile is_digit (s @ t) = t"
proof -
  have "takeWhile is_digit t = []" and "dropWhile is_digit t = t"
    using assms(2) by (cases t; simp)+
  then show "takeWhile is_digit (s @ t) = s" and "dropWhile is_digit (s @ t) = t"
    using assms(1) by (simp_all add: takeWhile_append2 dropWhile_append2)
qed

lemma scan_ld_digits:
  assumes s: "\<forall>c \<in> set s. is_digit c" "s \<noteq> []" and t: "t = [] \<or> \<not> is_digit (hd t)"
  shows "scan_ld (s @ t) = Some (int (digits_value 0 s), t)"
proof -
  obtain c cs where c: "s = c # cs" "is_digit c"
    using s by (cases s) auto
  then have "dropWhile is_space (s @ t) = s @ t"
    and "\<not> (s @ t \<noteq> [] \<and> hd (s @ t) = CHR ''-'')" and "\<not> (s @ t \<noteq> [] \<and> (hd (s @ t) = CHR ''-'' \<or> hd (s @ t) = CHR ''+''))"
    using digit_not_space [of c] by auto
  with takeWhile_digits [OF s(1) t] s(2) show ?thesis
    by (simp only: scan_ld_def Let_def if_False simp_thms)
qed

lemma scan_ld_dec: "t = [] \<or> \<not> is_digit (hd t) \<Longrightarrow> scan_ld (dec n @ t) = Some (int n, t)"
  using scan_ld_digits [of "dec n" t] dec_digits by (simp add: dec_value)

section \<open>Maps and substrings\<close>

text \<open>The assignment \<open>m[k] = v\<close>; the entries are in the order of their keys.\<close>

fun map_assign :: "'k::linorder \<Rightarrow> 'v \<Rightarrow> ('k \<times> 'v) list \<Rightarrow> ('k \<times> 'v) list" where
  "map_assign k v [] = [(k, v)]"
| "map_assign k v (e # es) =
     (if fst e < k then e # map_assign k v es
      else if fst e = k then (k, v) # es
      else (k, v) # e # es)"

definition sorted_map :: "('k::linorder \<times> 'v) list \<Rightarrow> bool" where
  "sorted_map es \<longleftrightarrow> sorted_wrt (<) (map fst es)"

lemma map_assign_keys: "fst ` set (map_assign k v es) = insert k (fst ` set es)"
  by (induction es) auto

lemma map_assign_correct:
  assumes "sorted_map es"
  shows "map_of (map_assign k v es) = (map_of es)(k \<mapsto> v)" and "sorted_map (map_assign k v es)"
proof -
  have "map_of (map_assign k v es) = (map_of es)(k \<mapsto> v) \<and> sorted_map (map_assign k v es)"
    using assms
  proof (induction es)
    case (Cons e es)
    then have es: "sorted_map es" and lt: "\<forall>x \<in> fst ` set es. fst e < x"
      by (auto simp: sorted_map_def)
    note IH = Cons.IH [OF es]
    have absent: "map_of es (fst e) = None"
      using lt by (auto simp: map_of_eq_None_iff)
    consider "fst e < k" | "fst e = k" | "k < fst e"
      by fastforce
    then show ?case
    proof cases
      case 1
      have "\<forall>x \<in> set (map fst (map_assign k v es)). fst e < x"
        using lt 1 map_assign_keys [of k v es] by auto
      with 1 IH show ?thesis
        by (auto simp: sorted_map_def fun_eq_iff)
    next
      case 2
      with Cons.prems show ?thesis by (auto simp: sorted_map_def fun_eq_iff)
    next
      case 3
      have "\<forall>x \<in> set (map fst es). k < x"
        using lt 3 by (auto intro: less_trans)
      with 3 Cons.prems show ?thesis by (auto simp: sorted_map_def fun_eq_iff)
    qed
  qed (simp add: sorted_map_def)
  then show "map_of (map_assign k v es) = (map_of es)(k \<mapsto> v)" and "sorted_map (map_assign k v es)"
    by simp_all
qed

lemma map_assign_last: "\<forall>x \<in> fst ` set es. x < k \<Longrightarrow> map_assign k v es = es @ [(k, v)]"
  by (induction es) auto

lemma map_assign_all:
  assumes "sorted_map (as @ es)"
  shows "fold (\<lambda>e. map_assign (fst e) (snd e)) es as = as @ es"
  using assms
proof (induction es arbitrary: as)
  case (Cons e es)
  have "map_assign (fst e) (snd e) as = as @ [e]"
    using Cons.prems by (subst map_assign_last) (auto simp: sorted_map_def sorted_wrt_append)
  with Cons show ?case by simp
qed simp

text \<open>The first position of \<open>sub\<close> in \<open>s\<close>.\<close>

fun find_sub :: "string \<Rightarrow> string \<Rightarrow> nat option" where
  "find_sub sub [] = (if sub = [] then Some 0 else None)"
| "find_sub sub (c # s) =
     (if take (length sub) (c # s) = sub then Some 0 else map_option Suc (find_sub sub s))"

text \<open>\<open>value.find(sub, pos)\<close>\<close>

definition find_from :: "string \<Rightarrow> string \<Rightarrow> nat \<Rightarrow> nat option" where
  "find_from sub s pos = (if pos > length s then None else map_option (\<lambda>i. pos + i) (find_sub sub (drop pos s)))"

lemma find_sub_Some:
  assumes "find_sub sub s = Some i"
  shows "take (length sub) (drop i s) = sub" and "i + length sub \<le> length s"
proof -
  have "take (length sub) (drop i s) = sub \<and> i \<le> length s"
    using assms by (induction s arbitrary: i) (auto split: if_splits)
  then show "take (length sub) (drop i s) = sub" and "i + length sub \<le> length s"
    using length_take [of "length sub" "drop i s"] by auto
qed

lemma find_from_Some:
  assumes "find_from sub s pos = Some i"
  shows "take (length sub) (drop i s) = sub" and "pos \<le> i" and "i + length sub \<le> length s"
proof -
  obtain j where j: "find_sub sub (drop pos s) = Some j" and i: "i = pos + j" and pos: "pos \<le> length s"
    using assms by (auto simp: find_from_def split: if_splits)
  note f = find_sub_Some [OF j]
  show "take (length sub) (drop i s) = sub"
    using f(1) by (simp add: i add.commute)
  show "pos \<le> i" and "i + length sub \<le> length s"
    using f(2) pos by (simp_all add: i)
qed

end
