(* ===== verification/HumanUnits.thy ===== *)
theory HumanUnits
  imports CString
begin

text \<open>
  Sizes with a unit, \<open>src/common/HumanUnits.cpp\<close>: the parser by regular expression, the one
  used when the library has no regular expressions, and their agreement.
\<close>

section \<open>Parsers\<close>

definition unit_letter :: "char \<Rightarrow> bool" where
  "unit_letter c \<longleftrightarrow>
     c = CHR ''K'' \<or> c = CHR ''M'' \<or> c = CHR ''G'' \<or> c = CHR ''T'' \<or> c = CHR ''B''"

fun human_loop :: "string \<Rightarrow> string \<Rightarrow> string \<Rightarrow> (string \<times> string) result" where
  "human_loop [] number unit = Inr (number, unit)"
| "human_loop (c # value) number unit =
     (if is_digit c
      then if \<not> unit = [] then Inl (Fatal ''Fail to match human memory size, invalid format'')
           else human_loop value (number @ [c]) unit
      else if unit_letter c then human_loop value number (unit @ [c])
      else Inl (Fatal ''Fail to match human memory size, invalid format''))"

definition fromHumanMemSizeNoRegexp :: "string \<Rightarrow> size_t result" where
  "fromHumanMemSizeNoRegexp value =
     bindE (human_loop value [] []) (\<lambda>(number, unit).
       bindE (atol number) (\<lambda>v.
         let res = to_size v
         in if \<not> res > 0 then Inl (Fatal ''Invalid null size'')
            else if unit = '''' \<or> unit = ''B'' then Inr res
            else if unit = ''KB'' then Inr (sz_mul res 1024)
            else if unit = ''MB'' then Inr (sz_mul res (1024 * 1024))
            else if unit = ''GB'' then Inr (sz_mul res (1024 * 1024 * 1024))
            else if unit = ''TB'' then Inr (sz_mul res (1024 * 1024 * 1024 * 1024))
            else Inl (Fatal ''Invalid unit'')))"

text \<open>The groups of \<open>([0-9]+)([KMGT]?B)?\<close> when the whole string matches.\<close>

definition match_human :: "string \<Rightarrow> (string \<times> string) option" where
  "match_human value =
     (let number = takeWhile is_digit value; unit = dropWhile is_digit value
      in if number \<noteq> [] \<and> unit \<in> {'''', ''B'', ''KB'', ''MB'', ''GB'', ''TB''}
         then Some (number, unit) else None)"

definition fromHumanMemSizeRegexp :: "string \<Rightarrow> size_t result" where
  "fromHumanMemSizeRegexp value =
     (case match_human value of
        Some (number, unit) \<Rightarrow>
          bindE (atol number) (\<lambda>v.
            let res = to_size v
            in if \<not> res > 0 then Inl (Fatal ''Invalid null size'')
               else if unit = ''KB'' then Inr (sz_mul res 1024)
               else if unit = ''MB'' then Inr (sz_mul res (1024 * 1024))
               else if unit = ''GB'' then Inr (sz_mul res (1024 * 1024 * 1024))
               else if unit = ''TB'' then Inr (sz_mul res (1024 * 1024 * 1024 * 1024))
               else Inr res)
      | None \<Rightarrow> Inl (Fatal ''Fail to match human memory size, invalid format''))"

text \<open>\<open>regex\<close> tells whether the library builds the regular expression or throws.\<close>

definition fromHumanMemSize :: "bool \<Rightarrow> string \<Rightarrow> size_t result" where
  "fromHumanMemSize regex value =
     (if regex then fromHumanMemSizeRegexp value else fromHumanMemSizeNoRegexp value)"

section \<open>Agreement of the two parsers\<close>

lemma unit_letter_not_digit: "unit_letter c \<Longrightarrow> \<not> is_digit c"
  by (auto simp: unit_letter_def is_digit_def)

lemma human_loop_unit:
  assumes "u0 \<noteq> []"
  shows "human_loop s n0 u0 = Inr (n, u) \<longleftrightarrow> n = n0 \<and> u = u0 @ s \<and> (\<forall>c \<in> set s. unit_letter c)"
  using assms unit_letter_not_digit by (induction s arbitrary: u0) auto

lemma human_loop_number:
  "human_loop s n0 [] = Inr (n, u) \<longleftrightarrow>
     n = n0 @ takeWhile is_digit s \<and> u = dropWhile is_digit s \<and> (\<forall>c \<in> set u. unit_letter c)"
proof (induction s arbitrary: n0)
  case (Cons c s)
  show ?case
  proof (cases "is_digit c")
    case True
    then show ?thesis using Cons.IH [of "n0 @ [c]"] by auto
  next
    case False
    then show ?thesis using human_loop_unit [of "[c]" s n0 n u] by auto
  qed
qed auto

lemma units_letters: "u \<in> {'''', ''B'', ''KB'', ''MB'', ''GB'', ''TB''} \<Longrightarrow> c \<in> set u \<Longrightarrow> unit_letter c"
  by (auto simp: unit_letter_def)

lemma human_loop_match:
  assumes "match_human value = Some (number, unit)"
  shows "human_loop value [] [] = Inr (number, unit)"
  using assms units_letters [of unit]
  by (auto simp: match_human_def human_loop_number Let_def split: if_splits)

lemma fromHumanMemSizeNoRegexp_Inr:
  assumes "fromHumanMemSizeNoRegexp value = Inr n"
  obtains number unit where "match_human value = Some (number, unit)"
proof -
  obtain number unit v where loop: "human_loop value [] [] = Inr (number, unit)" and v: "atol number = Inr v"
    and pos: "to_size v > 0" and unit: "unit \<in> {'''', ''B'', ''KB'', ''MB'', ''GB'', ''TB''}"
    using assms by (auto simp: fromHumanMemSizeNoRegexp_def Let_def split: if_splits)
  have "number \<noteq> []"
    using v pos by (auto simp: atol_def scan_ld_def to_size_def)
  then show thesis
    using loop unit by (intro that [of number unit]) (auto simp: match_human_def human_loop_number)
qed

lemma human_agree:
  assumes "match_human value = Some (number, unit)"
  shows "fromHumanMemSizeNoRegexp value = fromHumanMemSizeRegexp value"
proof -
  have "unit \<in> {'''', ''B'', ''KB'', ''MB'', ''GB'', ''TB''}"
    using assms by (auto simp: match_human_def Let_def split: if_splits)
  then show ?thesis
    using human_loop_match [OF assms] assms
    by (cases "atol number") (auto simp: fromHumanMemSizeNoRegexp_def fromHumanMemSizeRegexp_def Let_def)
qed

lemma human_size_agree: "fromHumanMemSizeNoRegexp value = Inr n \<longleftrightarrow> fromHumanMemSizeRegexp value = Inr n"
proof
  assume *: "fromHumanMemSizeNoRegexp value = Inr n"
  then obtain number unit where "match_human value = Some (number, unit)"
    by (rule fromHumanMemSizeNoRegexp_Inr)
  with * human_agree show "fromHumanMemSizeRegexp value = Inr n" by metis
next
  assume *: "fromHumanMemSizeRegexp value = Inr n"
  then obtain number unit where "match_human value = Some (number, unit)"
    by (auto simp: fromHumanMemSizeRegexp_def split: option.splits)
  with * human_agree show "fromHumanMemSizeNoRegexp value = Inr n" by metis
qed

section \<open>Printed sizes\<close>

definition unit_factor :: "(string \<times> nat) list" where
  "unit_factor = [('''', 1), (''B'', 1), (''KB'', 1024), (''MB'', 1024 ^ 2), (''GB'', 1024 ^ 3), (''TB'', 1024 ^ 4)]"

lemma human_size_dec:
  assumes unit: "(u, f) \<in> set unit_factor" and n: "0 < n" "n < 2 ^ 63"
  shows "fromHumanMemSizeRegexp (dec n @ u) = Inr (n * f mod W64)"
proof -
  have u: "u \<in> {'''', ''B'', ''KB'', ''MB'', ''GB'', ''TB''}" "u = [] \<or> \<not> is_digit (hd u)"
    using unit by (auto simp: unit_factor_def is_digit_def)
  have ds: "takeWhile is_digit (dec n @ u) = dec n" "dropWhile is_digit (dec n @ u) = u"
    using takeWhile_digits [of "dec n" u] u(2) dec_digits by auto
  then have m: "match_human (dec n @ u) = Some (dec n, u)"
    using u(1) by (simp only: match_human_def Let_def ds) simp
  have "atol (dec n) = Inr (int n)"
    using scan_ld_dec [of "[]" n] n(2) by (simp add: atol_def fits_long_def)
  moreover have "to_size (int n) = n"
    using n(2) by (simp add: to_size_def)
  ultimately show ?thesis
    using unit n by (auto simp: fromHumanMemSizeRegexp_def m unit_factor_def sz_mul_def)
qed

end
