(* ===== verification/Uri.thy ===== *)
theory Uri
  imports CString "HOL-Library.List_Lexorder" "HOL-Library.Char_ord"
begin

text \<open>
  The URIs that describe drivers and policies, \<open>src/uri/Uri.cpp\<close>: the parser by regular
  expression, the one used when the library has no regular expressions, and the access to the
  parameters.
\<close>

section \<open>Parsing by regular expression\<close>

record uri =
  u_uri :: string
  u_type :: string
  u_path :: string
  u_params :: "(string \<times> string) list"

definition uri_reset :: uri where
  "uri_reset = \<lparr>u_uri = [], u_type = [], u_path = [], u_params = []\<rparr>"

definition alnum :: "char \<Rightarrow> bool" where
  "alnum c \<longleftrightarrow> (let n = of_char c :: nat in 48 \<le> n \<and> n \<le> 57 \<or> 65 \<le> n \<and> n \<le> 90 \<or> 97 \<le> n \<and> n \<le> 122)"

definition type_char :: "char \<Rightarrow> bool" where
  "type_char c \<longleftrightarrow> alnum c \<or> c = CHR ''-''"

definition path_char :: "char \<Rightarrow> bool" where
  "path_char c \<longleftrightarrow> alnum c \<or> c \<in> {CHR ''_'', CHR ''/'', CHR ''.'', CHR '':'', CHR ''-''}"

definition value_char :: "char \<Rightarrow> bool" where
  "value_char c \<longleftrightarrow> alnum c \<or> c \<in> {CHR ''.'', CHR ''_'', CHR ''/'', CHR ''+'', CHR ''-''}"

fun split_on :: "char \<Rightarrow> string \<Rightarrow> string list" where
  "split_on c [] = [[]]"
| "split_on c (x # xs) =
     (if x = c then [] # split_on c xs
      else case split_on c xs of [] \<Rightarrow> [[x]] | w # ws \<Rightarrow> (x # w) # ws)"

text \<open>\<open>[a-zA-Z0-9]+=[a-zA-Z0-9._/+-]+\<close>\<close>

definition param_ok :: "string \<Rightarrow> bool" where
  "param_ok w \<longleftrightarrow>
     (let k = takeWhile alnum w; r = dropWhile alnum w
      in k \<noteq> [] \<and> r \<noteq> [] \<and> hd r = CHR ''='' \<and> tl r \<noteq> [] \<and> list_all value_char (tl r))"

text \<open>
  The first three groups of the regular expression when the whole string matches. The
  character classes leave only one way to split the string.
\<close>

definition match_uri :: "string \<Rightarrow> (string \<times> string \<times> string) option" where
  "match_uri s =
     (let t = takeWhile type_char s; r = dropWhile type_char s;
          p = takeWhile path_char (drop 3 r); a = dropWhile path_char (drop 3 r)
      in if t = [] \<or> take 3 r \<noteq> ''://'' \<or> p = [] then None
         else if a = [] then Some (t, p, [])
         else if hd a = CHR ''?'' \<and>
                 (case split_on (CHR ''&'') (tl a) of
                    [] \<Rightarrow> True
                  | w # ws \<Rightarrow> (w = [] \<or> param_ok w) \<and> list_all param_ok ws)
         then Some (t, p, a) else None)"

fun args_loop :: "string \<Rightarrow> string \<Rightarrow> string \<Rightarrow> (string \<times> string) list \<Rightarrow> (string \<times> string) list" where
  "args_loop [] buf name params = params"
| "args_loop (c # args) buf name params =
     (if c = CHR ''&'' then args_loop args [] [] (map_assign name buf params)
      else if c = CHR ''='' then args_loop args [] buf params
      else args_loop args (buf @ [c]) name params)"

definition regexParse :: "string \<Rightarrow> uri \<Rightarrow> uri result" where
  "regexParse uri u =
     (case match_uri uri of
        Some (t, p, args) \<Rightarrow>
          let u1 = u\<lparr>u_uri := uri, u_type := t, u_path := p\<rparr>
          in Inr (if args \<noteq> '''' then u1\<lparr>u_params := args_loop (tl (args @ ''&'')) [] [] (u_params u1)\<rparr> else u1)
      | None \<Rightarrow> Inl (Fatal ''Unrecongnized ummap URI format''))"

section \<open>Parsing without regular expressions\<close>

text \<open>The string the pointer \<open>cur\<close> points to.\<close>

datatype slot = SType | SPath | SKey | SValue

record nr_state =
  nr_uri :: uri
  nr_key :: string
  nr_value :: string
  nr_state :: nat
  nr_cur :: slot

definition nr_push :: "char \<Rightarrow> nr_state \<Rightarrow> nr_state" where
  "nr_push c st =
     (case nr_cur st of
        SType \<Rightarrow> st\<lparr>nr_uri := (nr_uri st)\<lparr>u_type := u_type (nr_uri st) @ [c]\<rparr>\<rparr>
      | SPath \<Rightarrow> st\<lparr>nr_uri := (nr_uri st)\<lparr>u_path := u_path (nr_uri st) @ [c]\<rparr>\<rparr>
      | SKey \<Rightarrow> st\<lparr>nr_key := nr_key st @ [c]\<rparr>
      | SValue \<Rightarrow> st\<lparr>nr_value := nr_value st @ [c]\<rparr>)"

definition nr_end :: "nr_state \<Rightarrow> nr_state result" where
  "nr_end st =
     (if \<not> (nr_state st = 3 \<or> nr_state st = 1) then Inl (Fatal ''Unrecongnized ummap URI format'')
      else if nr_state st = 3
      then Inr (st\<lparr>nr_uri := (nr_uri st)\<lparr>u_params := map_assign (nr_key st) (nr_value st) (u_params (nr_uri st))\<rparr>,
                   nr_key := [], nr_value := [], nr_cur := SKey, nr_state := 2\<rparr>)
      else Inr st)"

text \<open>
  The loop, on the rest of the string from position \<open>i\<close>. The end of the string is seen as
  the character 0, which ends a parameter as \<open>&\<close> does.
\<close>

fun nr_loop :: "string \<Rightarrow> nr_state \<Rightarrow> nr_state result" where
  "nr_loop [] st = nr_end st"
| "nr_loop (c # rest) st =
     (if take 3 (c # rest) = ''://''
      then if \<not> nr_state st = 0 then Inl (Fatal ''Unrecongnized ummap URI format'')
           else nr_loop (drop 2 rest) (st\<lparr>nr_cur := SPath, nr_state := 1\<rparr>)
      else if c = CHR ''?''
      then if \<not> nr_state st = 1 then Inl (Fatal ''Unrecongnized ummap URI format'')
           else nr_loop rest (st\<lparr>nr_cur := SKey, nr_state := 2\<rparr>)
      else if c = CHR ''&'' \<or> c = CHR 0x00 then bindE (nr_end st) (nr_loop rest)
      else if c = CHR ''=''
      then if \<not> nr_state st = 2 then Inl (Fatal ''Unrecongnized ummap URI format'')
           else nr_loop rest (st\<lparr>nr_cur := SValue, nr_state := 3\<rparr>)
      else nr_loop rest (nr_push c st))"

definition noRegexParse :: "string \<Rightarrow> uri \<Rightarrow> uri result" where
  "noRegexParse uri u =
     bindE (nr_loop uri \<lparr>nr_uri = u\<lparr>u_type := [], u_path := []\<rparr>, nr_key = [], nr_value = [],
                         nr_state = 0, nr_cur = SType\<rparr>)
       (\<lambda>st. Inr ((nr_uri st)\<lparr>u_uri := uri\<rparr>))"

text \<open>\<open>regex\<close> tells whether the library builds the regular expression or throws.\<close>

definition parse :: "bool \<Rightarrow> string \<Rightarrow> uri result" where
  "parse regex uri = (if regex then regexParse uri uri_reset else noRegexParse uri uri_reset)"

section \<open>Access\<close>

definition getURI :: "uri \<Rightarrow> string" where
  "getURI u = u_uri u"

definition getType :: "uri \<Rightarrow> string" where
  "getType u = u_type u"

definition getPath :: "uri \<Rightarrow> string" where
  "getPath u = u_path u"

definition getParam :: "string \<Rightarrow> uri \<Rightarrow> string result" where
  "getParam name u =
     (case map_of (u_params u) name of
        Some v \<Rightarrow> Inr v
      | None \<Rightarrow> Inl (Fatal ''Fail to find required parameter''))"

definition getParam_default :: "string \<Rightarrow> string \<Rightarrow> uri \<Rightarrow> string" where
  "getParam_default name defaultValue u =
     (case map_of (u_params u) name of Some v \<Rightarrow> v | None \<Rightarrow> defaultValue)"

definition getParamAsInt :: "string \<Rightarrow> uri \<Rightarrow> int result" where
  "getParamAsInt name u =
     (case map_of (u_params u) name of
        Some v \<Rightarrow> atoi v
      | None \<Rightarrow> Inl (Fatal ''Fail to find required parameter''))"

definition getParamAsInt_default :: "string \<Rightarrow> int \<Rightarrow> uri \<Rightarrow> int result" where
  "getParamAsInt_default name defaultValue u =
     (case map_of (u_params u) name of Some v \<Rightarrow> atoi v | None \<Rightarrow> Inr defaultValue)"

definition getParamAsSizet :: "string \<Rightarrow> uri \<Rightarrow> size_t result" where
  "getParamAsSizet name u =
     (case map_of (u_params u) name of
        Some v \<Rightarrow> bindE (atol v) (\<lambda>n. Inr (to_size n))
      | None \<Rightarrow> Inl (Fatal ''Fail to find required parameter''))"

definition getParamAsSizet_default :: "string \<Rightarrow> size_t \<Rightarrow> uri \<Rightarrow> size_t result" where
  "getParamAsSizet_default name defaultValue u =
     (case map_of (u_params u) name of
        Some v \<Rightarrow> bindE (atol v) (\<lambda>n. Inr (to_size n))
      | None \<Rightarrow> Inr defaultValue)"

section \<open>Printed URIs\<close>

fun print_params :: "(string \<times> string) list \<Rightarrow> string" where
  "print_params [] = []"
| "print_params [e] = fst e @ ''='' @ snd e"
| "print_params (e # es) = fst e @ ''='' @ snd e @ ''&'' @ print_params es"

definition print_uri :: "string \<Rightarrow> string \<Rightarrow> (string \<times> string) list \<Rightarrow> string" where
  "print_uri t p ps = t @ ''://'' @ p @ (if ps = [] then [] else ''?'' @ print_params ps)"

definition assign_all :: "(string \<times> string) list \<Rightarrow> (string \<times> string) list \<Rightarrow> (string \<times> string) list" where
  "assign_all ps params = fold (\<lambda>e. map_assign (fst e) (snd e)) ps params"

definition params_ok :: "(string \<times> string) list \<Rightarrow> bool" where
  "params_ok ps \<longleftrightarrow>
     (\<forall>e \<in> set ps. fst e \<noteq> [] \<and> list_all alnum (fst e) \<and> snd e \<noteq> [] \<and> list_all value_char (snd e))"

definition parts_ok :: "string \<Rightarrow> string \<Rightarrow> (string \<times> string) list \<Rightarrow> bool" where
  "parts_ok t p ps \<longleftrightarrow>
     t \<noteq> [] \<and> list_all type_char t \<and> p \<noteq> [] \<and> list_all path_char p \<and> find_sub ''://'' p = None \<and> params_ok ps"

text \<open>The characters the parsers treat specially are in none of the classes.\<close>

definition special :: "char \<Rightarrow> bool" where
  "special c \<longleftrightarrow> c \<in> {CHR '':'', CHR ''?'', CHR ''&'', CHR ''='', CHR 0x00}"

lemma class_not_special:
  "alnum c \<Longrightarrow> \<not> special c" "type_char c \<Longrightarrow> \<not> special c" "value_char c \<Longrightarrow> \<not> special c"
  "path_char c \<Longrightarrow> c \<noteq> CHR ''?'' \<and> c \<noteq> CHR ''&'' \<and> c \<noteq> CHR ''='' \<and> c \<noteq> CHR 0x00"
  by (auto simp: special_def alnum_def type_char_def value_char_def path_char_def)

lemma not_special_simps:
  "\<not> special c \<Longrightarrow> c \<noteq> CHR '':''" "\<not> special c \<Longrightarrow> c \<noteq> CHR ''?''" "\<not> special c \<Longrightarrow> c \<noteq> CHR ''&''"
  "\<not> special c \<Longrightarrow> c \<noteq> CHR ''=''" "\<not> special c \<Longrightarrow> c \<noteq> CHR 0x00"
  by (auto simp: special_def)

lemma params_okD:
  assumes "params_ok (e # es)"
  shows "\<forall>c \<in> set (fst e). \<not> special c" and "\<forall>c \<in> set (snd e). \<not> special c" and "params_ok es"
    and "fst e \<noteq> []" and "snd e \<noteq> []"
  using assms class_not_special by (auto simp: params_ok_def list_all_iff)

subsection \<open>With the regular expression\<close>

lemma split_on_word:
  assumes "c \<notin> set w"
  shows "split_on c (w @ c # s) = w # split_on c s" and "split_on c w = [w]"
  using assms by (induction w) auto

lemma split_on_params:
  assumes "params_ok ps" and "ps \<noteq> []"
  shows "split_on (CHR ''&'') (print_params ps) = map (\<lambda>e. fst e @ ''='' @ snd e) ps"
  using assms
proof (induction ps rule: print_params.induct)
  case (2 e)
  have "CHR ''&'' \<notin> set (fst e @ ''='' @ snd e)"
    using params_okD(1,2) [OF 2(1)] by (auto simp: special_def)
  from split_on_word(2) [OF this] show ?case by simp
next
  case (3 e f es)
  have "CHR ''&'' \<notin> set (fst e @ ''='' @ snd e)"
    using params_okD(1,2) [OF 3(2)] by (auto simp: special_def)
  from split_on_word(1) [OF this] 3(1) [OF params_okD(3) [OF 3(2)]] show ?case by simp
qed simp

lemma takeWhile_stop:
  assumes "list_all P s" and "t = [] \<or> \<not> P (hd t)"
  shows "takeWhile P (s @ t) = s" and "dropWhile P (s @ t) = t"
proof -
  have "takeWhile P t = []" and "dropWhile P t = t"
    using assms(2) by (cases t; simp)+
  then show "takeWhile P (s @ t) = s" and "dropWhile P (s @ t) = t"
    using assms(1) by (simp_all add: takeWhile_append2 dropWhile_append2 list_all_iff)
qed

lemma param_ok_print:
  assumes "params_ok ps" and "e \<in> set ps"
  shows "param_ok (fst e @ ''='' @ snd e)"
proof -
  have e: "fst e \<noteq> []" "list_all alnum (fst e)" "snd e \<noteq> []" "list_all value_char (snd e)"
    using assms by (auto simp: params_ok_def)
  have "\<not> alnum (CHR ''='')"
    using class_not_special(1) by (auto simp: special_def)
  then have "takeWhile alnum (fst e @ ''='' @ snd e) = fst e" "dropWhile alnum (fst e @ ''='' @ snd e) = ''='' @ snd e"
    using takeWhile_stop [OF e(2), of "''='' @ snd e"] by simp_all
  with e show ?thesis by (simp add: param_ok_def)
qed

lemma match_print_uri:
  assumes "parts_ok t p ps"
  shows "match_uri (print_uri t p ps) = Some (t, p, if ps = [] then [] else ''?'' @ print_params ps)"
proof -
  note ok = assms [unfolded parts_ok_def]
  let ?a = "if ps = [] then [] else ''?'' @ print_params ps"
  have no_colon: "\<not> type_char (CHR '':'')" and no_mark: "\<not> path_char (CHR ''?'')"
    by (auto simp: type_char_def path_char_def alnum_def)
  have t: "takeWhile type_char (t @ ''://'' @ p @ ?a) = t" "dropWhile type_char (t @ ''://'' @ p @ ?a) = ''://'' @ p @ ?a"
    using takeWhile_stop [of type_char t "''://'' @ p @ ?a"] ok no_colon by simp_all
  have p: "takeWhile path_char (p @ ?a) = p" "dropWhile path_char (p @ ?a) = ?a"
    using takeWhile_stop [of path_char p ?a] ok no_mark by auto
  have d: "drop 3 (''://'' @ p @ ?a) = p @ ?a" "take 3 (''://'' @ p @ ?a) = ''://''"
    by simp_all
  have w: "case split_on (CHR ''&'') (print_params ps) of [] \<Rightarrow> True
      | w # ws \<Rightarrow> (w = [] \<or> param_ok w) \<and> list_all param_ok ws" if "ps \<noteq> []"
    using split_on_params [OF _ that] param_ok_print [of ps] ok that
    by (cases ps) (auto simp: list_all_iff)
  show ?thesis
    unfolding match_uri_def print_uri_def Let_def t d p using ok w by (cases "ps = []") simp_all
qed

lemma args_loop_plain:
  assumes "\<forall>c \<in> set s. \<not> special c"
  shows "args_loop (s @ r) buf name params = args_loop r (buf @ s) name params"
  using assms by (induction s arbitrary: buf) (auto dest: not_special_simps)

lemma args_loop_param:
  assumes "params_ok (e # es)"
  shows "args_loop (fst e @ ''='' @ snd e @ ''&'' @ r) [] [] params = args_loop r [] [] (map_assign (fst e) (snd e) params)"
  using args_loop_plain [of "fst e"] args_loop_plain [of "snd e"] params_okD(1,2) [OF assms] by simp

lemma args_loop_params:
  assumes "params_ok ps" and "ps \<noteq> []"
  shows "args_loop (print_params ps @ ''&'') [] [] params = assign_all ps params"
  using assms
proof (induction ps arbitrary: params rule: print_params.induct)
  case (2 e)
  then show ?case
    using args_loop_param [of e "[]" "[]" params] by (simp add: assign_all_def)
next
  case (3 e f es)
  have "args_loop (print_params (e # f # es) @ ''&'') [] [] params =
      args_loop (print_params (f # es) @ ''&'') [] [] (map_assign (fst e) (snd e) params)"
    using args_loop_param [OF 3(2), of "print_params (f # es) @ ''&''"] by simp
  then show ?case
    using 3(1) [OF params_okD(3) [OF 3(2)]] by (simp add: assign_all_def)
qed simp

lemma regexParse_print:
  assumes "parts_ok t p ps"
  shows "regexParse (print_uri t p ps) uri_reset =
    Inr \<lparr>u_uri = print_uri t p ps, u_type = t, u_path = p, u_params = assign_all ps []\<rparr>"
proof (cases "ps = []")
  case True
  then show ?thesis
    using match_print_uri [OF assms] by (simp add: regexParse_def uri_reset_def assign_all_def)
next
  case False
  moreover have "args_loop (print_params ps @ ''&'') [] [] [] = assign_all ps []"
    using args_loop_params False assms by (simp add: parts_ok_def)
  ultimately show ?thesis
    using match_print_uri [OF assms] by (simp add: regexParse_def uri_reset_def)
qed

subsection \<open>Without\<close>

lemma nr_loop_plain:
  assumes "\<forall>c \<in> set s. \<not> special c"
  shows "nr_loop (s @ r) st = nr_loop r (fold nr_push s st)"
  using assms
proof (induction s arbitrary: st)
  case (Cons c s)
  then have "\<not> special c" by simp
  then have "nr_loop (c # s @ r) st = nr_loop (s @ r) (nr_push c st)"
    using not_special_simps [of c] by simp
  with Cons show ?case by simp
qed simp

lemma nr_loop_path:
  assumes "list_all path_char p" and "find_sub ''://'' p = None" and "r = [] \<or> hd r = CHR ''?'' \<or> hd r = CHR ''&''"
  shows "nr_loop (p @ r) st = nr_loop r (fold nr_push p st)"
  using assms(1,2)
proof (induction p arbitrary: st)
  case (Cons c p)
  have "take 3 (c # p @ r) \<noteq> ''://''"
  proof
    assume "take 3 (c # p @ r) = ''://''"
    moreover have "take 3 (c # p) \<noteq> ''://''"
      using Cons.prems(2) by (auto simp: numeral_3_eq_3 split: if_splits)
    ultimately show False
      using assms(3) by (cases p; cases "tl p"; cases r; cases "tl r") auto
  qed
  moreover have "c \<noteq> CHR ''?'' \<and> c \<noteq> CHR ''&'' \<and> c \<noteq> CHR ''='' \<and> c \<noteq> CHR 0x00"
    using Cons.prems(1) class_not_special(4) by simp
  ultimately have "nr_loop (c # p @ r) st = nr_loop (p @ r) (nr_push c st)"
    by (subst nr_loop.simps) (simp only: if_False simp_thms)
  moreover have "find_sub ''://'' p = None"
    using Cons.prems(2) by (auto split: if_splits)
  ultimately show ?case
    using Cons by simp
qed simp

lemma fold_nr_push:
  "fold nr_push s st =
     (case nr_cur st of
        SType \<Rightarrow> st\<lparr>nr_uri := (nr_uri st)\<lparr>u_type := u_type (nr_uri st) @ s\<rparr>\<rparr>
      | SPath \<Rightarrow> st\<lparr>nr_uri := (nr_uri st)\<lparr>u_path := u_path (nr_uri st) @ s\<rparr>\<rparr>
      | SKey \<Rightarrow> st\<lparr>nr_key := nr_key st @ s\<rparr>
      | SValue \<Rightarrow> st\<lparr>nr_value := nr_value st @ s\<rparr>)"
  by (induction s arbitrary: st) (auto simp: nr_push_def split: slot.splits)

text \<open>A parameter, between \<open>?\<close> or \<open>&\<close> and the next \<open>&\<close> or the end.\<close>

definition nr_ready :: "uri \<Rightarrow> nr_state" where
  "nr_ready u = \<lparr>nr_uri = u, nr_key = [], nr_value = [], nr_state = 2, nr_cur = SKey\<rparr>"

lemma nr_loop_param:
  assumes "params_ok (e # es)"
  shows "nr_loop (fst e @ ''='' @ snd e @ r) (nr_ready u) =
    nr_loop r \<lparr>nr_uri = u, nr_key = fst e, nr_value = snd e, nr_state = 3, nr_cur = SValue\<rparr>"
  using nr_loop_plain [of "fst e"] nr_loop_plain [of "snd e"] params_okD(1,2) [OF assms]
  by (simp add: fold_nr_push nr_ready_def)

lemma nr_end_param:
  "nr_end \<lparr>nr_uri = u, nr_key = k, nr_value = v, nr_state = 3, nr_cur = SValue\<rparr> =
    Inr (nr_ready (u\<lparr>u_params := map_assign k v (u_params u)\<rparr>))"
  by (simp add: nr_end_def nr_ready_def)

lemma nr_loop_params:
  assumes "params_ok ps" and "ps \<noteq> []"
  shows "nr_loop (print_params ps) (nr_ready u) = Inr (nr_ready (u\<lparr>u_params := assign_all ps (u_params u)\<rparr>))"
  using assms
proof (induction ps arbitrary: u rule: print_params.induct)
  case (2 e)
  then show ?case
    using nr_loop_param [of e "[]" "[]" u] by (simp add: assign_all_def nr_end_param)
next
  case (3 e f es)
  have "nr_loop (print_params (e # f # es)) (nr_ready u) =
      nr_loop (''&'' @ print_params (f # es))
        \<lparr>nr_uri = u, nr_key = fst e, nr_value = snd e, nr_state = 3, nr_cur = SValue\<rparr>"
    using nr_loop_param [OF 3(2), of "''&'' @ print_params (f # es)" u] by simp
  also have "\<dots> = nr_loop (print_params (f # es)) (nr_ready (u\<lparr>u_params := map_assign (fst e) (snd e) (u_params u)\<rparr>))"
    by (simp add: nr_end_param)
  finally show ?case
    using 3(1) [OF params_okD(3) [OF 3(2)]] by (simp add: assign_all_def)
qed simp

lemma noRegexParse_print:
  assumes "parts_ok t p ps"
  shows "noRegexParse (print_uri t p ps) uri_reset =
    Inr \<lparr>u_uri = print_uri t p ps, u_type = t, u_path = p, u_params = assign_all ps []\<rparr>"
proof -
  note ok = assms [unfolded parts_ok_def]
  let ?a = "if ps = [] then [] else ''?'' @ print_params ps"
  let ?u = "\<lparr>u_uri = [], u_type = t, u_path = p, u_params = []\<rparr>"
  have "\<forall>c \<in> set t. \<not> special c"
    using ok class_not_special(2) by (auto simp: list_all_iff)
  then have "nr_loop (print_uri t p ps) \<lparr>nr_uri = uri_reset, nr_key = [], nr_value = [], nr_state = 0, nr_cur = SType\<rparr> =
      nr_loop (p @ ?a) \<lparr>nr_uri = uri_reset\<lparr>u_type := t\<rparr>, nr_key = [], nr_value = [], nr_state = 1, nr_cur = SPath\<rparr>"
    by (simp add: print_uri_def nr_loop_plain fold_nr_push uri_reset_def)
  also have "\<dots> = nr_loop ?a \<lparr>nr_uri = ?u, nr_key = [], nr_value = [], nr_state = 1, nr_cur = SPath\<rparr>"
    using nr_loop_path [of p ?a] ok by (simp add: fold_nr_push uri_reset_def)
  finally have run: "nr_loop (print_uri t p ps) \<lparr>nr_uri = uri_reset, nr_key = [], nr_value = [], nr_state = 0, nr_cur = SType\<rparr> =
      nr_loop ?a \<lparr>nr_uri = ?u, nr_key = [], nr_value = [], nr_state = 1, nr_cur = SPath\<rparr>" .
  show ?thesis
  proof (cases "ps = []")
    case True
    then show ?thesis
      using run by (simp add: noRegexParse_def nr_end_def uri_reset_def assign_all_def)
  next
    case False
    then have "nr_loop ?a \<lparr>nr_uri = ?u, nr_key = [], nr_value = [], nr_state = 1, nr_cur = SPath\<rparr> =
        Inr (nr_ready (?u\<lparr>u_params := assign_all ps []\<rparr>))"
      using nr_loop_params [of ps ?u] ok by (simp add: nr_ready_def)
    with run show ?thesis
      by (simp add: noRegexParse_def uri_reset_def nr_ready_def)
  qed
qed

subsection \<open>Where the parsers differ\<close>

lemma nr_loop_second_separator:
  assumes "list_all path_char p" and "nr_state st = 1"
  shows "nr_loop (p @ ''://'' @ r) st = Inl (Fatal ''Unrecongnized ummap URI format'')"
  using assms
proof (induction p arbitrary: st)
  case (Cons c p)
  show ?case
  proof (cases "take 3 (c # p @ ''://'' @ r) = ''://''")
    case True
    then show ?thesis
      using Cons.prems(2) by (subst append_Cons, subst nr_loop.simps) (simp only: if_True simp_thms, simp)
  next
    case False
    moreover have "c \<noteq> CHR ''?'' \<and> c \<noteq> CHR ''&'' \<and> c \<noteq> CHR ''='' \<and> c \<noteq> CHR 0x00"
      using Cons.prems(1) class_not_special(4) by simp
    ultimately have "nr_loop (c # p @ ''://'' @ r) st = nr_loop (p @ ''://'' @ r) (nr_push c st)"
      by (subst nr_loop.simps) (simp only: if_False simp_thms)
    moreover have "nr_state (nr_push c st) = 1"
      using Cons.prems(2) by (simp add: nr_push_def split: slot.split)
    ultimately show ?thesis
      using Cons by simp
  qed
qed simp

lemma noRegexParse_second_part:
  assumes "parts_ok t p []" and "parts_ok t q []"
  shows "noRegexParse (t @ ''://'' @ p @ ''&'' @ q) uri_reset =
      Inr \<lparr>u_uri = t @ ''://'' @ p @ ''&'' @ q, u_type = t, u_path = p @ q, u_params = []\<rparr>"
    and "noRegexParse (t @ ''://'' @ p @ ''://'' @ q) uri_reset = Inl (Fatal ''Unrecongnized ummap URI format'')"
proof -
  note ok = assms [unfolded parts_ok_def]
  let ?st = "\<lambda>path. \<lparr>nr_uri = \<lparr>u_uri = [], u_type = t, u_path = path, u_params = []\<rparr>, nr_key = [], nr_value = [],
    nr_state = 1, nr_cur = SPath\<rparr>"
  have "\<forall>c \<in> set t. \<not> special c"
    using ok(1) class_not_special(2) by (auto simp: list_all_iff)
  then have start: "nr_loop (t @ ''://'' @ r) \<lparr>nr_uri = uri_reset, nr_key = [], nr_value = [], nr_state = 0, nr_cur = SType\<rparr> =
      nr_loop r (?st [])" for r
    by (simp add: nr_loop_plain fold_nr_push uri_reset_def)
  have "nr_loop (p @ ''&'' @ q) (?st []) = nr_loop (''&'' @ q) (?st p)"
    using ok(1) nr_loop_path [of p "''&'' @ q"] by (simp add: fold_nr_push)
  also have "\<dots> = nr_loop q (?st p)"
    by (simp add: nr_end_def)
  also have "\<dots> = Inr (?st (p @ q))"
    using ok(2) nr_loop_path [of q "[]" "?st p"] by (simp add: fold_nr_push nr_end_def)
  finally show "noRegexParse (t @ ''://'' @ p @ ''&'' @ q) uri_reset =
      Inr \<lparr>u_uri = t @ ''://'' @ p @ ''&'' @ q, u_type = t, u_path = p @ q, u_params = []\<rparr>"
    using start [of "p @ ''&'' @ q"] by (simp add: noRegexParse_def uri_reset_def)
  show "noRegexParse (t @ ''://'' @ p @ ''://'' @ q) uri_reset = Inl (Fatal ''Unrecongnized ummap URI format'')"
    using start [of "p @ ''://'' @ q"] nr_loop_second_separator [of p "?st []" q] ok(1)
    by (simp add: noRegexParse_def uri_reset_def)
qed

lemma regexParse_second_part:
  assumes "parts_ok t p []" and "parts_ok t q []"
  shows "regexParse (t @ ''://'' @ p @ ''&'' @ q) uri_reset = Inl (Fatal ''Unrecongnized ummap URI format'')"
    and "regexParse (t @ ''://'' @ p @ ''://'' @ q) uri_reset =
      Inr \<lparr>u_uri = t @ ''://'' @ p @ ''://'' @ q, u_type = t, u_path = p @ ''://'' @ q, u_params = []\<rparr>"
proof -
  note ok = assms [unfolded parts_ok_def]
  have cls: "\<not> type_char (CHR '':'')" "\<not> path_char (CHR ''&'')" "path_char (CHR '':'')" "path_char (CHR ''/'')"
    by (auto simp: type_char_def path_char_def alnum_def)
  have t: "takeWhile type_char (t @ ''://'' @ r) = t" "dropWhile type_char (t @ ''://'' @ r) = ''://'' @ r" for r
    using takeWhile_stop [of type_char t "''://'' @ r"] ok(1) cls by simp_all
  have d: "drop 3 (''://'' @ r) = r" "take 3 (''://'' @ r) = ''://''" for r
    by simp_all
  have amp: "takeWhile path_char (p @ ''&'' @ q) = p" "dropWhile path_char (p @ ''&'' @ q) = ''&'' @ q"
    using takeWhile_stop [of path_char p "''&'' @ q"] ok(1) cls by simp_all
  have "match_uri (t @ ''://'' @ p @ ''&'' @ q) = None"
    unfolding match_uri_def Let_def t d amp by simp
  then show "regexParse (t @ ''://'' @ p @ ''&'' @ q) uri_reset = Inl (Fatal ''Unrecongnized ummap URI format'')"
    by (simp add: regexParse_def)
  have "list_all path_char (p @ ''://'' @ q)"
    using ok cls by simp
  then have sep: "takeWhile path_char (p @ ''://'' @ q) = p @ ''://'' @ q" "dropWhile path_char (p @ ''://'' @ q) = []"
    using takeWhile_stop [of path_char "p @ ''://'' @ q" "[]"] by simp_all
  have "match_uri (t @ ''://'' @ p @ ''://'' @ q) = Some (t, p @ ''://'' @ q, [])"
    unfolding match_uri_def Let_def t d sep using ok by simp
  then show "regexParse (t @ ''://'' @ p @ ''://'' @ q) uri_reset =
      Inr \<lparr>u_uri = t @ ''://'' @ p @ ''://'' @ q, u_type = t, u_path = p @ ''://'' @ q, u_params = []\<rparr>"
    by (simp add: regexParse_def uri_reset_def)
qed

lemma assign_all_sorted: "sorted_map params \<Longrightarrow> sorted_map (assign_all ps params)"
  and assign_all_lookup: "sorted_map params \<Longrightarrow>
    map_of (assign_all ps params) = (\<lambda>k. case map_of (rev ps) k of None \<Rightarrow> map_of params k | Some v \<Rightarrow> Some v)"
proof -
  have "sorted_map (assign_all ps params) \<and>
    map_of (assign_all ps params) = (\<lambda>k. case map_of (rev ps) k of None \<Rightarrow> map_of params k | Some v \<Rightarrow> Some v)"
    if "sorted_map params"
    using that
  proof (induction ps arbitrary: params)
    case (Cons e ps)
    from Cons.IH [OF map_assign_correct(2) [OF Cons.prems]] map_assign_correct(1) [OF Cons.prems]
    show ?case
      by (auto simp: assign_all_def fun_eq_iff map_add_def split: option.split)
  qed (simp add: assign_all_def)
  then show "sorted_map params \<Longrightarrow> sorted_map (assign_all ps params)"
    and "sorted_map params \<Longrightarrow>
      map_of (assign_all ps params) = (\<lambda>k. case map_of (rev ps) k of None \<Rightarrow> map_of params k | Some v \<Rightarrow> Some v)"
    by blast+
qed

end
