(* ===== verification/Variables.thy ===== *)
theory Variables
  imports CString "HOL-Library.List_Lexorder" "HOL-Library.Char_ord"
begin

text \<open>
  The variables that a URI may mention as \<open>{name}\<close>: \<open>registerVariable\<close> and
  \<open>replaceVariables\<close> of \<open>src/uri/UriHandler.cpp\<close>.
\<close>

section \<open>Operations\<close>

definition registerVariable :: "string \<Rightarrow> string \<Rightarrow> (string \<times> string) list \<Rightarrow> (string \<times> string) list" where
  "registerVariable name value variables = map_assign name value variables"

definition registerVariable_int :: "string \<Rightarrow> int \<Rightarrow> (string \<times> string) list \<Rightarrow> (string \<times> string) list" where
  "registerVariable_int name value variables = map_assign name (dec_int value) variables"

definition registerVariable_size :: "string \<Rightarrow> size_t \<Rightarrow> (string \<times> string) list \<Rightarrow> (string \<times> string) list" where
  "registerVariable_size name value variables = map_assign name (dec value) variables"

text \<open>The inner loop of \<open>replaceVariables\<close>: \<open>pos\<close> is where the next search starts.\<close>

function replace_loop :: "string \<Rightarrow> string \<Rightarrow> string \<Rightarrow> nat \<Rightarrow> string" where
  "replace_loop var val str pos =
     (case find_from var str pos of
        None \<Rightarrow> str
      | Some index \<Rightarrow>
          if length var = 0 then str
          else replace_loop var val (take index str @ val @ drop (index + length var) str) (index + length val))"
  by pat_completeness auto
termination
proof (relation "measure (\<lambda>(var, val, str, pos). length str - pos)")
  fix var val str :: string and pos index :: nat
  assume "find_from var str pos = Some index" and "length var \<noteq> 0"
  then show "((var, val, take index str @ val @ drop (index + length var) str, index + length val), var, val, str, pos)
      \<in> measure (\<lambda>(var, val, str, pos). length str - pos)"
    using find_from_Some(2,3) [of var str pos index] by (cases var) simp_all
qed simp

declare replace_loop.simps [simp del]

definition var_ref :: "string \<Rightarrow> string" where
  "var_ref name = ''{'' @ name @ ''}''"

definition replaceVariables :: "(string \<times> string) list \<Rightarrow> string \<Rightarrow> string" where
  "replaceVariables variables str =
     fold (\<lambda>it str. replace_loop (var_ref (fst it)) (snd it) str 0) variables str"

section \<open>The loop and a single scan\<close>

function replace_scan :: "string \<Rightarrow> string \<Rightarrow> string \<Rightarrow> string" where
  "replace_scan var val [] = []"
| "replace_scan var val (c # s) =
     (if var \<noteq> [] \<and> take (length var) (c # s) = var
      then val @ replace_scan var val (drop (length var) (c # s))
      else c # replace_scan var val s)"
  by pat_completeness auto
termination
proof (relation "measure (\<lambda>(var, val, s). length s)")
  fix var val s :: string and c
  assume "var \<noteq> [] \<and> take (length var) (c # s) = var"
  then show "((var, val, drop (length var) (c # s)), var, val, c # s) \<in> measure (\<lambda>(var, val, s). length s)"
    by (cases var) simp_all
qed simp_all

lemma replace_scan_find:
  assumes "var \<noteq> []"
  shows "replace_scan var val s =
    (case find_sub var s of None \<Rightarrow> s | Some i \<Rightarrow> take i s @ val @ replace_scan var val (drop (i + length var) s))"
  using assms
proof (induction s)
  case (Cons c s)
  then show ?case
    by (cases "take (length var) (c # s) = var"; cases "find_sub var s") (auto simp: add.commute)
qed simp

lemma replace_loop_scan:
  assumes "var \<noteq> []" and "pos \<le> length str"
  shows "replace_loop var val str pos = take pos str @ replace_scan var val (drop pos str)"
  using assms
proof (induction var val str pos rule: replace_loop.induct)
  case (1 var val str pos)
  show ?case
  proof (cases "find_sub var (drop pos str)")
    case None
    then have "find_from var str pos = None"
      using 1(3) by (simp add: find_from_def)
    with None show ?thesis
      using replace_scan_find [OF 1(2), of val "drop pos str"] by (subst replace_loop.simps) simp
  next
    case (Some i)
    then have f: "find_from var str pos = Some (pos + i)"
      using 1(3) by (simp add: find_from_def)
    have le: "pos + i + length var \<le> length str"
      by (rule find_from_Some(3) [OF f])
    let ?v = "take (pos + i) str @ val @ drop (pos + i + length var) str"
    have "replace_loop var val str pos = replace_loop var val ?v (pos + i + length val)"
      using f 1(2) by (subst replace_loop.simps) simp
    also have "\<dots> = take (pos + i) str @ val @ replace_scan var val (drop (pos + i + length var) str)"
      using 1(1) [OF f] 1(2) le by simp
    also have "\<dots> = take pos str @ replace_scan var val (drop pos str)"
      using replace_scan_find [OF 1(2), of val "drop pos str"] Some
      by (simp add: take_add) (simp add: ac_simps)
    finally show ?thesis .
  qed
qed

section \<open>Templates\<close>

text \<open>A string with references to variables.\<close>

datatype piece = Lit string | Ref string

fun render_piece :: "piece \<Rightarrow> string" where
  "render_piece (Lit s) = s"
| "render_piece (Ref name) = var_ref name"

definition render :: "piece list \<Rightarrow> string" where
  "render ps = concat (map render_piece ps)"

fun piece_ok :: "piece \<Rightarrow> bool" where
  "piece_ok (Lit s) \<longleftrightarrow> CHR ''{'' \<notin> set s"
| "piece_ok (Ref name) \<longleftrightarrow> CHR ''{'' \<notin> set name \<and> CHR ''}'' \<notin> set name"

text \<open>The replacement of one variable in a template; the value is a template too.\<close>

fun subst_piece :: "string \<Rightarrow> piece list \<Rightarrow> piece \<Rightarrow> piece list" where
  "subst_piece name val (Lit s) = [Lit s]"
| "subst_piece name val (Ref n) = (if n = name then val else [Ref n])"

definition subst_var :: "string \<Rightarrow> piece list \<Rightarrow> piece list \<Rightarrow> piece list" where
  "subst_var name val ps = concat (map (subst_piece name val) ps)"

lemma replace_scan_lit:
  assumes "CHR ''{'' \<notin> set s"
  shows "replace_scan (var_ref name) val (s @ r) = s @ replace_scan (var_ref name) val r"
  using assms by (induction s) (auto simp: var_ref_def)

lemma var_ref_prefix:
  assumes "CHR ''}'' \<notin> set n" and "CHR ''}'' \<notin> set name"
    and "take (length (var_ref name)) (var_ref n @ r) = var_ref name"
  shows "n = name"
proof -
  have "take (Suc (length name)) (n @ CHR ''}'' # r) = name @ [CHR ''}'']"
    using assms(3) by (simp add: var_ref_def)
  then obtain r' where "n @ CHR ''}'' # r = (name @ [CHR ''}'']) @ r'"
    by (metis append_take_drop_id)
  then have "takeWhile (\<lambda>c. c \<noteq> CHR ''}'') (n @ CHR ''}'' # r) = takeWhile (\<lambda>c. c \<noteq> CHR ''}'') (name @ CHR ''}'' # r')"
    by simp
  moreover have "takeWhile (\<lambda>c. c \<noteq> CHR ''}'') (x @ CHR ''}'' # y) = x" if "CHR ''}'' \<notin> set x" for x y
    using that by (induction x) auto
  ultimately show ?thesis
    using assms(1,2) by simp
qed

lemma replace_scan_ref:
  assumes n: "piece_ok (Ref n)" and name: "piece_ok (Ref name)"
  shows "replace_scan (var_ref name) (render val) (var_ref n @ r) =
    render (subst_piece name val (Ref n)) @ replace_scan (var_ref name) (render val) r"
proof (cases "n = name")
  case True
  then show ?thesis
    by (simp add: var_ref_def)
next
  case False
  then have "take (length (var_ref name)) (var_ref n @ r) \<noteq> var_ref name"
    using var_ref_prefix n name by auto
  then have "replace_scan (var_ref name) (render val) (var_ref n @ r) =
      CHR ''{'' # replace_scan (var_ref name) (render val) ((n @ ''}'') @ r)"
    by (simp add: var_ref_def)
  also have "\<dots> = CHR ''{'' # (n @ ''}'') @ replace_scan (var_ref name) (render val) r"
    using replace_scan_lit [of "n @ ''}''" name "render val" r] n by simp
  finally show ?thesis
    using False by (simp add: var_ref_def render_def)
qed

lemma render_append [simp]: "render (ps @ qs) = render ps @ render qs"
  by (simp add: render_def)

lemma replace_scan_render:
  assumes "list_all piece_ok ps" and "piece_ok (Ref name)"
  shows "replace_scan (var_ref name) (render val) (render ps) = render (subst_var name val ps)"
  using assms(1)
proof (induction ps)
  case (Cons p ps)
  have "render (p # ps) = render_piece p @ render ps"
    by (simp add: render_def)
  with Cons show ?case
    using replace_scan_lit replace_scan_ref [OF _ assms(2)] by (cases p) (auto simp: subst_var_def render_def)
qed (simp add: render_def subst_var_def)

lemma subst_var_ok:
  assumes "list_all piece_ok ps" and "list_all piece_ok val"
  shows "list_all piece_ok (subst_var name val ps)"
proof -
  have "list_all piece_ok (subst_piece name val p)" if "piece_ok p" for p
    using that assms(2) by (cases p) simp_all
  then show ?thesis
    using assms(1) by (induction ps) (auto simp: subst_var_def)
qed

lemma replaceVariables_render:
  assumes "list_all piece_ok ps" and "\<forall>e \<in> set vars. piece_ok (Ref (fst e)) \<and> list_all piece_ok (snd e)"
  shows "replaceVariables (map (\<lambda>e. (fst e, render (snd e))) vars) (render ps) =
    render (fold (\<lambda>e. subst_var (fst e) (snd e)) vars ps)"
  using assms
proof (induction vars arbitrary: ps)
  case (Cons e vars)
  have "replace_loop (var_ref (fst e)) (render (snd e)) (render ps) 0 = render (subst_var (fst e) (snd e) ps)"
    using replace_loop_scan [of "var_ref (fst e)" 0 "render ps" "render (snd e)"] replace_scan_render [of ps "fst e" "snd e"] Cons.prems
    by (simp add: var_ref_def)
  moreover have "list_all piece_ok (subst_var (fst e) (snd e) ps)"
    using Cons.prems by (intro subst_var_ok) simp_all
  ultimately show ?case
    using Cons.IH [of "subst_var (fst e) (snd e) ps"] Cons.prems(2) by (simp add: replaceVariables_def)
qed (simp add: replaceVariables_def)

text \<open>With values that mention no variable this is the simultaneous replacement.\<close>

fun expand_piece :: "(string \<Rightarrow> string option) \<Rightarrow> piece \<Rightarrow> piece" where
  "expand_piece f (Lit s) = Lit s"
| "expand_piece f (Ref n) = (case f n of Some v \<Rightarrow> Lit v | None \<Rightarrow> Ref n)"

lemma subst_plain:
  assumes "distinct (map fst vars)"
  shows "fold (\<lambda>e. subst_var (fst e) [Lit (snd e)]) vars ps = map (expand_piece (map_of vars)) ps"
  using assms
proof (induction vars arbitrary: ps)
  case Nil
  have "expand_piece Map.empty = id"
    by (rule ext, rename_tac p, case_tac p) simp_all
  then show ?case by simp
next
  case (Cons e vars)
  have "subst_var (fst e) [Lit (snd e)] ps = map (expand_piece [fst e \<mapsto> snd e]) ps"
  proof -
    have "subst_piece (fst e) [Lit (snd e)] p = [expand_piece [fst e \<mapsto> snd e] p]" for p
      by (cases p) simp_all
    then show ?thesis by (induction ps) (simp_all add: subst_var_def)
  qed
  moreover have "expand_piece (map_of vars) (expand_piece [fst e \<mapsto> snd e] p) = expand_piece (map_of (e # vars)) p" for p
    using Cons.prems by (cases p; cases e) (auto split: option.split dest: map_of_SomeD)
  ultimately show ?case
    using Cons by (simp add: comp_def fun_upd_def)
qed

end
