(* ===== verification/Listings.thy ===== *)
theory Listings
  imports CString "HOL-Library.List_Lexorder" "HOL-Library.Char_ord"
begin

text \<open>
  The tables that give names to object identifiers, \<open>src/uri/Listings.cpp\<close>: every table is
  loaded from a text file on first use and written back at the end.
\<close>

section \<open>State and operations\<close>

record object_id =
  oid_low :: int
  oid_high :: int

type_synonym object_map = "(string \<times> object_id) list"
type_synonym listing_map = "(string \<times> object_map) list"

text \<open>
  What the code uses of files: the content of a file that can be opened for reading, and for a
  file that is written \<open>fopen\<close> with truncation, \<open>fprintf\<close> and \<open>fclose\<close> with their results. The code
  looks at the result of \<open>fopen\<close> only.
\<close>

record 'f text_files =
  read_text :: "string \<Rightarrow> 'f \<Rightarrow> string option"
  open_write :: "string \<Rightarrow> 'f \<Rightarrow> 'f option"
  put_text :: "string \<Rightarrow> string \<Rightarrow> 'f \<Rightarrow> int \<times> 'f"
  close_text :: "string \<Rightarrow> 'f \<Rightarrow> int \<times> 'f"

definition newline :: char where
  "newline = CHR 0x0A"

definition tab :: char where
  "tab = CHR 0x09"

text \<open>\<open>fgets\<close> into a buffer of \<open>n + 1\<close> characters: the characters read and the rest of the file.\<close>

definition fgets :: "nat \<Rightarrow> string \<Rightarrow> string \<times> string" where
  "fgets n s =
     (let l = takeWhile (\<lambda>c. c \<noteq> newline) s;
          line = take n (if length l < length s then l @ [newline] else l)
      in (line, drop (length line) s))"

text \<open>\<open>sscanf(buf, "%s\t%ld:%ld", ...)\<close>, with the values when it returns 3.\<close>

definition scan_entry :: "string \<Rightarrow> (string \<times> object_id) option result" where
  "scan_entry buf =
     (let s = takeWhile (\<lambda>c. c \<noteq> CHR 0x00) buf;
          s1 = dropWhile is_space s;
          objname = takeWhile (\<lambda>c. \<not> is_space c) s1;
          r = dropWhile is_space (dropWhile (\<lambda>c. \<not> is_space c) s1)
      in if objname = [] then Inr None
         else bindE (scan_pair r) (\<lambda>p. case p of
           None \<Rightarrow> Inr None
         | Some (high, low) \<Rightarrow> Inr (Some (objname, \<lparr>oid_low = low, oid_high = high\<rparr>))))"

function load_loop :: "string \<Rightarrow> object_map \<Rightarrow> object_map result" where
  "load_loop content store =
     (if content = [] then Inr store
      else let (buf, rest) = fgets 4095 content
           in bindE (scan_entry buf) (\<lambda>r. case r of
                None \<Rightarrow> Inl (Fatal ''Invalid format in listing'')
              | Some (objname, obj) \<Rightarrow> load_loop rest (map_assign objname obj store)))"
  by pat_completeness auto
termination
proof (relation "measure (\<lambda>(content, store). length content)")
  fix content store p buf rest r q objname obj
  assume c: "content \<noteq> []" and "p = fgets 4095 content" "(buf, rest) = p"
  then have rest: "rest = drop (length buf) content" and buf: "buf = fst (fgets 4095 content)"
    by (metis fgets_def fst_conv prod.inject, metis fst_conv)
  have "buf \<noteq> []"
    using c buf by (cases content) (auto simp: fgets_def Let_def)
  with c rest show "((rest, map_assign objname obj store), content, store) \<in> measure (\<lambda>(content, store). length content)"
    by simp
qed simp

declare load_loop.simps [simp del]

definition lookup_listing :: "string \<Rightarrow> listing_map \<Rightarrow> object_map" where
  "lookup_listing listing ls = (case map_of ls listing of None \<Rightarrow> [] | Some m \<Rightarrow> m)"

definition loadListing :: "'f text_files \<Rightarrow> string \<Rightarrow> 'f \<Rightarrow> listing_map \<Rightarrow> listing_map result" where
  "loadListing files listing f ls =
     (case read_text files listing f of
        None \<Rightarrow> Inr (map_assign listing (lookup_listing listing ls) ls)
      | Some content \<Rightarrow>
          bindE (load_loop content (lookup_listing listing ls)) (\<lambda>store. Inr (map_assign listing store ls)))"

text \<open>\<open>rands\<close> are the next four values of \<open>std::rand\<close>.\<close>

definition createObjectId ::
  "int \<times> int \<times> int \<times> int \<Rightarrow> string \<Rightarrow> string \<Rightarrow> listing_map \<Rightarrow> object_id \<times> listing_map" where
  "createObjectId rands listing name ls =
     (let (r1, r2, r3, r4) = rands;
          obj = \<lparr>oid_low = r1 * 2 ^ 32 + r2, oid_high = r3 * 2 ^ 32 + r4\<rparr>
      in (obj, map_assign listing (map_assign name obj (lookup_listing listing ls)) ls))"

definition createListingAndObjectId ::
  "'f text_files \<Rightarrow> int \<times> int \<times> int \<times> int \<Rightarrow> string \<Rightarrow> string \<Rightarrow> 'f \<Rightarrow> listing_map
    \<Rightarrow> (object_id \<times> listing_map) result" where
  "createListingAndObjectId files rands listing name f ls =
     (case read_text files listing f of
        Some _ \<Rightarrow>
          bindE (loadListing files listing f ls) (\<lambda>ls1.
            case map_of (lookup_listing listing ls1) name of
              Some obj \<Rightarrow> Inr (obj, ls1)
            | None \<Rightarrow> Inr (createObjectId rands listing name ls1))
      | None \<Rightarrow> Inr (createObjectId rands listing name ls))"

definition getObjectId ::
  "'f text_files \<Rightarrow> int \<times> int \<times> int \<times> int \<Rightarrow> string \<Rightarrow> string \<Rightarrow> 'f \<Rightarrow> listing_map
    \<Rightarrow> (object_id \<times> listing_map) result" where
  "getObjectId files rands listing name f ls =
     (if \<not> listing \<noteq> [] then Inl (Fatal ''Invalid empty listing filename !'')
      else if \<not> name \<noteq> [] then Inl (Fatal ''Invalid ressource name !'')
      else case map_of ls listing of
             None \<Rightarrow> createListingAndObjectId files rands listing name f ls
           | Some m \<Rightarrow>
               (case map_of m name of
                  None \<Rightarrow> Inr (createObjectId rands listing name ls)
                | Some obj \<Rightarrow> Inr (obj, ls)))"

text \<open>\<open>fprintf(fp, "%s\t%lu:%lu\n", ...)\<close>\<close>

definition entry_line :: "string \<times> object_id \<Rightarrow> string" where
  "entry_line it =
     fst it @ [tab] @ dec (to_size (oid_high (snd it))) @ '':'' @ dec (to_size (oid_low (snd it))) @ [newline]"

definition put_entries :: "'f text_files \<Rightarrow> string \<Rightarrow> object_map \<Rightarrow> 'f \<Rightarrow> 'f" where
  "put_entries files name listing f = fold (\<lambda>it f. snd (put_text files name (entry_line it) f)) listing f"

definition saveListing :: "'f text_files \<Rightarrow> object_map \<Rightarrow> string \<Rightarrow> 'f \<Rightarrow> 'f result" where
  "saveListing files listing name f =
     (case open_write files name f of
        None \<Rightarrow> Inl (Fatal ''Fail to open listing file'')
      | Some f1 \<Rightarrow> Inr (snd (close_text files name (put_entries files name listing f1))))"

definition saveListings :: "'f text_files \<Rightarrow> listing_map \<Rightarrow> 'f \<Rightarrow> 'f result" where
  "saveListings files ls f = foldE (\<lambda>it f. saveListing files (snd it) (fst it) f) ls f"

section \<open>Saving and loading\<close>

definition entry_ok :: "string \<times> object_id \<Rightarrow> bool" where
  "entry_ok e \<longleftrightarrow>
     fst e \<noteq> [] \<and> (\<forall>c \<in> set (fst e). \<not> is_space c \<and> c \<noteq> CHR 0x00) \<and>
     0 \<le> oid_high (snd e) \<and> oid_high (snd e) < 2 ^ 63 \<and> 0 \<le> oid_low (snd e) \<and> oid_low (snd e) < 2 ^ 63 \<and>
     length (entry_line e) \<le> 4095"

lemma separators [simp]:
  "is_space newline" "is_space tab" "\<not> is_space (CHR '':'')" "\<not> is_digit newline" "\<not> is_digit (CHR '':'')"
  "tab \<noteq> newline" "CHR '':'' \<noteq> newline" "tab \<noteq> CHR 0x00" "newline \<noteq> CHR 0x00"
  "newline \<noteq> tab" "newline \<noteq> CHR '':''" "CHR 0x00 \<noteq> tab" "CHR 0x00 \<noteq> newline"
  by (simp_all add: newline_def tab_def is_space_def is_digit_def)

lemma dec_chars: "c \<in> set (dec n) \<Longrightarrow> \<not> is_space c \<and> c \<noteq> newline \<and> c \<noteq> CHR 0x00"
  using dec_digits [of c n] digit_not_space [of c] separators(4) by (auto simp: is_digit_def)

lemma dec_absent [simp]: "newline \<notin> set (dec n)" "CHR 0x00 \<notin> set (dec n)"
  using dec_chars by blast+

lemma entry_okD:
  assumes "entry_ok e"
  shows "fst e \<noteq> []" and "\<forall>c \<in> set (fst e). \<not> is_space c"
    and "0 \<le> oid_high (snd e)" and "oid_high (snd e) < 2 ^ 63" and "0 \<le> oid_low (snd e)" and "oid_low (snd e) < 2 ^ 63"
  using assms unfolding entry_ok_def by blast+

lemma name_absent: "entry_ok e \<Longrightarrow> newline \<notin> set (fst e) \<and> CHR 0x00 \<notin> set (fst e)"
  unfolding entry_ok_def using separators(1) by blast

lemma fgets_line:
  assumes "entry_ok e"
  shows "fgets 4095 (entry_line e @ r) = (entry_line e, r)"
proof -
  obtain l where l: "entry_line e = l @ [newline]" and no: "newline \<notin> set l" and len: "length l < 4095"
  proof
    show "entry_line e = (fst e @ [tab] @ dec (to_size (oid_high (snd e))) @ '':'' @ dec (to_size (oid_low (snd e)))) @ [newline]"
      by (simp add: entry_line_def)
    show "newline \<notin> set (fst e @ [tab] @ dec (to_size (oid_high (snd e))) @ '':'' @ dec (to_size (oid_low (snd e))))"
      using name_absent [OF assms] by simp
    show "length (fst e @ [tab] @ dec (to_size (oid_high (snd e))) @ '':'' @ dec (to_size (oid_low (snd e)))) < 4095"
      using assms by (simp add: entry_ok_def entry_line_def)
  qed
  have tw: "takeWhile (\<lambda>c. c \<noteq> newline) (l @ [newline] @ r) = l"
    using no by (induction l) auto
  have all: "take 4095 (l @ [newline]) = l @ [newline]"
    using len by (intro take_all) simp
  have "fgets 4095 (l @ [newline] @ r) = (l @ [newline], r)"
    unfolding fgets_def tw Let_def using all by simp
  then show ?thesis
    by (simp add: l)
qed

lemma scan_pair_line:
  assumes "h < 2 ^ 63" and "l < 2 ^ 63"
  shows "scan_pair (dec h @ '':'' @ dec l @ [newline]) = Inr (Some (int h, int l))"
proof -
  have "scan_ld (dec h @ '':'' @ dec l @ [newline]) = Some (int h, '':'' @ dec l @ [newline])"
    by (rule scan_ld_dec) simp
  moreover have "scan_ld (dec l @ [newline]) = Some (int l, [newline])"
    by (rule scan_ld_dec) simp
  moreover have "fits_long (int h)" and "fits_long (int l)"
    using assms by (simp_all add: fits_long_def)
  ultimately show ?thesis
    by (simp add: scan_pair_def)
qed

lemma scan_entry_line:
  assumes "entry_ok e"
  shows "scan_entry (entry_line e) = Inr (Some e)"
proof -
  define h l where "h = to_size (oid_high (snd e))" and "l = to_size (oid_low (snd e))"
  have hl: "h < 2 ^ 63" "l < 2 ^ 63" "int h = oid_high (snd e)" "int l = oid_low (snd e)"
    using entry_okD(3-6) [OF assms] by (simp_all add: h_def l_def to_size_def nat_less_iff)
  obtain c cs where name: "fst e = c # cs" and nosp: "\<forall>x \<in> set (fst e). \<not> is_space x"
    using entry_okD(1,2) [OF assms] by (cases "fst e") simp_all
  obtain d ds where d: "dec h @ '':'' @ dec l @ [newline] = d # ds" "\<not> is_space d"
    using dec_chars [of _ h] by (cases "dec h") auto
  have line: "entry_line e = fst e @ tab # d # ds"
    using d(1) by (simp add: entry_line_def h_def l_def)
  have "CHR 0x00 \<notin> set (entry_line e)"
    using name_absent [OF assms] by (simp add: entry_line_def)
  then have nul: "takeWhile (\<lambda>x. x \<noteq> CHR 0x00) (entry_line e) = entry_line e"
    by (auto simp: takeWhile_eq_all_conv)
  have "dropWhile is_space (entry_line e) = entry_line e"
    using nosp by (simp add: line name)
  moreover have "takeWhile (\<lambda>x. \<not> is_space x) (entry_line e) = fst e"
    and "dropWhile (\<lambda>x. \<not> is_space x) (entry_line e) = tab # d # ds"
    using nosp by (simp_all add: line takeWhile_append2 dropWhile_append2)
  moreover have "scan_pair (d # ds) = Inr (Some (oid_high (snd e), oid_low (snd e)))"
    using scan_pair_line [OF hl(1,2)] d(1) hl(3,4) by simp
  ultimately show ?thesis
    unfolding scan_entry_def Let_def nul using d(2) name by (cases e) simp
qed

lemma load_saved:
  assumes "list_all entry_ok es"
  shows "load_loop (concat (map entry_line es)) store = Inr (fold (\<lambda>e. map_assign (fst e) (snd e)) es store)"
  using assms
proof (induction es arbitrary: store)
  case Nil
  then show ?case by (simp add: load_loop.simps)
next
  case (Cons e es)
  then have e: "entry_ok e" by simp
  have "entry_line e \<noteq> []"
    by (simp add: entry_line_def)
  with Cons fgets_line [OF e] scan_entry_line [OF e] show ?case
    by (subst load_loop.simps) (simp split: prod.split)
qed

section \<open>Identifiers do not change\<close>

definition listings_ok :: "listing_map \<Rightarrow> bool" where
  "listings_ok ls \<longleftrightarrow> sorted_map ls \<and> (\<forall>e \<in> set ls. sorted_map (snd e))"

lemma listings_ok_assign:
  assumes "listings_ok ls" and "sorted_map m"
  shows "listings_ok (map_assign l m ls)" and "map_of (map_assign l m ls) l = Some m"
proof -
  have "set (map_assign l m ls) \<subseteq> insert (l, m) (set ls)"
    by (induction ls) auto
  with assms map_assign_correct [of ls l m] show "listings_ok (map_assign l m ls)"
    and "map_of (map_assign l m ls) l = Some m"
    by (auto simp: listings_ok_def)
qed

lemma listings_ok_lookup: "listings_ok ls \<Longrightarrow> sorted_map (lookup_listing l ls)"
  by (cases "map_of ls l") (auto simp: listings_ok_def lookup_listing_def sorted_map_def dest!: map_of_SomeD)

lemma load_loop_sorted: "load_loop content store = Inr store' \<Longrightarrow> sorted_map store \<Longrightarrow> sorted_map store'"
proof (induction content store rule: load_loop.induct)
  case (1 content store)
  show ?case
  proof (cases "content = []")
    case True
    with 1 show ?thesis by (simp add: load_loop.simps)
  next
    case False
    obtain buf rest where fg: "fgets 4095 content = (buf, rest)" by (cases "fgets 4095 content")
    have "bindE (scan_entry buf) (\<lambda>r. case r of
                None \<Rightarrow> Inl (Fatal ''Invalid format in listing'')
              | Some (objname, obj) \<Rightarrow> load_loop rest (map_assign objname obj store)) = Inr store'"
      using 1(2) unfolding load_loop.simps [of content store] fg Let_def prod.case if_not_P [OF False] .
    then obtain objname obj where run: "load_loop rest (map_assign objname obj store) = Inr store'"
      by (auto split: option.splits)
    show ?thesis
      by (rule 1(1) [OF False refl fg [symmetric] run]) (simp add: map_assign_correct(2) 1(3))
  qed
qed

lemma createObjectId_stored:
  assumes "listings_ok ls" and "createObjectId rands l name ls = (obj, ls')"
  shows "listings_ok ls'" and "\<exists>m. map_of ls' l = Some m \<and> map_of m name = Some obj"
proof -
  let ?m = "map_assign name obj (lookup_listing l ls)"
  have m: "sorted_map ?m" "map_of ?m name = Some obj"
    using map_assign_correct [OF listings_ok_lookup [OF assms(1), of l]] by auto
  have "ls' = map_assign l ?m ls"
    using assms(2) by (auto simp: createObjectId_def Let_def split: prod.splits)
  with listings_ok_assign [OF assms(1) m(1)] m(2) show "listings_ok ls'"
    and "\<exists>m. map_of ls' l = Some m \<and> map_of m name = Some obj"
    by auto
qed

lemma loadListing_stored:
  assumes "listings_ok ls" and "loadListing files l f ls = Inr ls'"
  shows "listings_ok ls'" and "map_of ls' l = Some (lookup_listing l ls')"
proof -
  obtain m where m: "sorted_map m" and ls': "ls' = map_assign l m ls"
    using assms load_loop_sorted listings_ok_lookup [OF assms(1), of l]
    by (fastforce simp: loadListing_def split: option.splits)
  show "listings_ok ls'" and "map_of ls' l = Some (lookup_listing l ls')"
    using listings_ok_assign [OF assms(1) m, of l] by (simp_all add: ls' lookup_listing_def)
qed

lemma getObjectId_stored:
  assumes ok: "listings_ok ls" and run: "getObjectId files rands l name f ls = Inr (obj, ls')"
  shows "listings_ok ls' \<and> l \<noteq> [] \<and> name \<noteq> [] \<and> (\<exists>m. map_of ls' l = Some m \<and> map_of m name = Some obj)"
proof -
  have ne: "l \<noteq> []" "name \<noteq> []"
    using run by (auto simp: getObjectId_def split: if_splits)
  consider (create) ls1 where "listings_ok ls1" "createObjectId rands l name ls1 = (obj, ls')"
    | (found) m where "listings_ok ls'" "map_of ls' l = Some m" "map_of m name = Some obj"
  proof (cases "map_of ls l")
    case None
    then have "createListingAndObjectId files rands l name f ls = Inr (obj, ls')"
      using run ne by (simp add: getObjectId_def)
    then consider "createObjectId rands l name ls = (obj, ls')"
      | ls1 where "loadListing files l f ls = Inr ls1"
        "(case map_of (lookup_listing l ls1) name of
              Some obj \<Rightarrow> Inr (obj, ls1) | None \<Rightarrow> Inr (createObjectId rands l name ls1)) = (Inr (obj, ls') :: (object_id \<times> listing_map) result)"
      by (auto simp: createListingAndObjectId_def split: option.splits)
    then show thesis
    proof cases
      case 1
      with create ok show thesis by blast
    next
      case 2
      note l1 = loadListing_stored [OF ok 2(1)]
      show thesis
      proof (cases "map_of (lookup_listing l ls1) name")
        case None
        with 2(2) create l1 show thesis by simp
      next
        case (Some o')
        with 2(2) found l1 show thesis by simp
      qed
    qed
  next
    case (Some m)
    with run ne ok create found show thesis
      by (auto simp: getObjectId_def split: option.splits)
  qed
  then show ?thesis
    using createObjectId_stored ne by cases blast+
qed

lemma getObjectId_again:
  assumes "listings_ok ls" and "getObjectId files rands l name f ls = Inr (obj, ls')"
  shows "getObjectId files' rands' l name f' ls' = Inr (obj, ls')"
  using getObjectId_stored [OF assms] by (auto simp: getObjectId_def)

end
