(* ===== verification/TextProps.thy ===== *)
theory TextProps
  imports HumanUnits Uri Variables Listings
begin

text \<open>
  The texts the library reads and writes: sizes with a unit, URIs, URIs with variables and
  the files of object identifiers.
\<close>

section \<open>Sizes with a unit\<close>

text \<open>
  C25. The two parsers of sizes accept the same texts and give the same size, so the result
  does not depend on whether the library has regular expressions.
\<close>

theorem human_size_parsers_agree:
  "fromHumanMemSize True text = Inr n \<longleftrightarrow> fromHumanMemSize False text = Inr n"
  by (simp add: fromHumanMemSize_def human_size_agree)

text \<open>
  C26. A positive decimal number of less than 63 bits followed by a unit is read as the
  number times the unit, modulo 2 to the 64: the size is exact when the product fits in 64
  bits, and wraps silently when it does not.
\<close>

theorem human_size_value:
  assumes "(u, f) \<in> set unit_factor" and "0 < n" and "n < 2 ^ 63"
  shows "fromHumanMemSize regex (dec n @ u) = Inr (n * f mod W64)"
  using human_size_dec [OF assms] human_size_agree by (simp add: fromHumanMemSize_def)

theorem human_size_value_witness:
  "fromHumanMemSize True ''64MB'' = Inr 67108864 \<and> fromHumanMemSize False ''16777216TB'' = Inr 0"
proof -
  have "fromHumanMemSize True (dec 64 @ ''MB'') = Inr (64 * 1024 ^ 2 mod W64)"
    by (rule human_size_value) (simp_all add: unit_factor_def)
  moreover have "fromHumanMemSize False (dec 16777216 @ ''TB'') = Inr (16777216 * 1024 ^ 4 mod W64)"
    by (rule human_size_value) (simp_all add: unit_factor_def)
  ultimately show ?thesis
    by (simp add: dec.simps digit_def char_of_def bit_0)
qed

section \<open>URIs\<close>

text \<open>
  C23. Both parsers read a well-formed URI back: the type, the path and every parameter
  (the last one when a name is repeated) are those the URI was printed from, and a parameter
  that is not there is reported as an error or replaced by the default.
\<close>

theorem uri_roundtrip:
  assumes "parts_ok t p ps"
  shows "\<exists>u. parse regex (print_uri t p ps) = Inr u \<and> getURI u = print_uri t p ps \<and> getType u = t \<and> getPath u = p \<and>
    getParam k u = (case map_of (rev ps) k of
        Some v \<Rightarrow> Inr v | None \<Rightarrow> Inl (Fatal ''Fail to find required parameter'')) \<and>
    getParam_default k dflt u = (case map_of (rev ps) k of Some v \<Rightarrow> v | None \<Rightarrow> dflt)"
proof -
  let ?u = "\<lparr>u_uri = print_uri t p ps, u_type = t, u_path = p, u_params = assign_all ps []\<rparr>"
  have "parse regex (print_uri t p ps) = Inr ?u"
    using regexParse_print [OF assms] noRegexParse_print [OF assms] by (simp add: parse_def)
  moreover have "map_of (assign_all ps []) = map_of (rev ps)"
    using assign_all_lookup [of "[]" ps] by (auto simp: sorted_map_def fun_eq_iff split: option.split)
  ultimately show ?thesis
    by (auto simp: getURI_def getType_def getPath_def getParam_def getParam_default_def split: option.split)
qed

theorem uri_roundtrip_witness:
  "print_uri ''file'' ''dir/f.raw'' [(''mode'', ''w+''), (''size'', ''1024'')] = ''file://dir/f.raw?mode=w+&size=1024'' \<and>
   (\<exists>u. parse False ''file://dir/f.raw?mode=w+&size=1024'' = Inr u \<and> getType u = ''file'' \<and>
      getPath u = ''dir/f.raw'' \<and> getParam ''size'' u = Inr ''1024'' \<and> getParam_default ''size'' ''7'' u = ''1024'')"
proof -
  have print: "print_uri ''file'' ''dir/f.raw'' [(''mode'', ''w+''), (''size'', ''1024'')] = ''file://dir/f.raw?mode=w+&size=1024''"
    by (simp add: print_uri_def)
  have ok: "parts_ok ''file'' ''dir/f.raw'' [(''mode'', ''w+''), (''size'', ''1024'')]"
    by (simp add: parts_ok_def params_ok_def type_char_def path_char_def value_char_def alnum_def)
  show ?thesis
    using uri_roundtrip [OF ok, of False "''size''" "''7''"] print unfolding print by auto
qed



section \<open>Variables\<close>

text \<open>
  C28. The variables of a URI are replaced one after the other, in the order of their names in
  the map. Each of them is replaced in a single pass that does not look at the text it has just
  put in: a reference inside a value is replaced when it names a later variable, and stays when
  it names the same or an earlier one; unknown references and the other text stay. When no value
  mentions a variable this is the simultaneous replacement. The text and the values are built of
  text without an opening brace and of references whose names have no brace.
\<close>

theorem variables_replaced:
  assumes "list_all piece_ok ps" and "\<forall>e \<in> set vars. piece_ok (Ref (fst e)) \<and> list_all piece_ok (snd e)"
  shows "replaceVariables (map (\<lambda>e. (fst e, render (snd e))) vars) (render ps) =
      render (fold (\<lambda>e. subst_var (fst e) (snd e)) vars ps) \<and>
    (\<forall>plain. vars = map (\<lambda>e. (fst e, [Lit (snd e)])) plain \<and> distinct (map fst plain) \<longrightarrow>
      replaceVariables plain (render ps) = render (map (expand_piece (map_of plain)) ps))"
proof (intro conjI allI impI)
  note r = replaceVariables_render [OF assms]
  then show "replaceVariables (map (\<lambda>e. (fst e, render (snd e))) vars) (render ps) =
      render (fold (\<lambda>e. subst_var (fst e) (snd e)) vars ps)" .
  fix plain assume p: "vars = map (\<lambda>e. (fst e, [Lit (snd e)])) plain \<and> distinct (map fst plain)"
  then have "map (\<lambda>e. (fst e, render (snd e))) vars = plain"
    by (simp add: comp_def render_def)
  moreover have "fold (\<lambda>e. subst_var (fst e) (snd e)) vars ps = map (expand_piece (map_of plain)) ps"
    using p subst_plain [of plain ps] by (simp add: fold_map comp_def)
  ultimately show "replaceVariables plain (render ps) = render (map (expand_piece (map_of plain)) ps)"
    using r by simp
qed

theorem variables_replaced_witness:
  "replaceVariables [(''a'', ''{b}''), (''b'', ''x{a}{b}'')] ''{a}-{c}'' = ''x{a}{b}-{c}''"
proof -
  have "replaceVariables (map (\<lambda>e. (fst e, render (snd e))) [(''a'', [Ref ''b'']), (''b'', [Lit ''x'', Ref ''a'', Ref ''b''])])
      (render [Ref ''a'', Lit ''-'', Ref ''c'']) =
    render (fold (\<lambda>e. subst_var (fst e) (snd e)) [(''a'', [Ref ''b'']), (''b'', [Lit ''x'', Ref ''a'', Ref ''b''])]
      [Ref ''a'', Lit ''-'', Ref ''c''])"
    by (rule variables_replaced [THEN conjunct1]) simp_all
  then show ?thesis
    by (simp add: render_def var_ref_def subst_var_def)
qed

section \<open>Object identifiers\<close>

text \<open>
  What the C library promises of a stream that is written: it is empty when the file has been
  opened with truncation, a call of \<open>fprintf\<close> that returns the length of its text has appended
  it, and the file holds the text of the stream when \<open>fclose\<close> returns zero.
\<close>

definition text_files_ok :: "'f text_files \<Rightarrow> (string \<Rightarrow> 'f \<Rightarrow> string) \<Rightarrow> bool" where
  "text_files_ok files stream \<longleftrightarrow>
     (\<forall>name f f'. open_write files name f = Some f' \<longrightarrow> stream name f' = []) \<and>
     (\<forall>name c f f'. put_text files name c f = (int (length c), f') \<longrightarrow> stream name f' = stream name f @ c) \<and>
     (\<forall>name f f'. close_text files name f = (0, f') \<longrightarrow> read_text files name f' = Some (stream name f))"

text \<open>No call of the library fails while the table is written; the code does not look.\<close>

fun all_written :: "'f text_files \<Rightarrow> string \<Rightarrow> object_map \<Rightarrow> 'f \<Rightarrow> bool" where
  "all_written files name [] f \<longleftrightarrow> fst (close_text files name f) = 0"
| "all_written files name (it # its) f \<longleftrightarrow>
     fst (put_text files name (entry_line it) f) = int (length (entry_line it)) \<and>
     all_written files name its (snd (put_text files name (entry_line it) f))"

lemma all_written_read:
  assumes "text_files_ok files stream" and "all_written files name its f"
  shows "read_text files name (snd (close_text files name (put_entries files name its f))) =
    Some (stream name f @ concat (map entry_line its))"
  using assms(2)
proof (induction its arbitrary: f)
  case Nil
  then show ?case
    using assms(1) by (cases "close_text files name f") (simp add: text_files_ok_def put_entries_def)
next
  case (Cons it its)
  let ?f = "snd (put_text files name (entry_line it) f)"
  have "put_text files name (entry_line it) f = (int (length (entry_line it)), ?f)"
    using Cons.prems by (cases "put_text files name (entry_line it) f") simp
  then have "stream name ?f = stream name f @ entry_line it"
    using assms(1) unfolding text_files_ok_def by blast
  with Cons show ?case by (simp add: put_entries_def)
qed

definition ram_text :: "(string \<Rightarrow> string option) text_files" where
  "ram_text = \<lparr>read_text = \<lambda>name f. f name, open_write = \<lambda>name f. Some (f(name \<mapsto> [])),
     put_text = \<lambda>name c f. (int (length c), f(name \<mapsto> the (f name) @ c)), close_text = \<lambda>name f. (0, f(name \<mapsto> the (f name)))\<rparr>"

text \<open>
  C27. A table of object identifiers that is saved, when the file can be opened and no write
  fails, and loaded again by a process that has no entry for it yet, is the same table. This
  holds for names without blanks, identifiers below 2 to the 63 and lines that fit the buffer
  of the reader.
\<close>

theorem listing_roundtrip:
  assumes "text_files_ok files stream" and "sorted_map listing" and "list_all entry_ok listing"
    and "open_write files name f = Some f1" and "all_written files name listing f1" and "map_of ls name = None"
  shows "\<exists>f'. saveListing files listing name f = Inr f' \<and> loadListing files name f' ls = Inr (map_assign name listing ls)"
proof -
  let ?f = "snd (close_text files name (put_entries files name listing f1))"
  have "saveListing files listing name f = Inr ?f"
    using assms(4) by (simp add: saveListing_def)
  moreover have "stream name f1 = []"
    using assms(1,4) by (auto simp: text_files_ok_def)
  then have "read_text files name ?f = Some (concat (map entry_line listing))"
    using all_written_read [OF assms(1,5)] by simp
  moreover have "fold (\<lambda>e. map_assign (fst e) (snd e)) listing [] = listing"
    using map_assign_all [of "[]" listing] assms(2) by simp
  ultimately show ?thesis
    using load_saved [OF assms(3), of "[]"] assms(6) by (simp add: loadListing_def lookup_listing_def)
qed

theorem listing_roundtrip_witness:
  "\<exists>f'. saveListing ram_text [(''a'', \<lparr>oid_low = 5, oid_high = 12\<rparr>), (''bc'', \<lparr>oid_low = 0, oid_high = 7\<rparr>)] ''l.txt'' (\<lambda>_. None) = Inr f' \<and>
     loadListing ram_text ''l.txt'' f' [] =
       Inr [(''l.txt'', [(''a'', \<lparr>oid_low = 5, oid_high = 12\<rparr>), (''bc'', \<lparr>oid_low = 0, oid_high = 7\<rparr>)])]"
proof -
  let ?l = "[(''a'', \<lparr>oid_low = 5, oid_high = 12\<rparr>), (''bc'', \<lparr>oid_low = 0, oid_high = 7\<rparr>)]"
  have ok: "text_files_ok ram_text (\<lambda>name f. the (f name))"
    by (simp add: text_files_ok_def ram_text_def)
  have "\<exists>f'. saveListing ram_text ?l ''l.txt'' (\<lambda>_. None) = Inr f' \<and>
      loadListing ram_text ''l.txt'' f' [] = Inr (map_assign ''l.txt'' ?l [])"
    by (rule listing_roundtrip [OF ok])
      (simp_all add: ram_text_def sorted_map_def entry_ok_def entry_line_def is_space_def to_size_def dec.simps digit_def)
  then show ?thesis by simp
qed

text \<open>
  The identifier of a name is stable: once a name has been looked up in a table, found,
  loaded or created, every later look-up gives the same identifier and changes nothing,
  whatever the files and the random numbers are by then.
\<close>

theorem object_id_stable:
  assumes "listings_ok ls" and "getObjectId files rands l name f ls = Inr (obj, ls')"
  shows "listings_ok ls' \<and> getObjectId files' rands' l name f' ls' = Inr (obj, ls')"
  using getObjectId_stored [OF assms] getObjectId_again [OF assms] by simp

theorem object_id_stable_witness:
  "getObjectId ram_text (1, 2, 3, 4) ''l.txt'' ''n'' (\<lambda>_. None) [] =
     Inr (\<lparr>oid_low = 4294967298, oid_high = 12884901892\<rparr>, [(''l.txt'', [(''n'', \<lparr>oid_low = 4294967298, oid_high = 12884901892\<rparr>)])]) \<and>
   getObjectId ram_text (5, 6, 7, 8) ''l.txt'' ''n'' (\<lambda>_. Some ''x'') [(''l.txt'', [(''n'', \<lparr>oid_low = 4294967298, oid_high = 12884901892\<rparr>)])] =
     Inr (\<lparr>oid_low = 4294967298, oid_high = 12884901892\<rparr>, [(''l.txt'', [(''n'', \<lparr>oid_low = 4294967298, oid_high = 12884901892\<rparr>)])])"
proof -
  have first: "getObjectId ram_text (1, 2, 3, 4) ''l.txt'' ''n'' (\<lambda>_. None) [] =
     Inr (\<lparr>oid_low = 4294967298, oid_high = 12884901892\<rparr>, [(''l.txt'', [(''n'', \<lparr>oid_low = 4294967298, oid_high = 12884901892\<rparr>)])])"
    by (simp add: getObjectId_def createListingAndObjectId_def createObjectId_def lookup_listing_def ram_text_def Let_def)
  have "listings_ok []"
    by (simp add: listings_ok_def sorted_map_def)
  from object_id_stable [OF this first, of ram_text "(5, 6, 7, 8)" "\<lambda>_. Some ''x''"] first show ?thesis by simp
qed

end
