(* ===== verification/ListElement.thy ===== *)
theory ListElement
  imports Prelude
begin

text \<open>
  The intrusive doubly linked list of \<open>src/common/ListElement.cpp\<close>: elements are nodes of
  a pointer heap, a list is a ring of nodes through a root node. The operations are the
  member functions, in the order of their assignments, on a heap of \<open>next\<close> and \<open>prev\<close>
  pointers; \<open>ring h r xs\<close> says that the root \<open>r\<close> and the nodes \<open>xs\<close> form one ring, and
  the lemmas give each operation as an operation on \<open>xs\<close>.
\<close>

section \<open>The operations\<close>

record lheap =
  hnext :: "addr \<Rightarrow> addr"
  hprev :: "addr \<Rightarrow> addr"

definition set_next :: "addr \<Rightarrow> addr \<Rightarrow> lheap \<Rightarrow> lheap" where
  "set_next e x h = h\<lparr>hnext := (hnext h)(e := x)\<rparr>"

definition set_prev :: "addr \<Rightarrow> addr \<Rightarrow> lheap \<Rightarrow> lheap" where
  "set_prev e x h = h\<lparr>hprev := (hprev h)(e := x)\<rparr>"

definition newElement :: "addr \<Rightarrow> lheap \<Rightarrow> lheap" where
  "newElement e h = set_next e e (set_prev e e h)"

definition removeFromList :: "addr \<Rightarrow> lheap \<Rightarrow> lheap" where
  "removeFromList e h =
     (let h1 = set_prev (hnext h e) (hprev h e) h;
          h2 = set_next (hprev h1 e) (hnext h1 e) h1
      in set_next e e (set_prev e e h2))"

definition deleteElement :: "addr \<Rightarrow> lheap \<Rightarrow> lheap" where
  "deleteElement e h = removeFromList e h"

definition isAlone :: "lheap \<Rightarrow> addr \<Rightarrow> bool" where
  "isAlone h e \<longleftrightarrow> hnext h e = e \<and> hprev h e = e"

definition isInList :: "lheap \<Rightarrow> addr \<Rightarrow> bool" where
  "isInList h e \<longleftrightarrow> hnext h e \<noteq> e \<and> hprev h e \<noteq> e"

definition insertAfter :: "addr \<Rightarrow> addr \<Rightarrow> lheap \<Rightarrow> lheap result" where
  "insertAfter this element h =
     (if \<not> isAlone h element then Inl (AssertFailure ''element.isAlone()'')
      else
        (let h1 = set_next element (hnext h this) h;
             h2 = set_prev element this h1;
             h3 = set_prev (hnext h2 this) element h2
         in Inr (set_next this element h3)))"

definition insertBefore :: "addr \<Rightarrow> addr \<Rightarrow> lheap \<Rightarrow> lheap result" where
  "insertBefore this element h =
     (if \<not> isAlone h element then Inl (AssertFailure ''element.isAlone()'')
      else
        (let h1 = set_prev element (hprev h this) h;
             h2 = set_next element this h1;
             h3 = set_next (hprev h2 this) element h2
         in Inr (set_prev this element h3)))"

definition popNext :: "addr \<Rightarrow> lheap \<Rightarrow> addr option \<times> lheap" where
  "popNext this h =
     (if isAlone h this then (None, h)
      else (let next = hnext h this in (Some next, removeFromList next h)))"

definition popPrev :: "addr \<Rightarrow> lheap \<Rightarrow> addr option \<times> lheap" where
  "popPrev this h =
     (if isAlone h this then (None, h)
      else (let prev = hprev h this in (Some prev, removeFromList prev h)))"

lemmas heap_defs = set_next_def set_prev_def Let_def

section \<open>Rings\<close>

fun path :: "lheap \<Rightarrow> addr \<Rightarrow> addr list \<Rightarrow> addr \<Rightarrow> bool" where
  "path h a [] b \<longleftrightarrow> hnext h a = b \<and> hprev h b = a"
| "path h a (x # xs) b \<longleftrightarrow> hnext h a = x \<and> hprev h x = a \<and> path h x xs b"

definition ring :: "lheap \<Rightarrow> addr \<Rightarrow> addr list \<Rightarrow> bool" where
  "ring h r xs \<longleftrightarrow> distinct (r # xs) \<and> path h r xs r"

lemma path_append [simp]:
  "path h a (xs @ y # ys) b \<longleftrightarrow> path h a xs y \<and> path h y ys b"
  by (induction xs arbitrary: a) auto

lemma path_cong:
  assumes "\<And>x. x \<in> insert a (set xs) \<Longrightarrow> hnext h' x = hnext h x"
    and "\<And>x. x \<in> insert b (set xs) \<Longrightarrow> hprev h' x = hprev h x"
  shows "path h' a xs b = path h a xs b"
  using assms by (induction xs arbitrary: a) auto

text \<open>The links that leave the first and enter the last node of a path are local to its ends.\<close>

lemma path_next_last: "path h a xs b \<Longrightarrow> hnext h (last (a # xs)) = b"
  by (induction xs arbitrary: a) auto

lemma path_prev_first: "path h a xs b \<Longrightarrow> hprev h (hd (xs @ [b])) = a"
  by (cases xs) auto

lemma path_next_first: "path h a xs b \<Longrightarrow> hnext h a = hd (xs @ [b])"
  by (cases xs) auto

lemma path_prev_last: "path h a xs b \<Longrightarrow> hprev h b = last (a # xs)"
  by (induction xs arbitrary: a) auto

lemma ring_Nil [simp]: "ring h r [] \<longleftrightarrow> isAlone h r"
  by (simp add: ring_def isAlone_def)

lemma ring_isAlone: "ring h r xs \<Longrightarrow> isAlone h r \<longleftrightarrow> xs = []"
  by (cases xs) (auto simp: ring_def isAlone_def)

lemma ring_distinct: "ring h r xs \<Longrightarrow> distinct xs"
  by (simp add: ring_def)

lemma ring_root: "ring h r xs \<Longrightarrow> r \<notin> set xs"
  by (simp add: ring_def)

lemma ring_member_inList:
  assumes "ring h r xs" and "e \<in> set xs"
  shows "isInList h e" and "\<not> isAlone h e"
proof -
  obtain us vs where xs: "xs = us @ e # vs"
    using assms(2) by (meson split_list)
  have p: "path h r us e" "path h e vs r"
    using assms(1) by (simp_all add: xs ring_def)
  have "hnext h e = hd (vs @ [r])" and "hprev h e = last (r # us)"
    using p by (simp_all add: path_next_first path_prev_last)
  moreover have "e \<notin> set (vs @ [r])" and "e \<notin> set (r # us)"
    using assms(1) by (auto simp: xs ring_def)
  moreover have "hd (vs @ [r]) \<in> set (vs @ [r])" and "last (r # us) \<in> set (r # us)"
    by (rule hd_in_set, simp) (rule last_in_set, simp)
  ultimately show "isInList h e" "\<not> isAlone h e"
    by (metis isInList_def, metis isAlone_def)
qed

section \<open>The operations on rings\<close>

text \<open>
  \<open>agree_off S h h'\<close>: no pointer of a node outside \<open>S\<close> changed. Every operation only
  touches nodes of the ring it works on, so other rings of the same heap survive it.
\<close>

definition agree_off :: "addr set \<Rightarrow> lheap \<Rightarrow> lheap \<Rightarrow> bool" where
  "agree_off S h h' \<longleftrightarrow> (\<forall>a. a \<notin> S \<longrightarrow> hnext h' a = hnext h a \<and> hprev h' a = hprev h a)"

lemma agree_off_refl [simp]: "agree_off S h h"
  by (simp add: agree_off_def)

lemma agree_off_trans:
  "agree_off S h h' \<Longrightarrow> agree_off T h' h'' \<Longrightarrow> agree_off (S \<union> T) h h''"
  by (simp add: agree_off_def)

lemma agree_off_mono: "agree_off S h h' \<Longrightarrow> S \<subseteq> T \<Longrightarrow> agree_off T h h'"
  by (auto simp: agree_off_def)

lemma ring_frame:
  assumes "agree_off S h h'" and "S \<inter> set (r # xs) = {}"
  shows "ring h' r xs = ring h r xs"
proof -
  have "path h' r xs r = path h r xs r"
    using assms by (intro path_cong) (auto simp: agree_off_def)
  then show ?thesis by (simp add: ring_def)
qed

lemma isAlone_frame: "agree_off S h h' \<Longrightarrow> e \<notin> S \<Longrightarrow> isAlone h' e = isAlone h e"
  by (simp add: agree_off_def isAlone_def)

lemma newElement_alone:
  "isAlone (newElement e h) e" "agree_off {e} h (newElement e h)"
  by (simp_all add: newElement_def heap_defs isAlone_def agree_off_def)

lemma insertAfter_ring:
  assumes "ring h r xs" and "e \<notin> set (r # xs)" and "isAlone h e"
  obtains h' where "insertAfter r e h = Inr h'" and "ring h' r (e # xs)"
    and "agree_off (set (r # e # xs)) h h'"
proof -
  define h' where "h' = h\<lparr>hnext := (hnext h)(e := hnext h r, r := e),
    hprev := (hprev h)(e := r, hnext h r := e)\<rparr>"
  have n: "hnext h r \<in> set (r # xs)"
    using assms(1) by (cases xs) (auto simp: ring_def)
  have op: "insertAfter r e h = Inr h'"
    using assms(2,3) n by (auto simp: insertAfter_def h'_def heap_defs)
  have "ring h' r (e # xs)"
  proof (cases xs)
    case Nil
    with assms show ?thesis by (simp add: h'_def ring_def)
  next
    case (Cons x ys)
    have "path h' x ys r = path h x ys r"
      using assms(1,2) by (intro path_cong) (auto simp: Cons h'_def ring_def)
    with assms show ?thesis by (simp add: Cons h'_def ring_def)
  qed
  moreover have "agree_off (set (r # e # xs)) h h'"
    using n by (auto simp: agree_off_def h'_def)
  ultimately show ?thesis using op that by blast
qed

lemma insertBefore_ring:
  assumes "ring h r xs" and "e \<notin> set (r # xs)" and "isAlone h e"
  obtains h' where "insertBefore r e h = Inr h'" and "ring h' r (xs @ [e])"
    and "agree_off (set (r # e # xs)) h h'"
proof -
  define h' where "h' = h\<lparr>hnext := (hnext h)(e := r, hprev h r := e),
    hprev := (hprev h)(e := hprev h r, r := e)\<rparr>"
  have pl: "hprev h r = last (r # xs)"
    using assms(1) unfolding ring_def by (blast intro: path_prev_last)
  then have n: "hprev h r \<in> set (r # xs)"
    using last_in_set [of "r # xs"] by simp
  have op: "insertBefore r e h = Inr h'"
    using assms(2,3) n by (auto simp: insertBefore_def h'_def heap_defs)
  have "ring h' r (xs @ [e])"
  proof (cases xs rule: rev_cases)
    case Nil
    with assms show ?thesis by (simp add: h'_def ring_def)
  next
    case (snoc ys x)
    have "path h' r ys x = path h r ys x"
      using assms(1,2) pl by (intro path_cong) (auto simp: snoc h'_def ring_def)
    with assms pl show ?thesis by (simp add: snoc h'_def ring_def)
  qed
  moreover have "agree_off (set (r # e # xs)) h h'"
    using n by (auto simp: agree_off_def h'_def)
  ultimately show ?thesis using op that by blast
qed

lemma removeFromList_ring:
  assumes "ring h r (us @ e # vs)"
  shows "ring (removeFromList e h) r (us @ vs)"
    and "isAlone (removeFromList e h) e"
    and "agree_off (set (r # us @ e # vs)) h (removeFromList e h)"
proof -
  define p n where "p = last (r # us)" and "n = hd (vs @ [r])"
  have pth: "path h r us e" "path h e vs r" and dist: "distinct (r # us @ e # vs)"
    using assms by (simp_all add: ring_def)
  have pn: "hprev h e = p" "hnext h e = n"
    using pth by (simp_all add: p_def n_def path_prev_last path_next_first)
  have p: "p \<in> set (r # us)" and n: "n \<in> set (vs @ [r])"
    unfolding p_def n_def by (rule last_in_set, simp) (rule hd_in_set, simp)
  have ne: "p \<noteq> e" "n \<noteq> e"
    using p n dist by auto
  have h': "removeFromList e h = h\<lparr>hnext := (hnext h)(p := n, e := e),
      hprev := (hprev h)(n := p, e := e)\<rparr>"
    using ne by (simp add: removeFromList_def heap_defs pn)
  show "isAlone (removeFromList e h) e"
    by (simp add: h' isAlone_def)
  show "agree_off (set (r # us @ e # vs)) h (removeFromList e h)"
    using p n by (auto simp: h' agree_off_def)
  let ?h = "removeFromList e h"
  have link: "hnext ?h p = n" "hprev ?h n = p"
    using ne by (simp_all add: h')
  show "ring ?h r (us @ vs)"
  proof (cases us rule: rev_cases)
    case Nil
    show ?thesis
    proof (cases vs)
      case Nil2: Nil
      with Nil link dist show ?thesis by (simp add: ring_def p_def n_def isAlone_def)
    next
      case (Cons y ys)
      have "path ?h y ys r = path h y ys r"
        using dist by (intro path_cong) (auto simp: h' p_def n_def Nil Cons)
      with Nil Cons link dist pth show ?thesis by (simp add: ring_def p_def n_def)
    qed
  next
    case (snoc ws x)
    have "path ?h r ws x = path h r ws x"
      using dist by (intro path_cong) (auto simp: h' p_def n_def snoc hd_append split: list.splits)
    moreover have "path ?h x vs r"
    proof (cases vs)
      case Nil
      with snoc link show ?thesis by (simp add: p_def n_def)
    next
      case (Cons y ys)
      have "path ?h y ys r = path h y ys r"
        using dist by (intro path_cong) (auto simp: h' p_def n_def snoc Cons)
      with snoc Cons link pth show ?thesis by (simp add: p_def n_def)
    qed
    ultimately show ?thesis
      using snoc dist pth by (simp add: ring_def)
  qed
qed

lemma removeFromList_alone: "isAlone h e \<Longrightarrow> removeFromList e h = h"
  by (simp add: removeFromList_def heap_defs isAlone_def fun_upd_idem)

lemma popPrev_ring:
  assumes "ring h r (xs @ [e])"
  shows "popPrev r h = (Some e, removeFromList e h)"
  using assms by (auto simp: popPrev_def isAlone_def ring_def)

lemma popNext_ring:
  assumes "ring h r (e # xs)"
  shows "popNext r h = (Some e, removeFromList e h)"
  using assms by (auto simp: popNext_def isAlone_def ring_def)

lemma popPrev_empty: "ring h r [] \<Longrightarrow> popPrev r h = (None, h)"
  by (simp add: popPrev_def)

lemma popNext_empty: "ring h r [] \<Longrightarrow> popNext r h = (None, h)"
  by (simp add: popNext_def)

end
