(* ===== verification/Policy.thy ===== *)
theory Policy
  imports ListElement
begin

text \<open>
  The base class of the eviction policies, \<open>src/core/Policy.cpp\<close>: its memory limits and the
  registry that associates to each mapping the array of list elements tracking its
  segments. A subclass is an extension of the record \<open>policy\<close>; the methods of the base
  class work on any extension. A \<open>Mapping *\<close> is a number, 0 for \<open>NULL\<close>; the calls
  \<open>mapping->getSegmentSize()\<close> go through the function argument \<open>segSize\<close>.
\<close>

section \<open>State and operations\<close>

type_synonym mapping_ptr = nat
type_synonym policy_ptr = nat
type_synonym quota_ptr = nat

record policy_storage =
  ps_mapping :: mapping_ptr
  ps_elements :: addr
  ps_elementCount :: size_t
  ps_elementSize :: size_t
  ps_extraInfos :: addr

record policy =
  pol_local :: bool
  staticMaxMemory :: size_t
  dynamicMaxMemory :: size_t
  storageRegistry :: "policy_storage list"
  mutexPtr :: addr
  localMutex :: addr
  pol_uri :: string
  policyQuota :: quota_ptr

abbreviation sizeof_ListElement :: size_t where
  "sizeof_ListElement \<equiv> 16"

definition forceUsingGroupMutex :: "addr \<Rightarrow> 'a policy_scheme \<Rightarrow> 'a policy_scheme" where
  "forceUsingGroupMutex mutex p = p\<lparr>mutexPtr := mutex\<rparr>"

definition getLocalMutex :: "'a policy_scheme \<Rightarrow> addr" where
  "getLocalMutex p = localMutex p"

fun sum_segments :: "(mapping_ptr \<Rightarrow> size_t) \<Rightarrow> size_t \<Rightarrow> policy_storage list \<Rightarrow> size_t" where
  "sum_segments segSize s [] = s"
| "sum_segments segSize s (st # sts) =
     sum_segments segSize (sz_add s (segSize (ps_mapping st))) sts"

definition checkHasEnoughMem :: "(mapping_ptr \<Rightarrow> size_t) \<Rightarrow> 'a policy_scheme \<Rightarrow> bool" where
  "checkHasEnoughMem segSize p \<longleftrightarrow>
     sum_segments segSize 0 (storageRegistry p) \<le> dynamicMaxMemory p"

definition registerMapping ::
  "(mapping_ptr \<Rightarrow> size_t) \<Rightarrow> mapping_ptr \<Rightarrow> addr \<Rightarrow> size_t \<Rightarrow> size_t \<Rightarrow> addr
    \<Rightarrow> 'a policy_scheme \<Rightarrow> 'a policy_scheme result" where
  "registerMapping segSize mapping storage elementCount elementSize extraInfos p =
     (let entry = \<lparr>ps_mapping = mapping, ps_elements = storage, ps_elementCount = elementCount,
                   ps_elementSize = elementSize, ps_extraInfos = extraInfos\<rparr>
      in if \<not> segSize mapping \<le> staticMaxMemory p
         then Inl (Fatal ''Trying to register a mapping using segment size larger than the policy maximal size'')
         else
           (let p' = p\<lparr>storageRegistry := storageRegistry p @ [entry]\<rparr>
            in if \<not> checkHasEnoughMem segSize p'
               then Inl (Fatal ''You registry too many mappings to the same policy'')
               else Inr p'))"

definition contains :: "policy_storage \<Rightarrow> addr \<Rightarrow> bool" where
  "contains storage entry \<longleftrightarrow>
     entry \<ge> ps_elements storage \<and>
     entry < ps_elements storage + sz_mul (ps_elementCount storage) (ps_elementSize storage)"

definition getStorageInfo_entry :: "addr \<Rightarrow> 'a policy_scheme \<Rightarrow> policy_storage result" where
  "getStorageInfo_entry entry p =
     (case find (\<lambda>it. contains it entry) (storageRegistry p) of
        None \<Rightarrow> Inl (Fatal ''Fail to found policy storage entry !'')
      | Some res \<Rightarrow>
          if ps_mapping res = 0 then Inl (Fatal ''Fail to found policy storage entry !'')
          else Inr res)"

definition getStorageInfo_mapping :: "mapping_ptr \<Rightarrow> 'a policy_scheme \<Rightarrow> policy_storage result" where
  "getStorageInfo_mapping mapping p =
     (if pol_local p then
        (case storageRegistry p of
           [res] \<Rightarrow> if ps_mapping res = mapping then Inr res
                     else Inl (AssertFailure ''res.mapping == mapping'')
         | _ \<Rightarrow> Inl (Fatal ''Invalid local list with multiple mapping registered !''))
      else
        (case find (\<lambda>it. ps_mapping it = mapping) (storageRegistry p) of
           None \<Rightarrow> Inl (Fatal ''Fail to found policy of given mapping !'')
         | Some res \<Rightarrow>
             if ps_mapping res = 0 then Inl (Fatal ''Fail to found policy of given mapping !'')
             else Inr res))"

definition unregisterMapping :: "mapping_ptr \<Rightarrow> 'a policy_scheme \<Rightarrow> 'a policy_scheme" where
  "unregisterMapping mapping p =
     p\<lparr>storageRegistry := erase_skipping (\<lambda>it. ps_mapping it = mapping) [] (storageRegistry p)\<rparr>"

definition setUri :: "string \<Rightarrow> 'a policy_scheme \<Rightarrow> 'a policy_scheme" where
  "setUri uri p = p\<lparr>pol_uri := uri\<rparr>"

definition setQuota :: "quota_ptr \<Rightarrow> 'a policy_scheme \<Rightarrow> 'a policy_scheme result" where
  "setQuota quota p =
     (if \<not> (quota = 0 \<or> policyQuota p = 0)
      then Inl (Fatal ''Invalid quota state update cannot change !'')
      else Inr (p\<lparr>policyQuota := quota\<rparr>))"

definition setDynamicMaxMemory :: "size_t \<Rightarrow> 'a policy_scheme \<Rightarrow> 'a policy_scheme" where
  "setDynamicMaxMemory v p = p\<lparr>dynamicMaxMemory := v\<rparr>"

definition getStaticMaxMemory :: "'a policy_scheme \<Rightarrow> size_t" where
  "getStaticMaxMemory p = staticMaxMemory p"

section \<open>The registry\<close>

lemma unregisterMapping_distinct:
  assumes "distinct (map ps_mapping (storageRegistry p))"
  shows "storageRegistry (unregisterMapping mapping p)
         = filter (\<lambda>e. ps_mapping e \<noteq> mapping) (storageRegistry p)"
  using erase_skipping_distinct [of ps_mapping "[]" "storageRegistry p" mapping] assms
  by (simp add: unregisterMapping_def)

lemma sum_segments_exact:
  assumes "s + sum_list (map (segSize \<circ> ps_mapping) sts) < W64"
  shows "sum_segments segSize s sts = s + sum_list (map (segSize \<circ> ps_mapping) sts)"
  using assms
proof (induction sts arbitrary: s)
  case (Cons st sts)
  have "sz_add s (segSize (ps_mapping st)) = s + segSize (ps_mapping st)"
    using Cons.prems by (intro sz_add_exact) simp
  then show ?case
    using Cons.IH [of "s + segSize (ps_mapping st)"] Cons.prems by (simp add: add.assoc)
qed simp

lemma find_mapping_distinct:
  assumes "distinct (map ps_mapping sts)" and "st \<in> set sts"
  shows "find (\<lambda>it. ps_mapping it = ps_mapping st) sts = Some st"
  using assms by (induction sts) auto

section \<open>Element arrays\<close>

text \<open>
  \<open>elt st i\<close> is the address of the \<open>i\<close>-th list element of a storage. The arrays of
  different mappings do not overlap and the root nodes of the policy lie outside of them
  (\<open>storages_ok\<close>), so the address of an element determines the mapping and the index.
\<close>

definition elt :: "policy_storage \<Rightarrow> nat \<Rightarrow> addr" where
  "elt st i = ps_elements st + sizeof_ListElement * i"

definition elts_of :: "policy_storage list \<Rightarrow> addr set" where
  "elts_of sts = {elt st i |st i. st \<in> set sts \<and> i < ps_elementCount st}"

lemma elts_ofI [intro]: "st \<in> set sts \<Longrightarrow> i < ps_elementCount st \<Longrightarrow> elt st i \<in> elts_of sts"
  by (auto simp: elts_of_def)

definition storage_end :: "policy_storage \<Rightarrow> addr" where
  "storage_end st = ps_elements st + sizeof_ListElement * ps_elementCount st"

definition separated :: "policy_storage \<Rightarrow> policy_storage \<Rightarrow> bool" where
  "separated a b \<longleftrightarrow> storage_end a \<le> ps_elements b \<or> storage_end b \<le> ps_elements a"

definition storages_ok :: "addr set \<Rightarrow> policy_storage list \<Rightarrow> bool" where
  "storages_ok roots sts \<longleftrightarrow>
     distinct (map ps_mapping sts) \<and>
     (\<forall>st \<in> set sts. ps_mapping st \<noteq> 0 \<and> ps_elementSize st = sizeof_ListElement \<and>
        sizeof_ListElement * ps_elementCount st < W64 \<and>
        (\<forall>r \<in> roots. r < ps_elements st)) \<and>
     (\<forall>a \<in> set sts. \<forall>b \<in> set sts. a = b \<or> separated a b)"

lemma storages_okD:
  assumes "storages_ok roots sts" and "st \<in> set sts"
  shows "ps_mapping st \<noteq> 0" and "ps_elementSize st = sizeof_ListElement"
    and "sizeof_ListElement * ps_elementCount st < W64"
  using assms by (auto simp: storages_ok_def)

lemma storages_ok_distinct: "storages_ok roots sts \<Longrightarrow> distinct (map ps_mapping sts)"
  by (simp add: storages_ok_def)

lemma contains_elt:
  assumes "storages_ok roots sts" and "st \<in> set sts" and "i < ps_elementCount st"
  shows "contains st (elt st i)"
  using storages_okD [OF assms(1,2)] assms(3)
  by (simp add: contains_def elt_def mult.commute)

lemma contains_other:
  assumes "storages_ok roots sts" and "a \<in> set sts" and "b \<in> set sts"
    and "i < ps_elementCount a" and "contains b (elt a i)"
  shows "a = b"
proof (rule ccontr)
  assume "a \<noteq> b"
  then have "separated a b"
    using assms(1-3) by (auto simp: storages_ok_def)
  then show False
    using assms(4,5) storages_okD [OF assms(1,3)]
    by (auto simp: separated_def storage_end_def contains_def elt_def mult.commute)
qed

lemma find_contains:
  assumes "storages_ok roots sts" and "st \<in> set sts" and "i < ps_elementCount st"
  shows "find (\<lambda>it. contains it (elt st i)) sts = Some st"
proof -
  have "find (\<lambda>it. contains it (elt st i)) sts \<noteq> None"
    using contains_elt [OF assms] assms(2) unfolding find_None_iff by blast
  then obtain st' where st': "find (\<lambda>it. contains it (elt st i)) sts = Some st'" by blast
  then have "st' \<in> set sts" and "contains st' (elt st i)"
    by (auto simp: find_Some_iff)
  with contains_other [OF assms(1,2) _ assms(3)] st' show ?thesis by blast
qed

text \<open>Element addresses are injective in the storage and the index.\<close>

lemma elt_inject:
  assumes "storages_ok roots sts" and "a \<in> set sts" and "b \<in> set sts"
    and "i < ps_elementCount a" and "j < ps_elementCount b" and "elt a i = elt b j"
  shows "a = b \<and> i = j"
proof -
  have "contains b (elt a i)"
    using contains_elt [OF assms(1,3,5)] assms(6) by simp
  then have "a = b"
    by (rule contains_other [OF assms(1-4)])
  with assms(6) show ?thesis by (simp add: elt_def)
qed

lemma root_not_elt: "storages_ok roots sts \<Longrightarrow> r \<in> roots \<Longrightarrow> r \<notin> elts_of sts"
  by (fastforce simp: storages_ok_def elts_of_def elt_def)

lemma getStorageInfo_entry_elt:
  assumes "storages_ok roots (storageRegistry p)" and "st \<in> set (storageRegistry p)"
    and "i < ps_elementCount st"
  shows "getStorageInfo_entry (elt st i) p = Inr st"
  using find_contains [OF assms] storages_okD [OF assms(1,2)]
  by (simp add: getStorageInfo_entry_def)

lemma getStorageInfo_mapping_registered:
  assumes "storages_ok roots (storageRegistry p)" and "st \<in> set (storageRegistry p)"
    and "pol_local p \<Longrightarrow> length (storageRegistry p) \<le> 1"
  shows "getStorageInfo_mapping (ps_mapping st) p = Inr st"
proof (cases "pol_local p")
  case True
  then obtain x where "storageRegistry p = [x]"
    using assms(2,3) by (cases "storageRegistry p") auto
  with assms(2) True show ?thesis by (simp add: getStorageInfo_mapping_def)
next
  case False
  with find_mapping_distinct [OF storages_ok_distinct [OF assms(1)] assms(2)]
    storages_okD(1) [OF assms(1,2)]
  show ?thesis by (simp add: getStorageInfo_mapping_def)
qed

lemma getStorageInfo_mapping_Inr:
  assumes "getStorageInfo_mapping m p = Inr st"
  shows "st \<in> set (storageRegistry p)" and "ps_mapping st = m"
  using assms
  by (auto simp: getStorageInfo_mapping_def find_Some_iff
      split: if_splits list.splits option.splits)

text \<open>The mapping and index of an element, as the eviction loops compute them.\<close>

definition owner :: "policy_storage list \<Rightarrow> addr \<Rightarrow> mapping_ptr \<times> nat" where
  "owner sts e =
     (case find (\<lambda>it. contains it e) sts of
        None \<Rightarrow> (0, 0)
      | Some st \<Rightarrow> (ps_mapping st, (e - ps_elements st) div sizeof_ListElement))"

lemma owner_elt:
  assumes "storages_ok roots sts" and "st \<in> set sts" and "i < ps_elementCount st"
  shows "owner sts (elt st i) = (ps_mapping st, i)"
  using find_contains [OF assms] by (simp add: owner_def elt_def)

lemma owner_inj: "storages_ok roots sts \<Longrightarrow> inj_on (owner sts) (elts_of sts)"
proof (rule inj_onI)
  fix x y
  assume ok: "storages_ok roots sts" and xy: "x \<in> elts_of sts" "y \<in> elts_of sts"
    and eq: "owner sts x = owner sts y"
  obtain a i where a: "a \<in> set sts" "i < ps_elementCount a" "x = elt a i"
    using xy(1) by (auto simp: elts_of_def)
  obtain b j where b: "b \<in> set sts" "j < ps_elementCount b" "y = elt b j"
    using xy(2) by (auto simp: elts_of_def)
  have "ps_mapping a = ps_mapping b" and ij: "i = j"
    using eq a b owner_elt [OF ok] by auto
  then have "a = b"
    using storages_ok_distinct [OF ok] a(1) b(1) by (auto simp: distinct_map dest: inj_onD)
  with a b ij show "x = y" by simp
qed

end
