(* ===== verification/FifoPolicy.thy ===== *)
theory FifoPolicy
  imports Policy
begin

text \<open>
  The FIFO policy of \<open>src/policies/FifoPolicy.cpp\<close>. The policy owns the list elements of
  all its mappings, so their heap (and the next free address of it) is part of its state.
  The critical sections of the methods are definitions here; the evictions they decide
  are carried out outside the lock, on the mappings, in theory \<open>World\<close>.
\<close>

section \<open>State and operations\<close>

record list_policy = policy +
  root :: addr
  currentMemory :: size_t
  elts :: lheap
  brk :: addr

definition empty_elements :: lheap where
  "empty_elements = \<lparr>hnext = \<lambda>a. a, hprev = \<lambda>a. a\<rparr>"

definition newFifoPolicy :: "addr \<Rightarrow> size_t \<Rightarrow> bool \<Rightarrow> list_policy" where
  "newFifoPolicy mutex maxMemory local =
     \<lparr>pol_local = local, staticMaxMemory = maxMemory, dynamicMaxMemory = maxMemory,
      storageRegistry = [], mutexPtr = mutex, localMutex = mutex, pol_uri = [],
      policyQuota = 0, root = sizeof_ListElement, currentMemory = 0,
      elts = newElement sizeof_ListElement empty_elements, brk = 2 * sizeof_ListElement\<rparr>"

fun newElements :: "addr \<Rightarrow> nat \<Rightarrow> lheap \<Rightarrow> lheap" where
  "newElements base 0 h = h"
| "newElements base (Suc n) h = newElement (base + sizeof_ListElement * n) (newElements base n h)"

fun deleteElements :: "addr \<Rightarrow> nat \<Rightarrow> lheap \<Rightarrow> lheap" where
  "deleteElements base 0 h = h"
| "deleteElements base (Suc n) h =
     deleteElements base n (deleteElement (base + sizeof_ListElement * n) h)"

definition fifo_allocateElementStorage ::
  "(mapping_ptr \<Rightarrow> size_t) \<Rightarrow> mapping_ptr \<Rightarrow> size_t \<Rightarrow> list_policy \<Rightarrow> list_policy result" where
  "fifo_allocateElementStorage segSize mapping segmentCount p =
     (let base = brk p;
          p1 = p\<lparr>elts := newElements base segmentCount (elts p),
                 brk := base + sizeof_ListElement * segmentCount\<rparr>
      in registerMapping segSize mapping base segmentCount sizeof_ListElement 0 p1)"

fun free_loop :: "size_t \<Rightarrow> addr \<Rightarrow> nat \<Rightarrow> list_policy \<Rightarrow> list_policy" where
  "free_loop segmentSize elements 0 p = p"
| "free_loop segmentSize elements (Suc i) p =
     (let q = free_loop segmentSize elements i p;
          cur = elements + sizeof_ListElement * i;
          q' = (if isInList (elts q) cur
                then q\<lparr>currentMemory := sz_sub (currentMemory q) segmentSize\<rparr> else q)
      in q'\<lparr>elts := removeFromList cur (elts q')\<rparr>)"

definition fifo_freeElementStorage ::
  "(mapping_ptr \<Rightarrow> size_t) \<Rightarrow> mapping_ptr \<Rightarrow> list_policy \<Rightarrow> list_policy result" where
  "fifo_freeElementStorage segSize mapping p =
     bindE (getStorageInfo_mapping mapping p) (\<lambda>storage.
       let elements = ps_elements storage;
           q = free_loop (segSize mapping) elements (ps_elementCount storage) p;
           q' = unregisterMapping mapping q
       in Inr (q'\<lparr>elts := deleteElements elements (ps_elementCount storage) (elts q')\<rparr>))"

abbreviation maxIdsToEvict :: nat where
  "maxIdsToEvict \<equiv> 128"

text \<open>
  The eviction loop of \<open>notifyTouch\<close> and \<open>shrinkMemory\<close>: \<open>ids\<close> holds the segments chosen
  so far. When the ring is empty the body does nothing and the loop does not return.
\<close>

partial_function (option) evict_loop ::
  "(mapping_ptr \<Rightarrow> size_t) \<Rightarrow> list_policy \<Rightarrow> (mapping_ptr \<times> nat) list
    \<Rightarrow> (list_policy \<times> (mapping_ptr \<times> nat) list) outcome" where
  "evict_loop segSize p ids =
     (if currentMemory p > dynamicMaxMemory p
      then
        (case popPrev (root p) (elts p) of
           (None, h) \<Rightarrow> evict_loop segSize (p\<lparr>elts := h\<rparr>) ids
         | (Some toEvict, h) \<Rightarrow>
             (case getStorageInfo_entry toEvict p of
                Inl e \<Rightarrow> aborts e
              | Inr evictInfos \<Rightarrow>
                  (let ids' = ids @ [(ps_mapping evictInfos,
                               (toEvict - ps_elements evictInfos) div sizeof_ListElement)]
                   in if \<not> length ids' < maxIdsToEvict
                      then aborts (Fatal ''Reach maximum pages to evict due to optimization, cannot continue !'')
                      else evict_loop segSize
                             (p\<lparr>elts := h,
                                currentMemory := sz_sub (currentMemory p)
                                                   (segSize (ps_mapping evictInfos))\<rparr>) ids')))
      else returns (p, ids))"

text \<open>The critical section of \<open>notifyTouch\<close>: the new state, the segments to evict, whether
  this is the first access and the memory in use before.\<close>

definition fifo_notifyTouch_cs ::
  "(mapping_ptr \<Rightarrow> size_t) \<Rightarrow> mapping_ptr \<Rightarrow> nat \<Rightarrow> list_policy
    \<Rightarrow> (list_policy \<times> (mapping_ptr \<times> nat) list \<times> bool \<times> size_t) outcome" where
  "fifo_notifyTouch_cs segSize mapping index p =
     (let memOrig = currentMemory p
      in case getStorageInfo_mapping mapping p of
           Inl e \<Rightarrow> aborts e
         | Inr storage \<Rightarrow>
             (let cur = ps_elements storage + sizeof_ListElement * index;
                  isFirstAccess = isAlone (elts p) cur
              in case insertAfter (root p) cur (removeFromList cur (elts p)) of
                   Inl e \<Rightarrow> aborts e
                 | Inr h \<Rightarrow>
                     (let p1 = p\<lparr>elts := h\<rparr>;
                          p2 = (if isFirstAccess
                                then p1\<lparr>currentMemory := sz_add (currentMemory p1) (segSize mapping)\<rparr>
                                else p1)
                      in bindO (evict_loop segSize p2 [])
                           (\<lambda>(p3, ids). returns (p3, ids, isFirstAccess, memOrig)))))"

definition fifo_notifyEvict ::
  "(mapping_ptr \<Rightarrow> size_t) \<Rightarrow> mapping_ptr \<Rightarrow> nat \<Rightarrow> list_policy \<Rightarrow> list_policy result" where
  "fifo_notifyEvict segSize mapping index p =
     bindE (getStorageInfo_mapping mapping p) (\<lambda>storage.
       let cur = ps_elements storage + sizeof_ListElement * index
       in if \<not> isInList (elts p) cur then Inl (AssertFailure ''cur.isInList()'')
          else Inr (p\<lparr>currentMemory := sz_sub (currentMemory p) (segSize mapping),
                      elts := removeFromList cur (elts p)\<rparr>))"

definition fifo_shrinkMemory_cs ::
  "(mapping_ptr \<Rightarrow> size_t) \<Rightarrow> list_policy \<Rightarrow> (list_policy \<times> (mapping_ptr \<times> nat) list) outcome" where
  "fifo_shrinkMemory_cs segSize p = evict_loop segSize p []"

definition fifo_getCurrentMemory :: "list_policy \<Rightarrow> size_t" where
  "fifo_getCurrentMemory p = currentMemory p"

section \<open>Trimming a list to a weight\<close>

text \<open>
  The specification of the eviction loop: drop elements from the end of the list until
  the weight of the rest fits. \<open>kept\<close> is what stays, \<open>dropped\<close> what goes, in the order in
  which it goes.
\<close>

fun trim_rev :: "('a \<Rightarrow> nat) \<Rightarrow> nat \<Rightarrow> 'a list \<Rightarrow> 'a list" where
  "trim_rev f lim [] = []"
| "trim_rev f lim (x # xs) =
     (if sum_list (map f (x # xs)) \<le> lim then x # xs else trim_rev f lim xs)"

definition kept :: "('a \<Rightarrow> nat) \<Rightarrow> nat \<Rightarrow> 'a list \<Rightarrow> 'a list" where
  "kept f lim xs = rev (trim_rev f lim (rev xs))"

definition dropped :: "('a \<Rightarrow> nat) \<Rightarrow> nat \<Rightarrow> 'a list \<Rightarrow> 'a list" where
  "dropped f lim xs = take (length xs - length (kept f lim xs)) (rev xs)"

lemma length_trim_rev: "length (trim_rev f lim xs) \<le> length xs"
  by (induction xs) auto

lemma length_kept: "length (kept f lim xs) \<le> length xs"
  using length_trim_rev [of f lim "rev xs"] by (simp add: kept_def)

lemma kept_Nil [simp]: "kept f lim [] = []"
  by (simp add: kept_def)

lemma dropped_Nil [simp]: "dropped f lim [] = []"
  by (simp add: dropped_def)

lemma kept_fits: "sum_list (map f xs) \<le> lim \<Longrightarrow> kept f lim xs = xs"
  by (cases xs rule: rev_cases) (simp_all add: kept_def rev_map [symmetric])

lemma dropped_fits: "sum_list (map f xs) \<le> lim \<Longrightarrow> dropped f lim xs = []"
  by (simp add: dropped_def kept_fits)

lemma kept_snoc:
  "\<not> sum_list (map f (xs @ [x])) \<le> lim \<Longrightarrow> kept f lim (xs @ [x]) = kept f lim xs"
  by (simp add: kept_def rev_map [symmetric])

lemma dropped_snoc:
  "\<not> sum_list (map f (xs @ [x])) \<le> lim \<Longrightarrow> dropped f lim (xs @ [x]) = x # dropped f lim xs"
  using length_kept [of f lim xs] by (simp add: dropped_def kept_snoc Suc_diff_le)

lemma kept_weight: "sum_list (map f (kept f lim xs)) \<le> lim \<or> kept f lim xs = []"
proof (induction xs rule: rev_induct)
  case (snoc x xs)
  then show ?case
    by (cases "sum_list (map f (xs @ [x])) \<le> lim") (simp_all only: kept_fits kept_snoc simp_thms)
qed simp

lemma kept_append_dropped: "kept f lim xs @ rev (dropped f lim xs) = xs"
proof (induction xs rule: rev_induct)
  case (snoc x xs)
  show ?case
  proof (cases "sum_list (map f (xs @ [x])) \<le> lim")
    case True
    then show ?thesis by (simp only: kept_fits dropped_fits) simp
  next
    case False
    show ?thesis
      by (simp add: kept_snoc [OF False] dropped_snoc [OF False] snoc flip: append_assoc)
  qed
qed simp

lemma set_kept_dropped: "set (kept f lim xs) \<union> set (dropped f lim xs) = set xs"
  by (subst (3) kept_append_dropped [symmetric, of _ f lim]) simp

lemma trim_rev_map: "trim_rev f lim (map g xs) = map g (trim_rev (f \<circ> g) lim xs)"
  by (induction xs) (simp_all add: comp_def)

lemma kept_map: "kept f lim (map g xs) = map g (kept (f \<circ> g) lim xs)"
  by (simp add: kept_def trim_rev_map rev_map)

lemma dropped_map: "dropped f lim (map g xs) = map g (dropped (f \<circ> g) lim xs)"
  by (simp add: dropped_def kept_map rev_map take_map)

section \<open>The tracking invariant\<close>

text \<open>
  \<open>tracking segSize p as c\<close>: the ring of the policy is \<open>as\<close>, every element of a registered
  mapping that is not in the ring is alone, and the memory counter is the size of the
  tracked segments plus \<open>c\<close> (the size of a segment that is counted but not linked yet).
\<close>

definition eltSize :: "(mapping_ptr \<Rightarrow> size_t) \<Rightarrow> policy_storage list \<Rightarrow> addr \<Rightarrow> size_t" where
  "eltSize segSize sts e = segSize (fst (owner sts e))"

definition weight :: "(mapping_ptr \<Rightarrow> size_t) \<Rightarrow> policy_storage list \<Rightarrow> addr list \<Rightarrow> size_t" where
  "weight segSize sts as = sum_list (map (eltSize segSize sts) as)"

definition tracking :: "(mapping_ptr \<Rightarrow> size_t) \<Rightarrow> list_policy \<Rightarrow> addr list \<Rightarrow> size_t \<Rightarrow> bool" where
  "tracking segSize p as c \<longleftrightarrow>
     storages_ok {root p} (storageRegistry p) \<and>
     ring (elts p) (root p) as \<and>
     set as \<subseteq> elts_of (storageRegistry p) \<and>
     (\<forall>e \<in> elts_of (storageRegistry p) - set as. isAlone (elts p) e) \<and>
     currentMemory p = weight segSize (storageRegistry p) as + c \<and>
     currentMemory p < W64"

lemma weight_Nil [simp]: "weight segSize sts [] = 0"
  by (simp add: weight_def)

lemma weight_Cons [simp]:
  "weight segSize sts (e # as) = eltSize segSize sts e + weight segSize sts as"
  by (simp add: weight_def)

lemma weight_append [simp]:
  "weight segSize sts (as @ bs) = weight segSize sts as + weight segSize sts bs"
  by (simp add: weight_def)

lemma weight_map:
  "weight segSize sts as = sum_list (map (segSize \<circ> fst) (map (owner sts) as))"
  by (simp add: weight_def eltSize_def [abs_def] comp_def)

lemma list_policy_upd [simp]:
  fixes p :: "'a list_policy_scheme"
  shows "p\<lparr>currentMemory := n, elts := h\<rparr> = p\<lparr>elts := h, currentMemory := n\<rparr>"
  by simp

lemma trackingD:
  assumes "tracking segSize p as c"
  shows "storages_ok {root p} (storageRegistry p)" and "ring (elts p) (root p) as"
    and "set as \<subseteq> elts_of (storageRegistry p)"
    and "currentMemory p = weight segSize (storageRegistry p) as + c"
    and "currentMemory p < W64"
  using assms by (simp_all add: tracking_def)

text \<open>Unlinking any element of the ring keeps the invariant; its size becomes pending.\<close>

lemma tracking_unlink:
  assumes "tracking segSize p (us @ e # vs) c"
  shows "tracking segSize (p\<lparr>elts := removeFromList e (elts p)\<rparr>) (us @ vs)
           (eltSize segSize (storageRegistry p) e + c)"
proof -
  let ?h = "removeFromList e (elts p)"
  have r: "ring (elts p) (root p) (us @ e # vs)"
    and ok: "storages_ok {root p} (storageRegistry p)"
    using assms by (simp_all add: tracking_def)
  note rm = removeFromList_ring [OF r]
  have "isAlone ?h x" if x: "x \<in> elts_of (storageRegistry p) - set (us @ vs)" for x
  proof (cases "x = e")
    case True
    with rm(2) show ?thesis by simp
  next
    case False
    then have "x \<notin> set (root p # us @ e # vs)"
      using x root_not_elt [OF ok, of "root p"] by auto
    then have "isAlone ?h x = isAlone (elts p) x"
      by (rule isAlone_frame [OF rm(3)])
    with assms x False show ?thesis by (auto simp: tracking_def)
  qed
  then show ?thesis
    using assms rm(1) by (auto simp: tracking_def)
qed

lemma tracking_counted:
  assumes "tracking segSize p as (d + c)"
  shows "tracking segSize (p\<lparr>currentMemory := sz_sub (currentMemory p) d\<rparr>) as c"
proof -
  have "sz_sub (currentMemory p) d = currentMemory p - d"
    using assms by (intro sz_sub_exact) (simp_all add: tracking_def)
  with assms show ?thesis by (simp add: tracking_def)
qed

lemma tracking_elt:
  assumes "tracking segSize p as c" and "e \<in> set as"
  obtains st i where "st \<in> set (storageRegistry p)" and "i < ps_elementCount st" and "e = elt st i"
  using assms by (auto simp: tracking_def elts_of_def)

section \<open>The eviction loop\<close>

lemma evict_loop_correct:
  assumes "tracking segSize p as c" and "c \<le> dynamicMaxMemory p"
    and "length ids + length (dropped (eltSize segSize (storageRegistry p)) (dynamicMaxMemory p - c) as)
         < maxIdsToEvict"
  shows "\<exists>h m. evict_loop segSize p ids =
           returns (p\<lparr>elts := h, currentMemory := m\<rparr>,
             ids @ map (owner (storageRegistry p))
               (dropped (eltSize segSize (storageRegistry p)) (dynamicMaxMemory p - c) as)) \<and>
         tracking segSize (p\<lparr>elts := h, currentMemory := m\<rparr>)
           (kept (eltSize segSize (storageRegistry p)) (dynamicMaxMemory p - c) as) c"
  using assms
proof (induction as arbitrary: p ids rule: rev_induct)
  case Nil
  then have "currentMemory p \<le> dynamicMaxMemory p"
    by (simp add: tracking_def)
  with Nil have "evict_loop segSize p ids = returns (p\<lparr>elts := elts p, currentMemory := currentMemory p\<rparr>, ids)"
    by (simp add: evict_loop.simps)
  with Nil.prems(1) show ?case by (intro exI [of _ "elts p"] exI [of _ "currentMemory p"]) simp
next
  case (snoc e as)
  let ?f = "eltSize segSize (storageRegistry p)" and ?lim = "dynamicMaxMemory p - c"
  have mem: "currentMemory p = weight segSize (storageRegistry p) (as @ [e]) + c"
    using snoc.prems(1) by (simp add: tracking_def)
  show ?case
  proof (cases "sum_list (map ?f (as @ [e])) \<le> ?lim")
    case True
    then have "currentMemory p \<le> dynamicMaxMemory p"
      using mem snoc.prems(2) by (simp add: weight_def)
    then have "evict_loop segSize p ids =
        returns (p\<lparr>elts := elts p, currentMemory := currentMemory p\<rparr>, ids)"
      by (simp add: evict_loop.simps)
    with True snoc.prems(1) show ?thesis
      by (intro exI [of _ "elts p"] exI [of _ "currentMemory p"])
        (simp add: kept_fits dropped_fits del: map_append sum_list_append)
  next
    case False
    let ?h = "removeFromList e (elts p)"
    let ?m = "sz_sub (currentMemory p) (?f e)"
    let ?q = "p\<lparr>elts := ?h, currentMemory := ?m\<rparr>"
    obtain st i where st: "st \<in> set (storageRegistry p)" "i < ps_elementCount st" "e = elt st i"
      using tracking_elt [OF snoc.prems(1), of e] by auto
    note ok = trackingD(1) [OF snoc.prems(1)]
    have own: "owner (storageRegistry p) e = (ps_mapping st, i)"
      and info: "getStorageInfo_entry e p = Inr st"
      using st owner_elt [OF ok] getStorageInfo_entry_elt [OF ok] by simp_all
    have idx: "(e - ps_elements st) div sizeof_ListElement = i"
      using st(3) by (simp add: elt_def)
    have over: "currentMemory p > dynamicMaxMemory p"
      using False mem snoc.prems(2) by (simp add: weight_def)
    have len: "Suc (length ids + length (dropped ?f ?lim as)) < maxIdsToEvict"
      using snoc.prems(3) False by (simp add: dropped_snoc del: map_append sum_list_append)
    have step: "evict_loop segSize p ids = evict_loop segSize ?q (ids @ [(ps_mapping st, i)])"
      using over popPrev_ring [OF trackingD(2) [OF snoc.prems(1)]] info len own
      by (subst evict_loop.simps) (simp add: idx eltSize_def)
    have "tracking segSize (p\<lparr>elts := ?h\<rparr>) (as @ []) (?f e + c)"
      using tracking_unlink [of segSize p as e "[]" c] snoc.prems(1) by simp
    then have "tracking segSize ?q as c"
      using tracking_counted by fastforce
    then obtain h m where hm: "evict_loop segSize ?q (ids @ [(ps_mapping st, i)]) =
          returns (?q\<lparr>elts := h, currentMemory := m\<rparr>,
            (ids @ [(ps_mapping st, i)]) @ map (owner (storageRegistry ?q)) (dropped ?f ?lim as))"
        "tracking segSize (?q\<lparr>elts := h, currentMemory := m\<rparr>) (kept ?f ?lim as) c"
      using snoc.IH [of ?q "ids @ [(ps_mapping st, i)]"] snoc.prems(2) len by auto
    with False step own show ?thesis
      by (intro exI [of _ h] exI [of _ m])
        (simp add: kept_snoc dropped_snoc del: map_append sum_list_append)
  qed
qed

section \<open>Touching and evicting a segment\<close>

text \<open>
  After \<open>cur.removeFromList()\<close> the element is alone and out of the ring, whether it was
  linked before (its size is then pending) or not.
\<close>

lemma tracking_remove_cur:
  assumes "tracking segSize p as 0" and "e \<in> elts_of (storageRegistry p)"
  shows "tracking segSize (p\<lparr>elts := removeFromList e (elts p)\<rparr>) (remove1 e as)
           (if isAlone (elts p) e then 0 else eltSize segSize (storageRegistry p) e)"
    and "isAlone (removeFromList e (elts p)) e"
    and "isAlone (elts p) e \<longleftrightarrow> e \<notin> set as"
proof -
  note tr = assms(1)
  have alone: "isAlone (elts p) e \<longleftrightarrow> e \<notin> set as"
    using tr assms(2) ring_member_inList(2) [OF trackingD(2) [OF tr]]
    by (auto simp: tracking_def)
  show "isAlone (elts p) e \<longleftrightarrow> e \<notin> set as" by (fact alone)
  have "tracking segSize (p\<lparr>elts := removeFromList e (elts p)\<rparr>) (remove1 e as)
           (if isAlone (elts p) e then 0 else eltSize segSize (storageRegistry p) e) \<and>
         isAlone (removeFromList e (elts p)) e"
  proof (cases "e \<in> set as")
    case True
    then obtain us vs where as: "as = us @ e # vs" "e \<notin> set us"
      by (meson split_list_first)
    then show ?thesis
      using tracking_unlink [of segSize p us e vs 0] removeFromList_ring(2) trackingD(2) [OF tr]
        alone True tr by auto
  next
    case False
    then show ?thesis using tr alone by (simp add: removeFromList_alone remove1_idem)
  qed
  then show "tracking segSize (p\<lparr>elts := removeFromList e (elts p)\<rparr>) (remove1 e as)
           (if isAlone (elts p) e then 0 else eltSize segSize (storageRegistry p) e)"
    and "isAlone (removeFromList e (elts p)) e"
    by simp_all
qed

lemma tracking_link_front:
  assumes "tracking segSize p as (eltSize segSize (storageRegistry p) e + c)"
    and "e \<in> elts_of (storageRegistry p)" and "e \<notin> set as"
  obtains h where "insertAfter (root p) e (elts p) = Inr h"
    and "tracking segSize (p\<lparr>elts := h\<rparr>) (e # as) c"
proof -
  have ok: "storages_ok {root p} (storageRegistry p)" and r: "ring (elts p) (root p) as"
    using assms(1) by (simp_all add: tracking_def)
  have ne: "e \<notin> set (root p # as)"
    using assms(2,3) root_not_elt [OF ok, of "root p"] by auto
  have al: "isAlone (elts p) e"
    using assms by (simp add: tracking_def)
  obtain h where h: "insertAfter (root p) e (elts p) = Inr h" "ring h (root p) (e # as)"
      "agree_off (set (root p # e # as)) (elts p) h"
    by (rule insertAfter_ring [OF r ne al])
  have "isAlone h x" if x: "x \<in> elts_of (storageRegistry p) - set (e # as)" for x
  proof -
    have "x \<notin> set (root p # e # as)"
      using x root_not_elt [OF ok, of "root p"] by auto
    then have "isAlone h x = isAlone (elts p) x"
      by (rule isAlone_frame [OF h(3)])
    with assms x show ?thesis by (auto simp: tracking_def)
  qed
  then have "tracking segSize (p\<lparr>elts := h\<rparr>) (e # as) c"
    using assms h(2) by (auto simp: tracking_def)
  with h(1) show ?thesis by (rule that)
qed

lemma tracking_link_back:
  assumes "tracking segSize p as (eltSize segSize (storageRegistry p) e + c)"
    and "e \<in> elts_of (storageRegistry p)" and "e \<notin> set as"
  obtains h where "insertBefore (root p) e (elts p) = Inr h"
    and "tracking segSize (p\<lparr>elts := h\<rparr>) (as @ [e]) c"
proof -
  have ok: "storages_ok {root p} (storageRegistry p)" and r: "ring (elts p) (root p) as"
    using assms(1) by (simp_all add: tracking_def)
  have ne: "e \<notin> set (root p # as)"
    using assms(2,3) root_not_elt [OF ok, of "root p"] by auto
  have al: "isAlone (elts p) e"
    using assms by (simp add: tracking_def)
  obtain h where h: "insertBefore (root p) e (elts p) = Inr h" "ring h (root p) (as @ [e])"
      "agree_off (set (root p # e # as)) (elts p) h"
    by (rule insertBefore_ring [OF r ne al])
  have "isAlone h x" if x: "x \<in> elts_of (storageRegistry p) - set (as @ [e])" for x
  proof -
    have "x \<notin> set (root p # e # as)"
      using x root_not_elt [OF ok, of "root p"] by auto
    then have "isAlone h x = isAlone (elts p) x"
      by (rule isAlone_frame [OF h(3)])
    with assms x show ?thesis by (auto simp: tracking_def)
  qed
  then have "tracking segSize (p\<lparr>elts := h\<rparr>) (as @ [e]) c"
    using assms h(2) by (auto simp: tracking_def)
  with h(1) show ?thesis by (rule that)
qed

text \<open>Counting the size of a segment that is not linked makes it pending.\<close>

lemma tracking_count:
  assumes "tracking segSize p as c" and "currentMemory p + d < W64"
  shows "tracking segSize (p\<lparr>currentMemory := sz_add (currentMemory p) d\<rparr>) as (d + c)"
  using assms by (simp add: tracking_def)

section \<open>Refinement of the list specification\<close>

text \<open>
  The abstract state of the policy is the list of tracked segments, as pairs of mapping
  and index, newest first. A touch moves the segment to the front and drops the oldest
  segments until the rest fits in the limit.
\<close>

definition tracks :: "(mapping_ptr \<Rightarrow> size_t) \<Rightarrow> list_policy \<Rightarrow> (mapping_ptr \<times> nat) list \<Rightarrow> bool" where
  "tracks segSize p ts \<longleftrightarrow>
     (\<exists>as. tracking segSize p as 0 \<and> ts = map (owner (storageRegistry p)) as)"

lemma tracksI:
  "tracking segSize p as 0 \<Longrightarrow> map (owner (storageRegistry p)) as = ts \<Longrightarrow> tracks segSize p ts"
  by (auto simp: tracks_def)

definition touch_list :: "'a \<Rightarrow> 'a list \<Rightarrow> 'a list" where
  "touch_list t ts = t # remove1 t ts"

definition segs :: "policy_storage list \<Rightarrow> (mapping_ptr \<times> nat) set" where
  "segs sts = {(ps_mapping st, i) |st i. st \<in> set sts \<and> i < ps_elementCount st}"

definition usable :: "'a policy_scheme \<Rightarrow> bool" where
  "usable p \<longleftrightarrow> (pol_local p \<longrightarrow> length (storageRegistry p) \<le> 1)"

lemma segsE:
  assumes "(m, i) \<in> segs sts"
  obtains st where "st \<in> set sts" and "i < ps_elementCount st" and "m = ps_mapping st"
  using assms by (auto simp: segs_def)

lemma map_owner_remove1:
  assumes "storages_ok roots sts" and "set as \<subseteq> elts_of sts" and "e \<in> elts_of sts"
  shows "map (owner sts) (remove1 e as) = remove1 (owner sts e) (map (owner sts) as)"
  using assms(2)
proof (induction as)
  case (Cons a as)
  then show ?case
    using inj_onD [OF owner_inj [OF assms(1)], of a e] assms(3) by auto
qed simp

lemma tracks_distinct: "tracks segSize p ts \<Longrightarrow> distinct ts"
  using owner_inj ring_distinct
  by (fastforce simp: tracks_def tracking_def distinct_map intro: inj_on_subset)

lemma tracks_segs: "tracks segSize p ts \<Longrightarrow> set ts \<subseteq> segs (storageRegistry p)"
proof -
  assume "tracks segSize p ts"
  then obtain as where tr: "tracking segSize p as 0" and ts: "ts = map (owner (storageRegistry p)) as"
    by (auto simp: tracks_def)
  have "owner (storageRegistry p) e \<in> segs (storageRegistry p)" if e: "e \<in> set as" for e
  proof -
    obtain st i where "st \<in> set (storageRegistry p)" "i < ps_elementCount st" "e = elt st i"
      using tr e by (rule tracking_elt)
    then show ?thesis
      using owner_elt [OF trackingD(1) [OF tr]] by (auto simp: segs_def)
  qed
  with ts show ?thesis by auto
qed

lemma tracks_memory:
  "tracks segSize p ts \<Longrightarrow> currentMemory p = sum_list (map (segSize \<circ> fst) ts)"
  by (auto simp: tracks_def tracking_def weight_map)

text \<open>
  Both list policies start a touch by taking the element out of the ring and counting its
  size if it was not linked: its size is then pending.
\<close>

lemma touch_take_out:
  assumes tr: "tracks segSize p ts" and us: "usable p"
    and seg: "(m, i) \<in> segs (storageRegistry p)" and fits: "currentMemory p + segSize m < W64"
  obtains st as where "getStorageInfo_mapping m p = Inr st" and "elt st i \<in> elts_of (storageRegistry p)"
    and "owner (storageRegistry p) (elt st i) = (m, i)"
    and "isAlone (elts p) (elt st i) \<longleftrightarrow> (m, i) \<notin> set ts"
    and "tracking segSize
      (p\<lparr>elts := removeFromList (elt st i) (elts p),
         currentMemory := (if isAlone (elts p) (elt st i) then sz_add (currentMemory p) (segSize m)
           else currentMemory p)\<rparr>) as (segSize m)"
    and "map (owner (storageRegistry p)) as = remove1 (m, i) ts" and "elt st i \<notin> set as"
proof -
  let ?sts = "storageRegistry p"
  obtain as where as: "tracking segSize p as 0" and ts: "ts = map (owner ?sts) as"
    using tr by (auto simp: tracks_def)
  note ok = trackingD(1) [OF as]
  obtain st where st: "st \<in> set ?sts" "i < ps_elementCount st" "m = ps_mapping st"
    using seg by (rule segsE)
  let ?e = "elt st i"
  have e: "?e \<in> elts_of ?sts"
    using st by (auto simp: elts_of_def)
  have own: "owner ?sts ?e = (m, i)"
    using owner_elt [OF ok st(1,2)] st(3) by simp
  then have es: "eltSize segSize ?sts ?e = segSize m"
    by (simp add: eltSize_def)
  have info: "getStorageInfo_mapping m p = Inr st"
    using getStorageInfo_mapping_registered [OF ok st(1)] us st(3) by (simp add: usable_def)
  note rm = tracking_remove_cur [OF as e]
  have first: "isAlone (elts p) ?e \<longleftrightarrow> (m, i) \<notin> set ts"
    using rm(3) own ts inj_on_image_mem_iff [OF owner_inj [OF ok] e trackingD(3) [OF as]] by simp
  have t2: "tracking segSize
      (p\<lparr>elts := removeFromList ?e (elts p),
         currentMemory := (if isAlone (elts p) ?e then sz_add (currentMemory p) (segSize m)
           else currentMemory p)\<rparr>) (remove1 ?e as) (segSize m)"
  proof (cases "isAlone (elts p) ?e")
    case True
    then show ?thesis
      using tracking_count [OF rm(1), of "segSize m"] fits by simp
  next
    case False
    then show ?thesis using rm(1) es by simp
  qed
  have rem: "map (owner ?sts) (remove1 ?e as) = remove1 (m, i) ts"
    using map_owner_remove1 [OF ok trackingD(3) [OF as] e] by (simp add: own ts)
  have "?e \<notin> set (remove1 ?e as)"
    using ring_distinct [OF trackingD(2) [OF as]] by auto
  from that [OF info e own first t2 rem this] show thesis .
qed

text \<open>The state in which a FIFO touch enters the eviction loop.\<close>

lemma fifo_notifyTouch_linked:
  assumes tr: "tracks segSize p ts" and us: "usable p"
    and seg: "(m, i) \<in> segs (storageRegistry p)" and fits: "currentMemory p + segSize m < W64"
  obtains h n where "fifo_notifyTouch_cs segSize m i p =
      bindO (evict_loop segSize (p\<lparr>elts := h, currentMemory := n\<rparr>) [])
        (\<lambda>(p3, ids). returns (p3, ids, (m, i) \<notin> set ts, currentMemory p))"
    and "tracks segSize (p\<lparr>elts := h, currentMemory := n\<rparr>) (touch_list (m, i) ts)"
proof -
  let ?sts = "storageRegistry p"
  obtain st as where st: "getStorageInfo_mapping m p = Inr st" "elt st i \<in> elts_of ?sts"
      "owner ?sts (elt st i) = (m, i)" "isAlone (elts p) (elt st i) \<longleftrightarrow> (m, i) \<notin> set ts"
    and t: "tracking segSize
      (p\<lparr>elts := removeFromList (elt st i) (elts p),
         currentMemory := (if isAlone (elts p) (elt st i) then sz_add (currentMemory p) (segSize m)
           else currentMemory p)\<rparr>) as (segSize m)"
    and as: "map (owner ?sts) as = remove1 (m, i) ts" "elt st i \<notin> set as"
    by (rule touch_take_out [OF tr us seg fits])
  define n where "n = (if isAlone (elts p) (elt st i) then sz_add (currentMemory p) (segSize m) else currentMemory p)"
  obtain h where h: "insertAfter (root p) (elt st i) (removeFromList (elt st i) (elts p)) = Inr h"
      "tracking segSize (p\<lparr>elts := h, currentMemory := n\<rparr>) (elt st i # as) 0"
    by (rule tracking_link_front
        [of segSize "p\<lparr>elts := removeFromList (elt st i) (elts p), currentMemory := n\<rparr>" as "elt st i" 0])
      (use t st(2,3) as(2) in \<open>auto simp: n_def eltSize_def\<close>)
  have p2: "(if isAlone (elts p) (elt st i)
      then p\<lparr>elts := h, currentMemory := sz_add (currentMemory p) (segSize m)\<rparr>
      else p\<lparr>elts := h\<rparr>) = p\<lparr>elts := h, currentMemory := n\<rparr>"
    by (simp add: n_def)
  have "fifo_notifyTouch_cs segSize m i p =
      bindO (evict_loop segSize (p\<lparr>elts := h, currentMemory := n\<rparr>) [])
        (\<lambda>(p3, ids). returns (p3, ids, (m, i) \<notin> set ts, currentMemory p))"
    using h(1) unfolding p2 [symmetric] st(4) [symmetric]
    by (simp add: fifo_notifyTouch_cs_def Let_def st(1) elt_def)
  moreover have "tracks segSize (p\<lparr>elts := h, currentMemory := n\<rparr>) (touch_list (m, i) ts)"
    by (rule tracksI [OF h(2)]) (simp add: as(1) st(3) touch_list_def)
  ultimately show thesis by (rule that)
qed

text \<open>An eviction notified by another policy or by a mapping.\<close>

lemma fifo_notifyEvict_correct:
  assumes tr: "tracks segSize p ts" and us: "usable p" and seg: "(m, i) \<in> set ts"
  shows "\<exists>h n. fifo_notifyEvict segSize m i p = Inr (p\<lparr>elts := h, currentMemory := n\<rparr>) \<and>
         tracks segSize (p\<lparr>elts := h, currentMemory := n\<rparr>) (remove1 (m, i) ts)"
proof -
  let ?sts = "storageRegistry p"
  obtain as where as: "tracking segSize p as 0" and ts: "ts = map (owner ?sts) as"
    using tr by (auto simp: tracks_def)
  note ok = trackingD(1) [OF as]
  obtain st where st: "st \<in> set ?sts" "i < ps_elementCount st" "m = ps_mapping st"
    using subsetD [OF tracks_segs [OF tr] seg] by (rule segsE)
  let ?e = "elt st i"
  have e: "?e \<in> elts_of ?sts"
    using st by (auto simp: elts_of_def)
  have own: "owner ?sts ?e = (m, i)"
    using owner_elt [OF ok st(1,2)] st(3) by simp
  have info: "getStorageInfo_mapping m p = Inr st"
    using getStorageInfo_mapping_registered [OF ok st(1)] us st(3) by (simp add: usable_def)
  have ein: "?e \<in> set as"
    using seg own ts inj_on_image_mem_iff [OF owner_inj [OF ok] e trackingD(3) [OF as]] by simp
  have inl: "isInList (elts p) ?e" and nal: "\<not> isAlone (elts p) ?e"
    using ring_member_inList [OF trackingD(2) [OF as] ein] by simp_all
  have "tracking segSize (p\<lparr>elts := removeFromList ?e (elts p)\<rparr>) (remove1 ?e as) (segSize m + 0)"
    using tracking_remove_cur(1) [OF as e] nal own by (simp add: eltSize_def)
  from tracking_counted [OF this]
  have "tracking segSize (p\<lparr>elts := removeFromList ?e (elts p),
      currentMemory := sz_sub (currentMemory p) (segSize m)\<rparr>) (remove1 ?e as) 0"
    by simp
  from tracksI [OF this] have "tracks segSize (p\<lparr>elts := removeFromList ?e (elts p),
      currentMemory := sz_sub (currentMemory p) (segSize m)\<rparr>) (remove1 (m, i) ts)"
    using map_owner_remove1 [OF ok trackingD(3) [OF as] e] by (simp add: own ts)
  with inl show ?thesis
    by (auto simp: fifo_notifyEvict_def info elt_def)
qed

lemma fifo_notifyEvict_untracked:
  assumes tr: "tracks segSize p ts" and us: "usable p"
    and seg: "(m, i) \<in> segs (storageRegistry p)" and "(m, i) \<notin> set ts"
  shows "fifo_notifyEvict segSize m i p = Inl (AssertFailure ''cur.isInList()'')"
proof -
  let ?sts = "storageRegistry p"
  obtain as where as: "tracking segSize p as 0" and ts: "ts = map (owner ?sts) as"
    using tr by (auto simp: tracks_def)
  note ok = trackingD(1) [OF as]
  obtain st where st: "st \<in> set ?sts" "i < ps_elementCount st" "m = ps_mapping st"
    using seg by (rule segsE)
  have e: "elt st i \<in> elts_of ?sts"
    using st by (auto simp: elts_of_def)
  have info: "getStorageInfo_mapping m p = Inr st"
    using getStorageInfo_mapping_registered [OF ok st(1)] us st(3) by (simp add: usable_def)
  have "elt st i \<notin> set as"
    using assms(4) owner_elt [OF ok st(1,2)] st(3) ts by (metis image_eqI image_set)
  then have "isAlone (elts p) (elt st i)"
    using tracking_remove_cur(3) [OF as e] by simp
  then show ?thesis
    by (simp add: fifo_notifyEvict_def info elt_def isAlone_def isInList_def)
qed

lemma fifo_shrinkMemory_cs_correct:
  assumes tr: "tracks segSize p ts"
    and cap: "length (dropped (segSize \<circ> fst) (dynamicMaxMemory p) ts) < maxIdsToEvict"
  shows "\<exists>h n. fifo_shrinkMemory_cs segSize p =
           returns (p\<lparr>elts := h, currentMemory := n\<rparr>,
             dropped (segSize \<circ> fst) (dynamicMaxMemory p) ts) \<and>
         tracks segSize (p\<lparr>elts := h, currentMemory := n\<rparr>)
           (kept (segSize \<circ> fst) (dynamicMaxMemory p) ts)"
proof -
  let ?sts = "storageRegistry p"
  obtain as where as: "tracking segSize p as 0" and ts: "ts = map (owner ?sts) as"
    using tr by (auto simp: tracks_def)
  have f: "eltSize segSize ?sts = (segSize \<circ> fst) \<circ> owner ?sts"
    by (simp add: fun_eq_iff eltSize_def)
  have dr: "map (owner ?sts) (dropped (eltSize segSize ?sts) (dynamicMaxMemory p) as)
      = dropped (segSize \<circ> fst) (dynamicMaxMemory p) ts"
    and kp: "map (owner ?sts) (kept (eltSize segSize ?sts) (dynamicMaxMemory p) as)
      = kept (segSize \<circ> fst) (dynamicMaxMemory p) ts"
    by (simp_all only: f dropped_map [symmetric] kept_map [symmetric] ts)
  have "length (dropped (eltSize segSize ?sts) (dynamicMaxMemory p) as) < maxIdsToEvict"
    using cap dr by (metis length_map)
  then obtain h n where ev: "evict_loop segSize p [] =
        returns (p\<lparr>elts := h, currentMemory := n\<rparr>, dropped (segSize \<circ> fst) (dynamicMaxMemory p) ts)"
      "tracking segSize (p\<lparr>elts := h, currentMemory := n\<rparr>)
        (kept (eltSize segSize ?sts) (dynamicMaxMemory p) as) 0"
    using evict_loop_correct [OF as, of "[]"] dr by auto
  with tracksI [OF ev(2)] kp show ?thesis by (auto simp: fifo_shrinkMemory_cs_def)
qed

text \<open>A touch, on every branch of the critical section that returns.\<close>

lemma fifo_notifyTouch_cs_correct:
  assumes tr: "tracks segSize p ts" and us: "usable p"
    and seg: "(m, i) \<in> segs (storageRegistry p)"
    and fits: "currentMemory p + segSize m < W64"
    and cap: "length (dropped (segSize \<circ> fst) (dynamicMaxMemory p) (touch_list (m, i) ts)) < maxIdsToEvict"
  shows "\<exists>h n. fifo_notifyTouch_cs segSize m i p =
           returns (p\<lparr>elts := h, currentMemory := n\<rparr>,
             dropped (segSize \<circ> fst) (dynamicMaxMemory p) (touch_list (m, i) ts),
             (m, i) \<notin> set ts, currentMemory p) \<and>
         tracks segSize (p\<lparr>elts := h, currentMemory := n\<rparr>)
           (kept (segSize \<circ> fst) (dynamicMaxMemory p) (touch_list (m, i) ts))"
proof -
  obtain h n where run: "fifo_notifyTouch_cs segSize m i p =
      bindO (evict_loop segSize (p\<lparr>elts := h, currentMemory := n\<rparr>) [])
        (\<lambda>(p3, ids). returns (p3, ids, (m, i) \<notin> set ts, currentMemory p))"
    and t: "tracks segSize (p\<lparr>elts := h, currentMemory := n\<rparr>) (touch_list (m, i) ts)"
    by (rule fifo_notifyTouch_linked [OF tr us seg fits])
  from fifo_shrinkMemory_cs_correct [OF t] cap
  obtain h' n' where "evict_loop segSize (p\<lparr>elts := h, currentMemory := n\<rparr>) [] =
      returns (p\<lparr>elts := h', currentMemory := n'\<rparr>,
        dropped (segSize \<circ> fst) (dynamicMaxMemory p) (touch_list (m, i) ts))"
    and "tracks segSize (p\<lparr>elts := h', currentMemory := n'\<rparr>)
      (kept (segSize \<circ> fst) (dynamicMaxMemory p) (touch_list (m, i) ts))"
    by (auto simp: fifo_shrinkMemory_cs_def)
  with run show ?thesis by auto
qed

section \<open>Registering and releasing a mapping\<close>

definition heap_ok :: "list_policy \<Rightarrow> bool" where
  "heap_ok p \<longleftrightarrow> root p < brk p \<and> (\<forall>st \<in> set (storageRegistry p). storage_end st \<le> brk p)"

lemma newElements_spec:
  "(\<forall>i < n. isAlone (newElements base n h) (base + sizeof_ListElement * i)) \<and>
   agree_off {base + sizeof_ListElement * i |i. i < n} h (newElements base n h)"
proof (induction n)
  case (Suc n)
  let ?e = "base + sizeof_ListElement * n"
  note new = newElement_alone [of ?e "newElements base n h"]
  have "isAlone (newElements base (Suc n) h) (base + sizeof_ListElement * i)" if "i < Suc n" for i
  proof (cases "i = n")
    case False
    with that Suc show ?thesis
      using isAlone_frame [OF new(2), of "base + sizeof_ListElement * i"] by simp
  qed (simp add: new(1))
  moreover have "agree_off ({base + sizeof_ListElement * i |i. i < n} \<union> {?e}) h (newElements base (Suc n) h)"
    using agree_off_trans [OF _ new(2)] Suc by simp
  then have "agree_off {base + sizeof_ListElement * i |i. i < Suc n} h (newElements base (Suc n) h)"
    by (rule agree_off_mono) (auto simp: less_Suc_eq)
  ultimately show ?case by blast
qed simp

lemma storages_ok_snoc:
  assumes "storages_ok roots sts" and "\<forall>st \<in> set sts. storage_end st \<le> b" and "\<forall>r \<in> roots. r < b"
    and "m \<noteq> 0" and "m \<notin> ps_mapping ` set sts" and "sizeof_ListElement * n < W64"
    and st: "st = \<lparr>ps_mapping = m, ps_elements = b, ps_elementCount = n,
                  ps_elementSize = sizeof_ListElement, ps_extraInfos = x\<rparr>"
  shows "storages_ok roots (sts @ [st])"
  using assms by (auto simp: storages_ok_def separated_def)

lemma elts_of_snoc:
  "elts_of (sts @ [st]) = elts_of sts \<union> {ps_elements st + sizeof_ListElement * i |i. i < ps_elementCount st}"
  by (auto simp: elts_of_def elt_def)

lemma segs_snoc:
  "segs (sts @ [st]) = segs sts \<union> {(ps_mapping st, i) |i. i < ps_elementCount st}"
  by (auto simp: segs_def)

lemma owner_snoc:
  assumes "storages_ok roots sts" and "storages_ok roots (sts @ [st])" and "e \<in> elts_of sts"
  shows "owner (sts @ [st]) e = owner sts e"
  using assms owner_elt [of roots sts] owner_elt [of roots "sts @ [st]"]
  by (auto simp: elts_of_def)

lemma fifo_allocateElementStorage_correct:
  assumes tr: "tracks segSize p ts" and hp: "heap_ok p"
    and new: "m \<noteq> 0" "m \<notin> ps_mapping ` set (storageRegistry p)"
    and sz: "sizeof_ListElement * n < W64"
    and ok: "segSize m \<le> staticMaxMemory p"
    and enough: "sum_list (map (segSize \<circ> ps_mapping) (storageRegistry p)) + segSize m < W64"
      "sum_list (map (segSize \<circ> ps_mapping) (storageRegistry p)) + segSize m \<le> dynamicMaxMemory p"
  obtains p' where "fifo_allocateElementStorage segSize m n p = Inr p'"
    and "tracks segSize p' ts" and "heap_ok p'"
    and "segs (storageRegistry p') = segs (storageRegistry p) \<union> {(m, i) |i. i < n}"
    and "ps_mapping ` set (storageRegistry p') = insert m (ps_mapping ` set (storageRegistry p))"
    and "dynamicMaxMemory p' = dynamicMaxMemory p" and "staticMaxMemory p' = staticMaxMemory p"
    and "currentMemory p' = currentMemory p" and "pol_local p' = pol_local p"
    and "map (\<lambda>st. (ps_mapping st, ps_elementCount st)) (storageRegistry p') =
      map (\<lambda>st. (ps_mapping st, ps_elementCount st)) (storageRegistry p) @ [(m, n)]"
proof -
  let ?sts = "storageRegistry p"
  define st where "st = \<lparr>ps_mapping = m, ps_elements = brk p, ps_elementCount = n,
    ps_elementSize = sizeof_ListElement, ps_extraInfos = 0\<rparr>"
  define h where "h = newElements (brk p) n (elts p)"
  define p' where "p' = p\<lparr>storageRegistry := ?sts @ [st], elts := h,
    brk := brk p + sizeof_ListElement * n\<rparr>"
  obtain as where as: "tracking segSize p as 0" and ts: "ts = map (owner ?sts) as"
    using tr by (auto simp: tracks_def)
  note okp = trackingD(1) [OF as]
  have oks: "storages_ok {root p} (?sts @ [st])"
    using storages_ok_snoc [OF okp _ _ new(1) new(2) sz st_def] hp by (simp add: heap_ok_def)
  have op: "fifo_allocateElementStorage segSize m n p = Inr p'"
  proof -
    have "sum_segments segSize 0 (?sts @ [st])
        = sum_list (map (segSize \<circ> ps_mapping) ?sts) + segSize m"
      using sum_segments_exact [of 0 segSize "?sts @ [st]"] enough(1) by (simp add: st_def)
    then show ?thesis
      using ok enough(2)
      by (simp add: fifo_allocateElementStorage_def registerMapping_def checkHasEnoughMem_def
          Let_def st_def h_def p'_def)
  qed
  have h: "\<forall>i < n. isAlone h (brk p + sizeof_ListElement * i)"
      "agree_off {brk p + sizeof_ListElement * i |i. i < n} (elts p) h"
    using newElements_spec [of n "brk p" "elts p"] by (simp_all add: h_def)
  have below: "x < brk p" if "x \<in> insert (root p) (elts_of ?sts)" for x
    using that hp by (fastforce simp: heap_ok_def elts_of_def elt_def storage_end_def)
  have "{brk p + sizeof_ListElement * i |i. i < n} \<inter> set (root p # as) = {}"
    using below trackingD(3) [OF as] by fastforce
  then have "ring h (root p) as"
    using ring_frame [OF h(2)] trackingD(2) [OF as] by simp
  moreover have "isAlone h e" if e: "e \<in> elts_of (?sts @ [st]) - set as" for e
  proof (cases "e \<in> elts_of ?sts")
    case True
    then have "e \<notin> {brk p + sizeof_ListElement * i |i. i < n}"
      using below by fastforce
    from isAlone_frame [OF h(2) this] show ?thesis
      using as e True by (auto simp: tracking_def)
  next
    case False
    with e h(1) show ?thesis by (auto simp: elts_of_snoc st_def)
  qed
  moreover have own: "map (owner (?sts @ [st])) as = map (owner ?sts) as"
    using owner_snoc [OF okp oks] trackingD(3) [OF as] by auto
  moreover have "weight segSize (?sts @ [st]) as = weight segSize ?sts as"
    by (simp only: weight_map own)
  ultimately have "tracking segSize p' as 0"
    using as oks by (auto simp: tracking_def p'_def elts_of_snoc)
  then have "tracks segSize p' ts"
    by (rule tracksI) (simp add: p'_def own ts)
  moreover have "heap_ok p'"
    using hp by (auto simp: heap_ok_def p'_def st_def storage_end_def)
  moreover have "segs (storageRegistry p') = segs ?sts \<union> {(m, i) |i. i < n}"
    by (simp add: segs_snoc p'_def st_def)
  moreover have "ps_mapping ` set (storageRegistry p') = insert m (ps_mapping ` set ?sts)"
    by (simp add: p'_def st_def)
  moreover have "map (\<lambda>st. (ps_mapping st, ps_elementCount st)) (storageRegistry p') =
      map (\<lambda>st. (ps_mapping st, ps_elementCount st)) ?sts @ [(m, n)]"
    by (simp add: p'_def st_def)
  ultimately show ?thesis
    using op that by (simp add: p'_def)
qed

text \<open>The loop that unlinks all elements of a mapping and discounts the tracked ones.\<close>

lemma free_loop_correct:
  assumes "tracking segSize p as 0" and "st \<in> set (storageRegistry p)" and "n \<le> ps_elementCount st"
  shows "\<exists>h k. free_loop (segSize (ps_mapping st)) (ps_elements st) n p = p\<lparr>elts := h, currentMemory := k\<rparr> \<and>
     tracking segSize (p\<lparr>elts := h, currentMemory := k\<rparr>) (filter (\<lambda>e. \<forall>i<n. e \<noteq> elt st i) as) 0"
  using assms(3)
proof (induction n)
  case 0
  with assms(1) show ?case by (intro exI [of _ "elts p"] exI [of _ "currentMemory p"]) simp
next
  case (Suc n)
  let ?as = "filter (\<lambda>e. \<forall>i<n. e \<noteq> elt st i) as" and ?e = "elt st n" and ?s = "segSize (ps_mapping st)"
  obtain h k where q: "free_loop ?s (ps_elements st) n p = p\<lparr>elts := h, currentMemory := k\<rparr>"
      and tr: "tracking segSize (p\<lparr>elts := h, currentMemory := k\<rparr>) ?as 0"
    using Suc by auto
  let ?q = "p\<lparr>elts := h, currentMemory := k\<rparr>"
  have e: "?e \<in> elts_of (storageRegistry ?q)"
    using assms(2) Suc.prems by (simp add: elts_ofI)
  have es: "eltSize segSize (storageRegistry ?q) ?e = ?s"
    using owner_elt [OF trackingD(1) [OF assms(1)] assms(2)] Suc.prems by (simp add: eltSize_def)
  note rm = tracking_remove_cur [OF tr e]
  have inl: "isInList h ?e \<longleftrightarrow> \<not> isAlone h ?e"
    using rm(3) ring_member_inList(1) [OF trackingD(2) [OF tr], of ?e]
    by (auto simp: isAlone_def isInList_def)
  define h' where "h' = removeFromList ?e h"
  define k' where "k' = (if isInList h ?e then sz_sub k ?s else k)"
  have op: "free_loop ?s (ps_elements st) (Suc n) p = p\<lparr>elts := h', currentMemory := k'\<rparr>"
    by (simp add: q Let_def h'_def k'_def elt_def)
  have t1: "tracking segSize (?q\<lparr>elts := h'\<rparr>) (remove1 ?e ?as) (if isAlone h ?e then 0 else ?s)"
    using rm(1) unfolding es by (simp add: h'_def)
  have "tracking segSize (p\<lparr>elts := h', currentMemory := k'\<rparr>) (remove1 ?e ?as) 0"
  proof (cases "isAlone h ?e")
    case True
    with t1 inl show ?thesis by (simp add: k'_def)
  next
    case False
    with t1 have "tracking segSize (?q\<lparr>elts := h'\<rparr>) (remove1 ?e ?as) (?s + 0)"
      by simp
    from tracking_counted [OF this] False inl show ?thesis by (simp add: k'_def)
  qed
  moreover have "remove1 ?e ?as = filter (\<lambda>e. \<forall>i<Suc n. e \<noteq> elt st i) as"
    using ring_distinct [OF trackingD(2) [OF assms(1)]]
    by (simp add: distinct_remove1_removeAll removeAll_filter_not_eq less_Suc_eq all_conj_distrib)
      (rule filter_cong, auto)
  ultimately show ?case
    using op by auto
qed

lemma storages_ok_filter: "storages_ok roots sts \<Longrightarrow> storages_ok roots (filter P sts)"
  by (auto simp: storages_ok_def distinct_map_filter)

lemma deleteElements_alone:
  "\<forall>i < n. isAlone h (base + sizeof_ListElement * i) \<Longrightarrow> deleteElements base n h = h"
  by (induction n) (simp_all add: deleteElement_def removeFromList_alone)

lemma filter_owner:
  assumes "storages_ok roots sts" and "set as \<subseteq> elts_of sts" and "st \<in> set sts"
  shows "filter (\<lambda>e. \<forall>i<ps_elementCount st. e \<noteq> elt st i) as
       = filter (\<lambda>e. fst (owner sts e) \<noteq> ps_mapping st) as"
proof (rule filter_cong [OF refl])
  fix e assume "e \<in> set as"
  then obtain a j where a: "a \<in> set sts" "j < ps_elementCount a" "e = elt a j"
    using assms(2) by (auto simp: elts_of_def)
  then have own: "owner sts e = (ps_mapping a, j)"
    using owner_elt [OF assms(1)] by simp
  have "a = st" if "ps_mapping a = ps_mapping st"
    using storages_ok_distinct [OF assms(1)] a(1) assms(3) that
    by (auto simp: distinct_map dest: inj_onD)
  then show "(\<forall>i<ps_elementCount st. e \<noteq> elt st i) = (fst (owner sts e) \<noteq> ps_mapping st)"
    using own a elt_inject [OF assms(1) a(1) assms(3) a(2)] by auto
qed

lemma filtered_elts:
  assumes "storages_ok roots sts" and "e \<in> elts_of sts" and "fst (owner sts e) \<noteq> m"
  shows "e \<in> elts_of (filter (\<lambda>st. ps_mapping st \<noteq> m) sts)"
    and "owner (filter (\<lambda>st. ps_mapping st \<noteq> m) sts) e = owner sts e"
proof -
  obtain a j where a: "a \<in> set sts" "j < ps_elementCount a" "e = elt a j"
    using assms(2) by (auto simp: elts_of_def)
  have own: "owner sts e = (ps_mapping a, j)"
    using owner_elt [OF assms(1)] a by simp
  with a assms(3) have in': "a \<in> set (filter (\<lambda>st. ps_mapping st \<noteq> m) sts)"
    by simp
  with a show "e \<in> elts_of (filter (\<lambda>st. ps_mapping st \<noteq> m) sts)"
    by (auto simp: elts_of_def)
  show "owner (filter (\<lambda>st. ps_mapping st \<noteq> m) sts) e = owner sts e"
    using owner_elt [OF storages_ok_filter [OF assms(1)] in' a(2)] own a(3) by simp
qed

lemma fifo_freeElementStorage_correct:
  assumes tr: "tracks segSize p ts" and us: "usable p"
    and reg: "m \<in> ps_mapping ` set (storageRegistry p)"
  obtains p' where "fifo_freeElementStorage segSize m p = Inr p'"
    and "tracks segSize p' (filter (\<lambda>t. fst t \<noteq> m) ts)"
    and "storageRegistry p' = filter (\<lambda>st. ps_mapping st \<noteq> m) (storageRegistry p)"
    and "heap_ok p \<Longrightarrow> heap_ok p'"
    and "dynamicMaxMemory p' = dynamicMaxMemory p" and "staticMaxMemory p' = staticMaxMemory p"
    and "pol_local p' = pol_local p"
proof -
  let ?sts = "storageRegistry p" and ?keep = "\<lambda>st. ps_mapping st \<noteq> m"
  obtain as where as: "tracking segSize p as 0" and ts: "ts = map (owner ?sts) as"
    using tr by (auto simp: tracks_def)
  note ok = trackingD(1) [OF as] and sub = trackingD(3) [OF as]
  obtain st where st: "st \<in> set ?sts" "m = ps_mapping st"
    using reg by auto
  let ?n = "ps_elementCount st" and ?as = "filter (\<lambda>e. fst (owner ?sts e) \<noteq> m) as"
  have info: "getStorageInfo_mapping m p = Inr st"
    using getStorageInfo_mapping_registered [OF ok st(1)] us st(2) by (simp add: usable_def)
  obtain h k where fl: "free_loop (segSize m) (ps_elements st) ?n p = p\<lparr>elts := h, currentMemory := k\<rparr>"
      and trk: "tracking segSize (p\<lparr>elts := h, currentMemory := k\<rparr>) ?as 0"
    using free_loop_correct [OF as st(1) order_refl] filter_owner [OF ok sub st(1)] st(2) by auto
  have alone: "\<forall>i < ?n. isAlone h (ps_elements st + sizeof_ListElement * i)"
  proof (intro allI impI)
    fix i assume i: "i < ?n"
    then have "elt st i \<in> elts_of ?sts - set ?as"
      using st owner_elt [OF ok st(1)] by (auto simp: elts_of_def)
    with trk show "isAlone h (ps_elements st + sizeof_ListElement * i)"
      by (auto simp: tracking_def elt_def)
  qed
  define p' where "p' = p\<lparr>elts := h, currentMemory := k, storageRegistry := filter ?keep ?sts\<rparr>"
  have op: "fifo_freeElementStorage segSize m p = Inr p'"
    using unregisterMapping_distinct [OF storages_ok_distinct [OF ok], of m]
    by (simp add: fifo_freeElementStorage_def info fl Let_def unregisterMapping_def p'_def
        deleteElements_alone [OF alone])
  have own: "map (owner (filter ?keep ?sts)) ?as = map (owner ?sts) ?as"
    using filtered_elts(2) [OF ok] sub by (auto intro!: map_cong)
  have "elts_of (filter ?keep ?sts) \<subseteq> elts_of ?sts"
    by (auto simp: elts_of_def)
  moreover have "weight segSize (filter ?keep ?sts) ?as = weight segSize ?sts ?as"
    by (simp only: weight_map own)
  moreover have "set ?as \<subseteq> elts_of (filter ?keep ?sts)"
    using filtered_elts(1) [OF ok] sub by auto
  ultimately have "tracking segSize p' ?as 0"
    using trk storages_ok_filter [OF ok] by (auto simp: tracking_def p'_def)
  then have "tracks segSize p' (filter (\<lambda>t. fst t \<noteq> m) ts)"
    by (rule tracksI) (simp add: p'_def own ts filter_map comp_def)
  moreover have "heap_ok p'" if "heap_ok p"
    using that by (auto simp: heap_ok_def p'_def)
  ultimately show ?thesis
    using op that by (simp add: p'_def)
qed

end
