(* ===== verification/LifoPolicy.thy ===== *)
theory LifoPolicy
  imports FifoPolicy
begin

text \<open>
  The LIFO policy of \<open>src/policies/LifoPolicy.cpp\<close>. The class has the fields of the FIFO
  policy; it evicts before it links the touched segment, and links it at the end from
  which it evicts.
\<close>

section \<open>Operations\<close>

definition newLifoPolicy :: "addr \<Rightarrow> size_t \<Rightarrow> bool \<Rightarrow> list_policy" where
  "newLifoPolicy mutex maxMemory local =
     \<lparr>pol_local = local, staticMaxMemory = maxMemory, dynamicMaxMemory = maxMemory,
      storageRegistry = [], mutexPtr = mutex, localMutex = mutex, pol_uri = [],
      policyQuota = 0, root = sizeof_ListElement, currentMemory = 0,
      elts = newElement sizeof_ListElement empty_elements, brk = 2 * sizeof_ListElement\<rparr>"

definition lifo_allocateElementStorage ::
  "(mapping_ptr \<Rightarrow> size_t) \<Rightarrow> mapping_ptr \<Rightarrow> size_t \<Rightarrow> list_policy \<Rightarrow> list_policy result" where
  "lifo_allocateElementStorage segSize mapping segmentCount p =
     (let base = brk p;
          p1 = p\<lparr>elts := newElements base segmentCount (elts p),
                 brk := base + sizeof_ListElement * segmentCount\<rparr>
      in registerMapping segSize mapping base segmentCount sizeof_ListElement 0 p1)"

definition lifo_freeElementStorage ::
  "(mapping_ptr \<Rightarrow> size_t) \<Rightarrow> mapping_ptr \<Rightarrow> list_policy \<Rightarrow> list_policy result" where
  "lifo_freeElementStorage segSize mapping p =
     bindE (getStorageInfo_mapping mapping p) (\<lambda>storage.
       let elements = ps_elements storage;
           q = free_loop (segSize mapping) elements (ps_elementCount storage) p;
           q' = unregisterMapping mapping q
       in Inr (q'\<lparr>elts := deleteElements elements (ps_elementCount storage) (elts q')\<rparr>))"

text \<open>
  The declaration of \<open>isFirstAccess\<close> inside the critical section hides the variable of the
  function, which stays false: the third component of the result, which decides whether the
  quota is updated, is the outer variable.
\<close>

definition lifo_notifyTouch_cs ::
  "(mapping_ptr \<Rightarrow> size_t) \<Rightarrow> mapping_ptr \<Rightarrow> nat \<Rightarrow> list_policy
    \<Rightarrow> (list_policy \<times> (mapping_ptr \<times> nat) list \<times> bool \<times> size_t) outcome" where
  "lifo_notifyTouch_cs segSize mapping index p =
     (let outer_isFirstAccess = False;
          memOrig = currentMemory p
      in case getStorageInfo_mapping mapping p of
           Inl e \<Rightarrow> aborts e
         | Inr storage \<Rightarrow>
             (let cur = ps_elements storage + sizeof_ListElement * index;
                  isFirstAccess = isAlone (elts p) cur;
                  p1 = p\<lparr>elts := removeFromList cur (elts p)\<rparr>;
                  p2 = (if isFirstAccess
                        then p1\<lparr>currentMemory := sz_add (currentMemory p1) (segSize mapping)\<rparr>
                        else p1)
              in bindO (evict_loop segSize p2 [])
                   (\<lambda>(p3, ids).
                      case insertBefore (root p3) cur (elts p3) of
                        Inl e \<Rightarrow> aborts e
                      | Inr h \<Rightarrow> returns (p3\<lparr>elts := h\<rparr>, ids, outer_isFirstAccess, memOrig))))"

definition lifo_notifyEvict ::
  "(mapping_ptr \<Rightarrow> size_t) \<Rightarrow> mapping_ptr \<Rightarrow> nat \<Rightarrow> list_policy \<Rightarrow> list_policy result" where
  "lifo_notifyEvict segSize mapping index p =
     bindE (getStorageInfo_mapping mapping p) (\<lambda>storage.
       let cur = ps_elements storage + sizeof_ListElement * index
       in if \<not> isInList (elts p) cur then Inl (AssertFailure ''cur.isInList()'')
          else Inr (p\<lparr>currentMemory := sz_sub (currentMemory p) (segSize mapping),
                      elts := removeFromList cur (elts p)\<rparr>))"

definition lifo_shrinkMemory_cs ::
  "(mapping_ptr \<Rightarrow> size_t) \<Rightarrow> list_policy \<Rightarrow> (list_policy \<times> (mapping_ptr \<times> nat) list) outcome" where
  "lifo_shrinkMemory_cs segSize p = evict_loop segSize p []"

definition lifo_getCurrentMemory :: "list_policy \<Rightarrow> size_t" where
  "lifo_getCurrentMemory p = currentMemory p"

lemma lifo_shared:
  "lifo_allocateElementStorage = fifo_allocateElementStorage"
  "lifo_freeElementStorage = fifo_freeElementStorage"
  "lifo_notifyEvict = fifo_notifyEvict"
  "lifo_shrinkMemory_cs = fifo_shrinkMemory_cs"
  by (simp_all add: fun_eq_iff lifo_allocateElementStorage_def fifo_allocateElementStorage_def
      lifo_freeElementStorage_def fifo_freeElementStorage_def lifo_notifyEvict_def
      fifo_notifyEvict_def lifo_shrinkMemory_cs_def fifo_shrinkMemory_cs_def)

section \<open>Refinement of the list specification\<close>

text \<open>
  The list of tracked segments is again in ring order, the newest now last. A touch takes
  the segment out, evicts the newest of the others until the rest and the touched segment
  fit, and appends the segment.
\<close>

text \<open>The state in which a LIFO touch enters the eviction loop.\<close>

lemma lifo_notifyTouch_unlinked:
  assumes tr: "tracks segSize p ts" and us: "usable p"
    and seg: "(m, i) \<in> segs (storageRegistry p)" and fits: "currentMemory p + segSize m < W64"
  obtains h n e as where "lifo_notifyTouch_cs segSize m i p =
      bindO (evict_loop segSize (p\<lparr>elts := h, currentMemory := n\<rparr>) [])
      (\<lambda>(p3, ids). case insertBefore (root p3) e (elts p3) of
          Inl err \<Rightarrow> aborts err
        | Inr h' \<Rightarrow> returns (p3\<lparr>elts := h'\<rparr>, ids, False, currentMemory p))"
    and "tracking segSize (p\<lparr>elts := h, currentMemory := n\<rparr>) as (segSize m)"
    and "map (owner (storageRegistry p)) as = remove1 (m, i) ts"
    and "e \<in> elts_of (storageRegistry p)" and "owner (storageRegistry p) e = (m, i)" and "e \<notin> set as"
proof -
  let ?sts = "storageRegistry p"
  obtain st as where st: "getStorageInfo_mapping m p = Inr st" "elt st i \<in> elts_of ?sts"
      "owner ?sts (elt st i) = (m, i)" "isAlone (elts p) (elt st i) \<longleftrightarrow> (m, i) \<notin> set ts"
    and t: "tracking segSize
      (p\<lparr>elts := removeFromList (elt st i) (elts p),
         currentMemory := (if isAlone (elts p) (elt st i) then sz_add (currentMemory p) (segSize m)
           else currentMemory p)\<rparr>) as (segSize m)"
    and as: "map (owner ?sts) as = remove1 (m, i) ts" "elt st i \<notin> set as"
    by (rule touch_take_out [OF tr us seg fits])
  define h where "h = removeFromList (elt st i) (elts p)"
  define n where "n = (if isAlone (elts p) (elt st i) then sz_add (currentMemory p) (segSize m) else currentMemory p)"
  have p2: "(if isAlone (elts p) (elt st i)
      then p\<lparr>elts := h, currentMemory := sz_add (currentMemory p) (segSize m)\<rparr>
      else p\<lparr>elts := h\<rparr>) = p\<lparr>elts := h, currentMemory := n\<rparr>"
    by (simp add: n_def)
  have run: "lifo_notifyTouch_cs segSize m i p =
      bindO (evict_loop segSize (p\<lparr>elts := h, currentMemory := n\<rparr>) [])
      (\<lambda>(p3, ids). case insertBefore (root p3) (elt st i) (elts p3) of
          Inl err \<Rightarrow> aborts err
        | Inr h' \<Rightarrow> returns (p3\<lparr>elts := h'\<rparr>, ids, False, currentMemory p))"
    unfolding p2 [symmetric]
    by (simp add: lifo_notifyTouch_cs_def Let_def st(1) elt_def h_def)
  from that [OF run t [folded h_def n_def] as(1) st(2,3) as(2)] show thesis .
qed

text \<open>Linking the touched element after the loop.\<close>

lemma lifo_link_back:
  assumes tv: "tracking segSize q (kept f lim as) (segSize m)" and e: "e \<in> elts_of (storageRegistry q)"
    and own: "owner (storageRegistry q) e = (m, i)" and nin: "e \<notin> set as"
    and rem: "map (owner (storageRegistry q)) as = us"
    and f: "f = eltSize segSize (storageRegistry q)"
  obtains h where "insertBefore (root q) e (elts q) = Inr h"
    and "tracks segSize (q\<lparr>elts := h\<rparr>) (kept (segSize \<circ> fst) lim us @ [(m, i)])"
proof -
  have "e \<notin> set (kept f lim as)"
    using set_kept_dropped [of f lim as] nin by auto
  then obtain h where h: "insertBefore (root q) e (elts q) = Inr h"
      "tracking segSize (q\<lparr>elts := h\<rparr>) (kept f lim as @ [e]) 0"
    by (rule tracking_link_back [of segSize q "kept f lim as" e 0, rotated 2])
      (use tv e own in \<open>auto simp: eltSize_def\<close>)
  have "f = (segSize \<circ> fst) \<circ> owner (storageRegistry q)"
    by (simp add: fun_eq_iff eltSize_def f)
  then have "map (owner (storageRegistry q)) (kept f lim as) = kept (segSize \<circ> fst) lim us"
    by (simp only: kept_map [symmetric] rem)
  then have "tracks segSize (q\<lparr>elts := h\<rparr>) (kept (segSize \<circ> fst) lim us @ [(m, i)])"
    using tracksI [OF h(2)] own by simp
  with h(1) show thesis by (rule that)
qed

lemma lifo_notifyTouch_cs_correct:
  assumes tr: "tracks segSize p ts" and us: "usable p"
    and seg: "(m, i) \<in> segs (storageRegistry p)"
    and fits: "currentMemory p + segSize m < W64"
    and small: "segSize m \<le> dynamicMaxMemory p"
    and cap: "length (dropped (segSize \<circ> fst) (dynamicMaxMemory p - segSize m) (remove1 (m, i) ts))
      < maxIdsToEvict"
  shows "\<exists>h n. lifo_notifyTouch_cs segSize m i p =
           returns (p\<lparr>elts := h, currentMemory := n\<rparr>,
             dropped (segSize \<circ> fst) (dynamicMaxMemory p - segSize m) (remove1 (m, i) ts),
             False, currentMemory p) \<and>
         tracks segSize (p\<lparr>elts := h, currentMemory := n\<rparr>)
           (kept (segSize \<circ> fst) (dynamicMaxMemory p - segSize m) (remove1 (m, i) ts) @ [(m, i)])"
proof -
  let ?sts = "storageRegistry p" and ?lim = "dynamicMaxMemory p - segSize m"
  let ?f = "eltSize segSize ?sts"
  obtain h n e as where run: "lifo_notifyTouch_cs segSize m i p =
      bindO (evict_loop segSize (p\<lparr>elts := h, currentMemory := n\<rparr>) [])
      (\<lambda>(p3, ids). case insertBefore (root p3) e (elts p3) of
          Inl err \<Rightarrow> aborts err
        | Inr h' \<Rightarrow> returns (p3\<lparr>elts := h'\<rparr>, ids, False, currentMemory p))"
    and t: "tracking segSize (p\<lparr>elts := h, currentMemory := n\<rparr>) as (segSize m)"
    and rem: "map (owner ?sts) as = remove1 (m, i) ts"
    and e: "e \<in> elts_of ?sts" "owner ?sts e = (m, i)" "e \<notin> set as"
    by (rule lifo_notifyTouch_unlinked [OF tr us seg fits])
  have "?f = (segSize \<circ> fst) \<circ> owner ?sts"
    by (simp add: fun_eq_iff eltSize_def)
  then have dr: "map (owner ?sts) (dropped ?f ?lim as) = dropped (segSize \<circ> fst) ?lim (remove1 (m, i) ts)"
    by (simp only: dropped_map [symmetric] rem)
  then have "length (dropped ?f ?lim as) < maxIdsToEvict"
    using cap by (metis length_map)
  then obtain h' n' where ev: "evict_loop segSize (p\<lparr>elts := h, currentMemory := n\<rparr>) [] =
        returns (p\<lparr>elts := h', currentMemory := n'\<rparr>, dropped (segSize \<circ> fst) ?lim (remove1 (m, i) ts))"
      and tv: "tracking segSize (p\<lparr>elts := h', currentMemory := n'\<rparr>) (kept ?f ?lim as) (segSize m)"
    using evict_loop_correct [OF t, of "[]"] small dr by auto
  obtain h'' where "insertBefore (root p) e h' = Inr h''"
      "tracks segSize (p\<lparr>elts := h'', currentMemory := n'\<rparr>)
        (kept (segSize \<circ> fst) ?lim (remove1 (m, i) ts) @ [(m, i)])"
    by (rule lifo_link_back [OF tv, of e i "remove1 (m, i) ts"]) (use e rem in auto)
  with run ev show ?thesis by auto
qed

end
