(* ===== verification/FifoWindowPolicy.thy ===== *)
theory FifoWindowPolicy
  imports FifoPolicy
begin

text \<open>
  The FIFO policy with a fixed and a sliding window of
  \<open>src/policies/FifoWindowPolicy.cpp\<close>. The segments first fill the fixed window; the ones
  that do not fit go through the sliding window, from which alone segments are evicted. The
  flags that tell in which window a segment is are the arrays \<open>extraInfos\<close>, by address.
\<close>

section \<open>State and operations\<close>

record window_policy = policy +
  rootFixedWindow :: addr
  rootSlidingWindow :: addr
  currentFixedMemory :: size_t
  currentSlidingWindowMemory :: size_t
  maxSlidingMemory :: size_t
  maxFixedMemory :: size_t
  w_elts :: lheap
  w_flags :: "addr \<Rightarrow> nat \<Rightarrow> bool"
  w_brk :: addr

definition newFifoWindowPolicy :: "addr \<Rightarrow> size_t \<Rightarrow> size_t \<Rightarrow> bool \<Rightarrow> window_policy" where
  "newFifoWindowPolicy mutex maxMemory maxSliding local =
     \<lparr>pol_local = local, staticMaxMemory = maxMemory, dynamicMaxMemory = maxMemory,
      storageRegistry = [], mutexPtr = mutex, localMutex = mutex, pol_uri = [],
      policyQuota = 0, rootFixedWindow = sizeof_ListElement, rootSlidingWindow = 2 * sizeof_ListElement,
      currentFixedMemory = 0, currentSlidingWindowMemory = 0, maxSlidingMemory = maxSliding,
      maxFixedMemory = sz_sub maxMemory maxSliding,
      w_elts = newElement (2 * sizeof_ListElement) (newElement sizeof_ListElement empty_elements),
      w_flags = \<lambda>a i. False, w_brk = 3 * sizeof_ListElement\<rparr>"

definition window_allocateElementStorage ::
  "(mapping_ptr \<Rightarrow> size_t) \<Rightarrow> mapping_ptr \<Rightarrow> size_t \<Rightarrow> window_policy \<Rightarrow> window_policy result" where
  "window_allocateElementStorage segSize mapping segmentCount p =
     (let base = w_brk p;
          infos = base + sizeof_ListElement * segmentCount;
          p1 = p\<lparr>w_elts := newElements base segmentCount (w_elts p),
                 w_flags := (w_flags p)(infos := \<lambda>i. False),
                 w_brk := infos + segmentCount + 1\<rparr>
      in registerMapping segSize mapping base segmentCount sizeof_ListElement infos p1)"

definition window_uncount ::
  "(mapping_ptr \<Rightarrow> size_t) \<Rightarrow> mapping_ptr \<Rightarrow> bool \<Rightarrow> window_policy \<Rightarrow> window_policy" where
  "window_uncount segSize mapping fixed p =
     (if fixed
      then p\<lparr>currentFixedMemory := sz_sub (currentFixedMemory p) (segSize mapping)\<rparr>
      else p\<lparr>currentSlidingWindowMemory := sz_sub (currentSlidingWindowMemory p) (segSize mapping)\<rparr>)"

fun window_free_loop ::
  "(mapping_ptr \<Rightarrow> size_t) \<Rightarrow> mapping_ptr \<Rightarrow> addr \<Rightarrow> addr \<Rightarrow> nat \<Rightarrow> window_policy \<Rightarrow> window_policy" where
  "window_free_loop segSize mapping elements infos 0 p = p"
| "window_free_loop segSize mapping elements infos (Suc i) p =
     (let q = window_free_loop segSize mapping elements infos i p;
          cur = elements + sizeof_ListElement * i;
          q' = (if isInList (w_elts q) cur
                then window_uncount segSize mapping (w_flags q infos i) q else q)
      in q'\<lparr>w_elts := removeFromList cur (w_elts q')\<rparr>)"

definition window_freeElementStorage ::
  "(mapping_ptr \<Rightarrow> size_t) \<Rightarrow> mapping_ptr \<Rightarrow> window_policy \<Rightarrow> window_policy result" where
  "window_freeElementStorage segSize mapping p =
     bindE (getStorageInfo_mapping mapping p) (\<lambda>storage.
       let elements = ps_elements storage;
           q = window_free_loop segSize mapping elements (ps_extraInfos storage)
                 (ps_elementCount storage) p;
           q' = unregisterMapping mapping q
       in Inr (q'\<lparr>w_elts := deleteElements elements (ps_elementCount storage) (w_elts q')\<rparr>))"

partial_function (option) window_evict_loop ::
  "(mapping_ptr \<Rightarrow> size_t) \<Rightarrow> window_policy \<Rightarrow> (mapping_ptr \<times> nat) list
    \<Rightarrow> (window_policy \<times> (mapping_ptr \<times> nat) list) outcome" where
  "window_evict_loop segSize p ids =
     (if currentSlidingWindowMemory p > maxSlidingMemory p
      then
        (case popPrev (rootSlidingWindow p) (w_elts p) of
           (None, h) \<Rightarrow> window_evict_loop segSize (p\<lparr>w_elts := h\<rparr>) ids
         | (Some toEvict, h) \<Rightarrow>
             (case getStorageInfo_entry toEvict p of
                Inl e \<Rightarrow> aborts e
              | Inr evictInfos \<Rightarrow>
                  (let ids' = ids @ [(ps_mapping evictInfos,
                               (toEvict - ps_elements evictInfos) div sizeof_ListElement)]
                   in if \<not> length ids' < maxIdsToEvict
                      then aborts (Fatal ''Reach maximum pages to evict due to optimization, cannot continue !'')
                      else window_evict_loop segSize
                             (p\<lparr>w_elts := h,
                                currentSlidingWindowMemory := sz_sub (currentSlidingWindowMemory p)
                                  (segSize (ps_mapping evictInfos))\<rparr>) ids')))
      else returns (p, ids))"

definition window_getCurrentMemory :: "window_policy \<Rightarrow> size_t" where
  "window_getCurrentMemory p = sz_add (currentSlidingWindowMemory p) (currentFixedMemory p)"

definition window_notifyTouch_cs ::
  "(mapping_ptr \<Rightarrow> size_t) \<Rightarrow> mapping_ptr \<Rightarrow> nat \<Rightarrow> window_policy
    \<Rightarrow> (window_policy \<times> (mapping_ptr \<times> nat) list \<times> bool \<times> size_t) outcome" where
  "window_notifyTouch_cs segSize mapping index p =
     (let memOrig = window_getCurrentMemory p
      in case getStorageInfo_mapping mapping p of
           Inl e \<Rightarrow> aborts e
         | Inr storage \<Rightarrow>
             (let cur = ps_elements storage + sizeof_ListElement * index;
                  infos = ps_extraInfos storage;
                  isFirstAccess = isAlone (w_elts p) cur;
                  p1 = p\<lparr>w_elts := removeFromList cur (w_elts p)\<rparr>;
                  p2 = (if \<not> isFirstAccess then window_uncount segSize mapping (w_flags p1 infos index) p1
                        else p1);
                  isFixed = (currentFixedMemory p2 < maxFixedMemory p2);
                  p3 = p2\<lparr>w_flags := (w_flags p2)(infos := (w_flags p2 infos)(index := isFixed))\<rparr>
              in case insertAfter (if isFixed then rootFixedWindow p3 else rootSlidingWindow p3) cur (w_elts p3) of
                   Inl e \<Rightarrow> aborts e
                 | Inr h \<Rightarrow>
                     (let p4 = p3\<lparr>w_elts := h\<rparr>;
                          p5 = (if isFixed
                                then p4\<lparr>currentFixedMemory := sz_add (currentFixedMemory p4) (segSize mapping)\<rparr>
                                else p4\<lparr>currentSlidingWindowMemory :=
                                          sz_add (currentSlidingWindowMemory p4) (segSize mapping)\<rparr>)
                      in bindO (window_evict_loop segSize p5 [])
                           (\<lambda>(p6, ids). returns (p6, ids, isFirstAccess, memOrig)))))"

definition window_notifyEvict ::
  "(mapping_ptr \<Rightarrow> size_t) \<Rightarrow> mapping_ptr \<Rightarrow> nat \<Rightarrow> window_policy \<Rightarrow> window_policy result" where
  "window_notifyEvict segSize mapping index p =
     bindE (getStorageInfo_mapping mapping p) (\<lambda>storage.
       let cur = ps_elements storage + sizeof_ListElement * index
       in if \<not> isInList (w_elts p) cur then Inl (AssertFailure ''cur.isInList()'')
          else
            let q = window_uncount segSize mapping (w_flags p (ps_extraInfos storage) index) p
            in Inr (q\<lparr>w_elts := removeFromList cur (w_elts q)\<rparr>))"

definition window_shrinkMemory_cs ::
  "(mapping_ptr \<Rightarrow> size_t) \<Rightarrow> window_policy \<Rightarrow> (window_policy \<times> (mapping_ptr \<times> nat) list) outcome" where
  "window_shrinkMemory_cs segSize p = window_evict_loop segSize p []"

section \<open>The tracking invariant\<close>

text \<open>
  \<open>wtracking segSize p fs ss\<close>: the fixed window holds the elements \<open>fs\<close>, the sliding one
  \<open>ss\<close>, in ring order; the flags agree, and each counter is the size of its window.
\<close>

definition wtracking ::
  "(mapping_ptr \<Rightarrow> size_t) \<Rightarrow> window_policy \<Rightarrow> addr list \<Rightarrow> addr list \<Rightarrow> bool" where
  "wtracking segSize p fs ss \<longleftrightarrow>
     storages_ok {rootFixedWindow p, rootSlidingWindow p} (storageRegistry p) \<and>
     distinct (map ps_extraInfos (storageRegistry p)) \<and>
     rootFixedWindow p \<noteq> rootSlidingWindow p \<and>
     ring (w_elts p) (rootFixedWindow p) fs \<and> ring (w_elts p) (rootSlidingWindow p) ss \<and>
     set fs \<inter> set ss = {} \<and> set fs \<union> set ss \<subseteq> elts_of (storageRegistry p) \<and>
     (\<forall>e \<in> elts_of (storageRegistry p) - (set fs \<union> set ss). isAlone (w_elts p) e) \<and>
     (\<forall>st \<in> set (storageRegistry p). \<forall>i < ps_elementCount st.
        (elt st i \<in> set fs \<longrightarrow> w_flags p (ps_extraInfos st) i) \<and>
        (elt st i \<in> set ss \<longrightarrow> \<not> w_flags p (ps_extraInfos st) i)) \<and>
     currentFixedMemory p = weight segSize (storageRegistry p) fs \<and>
     currentSlidingWindowMemory p = weight segSize (storageRegistry p) ss \<and>
     currentFixedMemory p + currentSlidingWindowMemory p < W64"

lemma wtrackingD:
  assumes "wtracking segSize p fs ss"
  shows "storages_ok {rootFixedWindow p, rootSlidingWindow p} (storageRegistry p)"
    and "ring (w_elts p) (rootFixedWindow p) fs" and "ring (w_elts p) (rootSlidingWindow p) ss"
    and "set fs \<inter> set ss = {}" and "set fs \<union> set ss \<subseteq> elts_of (storageRegistry p)"
    and "rootFixedWindow p \<noteq> rootSlidingWindow p"
    and "e \<in> elts_of (storageRegistry p) \<Longrightarrow> e \<notin> set fs \<Longrightarrow> e \<notin> set ss \<Longrightarrow> isAlone (w_elts p) e"
    and "currentFixedMemory p = weight segSize (storageRegistry p) fs"
    and "currentSlidingWindowMemory p = weight segSize (storageRegistry p) ss"
    and "currentFixedMemory p + currentSlidingWindowMemory p < W64"
    and "distinct (map ps_extraInfos (storageRegistry p))"
  using assms by (auto simp: wtracking_def)

lemma wtracking_flag:
  assumes "wtracking segSize p fs ss" and "st \<in> set (storageRegistry p)" and "i < ps_elementCount st"
  shows "elt st i \<in> set fs \<Longrightarrow> w_flags p (ps_extraInfos st) i"
    and "elt st i \<in> set ss \<Longrightarrow> \<not> w_flags p (ps_extraInfos st) i"
  using assms by (auto simp: wtracking_def)

lemma wtracking_roots:
  assumes "wtracking segSize p fs ss" and "e \<in> elts_of (storageRegistry p)"
  shows "e \<noteq> rootFixedWindow p" and "e \<noteq> rootSlidingWindow p"
  using root_not_elt [OF wtrackingD(1) [OF assms(1)]] assms(2) by auto

lemma weight_remove1:
  "e \<in> set as \<Longrightarrow> weight segSize sts as = eltSize segSize sts e + weight segSize sts (remove1 e as)"
  unfolding weight_def by (rule sum_list_map_remove1)

text \<open>Unlinking an element of one of the two rings leaves the other ring alone.\<close>

lemma unlink_rings:
  assumes r: "ring h r as" and s: "ring h t bs" and "r \<noteq> t" and "set as \<inter> set bs = {}"
    and "t \<notin> set as" and "r \<notin> set bs" and e: "e \<in> set as"
  shows "ring (removeFromList e h) r (remove1 e as)" and "ring (removeFromList e h) t bs"
    and "isAlone (removeFromList e h) e" and "agree_off (insert r (set as)) h (removeFromList e h)"
proof -
  obtain us vs where as: "as = us @ e # vs"
    using e by (meson split_list)
  have "e \<notin> set us"
    using ring_distinct [OF r] by (simp add: as)
  then have rm: "remove1 e as = us @ vs"
    by (simp add: as remove1_append)
  note eff = removeFromList_ring [OF r [unfolded as]]
  show "ring (removeFromList e h) r (remove1 e as)" and "isAlone (removeFromList e h) e"
    using eff(1,2) by (simp_all add: rm)
  show ag: "agree_off (insert r (set as)) h (removeFromList e h)"
    using eff(3) by (simp add: as)
  show "ring (removeFromList e h) t bs"
    using s by (subst ring_frame [OF ag]) (use assms in auto)
qed

lemma wtracking_unlink_fixed:
  assumes tr: "wtracking segSize p fs ss" and e: "e \<in> set fs"
  shows "wtracking segSize (p\<lparr>w_elts := removeFromList e (w_elts p),
      currentFixedMemory := sz_sub (currentFixedMemory p) (eltSize segSize (storageRegistry p) e)\<rparr>)
    (remove1 e fs) ss"
    and "isAlone (removeFromList e (w_elts p)) e"
proof -
  note d = wtrackingD [OF tr]
  have nr: "rootSlidingWindow p \<notin> set fs" "rootFixedWindow p \<notin> set ss"
    using d(5) wtracking_roots [OF tr] by blast+
  note u = unlink_rings [OF d(2,3,6,4) nr e]
  show "isAlone (removeFromList e (w_elts p)) e"
    by (rule u(3))
  have "sz_sub (currentFixedMemory p) (eltSize segSize (storageRegistry p) e) =
      weight segSize (storageRegistry p) (remove1 e fs)"
    using d(8,10) weight_remove1 [OF e, of segSize "storageRegistry p"] by simp
  moreover have "isAlone (removeFromList e (w_elts p)) x"
    if "x \<in> elts_of (storageRegistry p)" "x \<notin> set (remove1 e fs)" "x \<notin> set ss" for x
  proof (cases "x = e")
    case False
    then have "x \<notin> set fs"
      using that(2) ring_distinct [OF d(2)] by simp
    with d(7) [OF that(1)] that(3) isAlone_frame [OF u(4), of x] wtracking_roots [OF tr that(1)]
    show ?thesis by simp
  qed (use u(3) in simp)
  moreover have "weight segSize (storageRegistry p) (remove1 e fs) \<le> currentFixedMemory p"
    using d(8) weight_remove1 [OF e, of segSize "storageRegistry p"] by simp
  ultimately show "wtracking segSize (p\<lparr>w_elts := removeFromList e (w_elts p),
      currentFixedMemory := sz_sub (currentFixedMemory p) (eltSize segSize (storageRegistry p) e)\<rparr>)
    (remove1 e fs) ss"
    using tr u(1,2) d(4,5) ring_distinct [OF d(2)] unfolding wtracking_def by auto
qed

lemma wtracking_unlink_sliding:
  assumes tr: "wtracking segSize p fs ss" and e: "e \<in> set ss"
  shows "wtracking segSize (p\<lparr>w_elts := removeFromList e (w_elts p),
      currentSlidingWindowMemory := sz_sub (currentSlidingWindowMemory p) (eltSize segSize (storageRegistry p) e)\<rparr>)
    fs (remove1 e ss)"
    and "isAlone (removeFromList e (w_elts p)) e"
proof -
  note d = wtrackingD [OF tr]
  have nr: "rootSlidingWindow p \<notin> set fs" "rootFixedWindow p \<notin> set ss"
    using d(5) wtracking_roots [OF tr] by blast+
  note u = unlink_rings [OF d(3,2) d(6) [symmetric] _ nr(2,1) e]
  have dj: "set ss \<inter> set fs = {}"
    using d(4) by blast
  show "isAlone (removeFromList e (w_elts p)) e"
    by (rule u(3) [OF dj])
  have "sz_sub (currentSlidingWindowMemory p) (eltSize segSize (storageRegistry p) e) =
      weight segSize (storageRegistry p) (remove1 e ss)"
    using d(9,10) weight_remove1 [OF e, of segSize "storageRegistry p"] by simp
  moreover have "isAlone (removeFromList e (w_elts p)) x"
    if "x \<in> elts_of (storageRegistry p)" "x \<notin> set fs" "x \<notin> set (remove1 e ss)" for x
  proof (cases "x = e")
    case False
    then have "x \<notin> set ss"
      using that(3) ring_distinct [OF d(3)] by simp
    with d(7) [OF that(1,2)] isAlone_frame [OF u(4) [OF dj], of x] wtracking_roots [OF tr that(1)]
    show ?thesis by simp
  qed (use u(3) [OF dj] in simp)
  moreover have "weight segSize (storageRegistry p) (remove1 e ss) \<le> currentSlidingWindowMemory p"
    using d(9) weight_remove1 [OF e, of segSize "storageRegistry p"] by simp
  ultimately show "wtracking segSize (p\<lparr>w_elts := removeFromList e (w_elts p),
      currentSlidingWindowMemory := sz_sub (currentSlidingWindowMemory p) (eltSize segSize (storageRegistry p) e)\<rparr>)
    fs (remove1 e ss)"
    using tr u(1,2) [OF dj] d(4,5) ring_distinct [OF d(3)] unfolding wtracking_def by auto
qed

section \<open>The eviction loop\<close>

lemma window_upd [simp]:
  fixes p :: "'a window_policy_scheme"
  shows "p\<lparr>currentSlidingWindowMemory := n, w_elts := h\<rparr> = p\<lparr>w_elts := h, currentSlidingWindowMemory := n\<rparr>"
    and "p\<lparr>currentFixedMemory := n, w_elts := h\<rparr> = p\<lparr>w_elts := h, currentFixedMemory := n\<rparr>"
  by simp_all

lemma window_evict_loop_correct:
  assumes "wtracking segSize p fs ss"
    and "length ids + length (dropped (eltSize segSize (storageRegistry p)) (maxSlidingMemory p) ss) < maxIdsToEvict"
  shows "\<exists>h n. window_evict_loop segSize p ids =
           returns (p\<lparr>w_elts := h, currentSlidingWindowMemory := n\<rparr>,
             ids @ map (owner (storageRegistry p))
               (dropped (eltSize segSize (storageRegistry p)) (maxSlidingMemory p) ss)) \<and>
         wtracking segSize (p\<lparr>w_elts := h, currentSlidingWindowMemory := n\<rparr>) fs
           (kept (eltSize segSize (storageRegistry p)) (maxSlidingMemory p) ss)"
  using assms
proof (induction ss arbitrary: p ids rule: rev_induct)
  case Nil
  then have "currentSlidingWindowMemory p \<le> maxSlidingMemory p"
    by (simp add: wtracking_def)
  with Nil.prems show ?case
    by (intro exI [of _ "w_elts p"] exI [of _ "currentSlidingWindowMemory p"])
      (simp add: window_evict_loop.simps)
next
  case (snoc e ss)
  let ?f = "eltSize segSize (storageRegistry p)" and ?lim = "maxSlidingMemory p"
  note d = wtrackingD [OF snoc.prems(1)]
  show ?case
  proof (cases "sum_list (map ?f (ss @ [e])) \<le> ?lim")
    case True
    then have "currentSlidingWindowMemory p \<le> maxSlidingMemory p"
      using d(9) by (simp add: weight_def)
    with True snoc.prems(1) show ?thesis
      by (intro exI [of _ "w_elts p"] exI [of _ "currentSlidingWindowMemory p"])
        (simp add: kept_fits dropped_fits window_evict_loop.simps del: map_append sum_list_append)
  next
    case False
    let ?h = "removeFromList e (w_elts p)"
    let ?n = "sz_sub (currentSlidingWindowMemory p) (?f e)"
    let ?q = "p\<lparr>w_elts := ?h, currentSlidingWindowMemory := ?n\<rparr>"
    have "e \<in> elts_of (storageRegistry p)"
      using d(5) by auto
    then obtain st i where st: "st \<in> set (storageRegistry p)" "i < ps_elementCount st" "e = elt st i"
      by (auto simp: elts_of_def)
    have own: "owner (storageRegistry p) e = (ps_mapping st, i)"
      and info: "getStorageInfo_entry e p = Inr st"
      using st owner_elt [OF d(1)] getStorageInfo_entry_elt [OF d(1)] by simp_all
    have idx: "(e - ps_elements st) div sizeof_ListElement = i"
      using st(3) by (simp add: elt_def)
    have over: "currentSlidingWindowMemory p > maxSlidingMemory p"
      using False d(9) by (simp add: weight_def)
    have len: "Suc (length ids + length (dropped ?f ?lim ss)) < maxIdsToEvict"
      using snoc.prems(2) False by (simp add: dropped_snoc del: map_append sum_list_append)
    have step: "window_evict_loop segSize p ids = window_evict_loop segSize ?q (ids @ [(ps_mapping st, i)])"
      using over popPrev_ring [OF d(3)] info len own
      by (subst window_evict_loop.simps) (simp add: idx eltSize_def)
    have "remove1 e (ss @ [e]) = ss"
      using ring_distinct [OF d(3)] by (simp add: remove1_append)
    then have "wtracking segSize ?q fs ss"
      using wtracking_unlink_sliding(1) [OF snoc.prems(1), of e] by simp
    from snoc.IH [OF this, of "ids @ [(ps_mapping st, i)]"] len step own show ?thesis
      by (auto simp: kept_snoc [OF False] dropped_snoc [OF False])
  qed
qed

section \<open>Refinement of the list specification\<close>

definition wtracks ::
  "(mapping_ptr \<Rightarrow> size_t) \<Rightarrow> window_policy \<Rightarrow> (mapping_ptr \<times> nat) list \<Rightarrow> (mapping_ptr \<times> nat) list \<Rightarrow> bool" where
  "wtracks segSize p F S \<longleftrightarrow>
     (\<exists>fs ss. wtracking segSize p fs ss \<and> F = map (owner (storageRegistry p)) fs \<and>
        S = map (owner (storageRegistry p)) ss)"

text \<open>Taking the touched element out of its window.\<close>

lemma window_take_out:
  assumes tr: "wtracking segSize p fs ss" and st: "st \<in> set (storageRegistry p)" "i < ps_elementCount st"
  defines "e \<equiv> elt st i"
  defines "h \<equiv> removeFromList e (w_elts p)"
  defines "q \<equiv> (if \<not> isAlone (w_elts p) e
    then window_uncount segSize (ps_mapping st) (w_flags p (ps_extraInfos st) i) (p\<lparr>w_elts := h\<rparr>)
    else p\<lparr>w_elts := h\<rparr>)"
  shows "wtracking segSize q (remove1 e fs) (remove1 e ss)" and "isAlone (w_elts q) e"
    and "isAlone (w_elts p) e \<longleftrightarrow> e \<notin> set fs \<union> set ss"
    and "\<exists>n1 n2. q = p\<lparr>w_elts := h, currentFixedMemory := n1, currentSlidingWindowMemory := n2\<rparr>"
    and "currentFixedMemory q + currentSlidingWindowMemory q \<le> currentFixedMemory p + currentSlidingWindowMemory p"
proof -
  note d = wtrackingD [OF tr]
  have e: "e \<in> elts_of (storageRegistry p)"
    using st by (auto simp: e_def)
  have sz: "eltSize segSize (storageRegistry p) e = segSize (ps_mapping st)"
    using owner_elt [OF d(1) st] by (simp add: eltSize_def e_def)
  have w: "weight segSize (storageRegistry p) (remove1 e xs) \<le> weight segSize (storageRegistry p) xs" for xs
    using weight_remove1 [of e xs segSize "storageRegistry p"] by (cases "e \<in> set xs") (simp_all add: remove1_idem)
  consider (f) "e \<in> set fs" "e \<notin> set ss" | (s) "e \<in> set ss" "e \<notin> set fs" | (n) "e \<notin> set fs" "e \<notin> set ss"
    using d(4) by blast
  then have "wtracking segSize q (remove1 e fs) (remove1 e ss) \<and> isAlone (w_elts q) e \<and>
    (isAlone (w_elts p) e \<longleftrightarrow> e \<notin> set fs \<union> set ss) \<and>
    (\<exists>n1 n2. q = p\<lparr>w_elts := h, currentFixedMemory := n1, currentSlidingWindowMemory := n2\<rparr>)"
  proof cases
    case f
    have na: "\<not> isAlone (w_elts p) e"
      using ring_member_inList(2) [OF d(2) f(1)] .
    have fl: "w_flags p (ps_extraInfos st) i"
      using wtracking_flag(1) [OF tr st] f(1) by (simp add: e_def)
    have q: "q = p\<lparr>w_elts := h, currentFixedMemory := sz_sub (currentFixedMemory p) (segSize (ps_mapping st))\<rparr>"
      using na fl by (simp add: q_def window_uncount_def)
    moreover have "\<exists>n1 n2. q = p\<lparr>w_elts := h, currentFixedMemory := n1, currentSlidingWindowMemory := n2\<rparr>"
      by (intro exI [of _ "sz_sub (currentFixedMemory p) (segSize (ps_mapping st))"]
          exI [of _ "currentSlidingWindowMemory p"]) (simp add: q)
    ultimately show ?thesis
      using wtracking_unlink_fixed [OF tr f(1)] f na by (simp add: sz h_def [symmetric] remove1_idem)
  next
    case s
    have na: "\<not> isAlone (w_elts p) e"
      using ring_member_inList(2) [OF d(3) s(1)] .
    have fl: "\<not> w_flags p (ps_extraInfos st) i"
      using wtracking_flag(2) [OF tr st] s(1) by (simp add: e_def)
    have q: "q = p\<lparr>w_elts := h, currentSlidingWindowMemory := sz_sub (currentSlidingWindowMemory p) (segSize (ps_mapping st))\<rparr>"
      using na fl by (simp add: q_def window_uncount_def)
    moreover have "\<exists>n1 n2. q = p\<lparr>w_elts := h, currentFixedMemory := n1, currentSlidingWindowMemory := n2\<rparr>"
      by (intro exI [of _ "currentFixedMemory p"]
          exI [of _ "sz_sub (currentSlidingWindowMemory p) (segSize (ps_mapping st))"]) (simp add: q)
    ultimately show ?thesis
      using wtracking_unlink_sliding [OF tr s(1)] s na by (simp add: sz h_def [symmetric] remove1_idem)
  next
    case n
    have al: "isAlone (w_elts p) e"
      by (rule d(7) [OF e n])
    then have "h = w_elts p"
      by (simp add: h_def removeFromList_alone)
    then have "q = p"
      using al by (simp add: q_def)
    moreover have "p = p\<lparr>w_elts := w_elts p, currentFixedMemory := currentFixedMemory p,
        currentSlidingWindowMemory := currentSlidingWindowMemory p\<rparr>"
      by simp
    ultimately show ?thesis
      using tr al n \<open>h = w_elts p\<close> by (metis UnE remove1_idem)
  qed
  then show t: "wtracking segSize q (remove1 e fs) (remove1 e ss)" and "isAlone (w_elts q) e"
    and "isAlone (w_elts p) e \<longleftrightarrow> e \<notin> set fs \<union> set ss"
    and ex: "\<exists>n1 n2. q = p\<lparr>w_elts := h, currentFixedMemory := n1, currentSlidingWindowMemory := n2\<rparr>"
    by blast+
  have reg: "storageRegistry q = storageRegistry p"
    using ex by auto
  show "currentFixedMemory q + currentSlidingWindowMemory q \<le> currentFixedMemory p + currentSlidingWindowMemory p"
    using wtrackingD(8,9) [OF t] d(8,9) w reg by (simp add: add_mono)
qed

text \<open>Setting the flag of one element leaves the flags of the others alone.\<close>

lemma flags_upd:
  assumes "distinct (map ps_extraInfos sts)" and "st \<in> set sts" and "st' \<in> set sts"
    and "elt st' j \<noteq> elt st i"
  shows "(fl(ps_extraInfos st := (fl (ps_extraInfos st))(i := b))) (ps_extraInfos st') j = fl (ps_extraInfos st') j"
  using assms by (auto simp: distinct_map inj_on_def elt_def)

lemma flags_set:
  fixes b :: bool
  assumes tr: "wtracking segSize q fs ss" and st: "st \<in> set (storageRegistry q)" "i < ps_elementCount st"
    and nin: "elt st i \<notin> set fs \<union> set ss"
  defines "fl \<equiv> (w_flags q)(ps_extraInfos st := (w_flags q (ps_extraInfos st))(i := b))"
  shows "\<forall>st' \<in> set (storageRegistry q). \<forall>j < ps_elementCount st'.
    (elt st' j \<in> set fs \<longrightarrow> fl (ps_extraInfos st') j) \<and> (elt st' j \<in> set ss \<longrightarrow> \<not> fl (ps_extraInfos st') j)"
    and "st' \<in> set (storageRegistry q) \<Longrightarrow> j < ps_elementCount st' \<Longrightarrow> elt st' j = elt st i \<Longrightarrow>
      fl (ps_extraInfos st') j = b"
proof -
  show "\<forall>st' \<in> set (storageRegistry q). \<forall>j < ps_elementCount st'.
    (elt st' j \<in> set fs \<longrightarrow> fl (ps_extraInfos st') j) \<and> (elt st' j \<in> set ss \<longrightarrow> \<not> fl (ps_extraInfos st') j)"
    using flags_upd [OF wtrackingD(11) [OF tr] st(1)] wtracking_flag [OF tr] nin
    unfolding fl_def by (metis UnI1 UnI2)
  show "fl (ps_extraInfos st') j = b"
    if "st' \<in> set (storageRegistry q)" "j < ps_elementCount st'" "elt st' j = elt st i"
    using elt_inject [OF wtrackingD(1) [OF tr] that(1) st(1) that(2) st(2) that(3)] by (simp add: fl_def)
qed

lemma insert_rings:
  assumes r: "ring h r as" and s: "ring h t bs" and "r \<noteq> t" and "set as \<inter> set bs = {}"
    and "t \<notin> set as" and "r \<notin> set bs" and "e \<notin> set as \<union> set bs" and "e \<noteq> r" and "e \<noteq> t"
    and "isAlone h e"
  obtains h' where "insertAfter r e h = Inr h'" and "ring h' r (e # as)" and "ring h' t bs"
    and "agree_off (insert r (insert e (set as))) h h'"
proof -
  obtain h' where h': "insertAfter r e h = Inr h'" "ring h' r (e # as)" "agree_off (set (r # e # as)) h h'"
    using insertAfter_ring [OF r _ \<open>isAlone h e\<close>] assms by auto
  have "ring h' t bs"
    using s by (subst ring_frame [OF h'(3)]) (use assms in auto)
  with h' that show thesis by simp
qed

lemma window_link_fixed:
  assumes tr: "wtracking segSize q fs ss" and st: "st \<in> set (storageRegistry q)" "i < ps_elementCount st"
    and nin: "elt st i \<notin> set fs \<union> set ss"
    and fits: "currentFixedMemory q + currentSlidingWindowMemory q + segSize (ps_mapping st) < W64"
  obtains h where "insertAfter (rootFixedWindow q) (elt st i) (w_elts q) = Inr h"
    and "wtracking segSize (q\<lparr>w_flags := (w_flags q)(ps_extraInfos st := (w_flags q (ps_extraInfos st))(i := True)),
        w_elts := h, currentFixedMemory := sz_add (currentFixedMemory q) (segSize (ps_mapping st))\<rparr>)
      (elt st i # fs) ss"
proof -
  note d = wtrackingD [OF tr]
  have e: "elt st i \<in> elts_of (storageRegistry q)"
    using st by auto
  have nr: "rootSlidingWindow q \<notin> set fs" "rootFixedWindow q \<notin> set ss"
    using d(5) wtracking_roots [OF tr] by blast+
  have al: "isAlone (w_elts q) (elt st i)"
    using d(7) [OF e] nin by simp
  obtain h where h: "insertAfter (rootFixedWindow q) (elt st i) (w_elts q) = Inr h"
      "ring h (rootFixedWindow q) (elt st i # fs)" "ring h (rootSlidingWindow q) ss"
      "agree_off (insert (rootFixedWindow q) (insert (elt st i) (set fs))) (w_elts q) h"
    by (rule insert_rings [OF d(2,3,6,4) nr nin wtracking_roots [OF tr e] al])
  have sz: "eltSize segSize (storageRegistry q) (elt st i) = segSize (ps_mapping st)"
    using owner_elt [OF d(1) st] by (simp add: eltSize_def)
  have alone: "isAlone h x" if "x \<in> elts_of (storageRegistry q)" "x \<notin> set (elt st i # fs)" "x \<notin> set ss" for x
    using that isAlone_frame [OF h(4), of x] d(7) [of x] wtracking_roots [OF tr that(1)] by simp
  show thesis
  proof (rule that [OF h(1)])
    show "wtracking segSize (q\<lparr>w_flags := (w_flags q)(ps_extraInfos st := (w_flags q (ps_extraInfos st))(i := True)),
        w_elts := h, currentFixedMemory := sz_add (currentFixedMemory q) (segSize (ps_mapping st))\<rparr>)
      (elt st i # fs) ss"
      using tr h(2,3) alone nin e fits flags_set [OF tr st nin, where b = True] sz d(4,5)
      unfolding wtracking_def by (auto simp del: fun_upd_apply)
  qed
qed

lemma window_link_sliding:
  assumes tr: "wtracking segSize q fs ss" and st: "st \<in> set (storageRegistry q)" "i < ps_elementCount st"
    and nin: "elt st i \<notin> set fs \<union> set ss"
    and fits: "currentFixedMemory q + currentSlidingWindowMemory q + segSize (ps_mapping st) < W64"
  obtains h where "insertAfter (rootSlidingWindow q) (elt st i) (w_elts q) = Inr h"
    and "wtracking segSize (q\<lparr>w_flags := (w_flags q)(ps_extraInfos st := (w_flags q (ps_extraInfos st))(i := False)),
        w_elts := h, currentSlidingWindowMemory := sz_add (currentSlidingWindowMemory q) (segSize (ps_mapping st))\<rparr>)
      fs (elt st i # ss)"
proof -
  note d = wtrackingD [OF tr]
  have e: "elt st i \<in> elts_of (storageRegistry q)"
    using st by auto
  have nr: "rootSlidingWindow q \<notin> set fs" "rootFixedWindow q \<notin> set ss"
    using d(5) wtracking_roots [OF tr] by blast+
  have al: "isAlone (w_elts q) (elt st i)"
    using d(7) [OF e] nin by simp
  have dj: "set ss \<inter> set fs = {}" and nin': "elt st i \<notin> set ss \<union> set fs"
    using d(4) nin by blast+
  obtain h where h: "insertAfter (rootSlidingWindow q) (elt st i) (w_elts q) = Inr h"
      "ring h (rootSlidingWindow q) (elt st i # ss)" "ring h (rootFixedWindow q) fs"
      "agree_off (insert (rootSlidingWindow q) (insert (elt st i) (set ss))) (w_elts q) h"
    by (rule insert_rings [OF d(3,2) d(6) [symmetric] dj nr(2,1) nin'
          wtracking_roots(2) [OF tr e] wtracking_roots(1) [OF tr e] al])
  have sz: "eltSize segSize (storageRegistry q) (elt st i) = segSize (ps_mapping st)"
    using owner_elt [OF d(1) st] by (simp add: eltSize_def)
  have alone: "isAlone h x" if "x \<in> elts_of (storageRegistry q)" "x \<notin> set fs" "x \<notin> set (elt st i # ss)" for x
    using that isAlone_frame [OF h(4), of x] d(7) [of x] wtracking_roots [OF tr that(1)] by simp
  show thesis
  proof (rule that [OF h(1)])
    show "wtracking segSize (q\<lparr>w_flags := (w_flags q)(ps_extraInfos st := (w_flags q (ps_extraInfos st))(i := False)),
        w_elts := h, currentSlidingWindowMemory := sz_add (currentSlidingWindowMemory q) (segSize (ps_mapping st))\<rparr>)
      fs (elt st i # ss)"
      using tr h(2,3) alone nin e fits flags_set [OF tr st nin, where b = False] sz d(4,5)
      unfolding wtracking_def by (auto simp del: fun_upd_apply)
  qed
qed

text \<open>
  A touch takes the segment out of its window, puts it in the fixed window when that is not
  full and else at the front of the sliding window, and evicts the oldest segments of the
  sliding window until it fits.
\<close>

lemma window_notifyTouch_linked:
  assumes tr: "wtracks segSize p F S" and us: "usable p"
    and seg: "(m, i) \<in> segs (storageRegistry p)"
    and fits: "currentFixedMemory p + currentSlidingWindowMemory p + segSize m < W64"
  defines "F' \<equiv> remove1 (m, i) F" and "S' \<equiv> remove1 (m, i) S"
  defines "fixed \<equiv> sum_list (map (segSize \<circ> fst) F') < maxFixedMemory p"
  defines "F2 \<equiv> (if fixed then (m, i) # F' else F')" and "S2 \<equiv> (if fixed then S' else (m, i) # S')"
  obtains p5 where "window_notifyTouch_cs segSize m i p = bindO (window_evict_loop segSize p5 [])
      (\<lambda>(p6, ids). returns (p6, ids, (m, i) \<notin> set F \<union> set S, window_getCurrentMemory p))"
    and "wtracks segSize p5 F2 S2"
    and "storageRegistry p5 = storageRegistry p" and "maxSlidingMemory p5 = maxSlidingMemory p"
    and "maxFixedMemory p5 = maxFixedMemory p" and "pol_local p5 = pol_local p"
    and "dynamicMaxMemory p5 = dynamicMaxMemory p" and "policyQuota p5 = policyQuota p"
proof -
  let ?sts = "storageRegistry p"
  obtain fs ss where wt: "wtracking segSize p fs ss" and F: "F = map (owner ?sts) fs" and S: "S = map (owner ?sts) ss"
    using tr by (auto simp: wtracks_def)
  note d = wtrackingD [OF wt]
  obtain st where st: "st \<in> set ?sts" "i < ps_elementCount st" "m = ps_mapping st"
    using seg by (rule segsE)
  let ?e = "elt st i"
  have e: "?e \<in> elts_of ?sts"
    using st by auto
  have own: "owner ?sts ?e = (m, i)"
    using owner_elt [OF d(1) st(1,2)] st(3) by simp
  have info: "getStorageInfo_mapping m p = Inr st"
    using getStorageInfo_mapping_registered [OF d(1) st(1)] us st(3) by (simp add: usable_def)
  define h where "h = removeFromList ?e (w_elts p)"
  define q where "q = (if \<not> isAlone (w_elts p) ?e
    then window_uncount segSize (ps_mapping st) (w_flags p (ps_extraInfos st) i) (p\<lparr>w_elts := h\<rparr>)
    else p\<lparr>w_elts := h\<rparr>)"
  note out = window_take_out [OF wt st(1,2), folded h_def, folded q_def]
  obtain n1 n2 where q: "q = p\<lparr>w_elts := h, currentFixedMemory := n1, currentSlidingWindowMemory := n2\<rparr>"
    using out(4) by blast
  have sub: "set fs \<subseteq> elts_of ?sts" "set ss \<subseteq> elts_of ?sts"
    using d(5) by auto
  have F': "F' = map (owner ?sts) (remove1 ?e fs)" and S': "S' = map (owner ?sts) (remove1 ?e ss)"
    using map_owner_remove1 [OF d(1) sub(1) e] map_owner_remove1 [OF d(1) sub(2) e]
    by (simp_all add: F'_def S'_def F S own)
  have first: "isAlone (w_elts p) ?e \<longleftrightarrow> (m, i) \<notin> set F \<union> set S"
    using out(3) inj_on_image_mem_iff [OF owner_inj [OF d(1)] e sub(1)]
      inj_on_image_mem_iff [OF owner_inj [OF d(1)] e sub(2)] by (simp add: F S own)
  have fx: "currentFixedMemory q < maxFixedMemory q \<longleftrightarrow> fixed"
    using wtrackingD(8) [OF out(1)] by (simp add: fixed_def q F' weight_map)
  have nin: "?e \<notin> set (remove1 ?e fs) \<union> set (remove1 ?e ss)"
    using ring_distinct [OF d(2)] ring_distinct [OF d(3)] by simp
  have fit: "currentFixedMemory q + currentSlidingWindowMemory q + segSize (ps_mapping st) < W64"
    using out(5) fits st(3) by simp
  have reg: "storageRegistry q = ?sts" "maxSlidingMemory q = maxSlidingMemory p"
      "w_flags q = w_flags p" "rootFixedWindow q = rootFixedWindow p" "rootSlidingWindow q = rootSlidingWindow p"
    by (simp_all add: q)
  define p3 where "p3 = q\<lparr>w_flags := (w_flags q)(ps_extraInfos st := (w_flags q (ps_extraInfos st))(i := fixed))\<rparr>"
  obtain h' where ins: "insertAfter (if fixed then rootFixedWindow p3 else rootSlidingWindow p3) ?e (w_elts p3) = Inr h'"
    and lk: "wtracking segSize (if fixed
        then p3\<lparr>w_elts := h', currentFixedMemory := sz_add (currentFixedMemory p3) (segSize m)\<rparr>
        else p3\<lparr>w_elts := h', currentSlidingWindowMemory := sz_add (currentSlidingWindowMemory p3) (segSize m)\<rparr>)
      (if fixed then ?e # remove1 ?e fs else remove1 ?e fs)
      (if fixed then remove1 ?e ss else ?e # remove1 ?e ss)"
  proof (cases fixed)
    case True
    then show thesis
      using window_link_fixed [OF out(1) _ st(2) nin fit] that st(1,3) by (auto simp: p3_def reg)
  next
    case False
    then show thesis
      using window_link_sliding [OF out(1) _ st(2) nin fit] that st(1,3) by (auto simp: p3_def reg)
  qed
  define p5 where "p5 = (if fixed
        then p3\<lparr>w_elts := h', currentFixedMemory := sz_add (currentFixedMemory p3) (segSize m)\<rparr>
        else p3\<lparr>w_elts := h', currentSlidingWindowMemory := sz_add (currentSlidingWindowMemory p3) (segSize m)\<rparr>)"
  define fs2 ss2 where "fs2 = (if fixed then ?e # remove1 ?e fs else remove1 ?e fs)"
    and "ss2 = (if fixed then remove1 ?e ss else ?e # remove1 ?e ss)"
  have r5: "storageRegistry p5 = ?sts" "maxSlidingMemory p5 = maxSlidingMemory p"
      "maxFixedMemory p5 = maxFixedMemory p" "pol_local p5 = pol_local p"
      "dynamicMaxMemory p5 = dynamicMaxMemory p" "policyQuota p5 = policyQuota p"
    by (simp_all add: p5_def p3_def q)
  have F2: "F2 = map (owner ?sts) fs2" and S2: "S2 = map (owner ?sts) ss2"
    by (simp_all add: F2_def S2_def fs2_def ss2_def F' S' own)
  have run: "window_notifyTouch_cs segSize m i p = bindO (window_evict_loop segSize p5 [])
      (\<lambda>(p6, ids). returns (p6, ids, (m, i) \<notin> set F \<union> set S, window_getCurrentMemory p))"
  proof -
    have q2: "(if \<not> isAlone (w_elts p) ?e
        then window_uncount segSize m (w_flags (p\<lparr>w_elts := h\<rparr>) (ps_extraInfos st) i) (p\<lparr>w_elts := h\<rparr>)
        else p\<lparr>w_elts := h\<rparr>) = q"
      by (simp add: q_def st(3))
    show ?thesis
      unfolding window_notifyTouch_cs_def Let_def info sum.case elt_def [symmetric] h_def [symmetric]
        q2 fx p3_def [symmetric] ins
      by (simp add: p5_def first)
  qed
  have "wtracks segSize p5 F2 S2"
    using lk unfolding wtracks_def p5_def [symmetric] fs2_def [symmetric] ss2_def [symmetric] r5 F2 S2
    by blast
  from that [OF run this r5] show thesis .
qed

text \<open>The eviction loop on the abstract state.\<close>

lemma window_shrinkMemory_cs_correct:
  assumes tr: "wtracks segSize p F S"
    and cap: "length (dropped (segSize \<circ> fst) (maxSlidingMemory p) S) < maxIdsToEvict"
  shows "\<exists>h n. window_shrinkMemory_cs segSize p =
           returns (p\<lparr>w_elts := h, currentSlidingWindowMemory := n\<rparr>,
             dropped (segSize \<circ> fst) (maxSlidingMemory p) S) \<and>
         wtracks segSize (p\<lparr>w_elts := h, currentSlidingWindowMemory := n\<rparr>) F
           (kept (segSize \<circ> fst) (maxSlidingMemory p) S)"
proof -
  let ?sts = "storageRegistry p"
  obtain fs ss where wt: "wtracking segSize p fs ss" and F: "F = map (owner ?sts) fs" and S: "S = map (owner ?sts) ss"
    using tr by (auto simp: wtracks_def)
  have f: "eltSize segSize ?sts = (segSize \<circ> fst) \<circ> owner ?sts"
    by (simp add: fun_eq_iff eltSize_def)
  have dr: "map (owner ?sts) (dropped (eltSize segSize ?sts) (maxSlidingMemory p) ss) =
      dropped (segSize \<circ> fst) (maxSlidingMemory p) S"
    and kp: "map (owner ?sts) (kept (eltSize segSize ?sts) (maxSlidingMemory p) ss) =
      kept (segSize \<circ> fst) (maxSlidingMemory p) S"
    by (simp_all only: f dropped_map [symmetric] kept_map [symmetric] S)
  have "length (dropped (eltSize segSize ?sts) (maxSlidingMemory p) ss) < maxIdsToEvict"
    using cap dr by (metis length_map)
  with window_evict_loop_correct [OF wt, of "[]"] dr
  obtain h n where ev: "window_evict_loop segSize p [] =
        returns (p\<lparr>w_elts := h, currentSlidingWindowMemory := n\<rparr>,
          dropped (segSize \<circ> fst) (maxSlidingMemory p) S)"
      and tv: "wtracking segSize (p\<lparr>w_elts := h, currentSlidingWindowMemory := n\<rparr>) fs
          (kept (eltSize segSize ?sts) (maxSlidingMemory p) ss)"
    by auto
  have "wtracks segSize (p\<lparr>w_elts := h, currentSlidingWindowMemory := n\<rparr>) F
      (kept (segSize \<circ> fst) (maxSlidingMemory p) S)"
    unfolding wtracks_def
    by (intro exI [of _ fs] exI [of _ "kept (eltSize segSize ?sts) (maxSlidingMemory p) ss"])
      (simp add: tv F kp)
  with ev show ?thesis by (auto simp: window_shrinkMemory_cs_def)
qed

lemma window_notifyTouch_cs_correct:
  assumes tr: "wtracks segSize p F S" and us: "usable p"
    and seg: "(m, i) \<in> segs (storageRegistry p)"
    and fits: "currentFixedMemory p + currentSlidingWindowMemory p + segSize m < W64"
  defines "F' \<equiv> remove1 (m, i) F" and "S' \<equiv> remove1 (m, i) S"
  defines "fixed \<equiv> sum_list (map (segSize \<circ> fst) F') < maxFixedMemory p"
  defines "F2 \<equiv> (if fixed then (m, i) # F' else F')" and "S2 \<equiv> (if fixed then S' else (m, i) # S')"
  assumes cap: "length (dropped (segSize \<circ> fst) (maxSlidingMemory p) S2) < maxIdsToEvict"
  shows "\<exists>p'. window_notifyTouch_cs segSize m i p =
           returns (p', dropped (segSize \<circ> fst) (maxSlidingMemory p) S2,
             (m, i) \<notin> set F \<union> set S, window_getCurrentMemory p) \<and>
         wtracks segSize p' F2 (kept (segSize \<circ> fst) (maxSlidingMemory p) S2) \<and>
         storageRegistry p' = storageRegistry p \<and> maxFixedMemory p' = maxFixedMemory p \<and>
         maxSlidingMemory p' = maxSlidingMemory p \<and> pol_local p' = pol_local p"
proof -
  obtain p5 where run: "window_notifyTouch_cs segSize m i p = bindO (window_evict_loop segSize p5 [])
      (\<lambda>(p6, ids). returns (p6, ids, (m, i) \<notin> set F \<union> set S, window_getCurrentMemory p))"
    and t: "wtracks segSize p5 F2 S2"
    and r: "storageRegistry p5 = storageRegistry p" "maxSlidingMemory p5 = maxSlidingMemory p"
      "maxFixedMemory p5 = maxFixedMemory p" "pol_local p5 = pol_local p"
    unfolding F2_def S2_def fixed_def F'_def S'_def
    by (rule window_notifyTouch_linked [OF tr us seg fits])
  from window_shrinkMemory_cs_correct [OF t] cap r(2)
  obtain h n where "window_evict_loop segSize p5 [] =
      returns (p5\<lparr>w_elts := h, currentSlidingWindowMemory := n\<rparr>,
        dropped (segSize \<circ> fst) (maxSlidingMemory p) S2)"
    and "wtracks segSize (p5\<lparr>w_elts := h, currentSlidingWindowMemory := n\<rparr>) F2
      (kept (segSize \<circ> fst) (maxSlidingMemory p) S2)"
    by (auto simp: window_shrinkMemory_cs_def)
  with run r show ?thesis
    by (intro exI [of _ "p5\<lparr>w_elts := h, currentSlidingWindowMemory := n\<rparr>"]) simp
qed

text \<open>An eviction notified by another policy or by a mapping.\<close>

lemma window_segment:
  assumes wt: "wtracking segSize p fs ss" and us: "usable p" and seg: "(m, i) \<in> segs (storageRegistry p)"
  obtains st where "st \<in> set (storageRegistry p)" and "i < ps_elementCount st" and "m = ps_mapping st"
    and "getStorageInfo_mapping m p = Inr st"
    and "owner (storageRegistry p) (elt st i) = (m, i)"
    and "elt st i \<in> set fs \<longleftrightarrow> (m, i) \<in> set (map (owner (storageRegistry p)) fs)"
    and "elt st i \<in> set ss \<longleftrightarrow> (m, i) \<in> set (map (owner (storageRegistry p)) ss)"
proof -
  note d = wtrackingD [OF wt]
  obtain st where st: "st \<in> set (storageRegistry p)" "i < ps_elementCount st" "m = ps_mapping st"
    using seg by (rule segsE)
  have e: "elt st i \<in> elts_of (storageRegistry p)"
    using st by auto
  have own: "owner (storageRegistry p) (elt st i) = (m, i)"
    using owner_elt [OF d(1) st(1,2)] st(3) by simp
  have info: "getStorageInfo_mapping m p = Inr st"
    using getStorageInfo_mapping_registered [OF d(1) st(1)] us st(3) by (simp add: usable_def)
  have sub: "set fs \<subseteq> elts_of (storageRegistry p)" "set ss \<subseteq> elts_of (storageRegistry p)"
    using d(5) by auto
  from that [OF st info own] inj_on_image_mem_iff [OF owner_inj [OF d(1)] e sub(1)]
    inj_on_image_mem_iff [OF owner_inj [OF d(1)] e sub(2)] own
  show thesis by simp
qed

lemma window_notifyEvict_correct:
  assumes tr: "wtracks segSize p F S" and us: "usable p"
    and reg: "(m, i) \<in> segs (storageRegistry p)" and seg: "(m, i) \<in> set F \<union> set S"
  shows "\<exists>h n1 n2. window_notifyEvict segSize m i p =
           Inr (p\<lparr>w_elts := h, currentFixedMemory := n1, currentSlidingWindowMemory := n2\<rparr>) \<and>
         wtracks segSize (p\<lparr>w_elts := h, currentFixedMemory := n1, currentSlidingWindowMemory := n2\<rparr>)
           (remove1 (m, i) F) (remove1 (m, i) S)"
proof -
  let ?sts = "storageRegistry p"
  obtain fs ss where wt: "wtracking segSize p fs ss" and F: "F = map (owner ?sts) fs" and S: "S = map (owner ?sts) ss"
    using tr by (auto simp: wtracks_def)
  note d = wtrackingD [OF wt]
  obtain st where st: "st \<in> set ?sts" "i < ps_elementCount st" "m = ps_mapping st"
    and info: "getStorageInfo_mapping m p = Inr st" and own: "owner ?sts (elt st i) = (m, i)"
    and mem: "elt st i \<in> set fs \<longleftrightarrow> (m, i) \<in> set (map (owner ?sts) fs)"
      "elt st i \<in> set ss \<longleftrightarrow> (m, i) \<in> set (map (owner ?sts) ss)"
    by (rule window_segment [OF wt us reg])
  note out = window_take_out [OF wt st(1,2)]
  let ?h = "removeFromList (elt st i) (w_elts p)"
  let ?q = "window_uncount segSize (ps_mapping st) (w_flags p (ps_extraInfos st) i) (p\<lparr>w_elts := ?h\<rparr>)"
  have nal: "\<not> isAlone (w_elts p) (elt st i)"
    using out(3) seg mem by (auto simp: F S)
  have inl: "isInList (w_elts p) (elt st i)"
    using seg mem ring_member_inList(1) [OF d(2)] ring_member_inList(1) [OF d(3)] by (auto simp: F S)
  have tq: "wtracking segSize ?q (remove1 (elt st i) fs) (remove1 (elt st i) ss)"
    using out(1) nal by simp
  obtain n1 n2 where q: "?q = p\<lparr>w_elts := ?h, currentFixedMemory := n1, currentSlidingWindowMemory := n2\<rparr>"
    using out(4) nal by auto
  have sub: "set fs \<subseteq> elts_of ?sts" "set ss \<subseteq> elts_of ?sts" and e: "elt st i \<in> elts_of ?sts"
    using d(5) st by auto
  have "wtracks segSize ?q (remove1 (m, i) F) (remove1 (m, i) S)"
    unfolding wtracks_def
    using tq map_owner_remove1 [OF d(1) sub(1) e] map_owner_remove1 [OF d(1) sub(2) e]
    by (intro exI [of _ "remove1 (elt st i) fs"] exI [of _ "remove1 (elt st i) ss"])
      (simp add: F S own q)
  moreover have "window_notifyEvict segSize m i p = Inr ?q"
    using inl info by (simp add: window_notifyEvict_def elt_def Let_def window_uncount_def st(3))
  ultimately show ?thesis
    unfolding q by blast
qed

lemma window_notifyEvict_untracked:
  assumes tr: "wtracks segSize p F S" and us: "usable p"
    and reg: "(m, i) \<in> segs (storageRegistry p)" and seg: "(m, i) \<notin> set F \<union> set S"
  shows "window_notifyEvict segSize m i p = Inl (AssertFailure ''cur.isInList()'')"
proof -
  let ?sts = "storageRegistry p"
  obtain fs ss where wt: "wtracking segSize p fs ss" and F: "F = map (owner ?sts) fs" and S: "S = map (owner ?sts) ss"
    using tr by (auto simp: wtracks_def)
  obtain st where st: "st \<in> set ?sts" "i < ps_elementCount st" "m = ps_mapping st"
    and info: "getStorageInfo_mapping m p = Inr st" and own: "owner ?sts (elt st i) = (m, i)"
    and mem: "elt st i \<in> set fs \<longleftrightarrow> (m, i) \<in> set (map (owner ?sts) fs)"
      "elt st i \<in> set ss \<longleftrightarrow> (m, i) \<in> set (map (owner ?sts) ss)"
    by (rule window_segment [OF wt us reg])
  have "isAlone (w_elts p) (elt st i)"
    using window_take_out(3) [OF wt st(1,2)] seg mem by (auto simp: F S)
  then show ?thesis
    by (simp add: window_notifyEvict_def info elt_def isInList_def isAlone_def)
qed

end
