(* ===== verification/Eviction.thy ===== *)
theory Eviction
  imports LifoPolicy FifoWindowPolicy
begin

text \<open>
  The contract the eviction policies share. The remaining branches of the eviction loop (too
  many segments to evict at once, a counter above the limit with an empty list) are settled
  first, so that the contract speaks of every call that returns.
\<close>

section \<open>The other branches of the eviction loop\<close>

lemma evict_loop_too_many:
  assumes "tracking segSize p as c" and "c \<le> dynamicMaxMemory p" and "length ids < maxIdsToEvict"
    and "\<not> length ids + length (dropped (eltSize segSize (storageRegistry p)) (dynamicMaxMemory p - c) as)
         < maxIdsToEvict"
  shows "evict_loop segSize p ids =
    aborts (Fatal ''Reach maximum pages to evict due to optimization, cannot continue !'')"
  using assms
proof (induction as arbitrary: p ids rule: rev_induct)
  case Nil
  then show ?case by simp
next
  case (snoc e as)
  let ?f = "eltSize segSize (storageRegistry p)" and ?lim = "dynamicMaxMemory p - c"
  have mem: "currentMemory p = weight segSize (storageRegistry p) (as @ [e]) + c"
    using snoc.prems(1) by (simp add: tracking_def)
  have False': "\<not> sum_list (map ?f (as @ [e])) \<le> ?lim"
    using snoc.prems(3,4) by (auto simp: dropped_fits simp del: map_append sum_list_append)
  let ?h = "removeFromList e (elts p)"
  let ?m = "sz_sub (currentMemory p) (?f e)"
  let ?q = "p\<lparr>elts := ?h, currentMemory := ?m\<rparr>"
  obtain st i where st: "st \<in> set (storageRegistry p)" "i < ps_elementCount st" "e = elt st i"
    using tracking_elt [OF snoc.prems(1), of e] by auto
  note ok = trackingD(1) [OF snoc.prems(1)]
  have own: "owner (storageRegistry p) e = (ps_mapping st, i)"
    and info: "getStorageInfo_entry e p = Inr st"
    using st owner_elt [OF ok] getStorageInfo_entry_elt [OF ok] by simp_all
  have idx: "(e - ps_elements st) div sizeof_ListElement = i"
    using st(3) by (simp add: elt_def)
  have over: "currentMemory p > dynamicMaxMemory p"
    using False' mem snoc.prems(2) by (simp add: weight_def)
  note pop = popPrev_ring [OF trackingD(2) [OF snoc.prems(1)]]
  show ?case
  proof (cases "Suc (length ids) < maxIdsToEvict")
    case False
    with over pop info show ?thesis
      by (subst evict_loop.simps) simp
  next
    case True
    have step: "evict_loop segSize p ids = evict_loop segSize ?q (ids @ [(ps_mapping st, i)])"
      using over pop info True own by (subst evict_loop.simps) (simp add: idx eltSize_def)
    have "tracking segSize (p\<lparr>elts := ?h\<rparr>) (as @ []) (?f e + c)"
      using tracking_unlink [of segSize p as e "[]" c] snoc.prems(1) by simp
    then have "tracking segSize ?q as c"
      using tracking_counted by fastforce
    from snoc.IH [OF this, of "ids @ [(ps_mapping st, i)]"] step True snoc.prems(2,4) show ?thesis
      by (simp add: dropped_snoc [OF False'])
  qed
qed

text \<open>
  A counter above the limit while the list is empty: the body of the loop does nothing, so
  the call does not return.
\<close>

lemma evict_loop_stuck:
  assumes "currentMemory p > dynamicMaxMemory p" and "isAlone (elts p) (root p)"
  shows "evict_loop segSize p ids = None"
proof -
  have "\<not> (currentMemory p > dynamicMaxMemory p \<and> isAlone (elts p) (root p))"
    if ev: "evict_loop segSize p ids = Some y" for y
    by (rule evict_loop.raw_induct
        [where P = "\<lambda>_ p _ _. \<not> (currentMemory p > dynamicMaxMemory p \<and> isAlone (elts p) (root p))", OF _ ev])
      (auto simp: popPrev_def split: if_splits)
  with assms show ?thesis by (cases "evict_loop segSize p ids") auto
qed

lemma evict_loop_pending:
  assumes "tracking segSize p as c" and "c > dynamicMaxMemory p"
  shows "evict_loop segSize p ids \<noteq> returns r"
  using assms
proof (induction as arbitrary: p ids rule: rev_induct)
  case Nil
  then have "currentMemory p > dynamicMaxMemory p" and "isAlone (elts p) (root p)"
    by (simp_all add: tracking_def)
  then show ?case by (simp add: evict_loop_stuck)
next
  case (snoc e as)
  let ?f = "eltSize segSize (storageRegistry p)"
  let ?h = "removeFromList e (elts p)"
  let ?q = "p\<lparr>elts := ?h, currentMemory := sz_sub (currentMemory p) (?f e)\<rparr>"
  obtain st i where st: "st \<in> set (storageRegistry p)" "i < ps_elementCount st" "e = elt st i"
    using tracking_elt [OF snoc.prems(1), of e] by auto
  note ok = trackingD(1) [OF snoc.prems(1)]
  have own: "owner (storageRegistry p) e = (ps_mapping st, i)"
    and info: "getStorageInfo_entry e p = Inr st"
    using st owner_elt [OF ok] getStorageInfo_entry_elt [OF ok] by simp_all
  have idx: "(e - ps_elements st) div sizeof_ListElement = i"
    using st(3) by (simp add: elt_def)
  have over: "currentMemory p > dynamicMaxMemory p"
    using trackingD(4) [OF snoc.prems(1)] snoc.prems(2) by simp
  have "tracking segSize (p\<lparr>elts := ?h\<rparr>) (as @ []) (?f e + c)"
    using tracking_unlink [of segSize p as e "[]" c] snoc.prems(1) by simp
  then have "tracking segSize ?q as c"
    using tracking_counted by fastforce
  from snoc.IH [OF this, of "ids @ [(ps_mapping st, i)]"] snoc.prems(2)
  have "evict_loop segSize ?q (ids @ [(ps_mapping st, i)]) \<noteq> returns r"
    by simp
  then show ?case
    using over popPrev_ring [OF trackingD(2) [OF snoc.prems(1)]] info own
    by (subst evict_loop.simps) (simp add: idx eltSize_def)
qed

text \<open>Hence a loop that returns has done what its specification says.\<close>

lemma evict_loop_returns:
  assumes tr: "tracking segSize p as c" and run: "evict_loop segSize p [] = returns (p', ids)"
  shows "c \<le> dynamicMaxMemory p"
    and "ids = map (owner (storageRegistry p))
      (dropped (eltSize segSize (storageRegistry p)) (dynamicMaxMemory p - c) as)"
    and "tracking segSize p' (kept (eltSize segSize (storageRegistry p)) (dynamicMaxMemory p - c) as) c"
    and "\<exists>h n. p' = p\<lparr>elts := h, currentMemory := n\<rparr>"
    and "length (dropped (eltSize segSize (storageRegistry p)) (dynamicMaxMemory p - c) as) < maxIdsToEvict"
proof -
  show c: "c \<le> dynamicMaxMemory p"
    using evict_loop_pending [OF tr] run by (metis not_le)
  show cap: "length (dropped (eltSize segSize (storageRegistry p)) (dynamicMaxMemory p - c) as) < maxIdsToEvict"
    using evict_loop_too_many [OF tr c, of "[]"] run by force
  from evict_loop_correct [OF tr c, of "[]"] cap run
  show "ids = map (owner (storageRegistry p))
      (dropped (eltSize segSize (storageRegistry p)) (dynamicMaxMemory p - c) as)"
    and "tracking segSize p' (kept (eltSize segSize (storageRegistry p)) (dynamicMaxMemory p - c) as) c"
    and "\<exists>h n. p' = p\<lparr>elts := h, currentMemory := n\<rparr>"
    by auto
qed

section \<open>The contract\<close>

text \<open>
  \<open>tracked p\<close> is the set of segments the policy counts, \<open>registered p\<close> those of its mappings.
  A touch that returns adds the touched segment and removes the evicted ones; an eviction by
  another party removes the segment; the memory counter is the size of the tracked segments.
\<close>

locale eviction_policy =
  fixes segSize :: "mapping_ptr \<Rightarrow> size_t"
    and touch_cs :: "mapping_ptr \<Rightarrow> nat \<Rightarrow> 'p \<Rightarrow> ('p \<times> (mapping_ptr \<times> nat) list \<times> bool \<times> size_t) outcome"
    and evict :: "mapping_ptr \<Rightarrow> nat \<Rightarrow> 'p \<Rightarrow> 'p result"
    and shrink_cs :: "'p \<Rightarrow> ('p \<times> (mapping_ptr \<times> nat) list) outcome"
    and mem :: "'p \<Rightarrow> size_t"
    and inv :: "'p \<Rightarrow> bool"
    and tracked :: "'p \<Rightarrow> (mapping_ptr \<times> nat) set"
    and registered :: "'p \<Rightarrow> (mapping_ptr \<times> nat) set"
  assumes touch:
      "inv p \<Longrightarrow> (m, i) \<in> registered p \<Longrightarrow> mem p + segSize m < W64 \<Longrightarrow>
       touch_cs m i p = returns (p', ids, first, orig) \<Longrightarrow>
       inv p' \<and> registered p' = registered p \<and> set ids \<subseteq> insert (m, i) (tracked p) \<and>
       tracked p' = insert (m, i) (tracked p) - set ids \<and> orig = mem p"
    and evict_tracked:
      "inv p \<Longrightarrow> (m, i) \<in> tracked p \<Longrightarrow>
       \<exists>p'. evict m i p = Inr p' \<and> inv p' \<and> registered p' = registered p \<and> tracked p' = tracked p - {(m, i)}"
    and evict_untracked:
      "inv p \<Longrightarrow> (m, i) \<in> registered p \<Longrightarrow> (m, i) \<notin> tracked p \<Longrightarrow>
       evict m i p = Inl (AssertFailure ''cur.isInList()'')"
    and shrink:
      "inv p \<Longrightarrow> shrink_cs p = returns (p', ids) \<Longrightarrow>
       inv p' \<and> registered p' = registered p \<and> set ids \<subseteq> tracked p \<and> tracked p' = tracked p - set ids"
    and tracked_registered: "inv p \<Longrightarrow> tracked p \<subseteq> registered p"
    and tracked_finite: "inv p \<Longrightarrow> finite (tracked p)"
    and mem_tracked: "inv p \<Longrightarrow> mem p = (\<Sum>t \<in> tracked p. segSize (fst t))"
begin

text \<open>A set of segments that is tracked takes no more memory than the counter says.\<close>

lemma subset_memory:
  assumes "inv p" and "R \<subseteq> tracked p"
  shows "(\<Sum>t \<in> R. segSize (fst t)) \<le> mem p"
  unfolding mem_tracked [OF assms(1)]
  by (rule sum_mono2 [OF tracked_finite [OF assms(1)] assms(2)]) simp

text \<open>The memory after a touch never grows by more than the touched segment.\<close>

lemma touch_memory:
  assumes "inv p" and "(m, i) \<in> registered p" and "mem p + segSize m < W64"
    and "touch_cs m i p = returns (p', ids, first, orig)"
  shows "mem p' \<le> mem p + segSize m"
proof -
  note t = touch [OF assms]
  have "mem p' = (\<Sum>t \<in> insert (m, i) (tracked p) - set ids. segSize (fst t))"
    using t mem_tracked by simp
  also have "\<dots> \<le> (\<Sum>t \<in> insert (m, i) (tracked p). segSize (fst t))"
    using tracked_finite [OF assms(1)] by (intro sum_mono2) auto
  also have "\<dots> \<le> segSize m + (\<Sum>t \<in> tracked p. segSize (fst t))"
    using tracked_finite [OF assms(1)] by (simp add: sum.insert_if)
  finally show ?thesis
    using mem_tracked [OF assms(1)] by simp
qed

text \<open>An eviction that returns was one of a tracked segment.\<close>

lemma evict_Inr:
  assumes "inv p" and "(m, i) \<in> registered p" and "evict m i p = Inr p'"
  shows "inv p'" and "registered p' = registered p" and "(m, i) \<in> tracked p"
    and "tracked p' = tracked p - {(m, i)}"
proof -
  show t: "(m, i) \<in> tracked p"
    using evict_untracked [OF assms(1,2)] assms(3) by auto
  from evict_tracked [OF assms(1) t] assms(3)
  show "inv p'" and "registered p' = registered p" and "tracked p' = tracked p - {(m, i)}"
    by auto
qed

lemma memory_mono:
  assumes "inv p" and "inv p'" and "tracked p' \<subseteq> tracked p"
  shows "mem p' \<le> mem p"
  unfolding mem_tracked [OF assms(1)] mem_tracked [OF assms(2)]
  by (rule sum_mono2 [OF tracked_finite [OF assms(1)] assms(3)]) simp

text \<open>A shrink never makes the policy count more.\<close>

lemma shrink_memory:
  assumes "inv p" and "shrink_cs p = returns (p', ids)"
  shows "mem p' \<le> mem p"
proof -
  show ?thesis
    using shrink [OF assms] by (intro memory_mono [OF assms(1)]) auto
qed

end

text \<open>A policy that also keeps its counter below a limit.\<close>

locale bounded_policy = eviction_policy +
  fixes limit :: "'b \<Rightarrow> size_t"
  assumes touch_bound:
      "inv p \<Longrightarrow> (m, i) \<in> registered p \<Longrightarrow> mem p + segSize m < W64 \<Longrightarrow>
       touch_cs m i p = returns (p', ids, first, orig) \<Longrightarrow> mem p' \<le> limit p \<and> limit p' = limit p"
    and shrink_bound:
      "inv p \<Longrightarrow> shrink_cs p = returns (p', ids) \<Longrightarrow> mem p' \<le> limit p \<and> limit p' = limit p"
begin

lemma touch_resident:
  assumes "inv p" and "(m, i) \<in> registered p" and "mem p + segSize m < W64"
    and "touch_cs m i p = returns (p', ids, first, orig)"
    and "R \<subseteq> tracked p"
  shows "(\<Sum>t \<in> insert (m, i) R - set ids. segSize (fst t)) \<le> limit p"
proof -
  note t = touch [OF assms(1-4)]
  have "insert (m, i) R - set ids \<subseteq> tracked p'"
    using t assms(5) by auto
  then have "(\<Sum>t \<in> insert (m, i) R - set ids. segSize (fst t)) \<le> mem p'"
    using t by (intro subset_memory) auto
  also have "\<dots> \<le> limit p"
    using touch_bound [OF assms(1-4)] by simp
  finally show ?thesis .
qed

end

section \<open>The list policies implement it\<close>

definition tracked_segments :: "policy_storage list \<Rightarrow> lheap \<Rightarrow> (mapping_ptr \<times> nat) set" where
  "tracked_segments sts h =
     {(ps_mapping st, i) |st i. st \<in> set sts \<and> i < ps_elementCount st \<and> \<not> isAlone h (elt st i)}"

lemma tracked_segments_owner:
  assumes ok: "storages_ok roots sts" and sub: "X \<subseteq> elts_of sts"
    and mem: "\<And>e. e \<in> elts_of sts \<Longrightarrow> isAlone h e \<longleftrightarrow> e \<notin> X"
  shows "tracked_segments sts h = owner sts ` X"
proof (intro equalityI subsetI)
  fix t
  assume "t \<in> tracked_segments sts h"
  then obtain st i where st: "t = (ps_mapping st, i)" "st \<in> set sts" "i < ps_elementCount st"
      "\<not> isAlone h (elt st i)"
    by (auto simp: tracked_segments_def)
  moreover have "elt st i \<in> elts_of sts"
    using st by auto
  ultimately show "t \<in> owner sts ` X"
    using mem owner_elt [OF ok st(2,3)] by (metis image_eqI)
next
  fix t
  assume "t \<in> owner sts ` X"
  then obtain e where e: "t = owner sts e" "e \<in> X" by blast
  then obtain st i where st: "st \<in> set sts" "i < ps_elementCount st" "e = elt st i"
    using sub by (auto simp: elts_of_def)
  moreover have "\<not> isAlone h e"
    using mem [of e] e(2) sub by blast
  ultimately show "t \<in> tracked_segments sts h"
    using e(1) owner_elt [OF ok st(1,2)] by (auto simp: tracked_segments_def)
qed

definition list_inv :: "(mapping_ptr \<Rightarrow> size_t) \<Rightarrow> list_policy \<Rightarrow> bool" where
  "list_inv segSize p \<longleftrightarrow> (\<exists>ts. tracks segSize p ts) \<and> usable p"

definition list_tracked :: "list_policy \<Rightarrow> (mapping_ptr \<times> nat) set" where
  "list_tracked p = tracked_segments (storageRegistry p) (elts p)"

definition registered_segments :: "'a policy_scheme \<Rightarrow> (mapping_ptr \<times> nat) set" where
  "registered_segments p = segs (storageRegistry p)"

lemma tracks_list_tracked: "tracks segSize p ts \<Longrightarrow> list_tracked p = set ts"
proof -
  assume "tracks segSize p ts"
  then obtain as where as: "tracking segSize p as 0" and ts: "ts = map (owner (storageRegistry p)) as"
    by (auto simp: tracks_def)
  show ?thesis
    unfolding list_tracked_def ts set_map
    by (rule tracked_segments_owner [OF trackingD(1,3) [OF as]]) (rule tracking_remove_cur(3) [OF as])
qed

lemma list_invE:
  assumes "list_inv segSize p"
  obtains ts where "tracks segSize p ts" and "usable p" and "list_tracked p = set ts"
  using assms tracks_list_tracked by (auto simp: list_inv_def)

lemma list_invI:
  "tracks segSize p ts \<Longrightarrow> usable p \<Longrightarrow> list_inv segSize p"
  by (auto simp: list_inv_def)

lemma usable_upd [simp]:
  "usable (p\<lparr>elts := h, currentMemory := n\<rparr>) = usable p"
  "registered_segments (p\<lparr>elts := h, currentMemory := n\<rparr>) = registered_segments p"
  by (simp_all add: usable_def registered_segments_def)

lemma set_kept:
  "distinct xs \<Longrightarrow> set (kept f lim xs) = set xs - set (dropped f lim xs)"
  using kept_append_dropped [of f lim xs]
  by (metis Diff_cancel Diff_disjoint Int_commute Un_Diff Un_Diff_Int distinct_append set_append set_rev sup_bot_right
      Un_empty_right Diff_triv)

text \<open>The loop, on the abstract state.\<close>

lemma evict_loop_tracks:
  assumes t: "tracks segSize p ts" and run: "evict_loop segSize p [] = returns (p', ids)"
  shows "ids = dropped (segSize \<circ> fst) (dynamicMaxMemory p) ts"
    and "tracks segSize p' (kept (segSize \<circ> fst) (dynamicMaxMemory p) ts)"
    and "\<exists>h n. p' = p\<lparr>elts := h, currentMemory := n\<rparr>"
proof -
  let ?sts = "storageRegistry p"
  obtain as where as: "tracking segSize p as 0" and ts: "ts = map (owner ?sts) as"
    using t by (auto simp: tracks_def)
  note r = evict_loop_returns [OF as run]
  have f: "eltSize segSize ?sts = (segSize \<circ> fst) \<circ> owner ?sts"
    by (simp add: fun_eq_iff eltSize_def)
  show "ids = dropped (segSize \<circ> fst) (dynamicMaxMemory p) ts"
    using r(2) by (simp add: f ts dropped_map)
  show ex: "\<exists>h n. p' = p\<lparr>elts := h, currentMemory := n\<rparr>"
    by (fact r(4))
  then have "storageRegistry p' = ?sts" by auto
  then show "tracks segSize p' (kept (segSize \<circ> fst) (dynamicMaxMemory p) ts)"
    using tracksI [OF r(3) [unfolded diff_zero]] by (simp add: f ts kept_map)
qed

lemma fifo_touch_law:
  assumes inv: "list_inv segSize p" and reg: "(m, i) \<in> registered_segments p"
    and fits: "currentMemory p + segSize m < W64"
    and run: "fifo_notifyTouch_cs segSize m i p = returns (p', ids, first, orig)"
  shows "list_inv segSize p' \<and> registered_segments p' = registered_segments p \<and>
    set ids \<subseteq> insert (m, i) (list_tracked p) \<and>
    list_tracked p' = insert (m, i) (list_tracked p) - set ids \<and> orig = currentMemory p"
    and "currentMemory p' \<le> dynamicMaxMemory p \<and> dynamicMaxMemory p' = dynamicMaxMemory p"
    and "policyQuota p' = policyQuota p"
proof -
  obtain ts where t: "tracks segSize p ts" "usable p" "list_tracked p = set ts"
    using inv by (rule list_invE)
  obtain h n where cs: "fifo_notifyTouch_cs segSize m i p =
      bindO (evict_loop segSize (p\<lparr>elts := h, currentMemory := n\<rparr>) [])
        (\<lambda>(p3, ids). returns (p3, ids, (m, i) \<notin> set ts, currentMemory p))"
    and t1: "tracks segSize (p\<lparr>elts := h, currentMemory := n\<rparr>) (touch_list (m, i) ts)"
    by (rule fifo_notifyTouch_linked [OF t(1,2) reg [unfolded registered_segments_def] fits])
  have ev: "evict_loop segSize (p\<lparr>elts := h, currentMemory := n\<rparr>) [] = returns (p', ids)"
    and orig: "orig = currentMemory p"
    using run unfolding cs by (auto simp: bindO_def split: option.splits sum.splits)
  note e = evict_loop_tracks [OF t1 ev]
  obtain h' n' where p': "p' = p\<lparr>elts := h', currentMemory := n'\<rparr>"
    using e(3) by auto
  have ids: "ids = dropped (segSize \<circ> fst) (dynamicMaxMemory p) (touch_list (m, i) ts)"
    using e(1) by simp
  have tr: "tracks segSize p' (kept (segSize \<circ> fst) (dynamicMaxMemory p) (touch_list (m, i) ts))"
    using e(2) by simp
  have st: "set (touch_list (m, i) ts) = insert (m, i) (set ts)"
    using tracks_distinct [OF t(1)] by (auto simp: touch_list_def)
  have "list_tracked p' = insert (m, i) (set ts) - set ids"
    using tracks_list_tracked [OF tr] set_kept [OF tracks_distinct [OF t1]] st ids by simp
  moreover have "set ids \<subseteq> insert (m, i) (set ts)"
    using set_kept_dropped [of "segSize \<circ> fst" "dynamicMaxMemory p" "touch_list (m, i) ts"] st ids by auto
  moreover have "list_inv segSize p'" and "registered_segments p' = registered_segments p"
    using list_invI [OF tr] t(2) by (simp_all add: p')
  ultimately show "list_inv segSize p' \<and> registered_segments p' = registered_segments p \<and>
    set ids \<subseteq> insert (m, i) (list_tracked p) \<and>
    list_tracked p' = insert (m, i) (list_tracked p) - set ids \<and> orig = currentMemory p"
    using t(3) orig by simp
  show "currentMemory p' \<le> dynamicMaxMemory p \<and> dynamicMaxMemory p' = dynamicMaxMemory p"
    using tracks_memory [OF tr] kept_weight [of "segSize \<circ> fst" "dynamicMaxMemory p" "touch_list (m, i) ts"]
    by (auto simp: p')
  show "policyQuota p' = policyQuota p"
    by (simp add: p')
qed

lemma lifo_touch_law:
  assumes inv: "list_inv segSize p" and reg: "(m, i) \<in> registered_segments p"
    and fits: "currentMemory p + segSize m < W64"
    and run: "lifo_notifyTouch_cs segSize m i p = returns (p', ids, first, orig)"
  shows "list_inv segSize p' \<and> registered_segments p' = registered_segments p \<and>
    set ids \<subseteq> insert (m, i) (list_tracked p) \<and>
    list_tracked p' = insert (m, i) (list_tracked p) - set ids \<and> orig = currentMemory p"
    and "currentMemory p' \<le> dynamicMaxMemory p \<and> dynamicMaxMemory p' = dynamicMaxMemory p"
    and "policyQuota p' = policyQuota p"
proof -
  let ?sts = "storageRegistry p" and ?lim = "dynamicMaxMemory p - segSize m"
  let ?f = "eltSize segSize ?sts"
  obtain ts where t: "tracks segSize p ts" "usable p" "list_tracked p = set ts"
    using inv by (rule list_invE)
  let ?rest = "remove1 (m, i) ts"
  obtain h n e as where cs: "lifo_notifyTouch_cs segSize m i p =
      bindO (evict_loop segSize (p\<lparr>elts := h, currentMemory := n\<rparr>) [])
      (\<lambda>(p3, ids). case insertBefore (root p3) e (elts p3) of
          Inl err \<Rightarrow> aborts err
        | Inr h' \<Rightarrow> returns (p3\<lparr>elts := h'\<rparr>, ids, False, currentMemory p))"
    and as: "tracking segSize (p\<lparr>elts := h, currentMemory := n\<rparr>) as (segSize m)"
      "map (owner ?sts) as = ?rest"
    and e: "e \<in> elts_of ?sts" "owner ?sts e = (m, i)" "e \<notin> set as"
    by (rule lifo_notifyTouch_unlinked [OF t(1,2) reg [unfolded registered_segments_def] fits])
  obtain p3 h3 where ev: "evict_loop segSize (p\<lparr>elts := h, currentMemory := n\<rparr>) [] = returns (p3, ids)"
    and ins: "insertBefore (root p3) e (elts p3) = Inr h3"
    and p': "p' = p3\<lparr>elts := h3\<rparr>" and orig: "orig = currentMemory p"
    using run unfolding cs by (auto simp: bindO_def split: option.splits sum.splits)
  note r = evict_loop_returns [OF as(1) ev]
  obtain h' n' where p3: "p3 = p\<lparr>elts := h', currentMemory := n'\<rparr>"
    using r(4) by auto
  have lim: "segSize m \<le> dynamicMaxMemory p"
    using r(1) by simp
  have f: "?f = (segSize \<circ> fst) \<circ> owner ?sts"
    by (simp add: fun_eq_iff eltSize_def)
  have ids: "ids = dropped (segSize \<circ> fst) ?lim ?rest"
    using r(2) by (simp add: f dropped_map [symmetric] as(2))
  have tv: "tracking segSize p3 (kept ?f ?lim as) (segSize m)"
    using r(3) by simp
  obtain h'' where "insertBefore (root p3) e (elts p3) = Inr h''"
      "tracks segSize (p3\<lparr>elts := h''\<rparr>) (kept (segSize \<circ> fst) ?lim ?rest @ [(m, i)])"
    by (rule lifo_link_back [OF tv, of e i ?rest]) (use e as(2) in \<open>auto simp: p3\<close>)
  then have tr: "tracks segSize p' (kept (segSize \<circ> fst) ?lim ?rest @ [(m, i)])"
    using ins p' by simp
  note dist = tracks_distinct [OF t(1)]
  have set': "set (kept (segSize \<circ> fst) ?lim ?rest) = (set ts - {(m, i)}) - set ids"
    using set_kept [OF distinct_remove1 [OF dist]] dist by (simp add: ids)
  have sub: "set ids \<subseteq> set ts - {(m, i)}"
    using set_kept_dropped [of "segSize \<circ> fst" ?lim ?rest] dist by (auto simp: ids)
  have "list_tracked p' = insert (m, i) (set ts) - set ids"
    using tracks_list_tracked [OF tr] set' sub by auto
  moreover have "list_inv segSize p'" and "registered_segments p' = registered_segments p"
    using list_invI [OF tr] t(2) by (simp_all add: p' p3 usable_def registered_segments_def)
  ultimately show "list_inv segSize p' \<and> registered_segments p' = registered_segments p \<and>
    set ids \<subseteq> insert (m, i) (list_tracked p) \<and>
    list_tracked p' = insert (m, i) (list_tracked p) - set ids \<and> orig = currentMemory p"
    using t(3) orig sub by auto
  show "currentMemory p' \<le> dynamicMaxMemory p \<and> dynamicMaxMemory p' = dynamicMaxMemory p"
    using tracks_memory [OF tr] kept_weight [of "segSize \<circ> fst" ?lim ?rest] lim
    by (auto simp: p' p3)
  show "policyQuota p' = policyQuota p"
    by (simp add: p' p3)
qed

lemma list_evict_law:
  assumes "list_inv segSize p" and "(m, i) \<in> list_tracked p"
  shows "\<exists>p'. fifo_notifyEvict segSize m i p = Inr p' \<and> list_inv segSize p' \<and>
    registered_segments p' = registered_segments p \<and> list_tracked p' = list_tracked p - {(m, i)}"
proof -
  obtain ts where t: "tracks segSize p ts" "usable p" "list_tracked p = set ts"
    using assms(1) by (rule list_invE)
  obtain h n where run: "fifo_notifyEvict segSize m i p = Inr (p\<lparr>elts := h, currentMemory := n\<rparr>)"
    and tr: "tracks segSize (p\<lparr>elts := h, currentMemory := n\<rparr>) (remove1 (m, i) ts)"
    using fifo_notifyEvict_correct [OF t(1,2), of m i] assms(2) t(3) by auto
  have "list_tracked (p\<lparr>elts := h, currentMemory := n\<rparr>) = list_tracked p - {(m, i)}"
    using tracks_list_tracked [OF tr] tracks_distinct [OF t(1)] t(3) by simp
  then show ?thesis
    using run list_invI [OF tr] t(2) by auto
qed

lemma list_evict_untracked_law:
  assumes "list_inv segSize p" and "(m, i) \<in> registered_segments p" and "(m, i) \<notin> list_tracked p"
  shows "fifo_notifyEvict segSize m i p = Inl (AssertFailure ''cur.isInList()'')"
  using assms fifo_notifyEvict_untracked
  by (auto simp: registered_segments_def elim!: list_invE)

lemma list_shrink_law:
  assumes "list_inv segSize p" and "fifo_shrinkMemory_cs segSize p = returns (p', ids)"
  shows "list_inv segSize p' \<and> registered_segments p' = registered_segments p \<and>
    set ids \<subseteq> list_tracked p \<and> list_tracked p' = list_tracked p - set ids"
    and "currentMemory p' \<le> dynamicMaxMemory p \<and> dynamicMaxMemory p' = dynamicMaxMemory p"
    and "policyQuota p' = policyQuota p"
proof -
  obtain ts where t: "tracks segSize p ts" "usable p" "list_tracked p = set ts"
    using assms(1) by (rule list_invE)
  note e = evict_loop_tracks [OF t(1) assms(2) [unfolded fifo_shrinkMemory_cs_def]]
  obtain h n where p': "p' = p\<lparr>elts := h, currentMemory := n\<rparr>"
    using e(3) by auto
  have "list_tracked p' = set ts - set ids"
    using tracks_list_tracked [OF e(2)] set_kept [OF tracks_distinct [OF t(1)]] e(1) by simp
  moreover have "set ids \<subseteq> set ts"
    using set_kept_dropped [of "segSize \<circ> fst" "dynamicMaxMemory p" ts] e(1) by auto
  ultimately show "list_inv segSize p' \<and> registered_segments p' = registered_segments p \<and>
    set ids \<subseteq> list_tracked p \<and> list_tracked p' = list_tracked p - set ids"
    using list_invI [OF e(2)] t(2,3) by (simp add: p')
  show "currentMemory p' \<le> dynamicMaxMemory p \<and> dynamicMaxMemory p' = dynamicMaxMemory p"
    using tracks_memory [OF e(2)] kept_weight [of "segSize \<circ> fst" "dynamicMaxMemory p" ts]
    by (auto simp: p')
  show "policyQuota p' = policyQuota p"
    by (simp add: p')
qed

lemma list_memory_law:
  assumes "list_inv segSize p"
  shows "list_tracked p \<subseteq> registered_segments p" and "finite (list_tracked p)"
    and "currentMemory p = (\<Sum>t \<in> list_tracked p. segSize (fst t))"
proof -
  obtain ts where t: "tracks segSize p ts" "list_tracked p = set ts"
    using assms by (rule list_invE)
  show "list_tracked p \<subseteq> registered_segments p"
    using tracks_segs [OF t(1)] t(2) by (simp add: registered_segments_def)
  show "finite (list_tracked p)"
    using t(2) by simp
  show "currentMemory p = (\<Sum>t \<in> list_tracked p. segSize (fst t))"
    using tracks_memory [OF t(1)] sum_list_distinct_conv_sum_set [OF tracks_distinct [OF t(1)], of "segSize \<circ> fst"]
    by (simp add: t(2))
qed

interpretation fifo: bounded_policy segSize "fifo_notifyTouch_cs segSize" "fifo_notifyEvict segSize"
    "fifo_shrinkMemory_cs segSize" fifo_getCurrentMemory "list_inv segSize" list_tracked
    registered_segments dynamicMaxMemory
  for segSize
  unfolding fifo_getCurrentMemory_def [abs_def]
  by unfold_locales
    (rule fifo_touch_law list_evict_law list_evict_untracked_law list_shrink_law list_memory_law; assumption)+

interpretation lifo: bounded_policy segSize "lifo_notifyTouch_cs segSize" "lifo_notifyEvict segSize"
    "lifo_shrinkMemory_cs segSize" lifo_getCurrentMemory "list_inv segSize" list_tracked
    registered_segments dynamicMaxMemory
  for segSize
  unfolding lifo_getCurrentMemory_def [abs_def] lifo_shared
  by unfold_locales
    (rule lifo_touch_law list_evict_law list_evict_untracked_law list_shrink_law list_memory_law; assumption)+

section \<open>The window policy implements it\<close>

lemma window_evict_loop_too_many:
  assumes "wtracking segSize p fs ss" and "length ids < maxIdsToEvict"
    and "\<not> length ids + length (dropped (eltSize segSize (storageRegistry p)) (maxSlidingMemory p) ss) < maxIdsToEvict"
  shows "window_evict_loop segSize p ids =
    aborts (Fatal ''Reach maximum pages to evict due to optimization, cannot continue !'')"
  using assms
proof (induction ss arbitrary: p ids rule: rev_induct)
  case Nil
  then show ?case by simp
next
  case (snoc e ss)
  let ?f = "eltSize segSize (storageRegistry p)" and ?lim = "maxSlidingMemory p"
  note d = wtrackingD [OF snoc.prems(1)]
  have big: "\<not> sum_list (map ?f (ss @ [e])) \<le> ?lim"
    using snoc.prems(2,3) by (auto simp: dropped_fits simp del: map_append sum_list_append)
  let ?q = "p\<lparr>w_elts := removeFromList e (w_elts p),
    currentSlidingWindowMemory := sz_sub (currentSlidingWindowMemory p) (?f e)\<rparr>"
  have "e \<in> elts_of (storageRegistry p)"
    using d(5) by auto
  then obtain st i where st: "st \<in> set (storageRegistry p)" "i < ps_elementCount st" "e = elt st i"
    by (auto simp: elts_of_def)
  have own: "owner (storageRegistry p) e = (ps_mapping st, i)"
    and info: "getStorageInfo_entry e p = Inr st"
    using st owner_elt [OF d(1)] getStorageInfo_entry_elt [OF d(1)] by simp_all
  have idx: "(e - ps_elements st) div sizeof_ListElement = i"
    using st(3) by (simp add: elt_def)
  have over: "currentSlidingWindowMemory p > maxSlidingMemory p"
    using big d(9) by (simp add: weight_def)
  note pop = popPrev_ring [OF d(3)]
  show ?case
  proof (cases "Suc (length ids) < maxIdsToEvict")
    case False
    with over pop info show ?thesis
      by (subst window_evict_loop.simps) simp
  next
    case True
    have step: "window_evict_loop segSize p ids = window_evict_loop segSize ?q (ids @ [(ps_mapping st, i)])"
      using over pop info True own
      by (subst window_evict_loop.simps) (simp add: idx eltSize_def)
    have "remove1 e (ss @ [e]) = ss"
      using ring_distinct [OF d(3)] by (simp add: remove1_append)
    then have "wtracking segSize ?q fs ss"
      using wtracking_unlink_sliding(1) [OF snoc.prems(1), of e] by simp
    from snoc.IH [OF this, of "ids @ [(ps_mapping st, i)]"] step True snoc.prems(3) show ?thesis
      by (simp add: dropped_snoc [OF big])
  qed
qed

lemma window_evict_loop_wtracks:
  assumes t: "wtracks segSize p F S" and run: "window_evict_loop segSize p [] = returns (p', ids)"
  shows "ids = dropped (segSize \<circ> fst) (maxSlidingMemory p) S"
    and "wtracks segSize p' F (kept (segSize \<circ> fst) (maxSlidingMemory p) S)"
    and "\<exists>h n. p' = p\<lparr>w_elts := h, currentSlidingWindowMemory := n\<rparr>"
proof -
  let ?sts = "storageRegistry p"
  obtain fs ss where wt: "wtracking segSize p fs ss" and S: "S = map (owner ?sts) ss"
    using t by (auto simp: wtracks_def)
  have "eltSize segSize ?sts = (segSize \<circ> fst) \<circ> owner ?sts"
    by (simp add: fun_eq_iff eltSize_def)
  then have "length (dropped (eltSize segSize ?sts) (maxSlidingMemory p) ss)
      = length (dropped (segSize \<circ> fst) (maxSlidingMemory p) S)"
    by (simp add: S dropped_map)
  then have "length (dropped (segSize \<circ> fst) (maxSlidingMemory p) S) < maxIdsToEvict"
    using window_evict_loop_too_many [OF wt, of "[]"] run by force
  from window_shrinkMemory_cs_correct [OF t this] run
  show "ids = dropped (segSize \<circ> fst) (maxSlidingMemory p) S"
    and "wtracks segSize p' F (kept (segSize \<circ> fst) (maxSlidingMemory p) S)"
    and "\<exists>h n. p' = p\<lparr>w_elts := h, currentSlidingWindowMemory := n\<rparr>"
    by (auto simp: window_shrinkMemory_cs_def)
qed

definition window_inv :: "(mapping_ptr \<Rightarrow> size_t) \<Rightarrow> window_policy \<Rightarrow> bool" where
  "window_inv segSize p \<longleftrightarrow> (\<exists>F S. wtracks segSize p F S) \<and> usable p"

definition window_tracked :: "window_policy \<Rightarrow> (mapping_ptr \<times> nat) set" where
  "window_tracked p = tracked_segments (storageRegistry p) (w_elts p)"

lemma wtracks_facts:
  assumes "wtracks segSize p F S"
  shows "window_tracked p = set F \<union> set S" and "distinct F" and "distinct S" and "set F \<inter> set S = {}"
    and "window_getCurrentMemory p = sum_list (map (segSize \<circ> fst) F) + sum_list (map (segSize \<circ> fst) S)"
    and "window_getCurrentMemory p = currentFixedMemory p + currentSlidingWindowMemory p"
    and "set F \<union> set S \<subseteq> registered_segments p"
proof -
  let ?sts = "storageRegistry p"
  obtain fs ss where wt: "wtracking segSize p fs ss" and F: "F = map (owner ?sts) fs" and S: "S = map (owner ?sts) ss"
    using assms by (auto simp: wtracks_def)
  note d = wtrackingD [OF wt]
  have al: "isAlone (w_elts p) e \<longleftrightarrow> e \<notin> set fs \<union> set ss" if "e \<in> elts_of ?sts" for e
    using window_take_out(3) [OF wt] that by (auto simp: elts_of_def)
  show "window_tracked p = set F \<union> set S"
    unfolding window_tracked_def F S set_map image_Un [symmetric]
    by (rule tracked_segments_owner [OF d(1,5)]) (rule al)
  have inj: "inj_on (owner ?sts) (set fs \<union> set ss)"
    by (rule inj_on_subset [OF owner_inj [OF d(1)] d(5)])
  show "distinct F" and "distinct S"
    using ring_distinct [OF d(2)] ring_distinct [OF d(3)] inj
    by (auto simp: F S distinct_map intro: inj_on_subset)
  show "set F \<inter> set S = {}"
    using inj_on_image_Int [OF inj, of "set fs" "set ss"] d(4) by (simp add: F S)
  show sum: "window_getCurrentMemory p = currentFixedMemory p + currentSlidingWindowMemory p"
    using d(10) by (simp add: window_getCurrentMemory_def add.commute)
  then show "window_getCurrentMemory p = sum_list (map (segSize \<circ> fst) F) + sum_list (map (segSize \<circ> fst) S)"
    using d(8,9) by (simp add: weight_map F S)
  show "set F \<union> set S \<subseteq> registered_segments p"
    using d(5) owner_elt [OF d(1)] by (fastforce simp: F S registered_segments_def segs_def elts_of_def)
qed

lemma window_invE:
  assumes "window_inv segSize p"
  obtains F S where "wtracks segSize p F S" and "usable p"
  using assms by (auto simp: window_inv_def)

lemma window_touch_law:
  assumes inv: "window_inv segSize p" and reg: "(m, i) \<in> registered_segments p"
    and fits: "window_getCurrentMemory p + segSize m < W64"
    and run: "window_notifyTouch_cs segSize m i p = returns (p', ids, first, orig)"
  shows "window_inv segSize p' \<and> registered_segments p' = registered_segments p \<and>
    set ids \<subseteq> insert (m, i) (window_tracked p) \<and>
    window_tracked p' = insert (m, i) (window_tracked p) - set ids \<and> orig = window_getCurrentMemory p"
    and "dynamicMaxMemory p' = dynamicMaxMemory p \<and> policyQuota p' = policyQuota p"
proof -
  obtain F S where t: "wtracks segSize p F S" "usable p"
    using inv by (rule window_invE)
  note w = wtracks_facts [OF t(1)]
  define fixed where "fixed = (sum_list (map (segSize \<circ> fst) (remove1 (m, i) F)) < maxFixedMemory p)"
  define F2 where "F2 = (if fixed then (m, i) # remove1 (m, i) F else remove1 (m, i) F)"
  define S2 where "S2 = (if fixed then remove1 (m, i) S else (m, i) # remove1 (m, i) S)"
  obtain p5 where cs: "window_notifyTouch_cs segSize m i p = bindO (window_evict_loop segSize p5 [])
      (\<lambda>(p6, ids). returns (p6, ids, (m, i) \<notin> set F \<union> set S, window_getCurrentMemory p))"
    and t5: "wtracks segSize p5 F2 S2"
    and r: "storageRegistry p5 = storageRegistry p" "maxSlidingMemory p5 = maxSlidingMemory p"
      "maxFixedMemory p5 = maxFixedMemory p" "pol_local p5 = pol_local p"
      "dynamicMaxMemory p5 = dynamicMaxMemory p" "policyQuota p5 = policyQuota p"
    unfolding F2_def S2_def fixed_def
    by (rule window_notifyTouch_linked [OF t reg [unfolded registered_segments_def] fits [unfolded w(6)]])
  have ev: "window_evict_loop segSize p5 [] = returns (p', ids)" and orig: "orig = window_getCurrentMemory p"
    using run unfolding cs by (auto simp: bindO_def split: option.splits sum.splits)
  note e = window_evict_loop_wtracks [OF t5 ev]
  have p': "storageRegistry p' = storageRegistry p" "pol_local p' = pol_local p"
    using e(3) r by auto
  note w5 = wtracks_facts [OF t5] and w' = wtracks_facts [OF e(2)]
  have F2S2: "set F2 \<union> set S2 = insert (m, i) (set F \<union> set S)"
    using w(2,3) by (auto simp: F2_def S2_def)
  have "set ids \<subseteq> set S2"
    using set_kept_dropped [of "segSize \<circ> fst" "maxSlidingMemory p5" S2] e(1) by auto
  moreover have "set (kept (segSize \<circ> fst) (maxSlidingMemory p5) S2) = set S2 - set ids"
    using set_kept [OF w5(3)] e(1) by simp
  ultimately have "window_tracked p' = insert (m, i) (set F \<union> set S) - set ids"
    and "set ids \<subseteq> insert (m, i) (set F \<union> set S)"
    using w'(1) w5(4) F2S2 by auto
  moreover have "window_inv segSize p'"
    using e(2) t(2) p' by (auto simp: window_inv_def usable_def)
  moreover have "registered_segments p' = registered_segments p"
    using p' by (simp add: registered_segments_def)
  ultimately show "window_inv segSize p' \<and> registered_segments p' = registered_segments p \<and>
    set ids \<subseteq> insert (m, i) (window_tracked p) \<and>
    window_tracked p' = insert (m, i) (window_tracked p) - set ids \<and> orig = window_getCurrentMemory p"
    using w(1) orig by simp
  show "dynamicMaxMemory p' = dynamicMaxMemory p \<and> policyQuota p' = policyQuota p"
    using e(3) r by auto
qed

lemma window_evict_law:
  assumes "window_inv segSize p" and "(m, i) \<in> window_tracked p"
  shows "\<exists>p'. window_notifyEvict segSize m i p = Inr p' \<and> window_inv segSize p' \<and>
    registered_segments p' = registered_segments p \<and> window_tracked p' = window_tracked p - {(m, i)}"
proof -
  obtain F S where t: "wtracks segSize p F S" "usable p"
    using assms(1) by (rule window_invE)
  note w = wtracks_facts [OF t(1)]
  have mi: "(m, i) \<in> segs (storageRegistry p)" "(m, i) \<in> set F \<union> set S"
    using assms(2) w(1,7) by (auto simp: registered_segments_def)
  obtain p' where run: "window_notifyEvict segSize m i p = Inr p'"
    and tr: "wtracks segSize p' (remove1 (m, i) F) (remove1 (m, i) S)"
    and p': "storageRegistry p' = storageRegistry p" "pol_local p' = pol_local p"
    using window_notifyEvict_correct [OF t mi] by auto
  have "window_tracked p' = window_tracked p - {(m, i)}"
    using wtracks_facts(1) [OF tr] w(1,2,3) by auto
  then show ?thesis
    using run tr t(2) p' by (auto simp: window_inv_def usable_def registered_segments_def)
qed

lemma window_shrink_law:
  assumes "window_inv segSize p" and "window_shrinkMemory_cs segSize p = returns (p', ids)"
  shows "window_inv segSize p' \<and> registered_segments p' = registered_segments p \<and>
    set ids \<subseteq> window_tracked p \<and> window_tracked p' = window_tracked p - set ids"
    and "dynamicMaxMemory p' = dynamicMaxMemory p \<and> policyQuota p' = policyQuota p"
proof -
  obtain F S where t: "wtracks segSize p F S" "usable p"
    using assms(1) by (rule window_invE)
  note w = wtracks_facts [OF t(1)]
  note e = window_evict_loop_wtracks [OF t(1) assms(2) [unfolded window_shrinkMemory_cs_def]]
  have p': "storageRegistry p' = storageRegistry p" "pol_local p' = pol_local p"
    using e(3) by auto
  have "set ids \<subseteq> set S"
    using set_kept_dropped [of "segSize \<circ> fst" "maxSlidingMemory p" S] e(1) by auto
  moreover have "set (kept (segSize \<circ> fst) (maxSlidingMemory p) S) = set S - set ids"
    using set_kept [OF w(3)] e(1) by simp
  ultimately show "window_inv segSize p' \<and> registered_segments p' = registered_segments p \<and>
    set ids \<subseteq> window_tracked p \<and> window_tracked p' = window_tracked p - set ids"
    using wtracks_facts(1) [OF e(2)] w(1,4) e(2) t(2) p'
    by (auto simp: window_inv_def usable_def registered_segments_def)
  show "dynamicMaxMemory p' = dynamicMaxMemory p \<and> policyQuota p' = policyQuota p"
    using e(3) by auto
qed

lemma window_memory_law:
  assumes "window_inv segSize p"
  shows "window_tracked p \<subseteq> registered_segments p" and "finite (window_tracked p)"
    and "window_getCurrentMemory p = (\<Sum>t \<in> window_tracked p. segSize (fst t))"
proof -
  obtain F S where t: "wtracks segSize p F S"
    using assms by (rule window_invE)
  note w = wtracks_facts [OF t]
  show "window_tracked p \<subseteq> registered_segments p" and "finite (window_tracked p)"
    using w(1,7) by auto
  show "window_getCurrentMemory p = (\<Sum>t \<in> window_tracked p. segSize (fst t))"
    using w(5) sum_list_distinct_conv_sum_set [OF w(2), of "segSize \<circ> fst"]
      sum_list_distinct_conv_sum_set [OF w(3), of "segSize \<circ> fst"] w(4)
    by (simp add: w(1) sum.union_disjoint)
qed

lemma window_evict_untracked_law:
  assumes "window_inv segSize p" and "(m, i) \<in> registered_segments p" and "(m, i) \<notin> window_tracked p"
  shows "window_notifyEvict segSize m i p = Inl (AssertFailure ''cur.isInList()'')"
proof -
  obtain F S where t: "wtracks segSize p F S" "usable p"
    using assms(1) by (rule window_invE)
  show ?thesis
    using window_notifyEvict_untracked [OF t] wtracks_facts(1) [OF t(1)] assms(2,3)
    by (simp add: registered_segments_def)
qed

interpretation window: eviction_policy segSize "window_notifyTouch_cs segSize" "window_notifyEvict segSize"
    "window_shrinkMemory_cs segSize" window_getCurrentMemory "window_inv segSize" window_tracked
    registered_segments
  for segSize
  by unfold_locales
    (rule window_touch_law window_evict_law window_evict_untracked_law window_shrink_law window_memory_law;
      assumption)+

end
