(* ===== verification/InterProc.thy ===== *)
theory InterProc
  imports Prelude
begin

text \<open>
  The table shared by the processes of an inter-process quota,
  \<open>src/core/PolicyQuotaInterProc.cpp\<close>: the spin lock, the number of processes and their
  identifiers. \<open>alive pid\<close> tells whether \<open>kill(pid, 0)\<close> succeeds. The policies of one
  process and the update of its limits are in theory \<open>World\<close>.
\<close>

section \<open>State and operations\<close>

record interproc_shared =
  spinlock :: int
  processes :: int
  indexMax :: nat
  pids :: "nat \<Rightarrow> int"

abbreviation (input) "SHARED_TAB_ENTRIES \<equiv> 262140 :: nat"

text \<open>
  \<open>compare_exchange_weak\<close> may fail although the value is the expected one; \<open>spurious\<close> says
  whether it does. When it fails it stores the value it has read in \<open>expected\<close>. The results are
  the status, the new value of \<open>expected\<close> and the table. The counter is an \<open>int\<close> in the code, far
  above the number of entries of the table.
\<close>

definition compare_exchange_weak ::
  "bool \<Rightarrow> int \<Rightarrow> int \<Rightarrow> interproc_shared \<Rightarrow> bool \<times> int \<times> interproc_shared" where
  "compare_exchange_weak spurious expected desired sh =
     (if spinlock sh = expected \<and> \<not> spurious then (True, expected, sh\<lparr>spinlock := desired\<rparr>)
      else (False, spinlock sh, sh))"

text \<open>
  \<open>lock\<close> in its steps: the initial value of \<open>expected\<close>, the condition of the loop and the
  assignment in its body.
\<close>

definition lock_begin :: int where
  "lock_begin = 0"

definition lock_try :: "bool \<Rightarrow> int \<Rightarrow> interproc_shared \<Rightarrow> bool \<times> int \<times> interproc_shared" where
  "lock_try spurious expected sh = compare_exchange_weak spurious expected 1 sh"

definition lock_reset :: "int \<Rightarrow> int" where
  "lock_reset expected = 0"

definition interproc_unlock :: "bool \<Rightarrow> interproc_shared \<Rightarrow> interproc_shared result" where
  "interproc_unlock spurious sh =
     (let expected = 1; (status, expected', sh') = compare_exchange_weak spurious expected 0 sh
      in if \<not> status then Inl (Fatal ''Fail to unlock, got invalid value on the spinlock !'') else Inr sh')"

text \<open>The critical sections of the constructor, the destructor and \<open>signalAll\<close>.\<close>

definition find_slot :: "(int \<Rightarrow> bool) \<Rightarrow> interproc_shared \<Rightarrow> nat option" where
  "find_slot alive sh =
     find (\<lambda>i. pids sh i = 0 \<or> \<not> alive (pids sh i)) [0..<indexMax sh]"

definition interproc_enter :: "(int \<Rightarrow> bool) \<Rightarrow> int \<Rightarrow> interproc_shared \<Rightarrow> interproc_shared result" where
  "interproc_enter alive pid sh =
     (let sh1 = sh\<lparr>processes := processes sh + 1\<rparr>
      in case find_slot alive sh1 of
           Some i \<Rightarrow> Inr (sh1\<lparr>pids := (pids sh1)(i := pid)\<rparr>)
         | None \<Rightarrow>
             if \<not> indexMax sh1 < SHARED_TAB_ENTRIES then Inl (Undefined ''pids[indexMax]'')
             else Inr (sh1\<lparr>pids := (pids sh1)(indexMax sh1 := pid), indexMax := Suc (indexMax sh1)\<rparr>))"

text \<open>
  The destructor checks that it has found its identifier after the end of the critical section:
  the table is changed in any case, and the second result says whether the check succeeds.
\<close>

definition interproc_leave :: "int \<Rightarrow> interproc_shared \<Rightarrow> interproc_shared \<times> bool" where
  "interproc_leave pid sh =
     (let sh1 = sh\<lparr>processes := processes sh - 1\<rparr>
      in case find (\<lambda>i. pids sh1 i = pid) [0..<indexMax sh1] of
           Some i \<Rightarrow> (sh1\<lparr>pids := (pids sh1)(i := 0)\<rparr>, True)
         | None \<Rightarrow> (sh1, False))"

definition prune_slot :: "(int \<Rightarrow> bool) \<Rightarrow> nat \<Rightarrow> interproc_shared \<Rightarrow> interproc_shared" where
  "prune_slot alive i sh =
     (if pids sh i \<noteq> 0 \<and> \<not> alive (pids sh i)
      then sh\<lparr>processes := processes sh - 1, pids := (pids sh)(i := 0)\<rparr> else sh)"

definition prune :: "(int \<Rightarrow> bool) \<Rightarrow> interproc_shared \<Rightarrow> interproc_shared" where
  "prune alive sh = fold (prune_slot alive) [0..<indexMax sh] sh"

text \<open>\<open>signalAll\<close> returns the processes that are sent \<open>SIGEVICT\<close>, in order.\<close>

definition signalAll :: "(int \<Rightarrow> bool) \<Rightarrow> int \<Rightarrow> interproc_shared \<Rightarrow> interproc_shared \<times> int list" where
  "signalAll alive pid sh =
     (let sh' = prune alive sh
      in (sh', filter (\<lambda>p. p \<noteq> pid \<and> p \<noteq> 0) (map (pids sh') [0..<indexMax sh'])))"

definition perProcQuota :: "size_t \<Rightarrow> interproc_shared \<Rightarrow> size_t result" where
  "perProcQuota totalAllowed sh =
     (if \<not> processes sh > 0 then Inl (AssertFailure ''this->shared->processes > 0'')
      else Inr (totalAllowed div nat (processes sh)))"

section \<open>The slots of the table\<close>

definition slots :: "interproc_shared \<Rightarrow> nat set" where
  "slots sh = {i. i < indexMax sh \<and> pids sh i \<noteq> 0}"

lemma finite_slots [simp]: "finite (slots sh)"
  by (simp add: slots_def)

lemma find_upt_SomeD: "find P [0..<n] = Some i \<Longrightarrow> P i \<and> i < n \<and> (\<forall>j < i. \<not> P j)"
  by (auto simp: find_Some_iff)

lemma slots_fill:
  assumes "i < indexMax sh" and "pid \<noteq> 0"
  shows "slots (sh\<lparr>processes := n, pids := (pids sh)(i := pid)\<rparr>) = insert i (slots sh)"
  using assms by (auto simp: slots_def)

lemma slots_clear:
  "slots (sh\<lparr>processes := n, pids := (pids sh)(i := 0)\<rparr>) = slots sh - {i}"
  by (auto simp: slots_def)

lemma slots_extend:
  assumes "pid \<noteq> 0"
  shows "slots (sh\<lparr>processes := n, pids := (pids sh)(indexMax sh := pid), indexMax := Suc (indexMax sh)\<rparr>)
    = insert (indexMax sh) (slots sh)"
  using assms by (auto simp: slots_def)

lemma prune_slot_pids:
  "pids (prune_slot alive i sh) j = (if j = i \<and> \<not> alive (pids sh j) then 0 else pids sh j)"
  "indexMax (prune_slot alive i sh) = indexMax sh"
  by (auto simp: prune_slot_def)

section \<open>Mutual exclusion\<close>

text \<open>
  Any number of processes take and release the lock, one atomic step of one process at a time.
  A process spins with its local variable \<open>expected\<close>; after an attempt that failed it sleeps with
  the value the attempt has stored there. A process whose \<open>unlock\<close> fails aborts and leaves the
  lock as it is.
\<close>

datatype lock_pc = Outside | Spinning int | Failed int | Inside | Stopped

type_synonym lock_config = "interproc_shared \<times> (int \<Rightarrow> lock_pc)"

inductive lock_step :: "lock_config \<Rightarrow> lock_config \<Rightarrow> bool" where
  start: "pc p = Outside \<Longrightarrow> lock_step (sh, pc) (sh, pc(p := Spinning lock_begin))"
| acquire: "pc p = Spinning e \<Longrightarrow> lock_try spurious e sh = (True, e', sh') \<Longrightarrow> lock_step (sh, pc) (sh', pc(p := Inside))"
| miss: "pc p = Spinning e \<Longrightarrow> lock_try spurious e sh = (False, e', sh') \<Longrightarrow> lock_step (sh, pc) (sh', pc(p := Failed e'))"
| again: "pc p = Failed e \<Longrightarrow> lock_step (sh, pc) (sh, pc(p := Spinning (lock_reset e)))"
| work: "pc p = Inside \<Longrightarrow> spinlock sh' = spinlock sh \<Longrightarrow> lock_step (sh, pc) (sh', pc)"
| release: "pc p = Inside \<Longrightarrow> interproc_unlock spurious sh = Inr sh' \<Longrightarrow> lock_step (sh, pc) (sh', pc(p := Outside))"
| stop: "pc p = Inside \<Longrightarrow> interproc_unlock spurious sh = Inl err \<Longrightarrow> lock_step (sh, pc) (sh, pc(p := Stopped))"

inductive_cases lock_stepE: "lock_step (sh, pc) c'"

definition holders :: "(int \<Rightarrow> lock_pc) \<Rightarrow> int set" where
  "holders pc = {p. pc p = Inside \<or> pc p = Stopped}"

lemma holders_upd:
  "holders (pc(p := x)) = (if x = Inside \<or> x = Stopped then insert p (holders pc) else holders pc - {p})"
  by (auto simp: holders_def)

definition lock_inv :: "lock_config \<Rightarrow> bool" where
  "lock_inv = (\<lambda>(sh, pc). (\<forall>p e. pc p = Spinning e \<longrightarrow> e = 0) \<and>
     (spinlock sh = 0 \<and> holders pc = {} \<or> spinlock sh = 1 \<and> (\<exists>p. holders pc = {p})))"

lemma lock_step_inv:
  assumes "lock_step c c'" and "lock_inv c"
  shows "lock_inv c'"
  using assms
proof (induction rule: lock_step.induct)
  case (acquire pc p e spurious sh e' sh')
  then have "e = 0" by (auto simp: lock_inv_def)
  then have "spinlock sh = 0" and "spinlock sh' = 1"
    using acquire(2) by (auto simp: lock_try_def compare_exchange_weak_def split: if_splits)
  with acquire show ?case by (auto simp: lock_inv_def holders_upd)
next
  case (miss pc p e spurious sh e' sh')
  then have "p \<notin> holders pc" "sh' = sh"
    by (auto simp: holders_def lock_try_def compare_exchange_weak_def split: if_splits)
  with miss show ?case by (auto simp: lock_inv_def holders_upd)
next
  case (release pc p spurious sh sh')
  then have "p \<in> holders pc" "spinlock sh = 1" "spinlock sh' = 0"
    by (auto simp: holders_def interproc_unlock_def compare_exchange_weak_def split: if_splits)
  with release show ?case by (auto simp: lock_inv_def holders_upd)
next
  case (stop pc p spurious sh err)
  then have "p \<in> holders pc" by (simp add: holders_def)
  with stop show ?case by (auto simp: lock_inv_def holders_upd)
next
  case (start pc p sh)
  then have "p \<notin> holders pc" by (simp add: holders_def)
  with start show ?case by (auto simp: lock_inv_def holders_upd lock_begin_def)
next
  case (again pc p e sh)
  then have "p \<notin> holders pc" by (simp add: holders_def)
  with again show ?case by (auto simp: lock_inv_def holders_upd lock_reset_def)
qed (simp add: lock_inv_def)

lemma lock_run_inv: "lock_step\<^sup>*\<^sup>* c c' \<Longrightarrow> lock_inv c \<Longrightarrow> lock_inv c'"
  by (induction rule: rtranclp_induct) (auto intro: lock_step_inv)

end
