(* ===== verification/Ressources.thy ===== *)
theory Ressources
  imports CString "HOL-Library.List_Lexorder" "HOL-Library.Char_ord"
begin

text \<open>
  The sessions of the object store clients that a process opens on demand,
  \<open>src/uri/MeroRessource.cpp\<close>, \<open>src/uri/IocRessource.cpp\<close> and \<open>src/uri/RessourceHandler.cpp\<close>. The client
  libraries and how the library was built are the parameter \<open>session_lib\<close>.
\<close>

section \<open>State and operations\<close>

record 'f session_lib =
  sl_have_mero :: bool
  sl_have_ioc :: bool
  sl_mero_running :: "'f \<Rightarrow> bool"
  sl_mero_init :: "int \<Rightarrow> string \<Rightarrow> 'f \<Rightarrow> int \<times> 'f"
  sl_mero_free :: "'f \<Rightarrow> 'f"
  sl_ioc_init :: "string \<Rightarrow> string \<Rightarrow> 'f \<Rightarrow> addr \<times> 'f"
  sl_ioc_fini :: "addr \<Rightarrow> 'f \<Rightarrow> 'f"

text \<open>The static members of the two classes.\<close>

record ressource_statics =
  ioc_server :: string
  ioc_port :: string
  ioc_client :: addr
  ressourceFile :: string
  ressourceIndex :: int

definition initial_statics :: ressource_statics where
  "initial_statics =
     \<lparr>ioc_server = ''127.0.0.1'', ioc_port = ''8556'', ioc_client = 0,
      ressourceFile = ''mero_ressource_file.rc'', ressourceIndex = 0\<rparr>"

text \<open>An object of the class \<open>MeroRessource\<close> knows whether it started the client.\<close>

datatype ressource = IocRessource | MeroRessource bool

datatype ressource_kind = Ioc_kind | Mero_kind

definition newIocRessource ::
  "'f session_lib \<Rightarrow> ressource_statics \<Rightarrow> 'f \<Rightarrow> (ressource \<times> ressource_statics \<times> 'f) result" where
  "newIocRessource sl st f =
     (if sl_have_ioc sl \<and> ioc_client st = 0
      then (case sl_ioc_init sl (ioc_server st) (ioc_port st) f of (client, f1) \<Rightarrow>
              if \<not> client \<noteq> 0 then Inl (Fatal ''Failed to init IOC API !'')
              else Inr (IocRessource, st\<lparr>ioc_client := client\<rparr>, f1))
      else Inr (IocRessource, st, f))"

definition newMeroRessource ::
  "'f session_lib \<Rightarrow> ressource_statics \<Rightarrow> 'f \<Rightarrow> (ressource \<times> ressource_statics \<times> 'f) result" where
  "newMeroRessource sl st f =
     (if sl_have_mero sl \<and> \<not> sl_mero_running sl f
      then (case sl_mero_init sl (ressourceIndex st) (ressourceFile st) f of (res, f1) \<Rightarrow>
              if \<not> res = 0 then Inl (Fatal ''Failed to init mero/clovis API !'')
              else Inr (MeroRessource True, st, f1))
      else Inr (MeroRessource False, st, f))"

definition newRessource ::
  "'f session_lib \<Rightarrow> ressource_kind \<Rightarrow> ressource_statics \<Rightarrow> 'f \<Rightarrow> (ressource \<times> ressource_statics \<times> 'f) result" where
  "newRessource sl kind st f =
     (case kind of Ioc_kind \<Rightarrow> newIocRessource sl st f | Mero_kind \<Rightarrow> newMeroRessource sl st f)"

definition deleteIocRessource :: "'f session_lib \<Rightarrow> ressource_statics \<Rightarrow> 'f \<Rightarrow> ressource_statics \<times> 'f" where
  "deleteIocRessource sl st f =
     (if sl_have_ioc sl \<and> ioc_client st \<noteq> 0 then (st\<lparr>ioc_client := 0\<rparr>, sl_ioc_fini sl (ioc_client st) f) else (st, f))"

definition deleteMeroRessource :: "'f session_lib \<Rightarrow> bool \<Rightarrow> 'f \<Rightarrow> 'f" where
  "deleteMeroRessource sl hasInit f = (if sl_have_mero sl \<and> hasInit then sl_mero_free sl f else f)"

definition deleteRessource ::
  "'f session_lib \<Rightarrow> ressource \<Rightarrow> ressource_statics \<times> 'f \<Rightarrow> ressource_statics \<times> 'f" where
  "deleteRessource sl r = (\<lambda>(st, f).
     case r of IocRessource \<Rightarrow> deleteIocRessource sl st f
     | MeroRessource hasInit \<Rightarrow> (st, deleteMeroRessource sl hasInit f))"

definition setIocRessourceInfo :: "string \<Rightarrow> string \<Rightarrow> ressource_statics \<Rightarrow> ressource_statics" where
  "setIocRessourceInfo server port st = st\<lparr>ioc_server := server, ioc_port := port\<rparr>"

definition setMeroRessourceInfo :: "string \<Rightarrow> int \<Rightarrow> ressource_statics \<Rightarrow> ressource_statics" where
  "setMeroRessourceInfo file index st = st\<lparr>ressourceIndex := index, ressourceFile := file\<rparr>"

definition getIocClient :: "ressource_statics \<Rightarrow> addr" where
  "getIocClient st = ioc_client st"

text \<open>The destructor of the handler deletes the resources in the order of their names.\<close>

definition deleteRessourceHandler ::
  "'f session_lib \<Rightarrow> (string \<times> ressource) list \<Rightarrow> ressource_statics \<times> 'f \<Rightarrow> ressource_statics \<times> 'f" where
  "deleteRessourceHandler sl rm sf = fold (\<lambda>(name, r). deleteRessource sl r) rm sf"

text \<open>\<open>None\<close> when the resource exists already.\<close>

definition rh_checkRessource ::
  "'f session_lib \<Rightarrow> ressource_kind \<Rightarrow> string \<Rightarrow> (string \<times> ressource) list \<Rightarrow> ressource_statics \<Rightarrow> 'f
     \<Rightarrow> ((string \<times> ressource) list \<times> ressource_statics \<times> 'f \<times> ressource option) result" where
  "rh_checkRessource sl kind name rm st f =
     (case map_of rm name of
        Some r \<Rightarrow> Inr (rm, st, f, None)
      | None \<Rightarrow> bindE (newRessource sl kind st f) (\<lambda>(r, st1, f1). Inr (map_assign name r rm, st1, f1, Some r)))"

section \<open>Ownership of a session\<close>

text \<open>
  A session that the process had before is used and left open; one that the library started is
  closed with the handler, and only once.
\<close>

lemma newMeroRessource_owner:
  assumes "newMeroRessource sl st f = Inr (r, st', f')"
  shows "r = MeroRessource (sl_have_mero sl \<and> \<not> sl_mero_running sl f)"
    and "sl_mero_running sl f \<Longrightarrow> f' = f \<and> snd (deleteRessource sl r (st', f')) = f'"
    and "sl_have_mero sl \<Longrightarrow> \<not> sl_mero_running sl f \<Longrightarrow> deleteRessource sl r (st', f') = (st', sl_mero_free sl f')"
  using assms by (auto simp: newMeroRessource_def deleteRessource_def deleteMeroRessource_def split: if_splits prod.splits)

lemma newIocRessource_client:
  assumes "newIocRessource sl st f = Inr (r, st', f')" and "sl_have_ioc sl"
  shows "r = IocRessource" and "ioc_client st' \<noteq> 0"
    and "ioc_client (fst (deleteRessource sl r (st', f'))) = 0"
  using assms by (auto simp: newIocRessource_def deleteRessource_def deleteIocRessource_def split: if_splits prod.splits)

end
