(* ===== verification/World.thy ===== *)
theory World
  imports Eviction LibDriver InterProc MappingView Ressources
begin

text \<open>
  The objects of one process and the calls between them: mappings call their policies on a
  fault, policies evict segments through the mappings they belong to, quotas shrink policies.
  A pointer is a number, 0 for \<open>NULL\<close>; the world holds the live object behind each pointer,
  the storage and the address space. Using a deleted object is an error of its own.
\<close>

section \<open>Policies as objects\<close>

datatype policy_obj = PFifo list_policy | PLifo list_policy | PWindow window_policy

definition map_result :: "('a \<Rightarrow> 'b) \<Rightarrow> 'a result \<Rightarrow> 'b result" where
  "map_result f r = bindE r (\<lambda>x. Inr (f x))"

definition map_outcome :: "('a \<Rightarrow> 'b) \<Rightarrow> 'a outcome \<Rightarrow> 'b outcome" where
  "map_outcome f r = bindO r (\<lambda>x. returns (f x))"

definition pobj_getCurrentMemory :: "policy_obj \<Rightarrow> size_t" where
  "pobj_getCurrentMemory po =
     (case po of PFifo p \<Rightarrow> fifo_getCurrentMemory p | PLifo p \<Rightarrow> lifo_getCurrentMemory p
      | PWindow p \<Rightarrow> window_getCurrentMemory p)"

definition pobj_allocateElementStorage ::
  "(mapping_ptr \<Rightarrow> size_t) \<Rightarrow> mapping_ptr \<Rightarrow> size_t \<Rightarrow> policy_obj \<Rightarrow> policy_obj result" where
  "pobj_allocateElementStorage segSize m n po =
     (case po of
        PFifo p \<Rightarrow> map_result PFifo (fifo_allocateElementStorage segSize m n p)
      | PLifo p \<Rightarrow> map_result PLifo (lifo_allocateElementStorage segSize m n p)
      | PWindow p \<Rightarrow> map_result PWindow (window_allocateElementStorage segSize m n p))"

definition pobj_freeElementStorage ::
  "(mapping_ptr \<Rightarrow> size_t) \<Rightarrow> mapping_ptr \<Rightarrow> policy_obj \<Rightarrow> policy_obj result" where
  "pobj_freeElementStorage segSize m po =
     (case po of
        PFifo p \<Rightarrow> map_result PFifo (fifo_freeElementStorage segSize m p)
      | PLifo p \<Rightarrow> map_result PLifo (lifo_freeElementStorage segSize m p)
      | PWindow p \<Rightarrow> map_result PWindow (window_freeElementStorage segSize m p))"

definition pobj_notifyTouch_cs ::
  "(mapping_ptr \<Rightarrow> size_t) \<Rightarrow> mapping_ptr \<Rightarrow> nat \<Rightarrow> policy_obj
    \<Rightarrow> (policy_obj \<times> (mapping_ptr \<times> nat) list \<times> bool \<times> size_t) outcome" where
  "pobj_notifyTouch_cs segSize m i po =
     (case po of
        PFifo p \<Rightarrow> map_outcome (apfst PFifo) (fifo_notifyTouch_cs segSize m i p)
      | PLifo p \<Rightarrow> map_outcome (apfst PLifo) (lifo_notifyTouch_cs segSize m i p)
      | PWindow p \<Rightarrow> map_outcome (apfst PWindow) (window_notifyTouch_cs segSize m i p))"

definition pobj_notifyEvict ::
  "(mapping_ptr \<Rightarrow> size_t) \<Rightarrow> mapping_ptr \<Rightarrow> nat \<Rightarrow> policy_obj \<Rightarrow> policy_obj result" where
  "pobj_notifyEvict segSize m i po =
     (case po of
        PFifo p \<Rightarrow> map_result PFifo (fifo_notifyEvict segSize m i p)
      | PLifo p \<Rightarrow> map_result PLifo (lifo_notifyEvict segSize m i p)
      | PWindow p \<Rightarrow> map_result PWindow (window_notifyEvict segSize m i p))"

definition pobj_shrinkMemory_cs ::
  "(mapping_ptr \<Rightarrow> size_t) \<Rightarrow> policy_obj \<Rightarrow> (policy_obj \<times> (mapping_ptr \<times> nat) list) outcome" where
  "pobj_shrinkMemory_cs segSize po =
     (case po of
        PFifo p \<Rightarrow> map_outcome (apfst PFifo) (fifo_shrinkMemory_cs segSize p)
      | PLifo p \<Rightarrow> map_outcome (apfst PLifo) (lifo_shrinkMemory_cs segSize p)
      | PWindow p \<Rightarrow> map_outcome (apfst PWindow) (window_shrinkMemory_cs segSize p))"

text \<open>The methods of the base class, on any policy.\<close>

definition pobj_setDynamicMaxMemory :: "size_t \<Rightarrow> policy_obj \<Rightarrow> policy_obj" where
  "pobj_setDynamicMaxMemory n po =
     (case po of PFifo p \<Rightarrow> PFifo (setDynamicMaxMemory n p) | PLifo p \<Rightarrow> PLifo (setDynamicMaxMemory n p)
      | PWindow p \<Rightarrow> PWindow (setDynamicMaxMemory n p))"

definition pobj_setQuota :: "quota_ptr \<Rightarrow> policy_obj \<Rightarrow> policy_obj result" where
  "pobj_setQuota q po =
     (case po of PFifo p \<Rightarrow> map_result PFifo (setQuota q p) | PLifo p \<Rightarrow> map_result PLifo (setQuota q p)
      | PWindow p \<Rightarrow> map_result PWindow (setQuota q p))"

definition pobj_forceUsingGroupMutex :: "addr \<Rightarrow> policy_obj \<Rightarrow> policy_obj" where
  "pobj_forceUsingGroupMutex mutex po =
     (case po of PFifo p \<Rightarrow> PFifo (forceUsingGroupMutex mutex p) | PLifo p \<Rightarrow> PLifo (forceUsingGroupMutex mutex p)
      | PWindow p \<Rightarrow> PWindow (forceUsingGroupMutex mutex p))"

definition pobj_getLocalMutex :: "policy_obj \<Rightarrow> addr" where
  "pobj_getLocalMutex po =
     (case po of PFifo p \<Rightarrow> getLocalMutex p | PLifo p \<Rightarrow> getLocalMutex p | PWindow p \<Rightarrow> getLocalMutex p)"

definition pobj_getStaticMaxMemory :: "policy_obj \<Rightarrow> size_t" where
  "pobj_getStaticMaxMemory po =
     (case po of PFifo p \<Rightarrow> getStaticMaxMemory p | PLifo p \<Rightarrow> getStaticMaxMemory p
      | PWindow p \<Rightarrow> getStaticMaxMemory p)"

definition pobj_policyQuota :: "policy_obj \<Rightarrow> quota_ptr" where
  "pobj_policyQuota po =
     (case po of PFifo p \<Rightarrow> policyQuota p | PLifo p \<Rightarrow> policyQuota p | PWindow p \<Rightarrow> policyQuota p)"

section \<open>The world\<close>

text \<open>
  A quota is local to the process, or shares the memory of the quota \<open>name\<close> with other
  processes, of which it knows the total. \<open>q_policies\<close> is the list of registered policies.
\<close>

record quota =
  q_staticMaxMemory :: size_t
  q_policies :: "policy_ptr list"
  q_interproc :: "(string \<times> size_t) option"

record 'f world =
  w_mappings :: "mapping_ptr \<Rightarrow> mapping option"
  w_policies :: "policy_ptr \<Rightarrow> policy_obj option"
  w_quotas :: "quota_ptr \<Rightarrow> quota option"
  w_drivers :: "addr \<Rightarrow> 'f lib_driver option"
  w_store :: "'f lib_store"
  w_vm :: vm
  w_shm :: "string \<Rightarrow> interproc_shared option"
  w_interproc :: quota_ptr

text \<open>What the process is given by the system.\<close>

record 'f sys =
  sy_env :: "'f lib_env"
  sy_kmmap :: kernel_mmap
  sy_cpus :: nat
  sy_pid :: int
  sy_alive :: "int \<Rightarrow> bool"
  sy_sessions :: "'f session_lib"

definition deref :: "(nat \<Rightarrow> 'a option) \<Rightarrow> nat \<Rightarrow> 'a result" where
  "deref f p = (case f p of None \<Rightarrow> Inl (Undefined ''dangling pointer'') | Some x \<Rightarrow> Inr x)"

definition world_segSize :: "'f world \<Rightarrow> mapping_ptr \<Rightarrow> size_t" where
  "world_segSize w m = (case w_mappings w m of None \<Rightarrow> 0 | Some mp \<Rightarrow> getSegmentSize mp)"

definition put_mapping :: "mapping_ptr \<Rightarrow> mapping \<Rightarrow> 'f world \<Rightarrow> 'f world" where
  "put_mapping m mp w = w\<lparr>w_mappings := (w_mappings w)(m \<mapsto> mp)\<rparr>"

definition put_policy :: "policy_ptr \<Rightarrow> policy_obj \<Rightarrow> 'f world \<Rightarrow> 'f world" where
  "put_policy p po w = w\<lparr>w_policies := (w_policies w)(p \<mapsto> po)\<rparr>"

definition put_quota :: "quota_ptr \<Rightarrow> quota \<Rightarrow> 'f world \<Rightarrow> 'f world" where
  "put_quota q qo w = w\<lparr>w_quotas := (w_quotas w)(q \<mapsto> qo)\<rparr>"

definition put_effects :: "'f lib_store \<Rightarrow> vm \<Rightarrow> 'f world \<Rightarrow> 'f world" where
  "put_effects s v w = w\<lparr>w_store := s, w_vm := v\<rparr>"

section \<open>Eviction\<close>

definition policy_notifyEvict ::
  "policy_ptr \<Rightarrow> mapping_ptr \<Rightarrow> nat \<Rightarrow> 'f world \<Rightarrow> 'f world result" where
  "policy_notifyEvict p m i w =
     bindE (deref (w_policies w) p) (\<lambda>po.
       bindE (pobj_notifyEvict (world_segSize w) m i po) (\<lambda>po'. Inr (put_policy p po' w)))"

definition mapping_evict ::
  "'f sys \<Rightarrow> policy_ptr \<Rightarrow> mapping_ptr \<times> nat \<Rightarrow> 'f world \<Rightarrow> 'f world result" where
  "mapping_evict sy sourcePolicy = (\<lambda>(m, segmentId) w.
     bindE (deref (w_mappings w) m) (\<lambda>mp.
       bindE (if sourcePolicy \<noteq> localPolicy mp \<and> localPolicy mp \<noteq> 0
              then policy_notifyEvict (localPolicy mp) m segmentId w else Inr w) (\<lambda>w1.
         bindE (if sourcePolicy \<noteq> globalPolicy mp \<and> globalPolicy mp \<noteq> 0
                then policy_notifyEvict (globalPolicy mp) m segmentId w1 else Inr w1) (\<lambda>w2.
           bindE (deref (w_drivers w2) (mp_driver mp)) (\<lambda>d.
             bindE (evict_flush (lib_ops (sy_env sy)) d segmentId mp (w_store w2) (w_vm w2))
               (\<lambda>(mp', s', v'). Inr (put_effects s' v' (put_mapping m mp' w2))))))))"

text \<open>The loops at the end of \<open>notifyTouch\<close> and \<open>shrinkMemory\<close>.\<close>

definition evict_ids ::
  "'f sys \<Rightarrow> policy_ptr \<Rightarrow> (mapping_ptr \<times> nat) list \<Rightarrow> 'f world \<Rightarrow> 'f world result" where
  "evict_ids sy p ids w = foldE (mapping_evict sy p) ids w"

definition policy_shrinkMemory :: "'f sys \<Rightarrow> policy_ptr \<Rightarrow> 'f world \<Rightarrow> 'f world outcome" where
  "policy_shrinkMemory sy p w =
     bindO (Some (deref (w_policies w) p)) (\<lambda>po.
       bindO (pobj_shrinkMemory_cs (world_segSize w) po) (\<lambda>(po', ids).
         Some (evict_ids sy p ids (put_policy p po' w))))"

section \<open>Quotas\<close>

fun getUsedMemory_loop :: "'f world \<Rightarrow> policy_ptr list \<Rightarrow> size_t \<Rightarrow> size_t result" where
  "getUsedMemory_loop w [] totMem = Inr totMem"
| "getUsedMemory_loop w (p # ps) totMem =
     bindE (deref (w_policies w) p) (\<lambda>po.
       getUsedMemory_loop w ps (sz_add totMem (pobj_getCurrentMemory po)))"

definition getUsedMemory :: "policy_ptr list \<Rightarrow> 'f world \<Rightarrow> size_t result" where
  "getUsedMemory ps w = getUsedMemory_loop w ps 0"

fun polMax_loop :: "'f world \<Rightarrow> policy_ptr list \<Rightarrow> policy_ptr \<Rightarrow> policy_ptr result" where
  "polMax_loop w [] polMax = Inr polMax"
| "polMax_loop w (p # ps) polMax =
     bindE (deref (w_policies w) p) (\<lambda>po.
       bindE (deref (w_policies w) polMax) (\<lambda>pm.
         polMax_loop w ps
           (if pobj_getCurrentMemory po > pobj_getCurrentMemory pm then p else polMax)))"

text \<open>One round of the reduction: the new total and the world.\<close>

definition quota_reduce ::
  "'f sys \<Rightarrow> policy_ptr list \<Rightarrow> size_t \<Rightarrow> 'f world \<Rightarrow> (size_t \<times> 'f world) outcome" where
  "quota_reduce sy ps averageMem w =
     bindO (Some (polMax_loop w ps (hd ps))) (\<lambda>polMax.
       bindO (Some (deref (w_policies w) polMax)) (\<lambda>pm.
         let limit = sz_add averageMem (sz_sub (pobj_getCurrentMemory pm) averageMem div 2)
         in bindO (policy_shrinkMemory sy polMax
                     (put_policy polMax (pobj_setDynamicMaxMemory limit pm) w)) (\<lambda>w'.
              bindO (Some (getUsedMemory ps w')) (\<lambda>totMem. returns (totMem, w')))))"

partial_function (option) quota_reduce_loop ::
  "'f sys \<Rightarrow> policy_ptr list \<Rightarrow> size_t \<Rightarrow> size_t \<Rightarrow> size_t \<Rightarrow> 'f world \<Rightarrow> 'f world outcome" where
  "quota_reduce_loop sy ps staticMax averageMem totMem w =
     (if totMem > staticMax
      then (case quota_reduce sy ps averageMem w of
              None \<Rightarrow> None
            | Some r \<Rightarrow>
                (case r of
                   Inl e \<Rightarrow> aborts e
                 | Inr (totMem', w') \<Rightarrow> quota_reduce_loop sy ps staticMax averageMem totMem' w'))
      else returns w)"

definition quotaLocal_update :: "'f sys \<Rightarrow> quota_ptr \<Rightarrow> 'f world \<Rightarrow> 'f world outcome" where
  "quotaLocal_update sy q w =
     bindO (Some (deref (w_quotas w) q)) (\<lambda>qo.
       let ps = q_policies qo; cntPolicies = length ps
       in if cntPolicies = 0 then returns w
          else bindO (Some (getUsedMemory ps w)) (\<lambda>totMem.
            quota_reduce_loop sy ps (q_staticMaxMemory qo) (q_staticMaxMemory qo div cntPolicies) totMem w))"

definition quotaInterProc_update :: "'f sys \<Rightarrow> quota_ptr \<Rightarrow> 'f world \<Rightarrow> 'f world outcome" where
  "quotaInterProc_update sy q w =
     bindO (Some (deref (w_quotas w) q)) (\<lambda>qo.
       case q_interproc qo of
         None \<Rightarrow> aborts (Undefined ''not an inter-process quota'')
       | Some (name, totalAllowed) \<Rightarrow>
           (case w_shm w name of
              None \<Rightarrow> aborts (Undefined ''shared memory not mapped'')
            | Some sh \<Rightarrow>
                bindO (Some (perProcQuota totalAllowed sh)) (\<lambda>quota.
                  quotaLocal_update sy q (put_quota q (qo\<lparr>q_staticMaxMemory := quota\<rparr>) w))))"

text \<open>The virtual method \<open>update\<close>.\<close>

definition quota_update :: "'f sys \<Rightarrow> quota_ptr \<Rightarrow> 'f world \<Rightarrow> 'f world outcome" where
  "quota_update sy q w =
     bindO (Some (deref (w_quotas w) q)) (\<lambda>qo.
       if q_interproc qo = None then quotaLocal_update sy q w else quotaInterProc_update sy q w)"

definition updateNotifyLimit :: "quota_ptr \<Rightarrow> 'f world \<Rightarrow> 'f world result" where
  "updateNotifyLimit q w =
     bindE (deref (w_quotas w) q) (\<lambda>qo.
       foldE (\<lambda>p w. bindE (deref (w_policies w) p) (\<lambda>po.
                Inr (put_policy p (pobj_setDynamicMaxMemory (q_staticMaxMemory qo) po) w)))
         (q_policies qo) w)"

definition quota_registerPolicy :: "'f sys \<Rightarrow> quota_ptr \<Rightarrow> policy_ptr \<Rightarrow> 'f world \<Rightarrow> 'f world outcome" where
  "quota_registerPolicy sy q p w =
     (if \<not> p \<noteq> 0 then aborts (Fatal ''Invalid NULL policy recived for quota registration !'')
      else bindO (Some (bindE (deref (w_quotas w) q) (\<lambda>qo.
             bindE (deref (w_policies w) p) (\<lambda>po.
               bindE (pobj_setQuota q po) (\<lambda>po'.
                 updateNotifyLimit q
                   (put_policy p po' (put_quota q (qo\<lparr>q_policies := q_policies qo @ [p]\<rparr>) w)))))))
           (quota_update sy q))"

definition quota_unregisterPolicy :: "'f sys \<Rightarrow> quota_ptr \<Rightarrow> policy_ptr \<Rightarrow> 'f world \<Rightarrow> 'f world outcome" where
  "quota_unregisterPolicy sy q p w =
     (if \<not> p \<noteq> 0 then aborts (Fatal ''Invalid NULL policy recived for quota de-registration !'')
      else bindO (Some (bindE (deref (w_quotas w) q) (\<lambda>qo.
             if \<not> p \<in> set (q_policies qo)
             then Inl (Fatal ''Did not found the policy to remove in the registed list !'')
             else bindE (deref (w_policies w) p) (\<lambda>po.
               bindE (pobj_setQuota 0 po) (\<lambda>po'.
                 updateNotifyLimit q
                   (put_policy p po' (put_quota q (qo\<lparr>q_policies := remove1 p (q_policies qo)\<rparr>) w)))))))
           (quota_update sy q))"

definition newPolicyQuotaLocal :: "quota_ptr \<Rightarrow> size_t \<Rightarrow> 'f world \<Rightarrow> 'f world" where
  "newPolicyQuotaLocal q staticMax w =
     put_quota q \<lparr>q_staticMaxMemory = staticMax, q_policies = [], q_interproc = None\<rparr> w"

text \<open>Opening a shared memory that does not exist creates it filled with zeroes.\<close>

definition openShm :: "string \<Rightarrow> 'f world \<Rightarrow> interproc_shared" where
  "openShm name w =
     (case w_shm w name of
        Some sh \<Rightarrow> sh
      | None \<Rightarrow> \<lparr>spinlock = 0, processes = 0, indexMax = 0, pids = \<lambda>_. 0\<rparr>)"

definition newPolicyQuotaInterProc ::
  "'f sys \<Rightarrow> quota_ptr \<Rightarrow> string \<Rightarrow> size_t \<Rightarrow> 'f world \<Rightarrow> ('f world \<times> int list) outcome" where
  "newPolicyQuotaInterProc sy q name staticMax w =
     (let name' = ''/'' @ name
      in if \<not> w_interproc w = 0
         then aborts (Fatal ''Current basic implementation does not allow to instantiate mulitple inter-proc policy quota !'')
         else bindO (Some (interproc_enter (sy_alive sy) (sy_pid sy) (openShm name' w))) (\<lambda>sh1.
           let (sh2, signalled) = signalAll (sy_alive sy) (sy_pid sy) sh1;
               w1 = put_quota q \<lparr>q_staticMaxMemory = staticMax, q_policies = [],
                                  q_interproc = Some (name', staticMax)\<rparr>
                      (w\<lparr>w_shm := (w_shm w)(name' \<mapsto> sh2), w_interproc := q\<rparr>)
           in bindO (quota_update sy q w1) (\<lambda>w2. returns (w2, signalled))))"

text \<open>
  A process that does not find its identifier aborts; what the other processes then see of the
  table is the first result of \<open>interproc_leave\<close>.
\<close>

definition deletePolicyQuota :: "'f sys \<Rightarrow> quota_ptr \<Rightarrow> 'f world \<Rightarrow> 'f world result" where
  "deletePolicyQuota sy q w =
     bindE (deref (w_quotas w) q) (\<lambda>qo.
       bindE (case q_interproc qo of
                None \<Rightarrow> Inr w
              | Some (name, _) \<Rightarrow>
                  (case interproc_leave (sy_pid sy) (openShm name w) of (sh, found) \<Rightarrow>
                     if \<not> found then Inl (Fatal ''Fail to found the local PID in the shared->pid[] vector !'')
                     else Inr (w\<lparr>w_shm := (w_shm w)(name \<mapsto> sh), w_interproc := 0\<rparr>)))
         (\<lambda>w1. if \<not> q_policies qo = []
               then Inl (Fatal ''Try to delete a policy quota which still have policies registered to it !'')
               else Inr (w1\<lparr>w_quotas := (w_quotas w1)(q := None)\<rparr>)))"

text \<open>The handler of \<open>SIGEVICT\<close>.\<close>

definition sigHandler :: "'f sys \<Rightarrow> 'f world \<Rightarrow> 'f world outcome" where
  "sigHandler sy w = (if w_interproc w \<noteq> 0 then quota_update sy (w_interproc w) w else returns w)"

section \<open>Touching a segment\<close>

definition policy_notifyTouch ::
  "'f sys \<Rightarrow> policy_ptr \<Rightarrow> mapping_ptr \<Rightarrow> nat \<Rightarrow> 'f world \<Rightarrow> 'f world outcome" where
  "policy_notifyTouch sy p m i w =
     bindO (Some (deref (w_policies w) p)) (\<lambda>po.
       bindO (pobj_notifyTouch_cs (world_segSize w) m i po) (\<lambda>(po', ids, isFirstAccess, memOrig).
         bindO (Some (evict_ids sy p ids (put_policy p po' w))) (\<lambda>w1.
           bindO (Some (deref (w_policies w1) p)) (\<lambda>po1.
             let memDelta = ssize (sz_sub (pobj_getCurrentMemory po1) memOrig)
             in if isFirstAccess \<and> pobj_policyQuota po1 \<noteq> 0 \<and> memDelta > 0
                then quota_update sy (pobj_policyQuota po1) w1 else returns w1))))"

definition onSegmentationFault ::
  "'f sys \<Rightarrow> mapping_ptr \<Rightarrow> addr \<Rightarrow> bool \<Rightarrow> 'f world \<Rightarrow> 'f world outcome" where
  "onSegmentationFault sy m address isWrite w =
     bindO (Some (bindE (deref (w_mappings w) m) (\<lambda>mp.
         bindE (deref (w_drivers w) (mp_driver mp)) (\<lambda>d.
           bindE (onSegmentationFault_cs (lib_ops (sy_env sy)) (sy_kmmap sy) d address isWrite mp
                    (w_store w) (w_vm w)) (\<lambda>(mp', s', v', touched).
             Inr (put_effects s' v' (put_mapping m mp' w), mp', touched))))))
       (\<lambda>(w1, mp', touched).
          case touched of
            None \<Rightarrow> returns w1
          | Some (segmentId, oldStatus) \<Rightarrow>
              bindO (if localPolicy mp' \<noteq> 0 then policy_notifyTouch sy (localPolicy mp') m segmentId w1
                     else returns w1)
                (\<lambda>w2. if globalPolicy mp' \<noteq> 0 then policy_notifyTouch sy (globalPolicy mp') m segmentId w2
                       else returns w2))"

section \<open>Construction and destruction of a mapping\<close>

definition newMapping ::
  "'f sys \<Rightarrow> mapping_ptr \<Rightarrow> addr \<Rightarrow> size_t \<Rightarrow> size_t \<Rightarrow> size_t \<Rightarrow> nat \<Rightarrow> nat \<Rightarrow> addr \<Rightarrow> policy_ptr \<Rightarrow> policy_ptr
    \<Rightarrow> 'f world \<Rightarrow> 'f world result" where
  "newMapping sy m addr sz segSz offset prot flags driver lpol gpol w =
     bindE (deref (w_drivers w) driver) (\<lambda>d.
       bindE (newMapping_core (lib_ops (sy_env sy)) (sy_kmmap sy) (sy_cpus sy) d addr sz segSz offset prot flags
                driver lpol gpol (w_store w) (w_vm w)) (\<lambda>(mp, s', v').
         let w1 = put_effects s' v' (put_mapping m mp w)
         in bindE (if lpol \<noteq> 0 \<and> gpol \<noteq> 0
                   then bindE (deref (w_policies w1) lpol) (\<lambda>lp.
                          bindE (deref (w_policies w1) gpol) (\<lambda>gp.
                            Inr (put_policy lpol (pobj_forceUsingGroupMutex (pobj_getLocalMutex gp) lp) w1)))
                   else Inr w1) (\<lambda>w2.
              bindE (if lpol \<noteq> 0
                     then bindE (deref (w_policies w2) lpol) (\<lambda>lp.
                            bindE (pobj_allocateElementStorage (world_segSize w2) m (segments mp) lp) (\<lambda>lp'.
                              Inr (put_policy lpol lp' w2)))
                     else Inr w2) (\<lambda>w3.
                if gpol \<noteq> 0
                then bindE (deref (w_policies w3) gpol) (\<lambda>gp.
                       bindE (pobj_allocateElementStorage (world_segSize w3) m (segments mp) gp) (\<lambda>gp'.
                         Inr (put_policy gpol gp' w3)))
                else Inr w3))))"

definition policy_delete :: "'f sys \<Rightarrow> policy_ptr \<Rightarrow> 'f world \<Rightarrow> 'f world outcome" where
  "policy_delete sy p w =
     bindO (Some (deref (w_policies w) p)) (\<lambda>po.
       bindO (if pobj_policyQuota po \<noteq> 0 then quota_unregisterPolicy sy (pobj_policyQuota po) p w
              else returns w)
         (\<lambda>w1. returns (w1\<lparr>w_policies := (w_policies w1)(p := None)\<rparr>)))"

definition policy_freeElementStorage :: "policy_ptr \<Rightarrow> mapping_ptr \<Rightarrow> 'f world \<Rightarrow> 'f world result" where
  "policy_freeElementStorage p m w =
     (if p \<noteq> 0
      then bindE (deref (w_policies w) p) (\<lambda>po.
             bindE (pobj_freeElementStorage (world_segSize w) m po) (\<lambda>po'. Inr (put_policy p po' w)))
      else Inr w)"

definition deleteMapping :: "'f sys \<Rightarrow> mapping_ptr \<Rightarrow> 'f world \<Rightarrow> 'f world outcome" where
  "deleteMapping sy m w =
     bindO (Some (bindE (deref (w_mappings w) m) (\<lambda>mp.
         bindE (deref (w_drivers w) (mp_driver mp)) (\<lambda>d.
           bindE (deleteMapping_core (lib_ops (sy_env sy)) d mp (w_store w) (w_vm w)) (\<lambda>(mp', s', v').
             bindE (policy_freeElementStorage (localPolicy mp) m (put_effects s' v' (put_mapping m mp' w))) (\<lambda>w1.
               bindE (policy_freeElementStorage (globalPolicy mp) m w1) (\<lambda>w2. Inr (w2, mp, d))))))))
       (\<lambda>(w2, mp, d).
          bindO (if localPolicy mp \<noteq> 0 then policy_delete sy (localPolicy mp) w2 else returns w2) (\<lambda>w3.
            let w4 = (if lib_hasAutoclean d
                      then w3\<lparr>w_drivers := (w_drivers w3)(mp_driver mp := None),
                              w_store := lib_delete (sy_env sy) d (w_store w3)\<rparr>
                      else w3)
            in returns (w4\<lparr>w_mappings := (w_mappings w4)(m := None)\<rparr>)))"

end
