(* ===== verification/PolicyHistory.thy ===== *)
theory PolicyHistory
  imports LifoPolicy
begin

text \<open>
  The whole life of a FIFO or LIFO policy: any sequence of the calls a policy receives,
  from its constructor on, against a specification that is a plain list of segments. The
  ring of list elements, the registry of element arrays and the memory counter of the code
  are compared with that list after every call, as are the segments handed over for
  eviction.
\<close>

section \<open>The calls and their execution\<close>

datatype pol_op =
    Alloc mapping_ptr nat
  | Free mapping_ptr
  | Touch mapping_ptr nat
  | Evict mapping_ptr nat
  | Shrink size_t

text \<open>
  One call on the code's side, given the two methods in which the policies differ. \<open>Shrink\<close> is what a quota does to its policies: set the dynamic limit, then shrink. The result
  carries the segments to evict.
\<close>

fun pol_exec ::
  "(mapping_ptr \<Rightarrow> nat \<Rightarrow> list_policy \<Rightarrow> (list_policy \<times> (mapping_ptr \<times> nat) list \<times> bool \<times> size_t) outcome)
    \<Rightarrow> (mapping_ptr \<Rightarrow> size_t) \<Rightarrow> pol_op \<Rightarrow> list_policy
    \<Rightarrow> (list_policy \<times> (mapping_ptr \<times> nat) list) outcome" where
  "pol_exec touch segSize (Alloc m n) p =
     Some (bindE (fifo_allocateElementStorage segSize m n p) (\<lambda>p'. Inr (p', [])))"
| "pol_exec touch segSize (Free m) p =
     Some (bindE (fifo_freeElementStorage segSize m p) (\<lambda>p'. Inr (p', [])))"
| "pol_exec touch segSize (Touch m i) p =
     bindO (touch m i p) (\<lambda>(p', ids, first, orig). returns (p', ids))"
| "pol_exec touch segSize (Evict m i) p =
     Some (bindE (fifo_notifyEvict segSize m i p) (\<lambda>p'. Inr (p', [])))"
| "pol_exec touch segSize (Shrink limit) p =
     fifo_shrinkMemory_cs segSize (setDynamicMaxMemory limit p)"

fun pol_run ::
  "(mapping_ptr \<Rightarrow> nat \<Rightarrow> list_policy \<Rightarrow> (list_policy \<times> (mapping_ptr \<times> nat) list \<times> bool \<times> size_t) outcome)
    \<Rightarrow> (mapping_ptr \<Rightarrow> size_t) \<Rightarrow> pol_op list \<Rightarrow> list_policy
    \<Rightarrow> (list_policy \<times> (mapping_ptr \<times> nat) list) outcome" where
  "pol_run touch segSize [] p = returns (p, [])"
| "pol_run touch segSize (c # cs) p =
     bindO (pol_exec touch segSize c p) (\<lambda>(p', ids).
       bindO (pol_run touch segSize cs p') (\<lambda>(p'', ids'). returns (p'', ids @ ids')))"

section \<open>The specification\<close>

text \<open>
  The state of the specification: the limits, the registered mappings with their number
  of segments, and the resident segments in the order in which they will leave from the
  end. \<open>None\<close> is a call the code refuses, or one whose byte count leaves 64 bits.
\<close>

record queue =
  q_local :: bool
  q_static :: nat
  q_limit :: nat
  q_maps :: "(mapping_ptr \<times> nat) list"
  q_segs :: "(mapping_ptr \<times> nat) list"

definition fifo_order ::
  "(mapping_ptr \<Rightarrow> nat) \<Rightarrow> nat \<Rightarrow> mapping_ptr \<times> nat \<Rightarrow> (mapping_ptr \<times> nat) list
    \<Rightarrow> ((mapping_ptr \<times> nat) list \<times> (mapping_ptr \<times> nat) list) option" where
  "fifo_order segSize limit t ts =
     Some (kept (segSize \<circ> fst) limit (touch_list t ts), dropped (segSize \<circ> fst) limit (touch_list t ts))"

definition lifo_order ::
  "(mapping_ptr \<Rightarrow> nat) \<Rightarrow> nat \<Rightarrow> mapping_ptr \<times> nat \<Rightarrow> (mapping_ptr \<times> nat) list
    \<Rightarrow> ((mapping_ptr \<times> nat) list \<times> (mapping_ptr \<times> nat) list) option" where
  "lifo_order segSize limit t ts =
     (let rest = remove1 t ts; room = limit - segSize (fst t)
      in if segSize (fst t) \<le> limit
         then Some (kept (segSize \<circ> fst) room rest @ [t], dropped (segSize \<circ> fst) room rest)
         else None)"

definition few :: "('a \<times> 'b list) option \<Rightarrow> ('a \<times> 'b list) option" where
  "few r = (case r of Some (x, ids) \<Rightarrow> if length ids < maxIdsToEvict then Some (x, ids) else None
             | None \<Rightarrow> None)"

fun queue_step ::
  "(nat \<Rightarrow> mapping_ptr \<times> nat \<Rightarrow> (mapping_ptr \<times> nat) list
      \<Rightarrow> ((mapping_ptr \<times> nat) list \<times> (mapping_ptr \<times> nat) list) option)
    \<Rightarrow> (mapping_ptr \<Rightarrow> nat) \<Rightarrow> pol_op \<Rightarrow> queue \<Rightarrow> (queue \<times> (mapping_ptr \<times> nat) list) option" where
  "queue_step order segSize (Alloc m n) q =
     (let need = sum_list (map (segSize \<circ> fst) (q_maps q)) + segSize m
      in if m \<noteq> 0 \<and> m \<notin> fst ` set (q_maps q) \<and> sizeof_ListElement * n < W64 \<and>
            segSize m \<le> q_static q \<and> need < W64 \<and> need \<le> q_limit q \<and>
            (q_local q \<longrightarrow> q_maps q = [])
         then Some (q\<lparr>q_maps := q_maps q @ [(m, n)]\<rparr>, []) else None)"
| "queue_step order segSize (Free m) q =
     (if m \<in> fst ` set (q_maps q)
      then Some (q\<lparr>q_maps := filter (\<lambda>x. fst x \<noteq> m) (q_maps q),
                   q_segs := filter (\<lambda>t. fst t \<noteq> m) (q_segs q)\<rparr>, [])
      else None)"
| "queue_step order segSize (Touch m i) q =
     (if (\<exists>(m', n) \<in> set (q_maps q). m' = m \<and> i < n) \<and>
         sum_list (map (segSize \<circ> fst) (q_segs q)) + segSize m < W64
      then (case few (order (q_limit q) (m, i) (q_segs q)) of
              None \<Rightarrow> None
            | Some (ts, ids) \<Rightarrow> Some (q\<lparr>q_segs := ts\<rparr>, ids))
      else None)"
| "queue_step order segSize (Evict m i) q =
     (if (m, i) \<in> set (q_segs q) then Some (q\<lparr>q_segs := remove1 (m, i) (q_segs q)\<rparr>, []) else None)"
| "queue_step order segSize (Shrink limit) q =
     few (Some (q\<lparr>q_limit := limit, q_segs := kept (segSize \<circ> fst) limit (q_segs q)\<rparr>,
                dropped (segSize \<circ> fst) limit (q_segs q)))"

fun queue_run ::
  "(nat \<Rightarrow> mapping_ptr \<times> nat \<Rightarrow> (mapping_ptr \<times> nat) list
      \<Rightarrow> ((mapping_ptr \<times> nat) list \<times> (mapping_ptr \<times> nat) list) option)
    \<Rightarrow> (mapping_ptr \<Rightarrow> nat) \<Rightarrow> pol_op list \<Rightarrow> queue \<Rightarrow> (queue \<times> (mapping_ptr \<times> nat) list) option" where
  "queue_run order segSize [] q = Some (q, [])"
| "queue_run order segSize (c # cs) q =
     (case queue_step order segSize c q of
        None \<Rightarrow> None
      | Some (q', ids) \<Rightarrow>
          (case queue_run order segSize cs q' of
             None \<Rightarrow> None
           | Some (q'', ids') \<Rightarrow> Some (q'', ids @ ids')))"

definition new_queue :: "nat \<Rightarrow> bool \<Rightarrow> queue" where
  "new_queue limit local =
     \<lparr>q_local = local, q_static = limit, q_limit = limit, q_maps = [], q_segs = []\<rparr>"

text \<open>The abstraction: the policy object stands for the list.\<close>

definition stands_for :: "(mapping_ptr \<Rightarrow> size_t) \<Rightarrow> list_policy \<Rightarrow> queue \<Rightarrow> bool" where
  "stands_for segSize p q \<longleftrightarrow>
     tracks segSize p (q_segs q) \<and> usable p \<and> heap_ok p \<and>
     pol_local p = q_local q \<and> staticMaxMemory p = q_static q \<and> dynamicMaxMemory p = q_limit q \<and>
     map (\<lambda>st. (ps_mapping st, ps_elementCount st)) (storageRegistry p) = q_maps q"

section \<open>One call\<close>

lemma few_Some: "few r = Some (x, ids) \<longleftrightarrow> r = Some (x, ids) \<and> length ids < maxIdsToEvict"
  by (auto simp: few_def split: option.splits if_splits)

lemma stands_forD:
  assumes "stands_for segSize p q"
  shows "tracks segSize p (q_segs q)" and "usable p" and "heap_ok p"
    and "dynamicMaxMemory p = q_limit q"
    and "(\<exists>(m', n) \<in> set (q_maps q). m' = m \<and> i < n) \<longleftrightarrow> (m, i) \<in> segs (storageRegistry p)"
    and "fst ` set (q_maps q) = ps_mapping ` set (storageRegistry p)"
    and "map (segSize \<circ> fst) (q_maps q) = map (segSize \<circ> ps_mapping) (storageRegistry p)"
    and "currentMemory p = sum_list (map (segSize \<circ> fst) (q_segs q))"
proof -
  show t: "tracks segSize p (q_segs q)" and "usable p" and "heap_ok p" and "dynamicMaxMemory p = q_limit q"
    using assms by (simp_all add: stands_for_def)
  have maps: "q_maps q = map (\<lambda>st. (ps_mapping st, ps_elementCount st)) (storageRegistry p)"
    using assms by (simp add: stands_for_def)
  show "(\<exists>(m', n) \<in> set (q_maps q). m' = m \<and> i < n) \<longleftrightarrow> (m, i) \<in> segs (storageRegistry p)"
    by (auto simp: maps segs_def)
  show "fst ` set (q_maps q) = ps_mapping ` set (storageRegistry p)"
    by (simp add: maps image_image)
  show "map (segSize \<circ> fst) (q_maps q) = map (segSize \<circ> ps_mapping) (storageRegistry p)"
    by (simp add: maps)
  show "currentMemory p = sum_list (map (segSize \<circ> fst) (q_segs q))"
    by (rule tracks_memory [OF t])
qed

lemma stands_for_segs:
  assumes "stands_for segSize p q"
    and "tracks segSize (p\<lparr>elts := h, currentMemory := n\<rparr>) ts"
  shows "stands_for segSize (p\<lparr>elts := h, currentMemory := n\<rparr>) (q\<lparr>q_segs := ts\<rparr>)"
  using assms by (simp add: stands_for_def usable_def heap_ok_def)

lemma exec_Alloc:
  assumes sf: "stands_for segSize p q" and st: "queue_step order segSize (Alloc m n) q = Some (q', ids)"
  shows "\<exists>p'. pol_exec touch segSize (Alloc m n) p = returns (p', ids) \<and> stands_for segSize p' q'"
proof -
  let ?need = "sum_list (map (segSize \<circ> fst) (q_maps q)) + segSize m"
  have g: "m \<noteq> 0" "m \<notin> fst ` set (q_maps q)" "sizeof_ListElement * n < W64"
    "segSize m \<le> q_static q" "?need < W64" "?need \<le> q_limit q" "q_local q \<longrightarrow> q_maps q = []"
    and q': "q' = q\<lparr>q_maps := q_maps q @ [(m, n)]\<rparr>" "ids = []"
    using st by (simp_all add: Let_def split: if_splits)
  note d = stands_forD [OF sf]
  have stat: "staticMaxMemory p = q_static q" "pol_local p = q_local q"
    "map (\<lambda>st. (ps_mapping st, ps_elementCount st)) (storageRegistry p) = q_maps q"
    using sf by (simp_all add: stands_for_def)
  obtain p' where p': "fifo_allocateElementStorage segSize m n p = Inr p'"
      "tracks segSize p' (q_segs q)" "heap_ok p'" "dynamicMaxMemory p' = dynamicMaxMemory p"
      "staticMaxMemory p' = staticMaxMemory p" "pol_local p' = pol_local p"
      "map (\<lambda>st. (ps_mapping st, ps_elementCount st)) (storageRegistry p') =
        map (\<lambda>st. (ps_mapping st, ps_elementCount st)) (storageRegistry p) @ [(m, n)]"
    by (rule fifo_allocateElementStorage_correct [OF d(1,3) g(1), of n])
      (use g d(4,6,7) stat in \<open>simp_all del: map_map\<close>)
  have "length (storageRegistry p') = Suc (length (storageRegistry p))"
    using arg_cong [OF p'(7), of length] by simp
  then have "usable p'"
    using g(7) stat p'(6) by (auto simp: usable_def)
  then show ?thesis
    using p' q' stat d(4) by (simp add: stands_for_def)
qed

lemma exec_Free:
  assumes sf: "stands_for segSize p q" and st: "queue_step order segSize (Free m) q = Some (q', ids)"
  shows "\<exists>p'. pol_exec touch segSize (Free m) p = returns (p', ids) \<and> stands_for segSize p' q'"
proof -
  note d = stands_forD [OF sf]
  have g: "m \<in> ps_mapping ` set (storageRegistry p)"
    and q': "q' = q\<lparr>q_maps := filter (\<lambda>x. fst x \<noteq> m) (q_maps q),
                     q_segs := filter (\<lambda>t. fst t \<noteq> m) (q_segs q)\<rparr>" "ids = []"
    using st d(6) by (simp_all split: if_splits)
  obtain p' where p': "fifo_freeElementStorage segSize m p = Inr p'"
      "tracks segSize p' (filter (\<lambda>t. fst t \<noteq> m) (q_segs q))"
      "storageRegistry p' = filter (\<lambda>st. ps_mapping st \<noteq> m) (storageRegistry p)"
      "heap_ok p'" "dynamicMaxMemory p' = dynamicMaxMemory p"
      "staticMaxMemory p' = staticMaxMemory p" "pol_local p' = pol_local p"
    by (rule fifo_freeElementStorage_correct [OF d(1,2) g]) (use d(3) in blast)
  have "usable p'"
    using d(2) by (auto simp: usable_def p'(3,7) intro: le_trans [OF length_filter_le])
  moreover have "q_maps q = map (\<lambda>st. (ps_mapping st, ps_elementCount st)) (storageRegistry p)"
    using sf by (simp add: stands_for_def)
  then have "map (\<lambda>st. (ps_mapping st, ps_elementCount st)) (storageRegistry p') = q_maps q'"
    by (simp add: q' p'(3) filter_map comp_def)
  ultimately show ?thesis
    using p' q' sf by (simp add: stands_for_def)
qed

lemma exec_Evict:
  assumes sf: "stands_for segSize p q" and st: "queue_step order segSize (Evict m i) q = Some (q', ids)"
  shows "\<exists>p'. pol_exec touch segSize (Evict m i) p = returns (p', ids) \<and> stands_for segSize p' q'"
proof -
  note d = stands_forD [OF sf]
  have g: "(m, i) \<in> set (q_segs q)"
    and q': "q' = q\<lparr>q_segs := remove1 (m, i) (q_segs q)\<rparr>" "ids = []"
    using st by (simp_all split: if_splits)
  then show ?thesis
    using fifo_notifyEvict_correct [OF d(1,2) g] stands_for_segs [OF sf] by auto
qed

lemma exec_Shrink:
  assumes sf: "stands_for segSize p q" and st: "queue_step order segSize (Shrink limit) q = Some (q', ids)"
  shows "\<exists>p'. pol_exec touch segSize (Shrink limit) p = returns (p', ids) \<and> stands_for segSize p' q'"
proof -
  let ?p = "setDynamicMaxMemory limit p" and ?q = "q\<lparr>q_limit := limit\<rparr>"
  have sf': "stands_for segSize ?p ?q"
    using sf by (simp add: stands_for_def setDynamicMaxMemory_def tracks_def tracking_def
        usable_def heap_ok_def)
  have q': "q' = ?q\<lparr>q_segs := kept (segSize \<circ> fst) limit (q_segs q)\<rparr>"
    "ids = dropped (segSize \<circ> fst) limit (q_segs q)" "length ids < maxIdsToEvict"
    using st by (auto simp: few_Some)
  have "dynamicMaxMemory ?p = limit"
    by (simp add: setDynamicMaxMemory_def)
  then show ?thesis
    using fifo_shrinkMemory_cs_correct [OF stands_forD(1) [OF sf']] stands_for_segs [OF sf'] q' by auto
qed

section \<open>A whole history\<close>

text \<open>
  What the history theorem needs of the method \<open>notifyTouch\<close>: when the specification
  allows the touch and hands over fewer segments than the buffer of the code holds, the
  code returns with these segments and the list of the specification.
\<close>

locale touch_policy =
  fixes segSize :: "mapping_ptr \<Rightarrow> size_t"
    and touch :: "mapping_ptr \<Rightarrow> nat \<Rightarrow> list_policy
      \<Rightarrow> (list_policy \<times> (mapping_ptr \<times> nat) list \<times> bool \<times> size_t) outcome"
    and order :: "nat \<Rightarrow> mapping_ptr \<times> nat \<Rightarrow> (mapping_ptr \<times> nat) list
      \<Rightarrow> ((mapping_ptr \<times> nat) list \<times> (mapping_ptr \<times> nat) list) option"
  assumes touch_law: "tracks segSize p ts \<Longrightarrow> usable p \<Longrightarrow> (m, i) \<in> segs (storageRegistry p) \<Longrightarrow>
    currentMemory p + segSize m < W64 \<Longrightarrow> order (dynamicMaxMemory p) (m, i) ts = Some (ts', ids) \<Longrightarrow>
    length ids < maxIdsToEvict \<Longrightarrow>
    \<exists>h n first. touch m i p = returns (p\<lparr>elts := h, currentMemory := n\<rparr>, ids, first, currentMemory p) \<and>
      tracks segSize (p\<lparr>elts := h, currentMemory := n\<rparr>) ts'"
begin

lemma exec_Touch:
  assumes sf: "stands_for segSize p q" and st: "queue_step order segSize (Touch m i) q = Some (q', ids)"
  shows "\<exists>p'. pol_exec touch segSize (Touch m i) p = returns (p', ids) \<and> stands_for segSize p' q'"
proof -
  note d = stands_forD [OF sf]
  obtain ts where g: "(m, i) \<in> segs (storageRegistry p)" "currentMemory p + segSize m < W64"
    "order (dynamicMaxMemory p) (m, i) (q_segs q) = Some (ts, ids)" "length ids < maxIdsToEvict"
    and q': "q' = q\<lparr>q_segs := ts\<rparr>"
    using st d(4) d(5) [of m i] d(8) by (auto simp: few_Some split: if_splits option.splits)
  then show ?thesis
    using touch_law [OF d(1,2) g] stands_for_segs [OF sf] by auto
qed

lemma exec_correct:
  assumes "stands_for segSize p q" and "queue_step order segSize c q = Some (q', ids)"
  shows "\<exists>p'. pol_exec touch segSize c p = returns (p', ids) \<and> stands_for segSize p' q'"
  using assms
  by (cases c; hypsubst) (rule exec_Alloc exec_Free exec_Touch exec_Evict exec_Shrink, assumption+)+

lemma run_correct:
  assumes "stands_for segSize p q" and "queue_run order segSize cs q = Some (q', ids)"
  shows "\<exists>p'. pol_run touch segSize cs p = returns (p', ids) \<and> stands_for segSize p' q'"
  using assms
proof (induction cs arbitrary: p q ids)
  case (Cons c cs)
  obtain q1 ids1 ids2 where q1: "queue_step order segSize c q = Some (q1, ids1)"
    and q2: "queue_run order segSize cs q1 = Some (q', ids2)" and ids: "ids = ids1 @ ids2"
    using Cons.prems(2) by (auto split: option.splits)
  obtain p1 where p1: "pol_exec touch segSize c p = returns (p1, ids1)" "stands_for segSize p1 q1"
    using exec_correct [OF Cons.prems(1) q1] by auto
  then show ?case
    using Cons.IH [OF p1(2) q2] ids by auto
qed simp

end

interpretation fifo_touch: touch_policy segSize "fifo_notifyTouch_cs segSize" "fifo_order segSize"
  for segSize
proof unfold_locales
  fix p ts m i ts' ids
  assume a: "tracks segSize p ts" "usable p" "(m, i) \<in> segs (storageRegistry p)"
    "currentMemory p + segSize m < W64" and o: "fifo_order segSize (dynamicMaxMemory p) (m, i) ts = Some (ts', ids)"
    and l: "length ids < maxIdsToEvict"
  show "\<exists>h n first. fifo_notifyTouch_cs segSize m i p =
      returns (p\<lparr>elts := h, currentMemory := n\<rparr>, ids, first, currentMemory p) \<and>
      tracks segSize (p\<lparr>elts := h, currentMemory := n\<rparr>) ts'"
    using fifo_notifyTouch_cs_correct [OF a] o l by (auto simp: fifo_order_def)
qed

interpretation lifo_touch: touch_policy segSize "lifo_notifyTouch_cs segSize" "lifo_order segSize"
  for segSize
proof unfold_locales
  fix p ts m i ts' ids
  assume a: "tracks segSize p ts" "usable p" "(m, i) \<in> segs (storageRegistry p)"
    "currentMemory p + segSize m < W64" and o: "lifo_order segSize (dynamicMaxMemory p) (m, i) ts = Some (ts', ids)"
    and l: "length ids < maxIdsToEvict"
  show "\<exists>h n first. lifo_notifyTouch_cs segSize m i p =
      returns (p\<lparr>elts := h, currentMemory := n\<rparr>, ids, first, currentMemory p) \<and>
      tracks segSize (p\<lparr>elts := h, currentMemory := n\<rparr>) ts'"
    using lifo_notifyTouch_cs_correct [OF a] o l by (auto simp: lifo_order_def Let_def split: if_splits)
qed

lemma newFifoPolicy_stands_for: "stands_for segSize (newFifoPolicy mutex limit local) (new_queue limit local)"
  unfolding stands_for_def tracks_def tracking_def
  by (auto simp: newFifoPolicy_def new_queue_def usable_def heap_ok_def storages_ok_def ring_def
      elts_of_def newElement_def set_next_def set_prev_def intro!: exI [of _ "[]"])

lemma newLifoPolicy_eq: "newLifoPolicy = newFifoPolicy"
  by (simp add: fun_eq_iff newLifoPolicy_def newFifoPolicy_def)

lemmas queue_eval = fifo_order_def lifo_order_def few_def new_queue_def touch_list_def kept_def dropped_def

section \<open>The histories of the two policies\<close>

text \<open>
  C5. Every history of calls on a FIFO policy, from its constructor on, that the
  specification allows is executed by the code: the run returns, the segments it hands
  over for eviction are those of the specification and in that order (the least recently
  linked first), the ring holds the segments of the specification and the counter is their
  total size.
\<close>

theorem fifo_history:
  assumes "queue_run (fifo_order segSize) segSize cs (new_queue limit local) = Some (q, ids)"
  shows "\<exists>p. pol_run (fifo_notifyTouch_cs segSize) segSize cs (newFifoPolicy mutex limit local) =
      returns (p, ids) \<and> tracks segSize p (q_segs q) \<and>
    fifo_getCurrentMemory p = sum_list (map (segSize \<circ> fst) (q_segs q))"
proof -
  obtain p where p: "pol_run (fifo_notifyTouch_cs segSize) segSize cs (newFifoPolicy mutex limit local) =
      returns (p, ids)" "stands_for segSize p q"
    using fifo_touch.run_correct [OF newFifoPolicy_stands_for assms, of mutex] by blast
  then show ?thesis
    using stands_forD(1,8) [OF p(2)] by (auto simp: fifo_getCurrentMemory_def)
qed

abbreviation demo_ops :: "pol_op list" where
  "demo_ops \<equiv> [Alloc 1 4, Alloc 2 2, Touch 1 0, Touch 2 0, Touch 1 1, Touch 1 0, Touch 1 2,
     Evict 1 1, Touch 2 1, Shrink 6, Free 1]"

theorem fifo_history_witness:
  "queue_run (fifo_order (\<lambda>m. 4 * m)) (\<lambda>m. 4 * m) demo_ops (new_queue 16 False) =
     Some (\<lparr>q_local = False, q_static = 16, q_limit = 6, q_maps = [(2, 2)], q_segs = []\<rparr>,
       [(2, 0), (1, 0), (1, 2), (2, 1)]) \<and>
   (\<exists>p. pol_run (fifo_notifyTouch_cs (\<lambda>m. 4 * m)) (\<lambda>m. 4 * m) demo_ops (newFifoPolicy 8 16 False) =
      returns (p, [(2, 0), (1, 0), (1, 2), (2, 1)]) \<and> tracks (\<lambda>m. 4 * m) p [] \<and>
      fifo_getCurrentMemory p = 0)"
proof -
  have run: "queue_run (fifo_order (\<lambda>m. 4 * m)) (\<lambda>m. 4 * m) demo_ops (new_queue 16 False) =
     Some (\<lparr>q_local = False, q_static = 16, q_limit = 6, q_maps = [(2, 2)], q_segs = []\<rparr>,
       [(2, 0), (1, 0), (1, 2), (2, 1)])"
    by (simp add: queue_eval)
  show ?thesis
    using run fifo_history [OF run, of 8] by simp
qed

text \<open>
  C7. The same for a LIFO policy: every allowed history is executed, and the evicted
  segments are those of the specification, in which a touched segment is linked last, so
  that it is the first to leave, after the others have been trimmed to make room for it.
\<close>

theorem lifo_history:
  assumes "queue_run (lifo_order segSize) segSize cs (new_queue limit local) = Some (q, ids)"
  shows "\<exists>p. pol_run (lifo_notifyTouch_cs segSize) segSize cs (newLifoPolicy mutex limit local) =
      returns (p, ids) \<and> tracks segSize p (q_segs q) \<and>
    currentMemory p = sum_list (map (segSize \<circ> fst) (q_segs q))"
proof -
  obtain p where p: "pol_run (lifo_notifyTouch_cs segSize) segSize cs (newLifoPolicy mutex limit local) =
      returns (p, ids)" "stands_for segSize p q"
    using lifo_touch.run_correct [OF newFifoPolicy_stands_for assms, of mutex] newLifoPolicy_eq by auto
  then show ?thesis
    using stands_forD(1,8) [OF p(2)] by auto
qed

theorem lifo_history_witness:
  "queue_run (lifo_order (\<lambda>m. 4 * m)) (\<lambda>m. 4 * m)
     [Alloc 1 4, Alloc 2 2, Touch 1 0, Touch 2 0, Touch 1 1, Touch 1 2, Shrink 8] (new_queue 16 False) =
     Some (\<lparr>q_local = False, q_static = 16, q_limit = 8, q_maps = [(1, 4), (2, 2)], q_segs = [(1, 0)]\<rparr>,
       [(1, 1), (1, 2), (2, 0)]) \<and>
   (\<exists>p. pol_run (lifo_notifyTouch_cs (\<lambda>m. 4 * m)) (\<lambda>m. 4 * m)
      [Alloc 1 4, Alloc 2 2, Touch 1 0, Touch 2 0, Touch 1 1, Touch 1 2, Shrink 8] (newLifoPolicy 8 16 False) =
      returns (p, [(1, 1), (1, 2), (2, 0)]) \<and> tracks (\<lambda>m. 4 * m) p [(1, 0)] \<and> currentMemory p = 4)"
proof -
  have run: "queue_run (lifo_order (\<lambda>m. 4 * m)) (\<lambda>m. 4 * m)
     [Alloc 1 4, Alloc 2 2, Touch 1 0, Touch 2 0, Touch 1 1, Touch 1 2, Shrink 8] (new_queue 16 False) =
     Some (\<lparr>q_local = False, q_static = 16, q_limit = 8, q_maps = [(1, 4), (2, 2)], q_segs = [(1, 0)]\<rparr>,
       [(1, 1), (1, 2), (2, 0)])"
    by (simp add: queue_eval)
  show ?thesis
    using run lifo_history [OF run, of 8] by simp
qed

end
