(* ===== verification/WindowHistory.thy ===== *)
theory WindowHistory
  imports FifoWindowPolicy PolicyHistory
begin

text \<open>
  The whole life of a window policy: any sequence of the calls it receives, from its
  constructor on, against a specification with two plain lists of segments, the fixed and the
  sliding window.
\<close>

section \<open>Registering and releasing a mapping\<close>

definition wheap_ok :: "window_policy \<Rightarrow> bool" where
  "wheap_ok p \<longleftrightarrow> rootFixedWindow p < w_brk p \<and> rootSlidingWindow p < w_brk p \<and>
     (\<forall>st \<in> set (storageRegistry p). storage_end st \<le> w_brk p \<and> ps_extraInfos st < w_brk p)"

lemma registerMapping_accepts:
  assumes "segSize m \<le> staticMaxMemory p"
    and "sum_list (map (segSize \<circ> ps_mapping) (storageRegistry p)) + segSize m < W64"
    and "sum_list (map (segSize \<circ> ps_mapping) (storageRegistry p)) + segSize m \<le> dynamicMaxMemory p"
  shows "registerMapping segSize m a n k x p = Inr (p\<lparr>storageRegistry := storageRegistry p @
    [\<lparr>ps_mapping = m, ps_elements = a, ps_elementCount = n, ps_elementSize = k, ps_extraInfos = x\<rparr>]\<rparr>)"
proof -
  let ?st = "\<lparr>ps_mapping = m, ps_elements = a, ps_elementCount = n, ps_elementSize = k, ps_extraInfos = x\<rparr>"
  have "sum_segments segSize 0 (storageRegistry p @ [?st]) =
      sum_list (map (segSize \<circ> ps_mapping) (storageRegistry p)) + segSize m"
    using sum_segments_exact [of 0 segSize "storageRegistry p @ [?st]"] assms(2) by simp
  then show ?thesis
    using assms(1,3) by (simp add: registerMapping_def checkHasEnoughMem_def Let_def)
qed

lemma wtracking_below:
  assumes "wheap_ok p" and "x \<in> {rootFixedWindow p, rootSlidingWindow p} \<union> elts_of (storageRegistry p)"
  shows "x < w_brk p"
  using assms by (fastforce simp: wheap_ok_def elts_of_def elt_def storage_end_def)

text \<open>The new elements and their flags, in the storage \<open>st\<close>, are away from the tracked ones.\<close>

lemma new_elements_away:
  assumes "wheap_ok p" and "x \<in> {rootFixedWindow p, rootSlidingWindow p} \<union> elts_of (storageRegistry p)"
  shows "x \<notin> {w_brk p + sizeof_ListElement * i |i. i < n}"
  using wtracking_below [OF assms] by fastforce

lemma new_elements_rings:
  fixes n :: nat
  assumes wt: "wtracking segSize p fs ss" and hp: "wheap_ok p"
  defines "h \<equiv> newElements (w_brk p) n (w_elts p)"
  shows "ring h (rootFixedWindow p) fs" and "ring h (rootSlidingWindow p) ss"
    and "e \<in> elts_of (storageRegistry p) \<union> {w_brk p + sizeof_ListElement * i |i. i < n} \<Longrightarrow>
      e \<notin> set fs \<union> set ss \<Longrightarrow> isAlone h e"
proof -
  let ?new = "{w_brk p + sizeof_ListElement * i |i. i < n}"
  note d = wtrackingD [OF wt] and off = new_elements_away [OF hp, of _ n]
  have h: "\<forall>i < n. isAlone h (w_brk p + sizeof_ListElement * i)" "agree_off ?new (w_elts p) h"
    using newElements_spec [of n "w_brk p" "w_elts p"] by (simp_all add: h_def)
  show "ring h (rootFixedWindow p) fs" and "ring h (rootSlidingWindow p) ss"
    using ring_frame [OF h(2), of "rootFixedWindow p" fs] ring_frame [OF h(2), of "rootSlidingWindow p" ss] d(2,3,5) off
    by (fastforce simp: disjoint_iff)+
  show "isAlone h e" if e: "e \<in> elts_of (storageRegistry p) \<union> ?new" "e \<notin> set fs \<union> set ss"
  proof (cases "e \<in> elts_of (storageRegistry p)")
    case True
    with e off [of e] have "e \<notin> ?new" "isAlone (w_elts p) e"
      using d(7) [of e] by simp_all
    with isAlone_frame [OF h(2), of e] show ?thesis by simp
  next
    case False
    with e h(1) show ?thesis by auto
  qed
qed

lemma new_elements_flags:
  assumes wt: "wtracking segSize p fs ss" and hp: "wheap_ok p"
    and st: "ps_elements st = w_brk p" "ps_extraInfos st \<ge> w_brk p"
    and st': "st' \<in> set (storageRegistry p @ [st])" "i < ps_elementCount st'"
  defines "fl \<equiv> (w_flags p)(ps_extraInfos st := \<lambda>i. False)"
  shows "(elt st' i \<in> set fs \<longrightarrow> fl (ps_extraInfos st') i) \<and> (elt st' i \<in> set ss \<longrightarrow> \<not> fl (ps_extraInfos st') i)"
proof (cases "st' \<in> set (storageRegistry p)")
  case True
  then have "ps_extraInfos st' \<noteq> ps_extraInfos st"
    using hp st(2) by (auto simp: wheap_ok_def)
  then show ?thesis
    using wtracking_flag [OF wt True st'(2)] by (simp add: fl_def)
next
  case False
  then have "elt st' i = w_brk p + sizeof_ListElement * i" "i < ps_elementCount st"
    using st' st(1) by (simp_all add: elt_def)
  then have "elt st' i \<notin> elts_of (storageRegistry p)"
    using new_elements_away [OF hp, of "elt st' i" "ps_elementCount st"] by auto
  then show ?thesis
    using wtrackingD(5) [OF wt] by auto
qed

lemma wtracking_extend:
  assumes wt: "wtracking segSize p fs ss" and hp: "wheap_ok p"
    and new: "m \<noteq> 0" "m \<notin> ps_mapping ` set (storageRegistry p)" "sizeof_ListElement * n < W64"
    and st: "st = \<lparr>ps_mapping = m, ps_elements = w_brk p, ps_elementCount = n,
      ps_elementSize = sizeof_ListElement, ps_extraInfos = w_brk p + sizeof_ListElement * n\<rparr>"
  defines "p' \<equiv> p\<lparr>w_elts := newElements (w_brk p) n (w_elts p),
    w_flags := (w_flags p)(ps_extraInfos st := \<lambda>i. False),
    w_brk := ps_extraInfos st + n + 1, storageRegistry := storageRegistry p @ [st]\<rparr>"
  shows "wtracking segSize p' fs ss"
    and "map (owner (storageRegistry p')) fs = map (owner (storageRegistry p)) fs"
    and "map (owner (storageRegistry p')) ss = map (owner (storageRegistry p)) ss"
proof -
  let ?sts = "storageRegistry p"
  note d = wtrackingD [OF wt]
  have oks: "storages_ok {rootFixedWindow p, rootSlidingWindow p} (?sts @ [st])"
    using storages_ok_snoc [OF d(1) _ _ new st] hp by (simp add: wheap_ok_def)
  have own: "map (owner (?sts @ [st])) fs = map (owner ?sts) fs" "map (owner (?sts @ [st])) ss = map (owner ?sts) ss"
    using owner_snoc [OF d(1) oks] d(5) by auto
  then show "map (owner (storageRegistry p')) fs = map (owner ?sts) fs"
    and "map (owner (storageRegistry p')) ss = map (owner ?sts) ss"
    by (simp_all add: p'_def)
  have w: "weight segSize (?sts @ [st]) fs = weight segSize ?sts fs" "weight segSize (?sts @ [st]) ss = weight segSize ?sts ss"
    by (simp_all only: weight_map own)
  have elts: "elts_of (?sts @ [st]) = elts_of ?sts \<union> {w_brk p + sizeof_ListElement * i |i. i < n}"
    by (simp add: elts_of_snoc st)
  have fresh: "ps_extraInfos st \<notin> ps_extraInfos ` set ?sts"
    using hp by (auto simp: wheap_ok_def st)
  show "wtracking segSize p' fs ss"
    unfolding wtracking_def
  proof (intro conjI ballI allI impI)
    show "set fs \<union> set ss \<subseteq> elts_of (storageRegistry p')"
      using d(5) by (auto simp: p'_def elts_of_snoc)
    show "distinct (map ps_extraInfos (storageRegistry p'))"
      using d(11) fresh by (simp add: p'_def)
    show "isAlone (w_elts p') e" if "e \<in> elts_of (storageRegistry p') - (set fs \<union> set ss)" for e
      using new_elements_rings(3) [OF wt hp] that elts by (simp add: p'_def)
    show "w_flags p' (ps_extraInfos st') i" if "st' \<in> set (storageRegistry p')" "i < ps_elementCount st'" "elt st' i \<in> set fs" for st' i
      using new_elements_flags [OF wt hp, of st st' i] that by (simp add: p'_def st)
    show "\<not> w_flags p' (ps_extraInfos st') i" if "st' \<in> set (storageRegistry p')" "i < ps_elementCount st'" "elt st' i \<in> set ss" for st' i
      using new_elements_flags [OF wt hp, of st st' i] that by (simp add: p'_def st)
  qed (use d oks w new_elements_rings(1,2) [OF wt hp] in \<open>simp_all add: p'_def\<close>)
qed

lemma window_allocateElementStorage_correct:
  assumes tr: "wtracks segSize p F S" and hp: "wheap_ok p"
    and new: "m \<noteq> 0" "m \<notin> ps_mapping ` set (storageRegistry p)" "sizeof_ListElement * n < W64"
    and room: "segSize m \<le> staticMaxMemory p"
      "sum_list (map (segSize \<circ> ps_mapping) (storageRegistry p)) + segSize m < W64"
      "sum_list (map (segSize \<circ> ps_mapping) (storageRegistry p)) + segSize m \<le> dynamicMaxMemory p"
  obtains p' where "window_allocateElementStorage segSize m n p = Inr p'"
    and "wtracks segSize p' F S" and "wheap_ok p'"
    and "dynamicMaxMemory p' = dynamicMaxMemory p" and "staticMaxMemory p' = staticMaxMemory p"
    and "pol_local p' = pol_local p" and "maxFixedMemory p' = maxFixedMemory p" and "maxSlidingMemory p' = maxSlidingMemory p"
    and "map (\<lambda>st. (ps_mapping st, ps_elementCount st)) (storageRegistry p') =
      map (\<lambda>st. (ps_mapping st, ps_elementCount st)) (storageRegistry p) @ [(m, n)]"
proof -
  obtain fs ss where wt: "wtracking segSize p fs ss"
    and F: "F = map (owner (storageRegistry p)) fs" and S: "S = map (owner (storageRegistry p)) ss"
    using tr by (auto simp: wtracks_def)
  define st where "st = \<lparr>ps_mapping = m, ps_elements = w_brk p, ps_elementCount = n,
    ps_elementSize = sizeof_ListElement, ps_extraInfos = w_brk p + sizeof_ListElement * n\<rparr>"
  define p' where "p' = p\<lparr>w_elts := newElements (w_brk p) n (w_elts p),
    w_flags := (w_flags p)(ps_extraInfos st := \<lambda>i. False),
    w_brk := ps_extraInfos st + n + 1, storageRegistry := storageRegistry p @ [st]\<rparr>"
  note x = wtracking_extend [OF wt hp new st_def, folded p'_def]
  have "window_allocateElementStorage segSize m n p = Inr p'"
    using room by (simp add: window_allocateElementStorage_def Let_def registerMapping_accepts p'_def st_def)
  moreover have "wtracks segSize p' F S"
    unfolding wtracks_def F S using x by metis
  moreover have "wheap_ok p'"
    using hp by (auto simp: wheap_ok_def p'_def st_def storage_end_def)
  ultimately show thesis
    using that by (simp add: p'_def st_def)
qed

lemma filter_Suc_elt:
  assumes "distinct as"
  shows "remove1 (elt st n) (filter (\<lambda>e. \<forall>i<n. e \<noteq> elt st i) as) = filter (\<lambda>e. \<forall>i<Suc n. e \<noteq> elt st i) as"
  using assms
  by (simp add: distinct_remove1_removeAll removeAll_filter_not_eq less_Suc_eq all_conj_distrib)
    (rule filter_cong, auto)

lemma window_free_step:
  assumes wt: "wtracking segSize q fs ss" and st: "st \<in> set (storageRegistry q)" "i < ps_elementCount st"
  defines "q1 \<equiv> (if isInList (w_elts q) (elt st i)
    then window_uncount segSize (ps_mapping st) (w_flags q (ps_extraInfos st) i) q else q)"
  shows "\<exists>h n1 n2. q1\<lparr>w_elts := removeFromList (elt st i) (w_elts q1)\<rparr> =
      q\<lparr>w_elts := h, currentFixedMemory := n1, currentSlidingWindowMemory := n2\<rparr> \<and>
    wtracking segSize (q\<lparr>w_elts := h, currentFixedMemory := n1, currentSlidingWindowMemory := n2\<rparr>)
      (remove1 (elt st i) fs) (remove1 (elt st i) ss)"
proof -
  note out = window_take_out [OF wt st] and d = wtrackingD [OF wt]
  let ?h = "removeFromList (elt st i) (w_elts q)"
  let ?q = "if \<not> isAlone (w_elts q) (elt st i)
    then window_uncount segSize (ps_mapping st) (w_flags q (ps_extraInfos st) i) (q\<lparr>w_elts := ?h\<rparr>)
    else q\<lparr>w_elts := ?h\<rparr>"
  have "isInList (w_elts q) (elt st i)" if "\<not> isAlone (w_elts q) (elt st i)"
    using out(3) ring_member_inList(1) [OF d(2), of "elt st i"] ring_member_inList(1) [OF d(3), of "elt st i"] that
    by blast
  moreover have "\<not> isInList (w_elts q) (elt st i)" if "isAlone (w_elts q) (elt st i)"
    using that by (simp add: isAlone_def isInList_def)
  ultimately have run: "q1\<lparr>w_elts := removeFromList (elt st i) (w_elts q1)\<rparr> = ?q"
    by (cases "isAlone (w_elts q) (elt st i)") (simp_all add: q1_def window_uncount_def)
  obtain n1 n2 where "?q = q\<lparr>w_elts := ?h, currentFixedMemory := n1, currentSlidingWindowMemory := n2\<rparr>"
    using out(4) by blast
  with out(1) run show ?thesis
    by (intro exI [of _ ?h] exI [of _ n1] exI [of _ n2]) simp
qed

lemma window_free_loop_correct:
  assumes wt: "wtracking segSize p fs ss" and st: "st \<in> set (storageRegistry p)" "n \<le> ps_elementCount st"
  shows "\<exists>h n1 n2. window_free_loop segSize (ps_mapping st) (ps_elements st) (ps_extraInfos st) n p =
      p\<lparr>w_elts := h, currentFixedMemory := n1, currentSlidingWindowMemory := n2\<rparr> \<and>
    wtracking segSize (p\<lparr>w_elts := h, currentFixedMemory := n1, currentSlidingWindowMemory := n2\<rparr>)
      (filter (\<lambda>e. \<forall>i<n. e \<noteq> elt st i) fs) (filter (\<lambda>e. \<forall>i<n. e \<noteq> elt st i) ss)"
  using st(2)
proof (induction n)
  case 0
  have "p = p\<lparr>w_elts := w_elts p, currentFixedMemory := currentFixedMemory p,
      currentSlidingWindowMemory := currentSlidingWindowMemory p\<rparr>"
    by simp
  with wt show ?case
    by (intro exI [of _ "w_elts p"] exI [of _ "currentFixedMemory p"] exI [of _ "currentSlidingWindowMemory p"]) simp
next
  case (Suc n)
  let ?as = "\<lambda>n. filter (\<lambda>e. \<forall>i<n. e \<noteq> elt st i)"
  obtain h n1 n2 where q: "window_free_loop segSize (ps_mapping st) (ps_elements st) (ps_extraInfos st) n p =
      p\<lparr>w_elts := h, currentFixedMemory := n1, currentSlidingWindowMemory := n2\<rparr>"
    and tr: "wtracking segSize (p\<lparr>w_elts := h, currentFixedMemory := n1, currentSlidingWindowMemory := n2\<rparr>)
      (?as n fs) (?as n ss)"
    using Suc by auto
  let ?q = "p\<lparr>w_elts := h, currentFixedMemory := n1, currentSlidingWindowMemory := n2\<rparr>"
  have rm: "remove1 (elt st n) (?as n fs) = ?as (Suc n) fs" "remove1 (elt st n) (?as n ss) = ?as (Suc n) ss"
    using ring_distinct [OF wtrackingD(2) [OF wt]] ring_distinct [OF wtrackingD(3) [OF wt]]
    by (simp_all only: filter_Suc_elt)
  have reg: "st \<in> set (storageRegistry ?q)" "n < ps_elementCount st"
    using st(1) Suc.prems by simp_all
  obtain h' n1' n2' where s: "(let q' = (if isInList (w_elts ?q) (elt st n)
        then window_uncount segSize (ps_mapping st) (w_flags ?q (ps_extraInfos st) n) ?q else ?q)
      in q'\<lparr>w_elts := removeFromList (elt st n) (w_elts q')\<rparr>) =
      ?q\<lparr>w_elts := h', currentFixedMemory := n1', currentSlidingWindowMemory := n2'\<rparr>"
    and t: "wtracking segSize (?q\<lparr>w_elts := h', currentFixedMemory := n1', currentSlidingWindowMemory := n2'\<rparr>)
      (?as (Suc n) fs) (?as (Suc n) ss)"
    using window_free_step [OF tr reg] unfolding rm Let_def by blast
  have "window_free_loop segSize (ps_mapping st) (ps_elements st) (ps_extraInfos st) (Suc n) p =
      ?q\<lparr>w_elts := h', currentFixedMemory := n1', currentSlidingWindowMemory := n2'\<rparr>"
    unfolding window_free_loop.simps q using s by (simp add: Let_def elt_def)
  with t show ?case
    by (intro exI [of _ h'] exI [of _ n1'] exI [of _ n2']) simp
qed

lemma wtracking_filter:
  assumes wt: "wtracking segSize p fs ss"
    and away: "\<forall>e \<in> set fs \<union> set ss. fst (owner (storageRegistry p) e) \<noteq> m"
  defines "sts \<equiv> filter (\<lambda>st. ps_mapping st \<noteq> m) (storageRegistry p)"
  shows "wtracking segSize (p\<lparr>storageRegistry := sts\<rparr>) fs ss"
    and "map (owner sts) fs = map (owner (storageRegistry p)) fs"
    and "map (owner sts) ss = map (owner (storageRegistry p)) ss"
proof -
  note d = wtrackingD [OF wt]
  show own: "map (owner sts) fs = map (owner (storageRegistry p)) fs" "map (owner sts) ss = map (owner (storageRegistry p)) ss"
    using filtered_elts(2) [OF d(1)] away d(5) by (auto simp: sts_def)
  have w: "weight segSize sts fs = weight segSize (storageRegistry p) fs" "weight segSize sts ss = weight segSize (storageRegistry p) ss"
    by (simp_all only: weight_map own)
  have sub: "elts_of sts \<subseteq> elts_of (storageRegistry p)"
    by (auto simp: sts_def elts_of_def)
  show "wtracking segSize (p\<lparr>storageRegistry := sts\<rparr>) fs ss"
    unfolding wtracking_def
  proof (intro conjI ballI allI impI)
    show "set fs \<union> set ss \<subseteq> elts_of (storageRegistry (p\<lparr>storageRegistry := sts\<rparr>))"
      using filtered_elts(1) [OF d(1)] away d(5) by (auto simp: sts_def)
    show "isAlone (w_elts (p\<lparr>storageRegistry := sts\<rparr>)) e"
      if "e \<in> elts_of (storageRegistry (p\<lparr>storageRegistry := sts\<rparr>)) - (set fs \<union> set ss)" for e
      using that sub d(7) [of e] by auto
    show "w_flags (p\<lparr>storageRegistry := sts\<rparr>) (ps_extraInfos st') i"
      if "st' \<in> set (storageRegistry (p\<lparr>storageRegistry := sts\<rparr>))" "i < ps_elementCount st'" "elt st' i \<in> set fs" for st' i
      using wtracking_flag(1) [OF wt] that by (simp add: sts_def)
    show "\<not> w_flags (p\<lparr>storageRegistry := sts\<rparr>) (ps_extraInfos st') i"
      if "st' \<in> set (storageRegistry (p\<lparr>storageRegistry := sts\<rparr>))" "i < ps_elementCount st'" "elt st' i \<in> set ss" for st' i
      using wtracking_flag(2) [OF wt] that by (simp add: sts_def)
  qed (use d w storages_ok_filter [OF d(1)] in \<open>simp_all add: sts_def distinct_map_filter\<close>)
qed

lemma window_freeElementStorage_correct:
  assumes tr: "wtracks segSize p F S" and us: "usable p"
    and reg: "m \<in> ps_mapping ` set (storageRegistry p)"
  obtains h n1 n2 where "window_freeElementStorage segSize m p =
      Inr (p\<lparr>w_elts := h, currentFixedMemory := n1, currentSlidingWindowMemory := n2,
        storageRegistry := filter (\<lambda>st. ps_mapping st \<noteq> m) (storageRegistry p)\<rparr>)"
    and "wtracks segSize (p\<lparr>w_elts := h, currentFixedMemory := n1, currentSlidingWindowMemory := n2,
        storageRegistry := filter (\<lambda>st. ps_mapping st \<noteq> m) (storageRegistry p)\<rparr>)
      (filter (\<lambda>t. fst t \<noteq> m) F) (filter (\<lambda>t. fst t \<noteq> m) S)"
proof -
  let ?sts = "storageRegistry p" and ?keep = "\<lambda>st. ps_mapping st \<noteq> m"
  let ?in = "\<lambda>e. fst (owner ?sts e) \<noteq> m"
  obtain fs ss where wt: "wtracking segSize p fs ss" and F: "F = map (owner ?sts) fs" and S: "S = map (owner ?sts) ss"
    using tr by (auto simp: wtracks_def)
  note d = wtrackingD [OF wt]
  obtain st where st: "st \<in> set ?sts" "m = ps_mapping st"
    using reg by auto
  let ?n = "ps_elementCount st"
  have sub: "set fs \<subseteq> elts_of ?sts" "set ss \<subseteq> elts_of ?sts"
    using d(5) by auto
  have info: "getStorageInfo_mapping m p = Inr st"
    using getStorageInfo_mapping_registered [OF d(1) st(1)] us st(2) by (simp add: usable_def)
  obtain h n1 n2 where fl: "window_free_loop segSize m (ps_elements st) (ps_extraInfos st) ?n p =
      p\<lparr>w_elts := h, currentFixedMemory := n1, currentSlidingWindowMemory := n2\<rparr>"
    and tq: "wtracking segSize (p\<lparr>w_elts := h, currentFixedMemory := n1, currentSlidingWindowMemory := n2\<rparr>)
      (filter ?in fs) (filter ?in ss)"
    using window_free_loop_correct [OF wt st(1) order_refl] st(2)
    unfolding filter_owner [OF d(1) sub(1) st(1)] filter_owner [OF d(1) sub(2) st(1)] by blast
  let ?q = "p\<lparr>w_elts := h, currentFixedMemory := n1, currentSlidingWindowMemory := n2\<rparr>"
  have alone: "\<forall>i < ?n. isAlone h (ps_elements st + sizeof_ListElement * i)"
  proof (intro allI impI)
    fix i assume i: "i < ?n"
    then have "elt st i \<in> elts_of ?sts" "elt st i \<notin> set (filter ?in fs)" "elt st i \<notin> set (filter ?in ss)"
      using st owner_elt [OF d(1) st(1)] by (auto simp: elts_of_def)
    with wtrackingD(7) [OF tq] show "isAlone h (ps_elements st + sizeof_ListElement * i)"
      by (simp add: elt_def)
  qed
  have run: "window_freeElementStorage segSize m p = Inr (?q\<lparr>storageRegistry := filter ?keep ?sts\<rparr>)"
    using unregisterMapping_distinct [OF storages_ok_distinct [OF d(1)], of m]
    by (simp add: window_freeElementStorage_def info fl Let_def unregisterMapping_def deleteElements_alone [OF alone])
  have "\<forall>e \<in> set (filter ?in fs) \<union> set (filter ?in ss). fst (owner (storageRegistry ?q) e) \<noteq> m"
    by auto
  note f = wtracking_filter [OF tq this]
  have "wtracks segSize (?q\<lparr>storageRegistry := filter ?keep ?sts\<rparr>) (filter (\<lambda>t. fst t \<noteq> m) F) (filter (\<lambda>t. fst t \<noteq> m) S)"
    unfolding wtracks_def
    by (intro exI [of _ "filter ?in fs"] exI [of _ "filter ?in ss"])
      (use f in \<open>simp add: F S filter_map comp_def\<close>)
  from that [OF run this] show thesis .
qed

section \<open>The calls and the specification\<close>

fun window_exec ::
  "(mapping_ptr \<Rightarrow> size_t) \<Rightarrow> pol_op \<Rightarrow> window_policy \<Rightarrow> (window_policy \<times> (mapping_ptr \<times> nat) list) outcome" where
  "window_exec segSize (Alloc m n) p =
     Some (bindE (window_allocateElementStorage segSize m n p) (\<lambda>p'. Inr (p', [])))"
| "window_exec segSize (Free m) p =
     Some (bindE (window_freeElementStorage segSize m p) (\<lambda>p'. Inr (p', [])))"
| "window_exec segSize (Touch m i) p =
     bindO (window_notifyTouch_cs segSize m i p) (\<lambda>(p', ids, first, orig). returns (p', ids))"
| "window_exec segSize (Evict m i) p =
     Some (bindE (window_notifyEvict segSize m i p) (\<lambda>p'. Inr (p', [])))"
| "window_exec segSize (Shrink limit) p =
     window_shrinkMemory_cs segSize (setDynamicMaxMemory limit p)"

fun window_run ::
  "(mapping_ptr \<Rightarrow> size_t) \<Rightarrow> pol_op list \<Rightarrow> window_policy
    \<Rightarrow> (window_policy \<times> (mapping_ptr \<times> nat) list) outcome" where
  "window_run segSize [] p = returns (p, [])"
| "window_run segSize (c # cs) p =
     bindO (window_exec segSize c p) (\<lambda>(p', ids).
       bindO (window_run segSize cs p') (\<lambda>(p'', ids'). returns (p'', ids @ ids')))"

text \<open>
  The specification: a queue, whose \<open>q_segs\<close> is the sliding window, with the fixed window
  and the sizes of both. A new limit changes neither window.
\<close>

record wqueue = queue +
  q_fixed :: "(mapping_ptr \<times> nat) list"
  q_fixedMax :: nat
  q_slidingMax :: nat

definition wqueue_touch ::
  "(mapping_ptr \<Rightarrow> nat) \<Rightarrow> mapping_ptr \<times> nat \<Rightarrow> wqueue \<Rightarrow> (wqueue \<times> (mapping_ptr \<times> nat) list)" where
  "wqueue_touch segSize t q =
     (let F = remove1 t (q_fixed q); S = remove1 t (q_segs q)
      in if sum_list (map (segSize \<circ> fst) F) < q_fixedMax q
         then (q\<lparr>q_fixed := t # F, q_segs := kept (segSize \<circ> fst) (q_slidingMax q) S\<rparr>,
               dropped (segSize \<circ> fst) (q_slidingMax q) S)
         else (q\<lparr>q_fixed := F, q_segs := kept (segSize \<circ> fst) (q_slidingMax q) (t # S)\<rparr>,
               dropped (segSize \<circ> fst) (q_slidingMax q) (t # S)))"

fun wqueue_step ::
  "(mapping_ptr \<Rightarrow> nat) \<Rightarrow> pol_op \<Rightarrow> wqueue \<Rightarrow> (wqueue \<times> (mapping_ptr \<times> nat) list) option" where
  "wqueue_step segSize (Alloc m n) q =
     (let need = sum_list (map (segSize \<circ> fst) (q_maps q)) + segSize m
      in if m \<noteq> 0 \<and> m \<notin> fst ` set (q_maps q) \<and> sizeof_ListElement * n < W64 \<and>
            segSize m \<le> q_static q \<and> need < W64 \<and> need \<le> q_limit q \<and>
            (q_local q \<longrightarrow> q_maps q = [])
         then Some (q\<lparr>q_maps := q_maps q @ [(m, n)]\<rparr>, []) else None)"
| "wqueue_step segSize (Free m) q =
     (if m \<in> fst ` set (q_maps q)
      then Some (q\<lparr>q_maps := filter (\<lambda>x. fst x \<noteq> m) (q_maps q),
                   q_segs := filter (\<lambda>t. fst t \<noteq> m) (q_segs q),
                   q_fixed := filter (\<lambda>t. fst t \<noteq> m) (q_fixed q)\<rparr>, [])
      else None)"
| "wqueue_step segSize (Touch m i) q =
     (if (\<exists>(m', n) \<in> set (q_maps q). m' = m \<and> i < n) \<and>
         sum_list (map (segSize \<circ> fst) (q_fixed q)) + sum_list (map (segSize \<circ> fst) (q_segs q)) + segSize m < W64
      then few (Some (wqueue_touch segSize (m, i) q)) else None)"
| "wqueue_step segSize (Evict m i) q =
     (if (m, i) \<in> set (q_fixed q) \<union> set (q_segs q)
      then Some (q\<lparr>q_segs := remove1 (m, i) (q_segs q), q_fixed := remove1 (m, i) (q_fixed q)\<rparr>, []) else None)"
| "wqueue_step segSize (Shrink limit) q =
     few (Some (q\<lparr>q_limit := limit, q_segs := kept (segSize \<circ> fst) (q_slidingMax q) (q_segs q)\<rparr>,
                dropped (segSize \<circ> fst) (q_slidingMax q) (q_segs q)))"

fun wqueue_run ::
  "(mapping_ptr \<Rightarrow> nat) \<Rightarrow> pol_op list \<Rightarrow> wqueue \<Rightarrow> (wqueue \<times> (mapping_ptr \<times> nat) list) option" where
  "wqueue_run segSize [] q = Some (q, [])"
| "wqueue_run segSize (c # cs) q =
     (case wqueue_step segSize c q of
        None \<Rightarrow> None
      | Some (q', ids) \<Rightarrow>
          (case wqueue_run segSize cs q' of
             None \<Rightarrow> None
           | Some (q'', ids') \<Rightarrow> Some (q'', ids @ ids')))"

definition new_wqueue :: "nat \<Rightarrow> nat \<Rightarrow> bool \<Rightarrow> wqueue" where
  "new_wqueue limit window local =
     \<lparr>q_local = local, q_static = limit, q_limit = limit, q_maps = [], q_segs = [],
      q_fixed = [], q_fixedMax = sz_sub limit window, q_slidingMax = window\<rparr>"

definition wstands_for :: "(mapping_ptr \<Rightarrow> size_t) \<Rightarrow> window_policy \<Rightarrow> wqueue \<Rightarrow> bool" where
  "wstands_for segSize p q \<longleftrightarrow>
     wtracks segSize p (q_fixed q) (q_segs q) \<and> usable p \<and> wheap_ok p \<and>
     pol_local p = q_local q \<and> staticMaxMemory p = q_static q \<and> dynamicMaxMemory p = q_limit q \<and>
     maxFixedMemory p = q_fixedMax q \<and> maxSlidingMemory p = q_slidingMax q \<and>
     map (\<lambda>st. (ps_mapping st, ps_elementCount st)) (storageRegistry p) = q_maps q"

lemma wtracks_memory:
  assumes "wtracks segSize p F S"
  shows "currentFixedMemory p = sum_list (map (segSize \<circ> fst) F)"
    and "currentSlidingWindowMemory p = sum_list (map (segSize \<circ> fst) S)"
    and "window_getCurrentMemory p = sum_list (map (segSize \<circ> fst) F) + sum_list (map (segSize \<circ> fst) S)"
    and "set F \<union> set S \<subseteq> segs (storageRegistry p)"
proof -
  obtain fs ss where wt: "wtracking segSize p fs ss"
    and FS: "F = map (owner (storageRegistry p)) fs" "S = map (owner (storageRegistry p)) ss"
    using assms by (auto simp: wtracks_def)
  note d = wtrackingD [OF wt]
  show 1: "currentFixedMemory p = sum_list (map (segSize \<circ> fst) F)"
    and 2: "currentSlidingWindowMemory p = sum_list (map (segSize \<circ> fst) S)"
    using d(8,9) by (simp_all add: FS weight_map)
  show "window_getCurrentMemory p = sum_list (map (segSize \<circ> fst) F) + sum_list (map (segSize \<circ> fst) S)"
    unfolding window_getCurrentMemory_def 1 [symmetric] 2 [symmetric] using d(10) by (subst sz_add_exact) simp_all
  have "owner (storageRegistry p) e \<in> segs (storageRegistry p)" if "e \<in> elts_of (storageRegistry p)" for e
    using that owner_elt [OF d(1)] by (auto simp: elts_of_def segs_def)
  then show "set F \<union> set S \<subseteq> segs (storageRegistry p)"
    using d(5) by (auto simp: FS)
qed

lemma wstands_forD:
  assumes "wstands_for segSize p q"
  shows "wtracks segSize p (q_fixed q) (q_segs q)" and "usable p" and "wheap_ok p"
    and "maxFixedMemory p = q_fixedMax q" and "maxSlidingMemory p = q_slidingMax q"
    and "(\<exists>(m', n) \<in> set (q_maps q). m' = m \<and> i < n) \<longleftrightarrow> (m, i) \<in> segs (storageRegistry p)"
    and "fst ` set (q_maps q) = ps_mapping ` set (storageRegistry p)"
    and "map (segSize \<circ> fst) (q_maps q) = map (segSize \<circ> ps_mapping) (storageRegistry p)"
    and "pol_local p = q_local q" and "staticMaxMemory p = q_static q" and "dynamicMaxMemory p = q_limit q"
    and "q_maps q = map (\<lambda>st. (ps_mapping st, ps_elementCount st)) (storageRegistry p)"
proof -
  show maps: "q_maps q = map (\<lambda>st. (ps_mapping st, ps_elementCount st)) (storageRegistry p)"
    using assms by (simp add: wstands_for_def)
  show "(\<exists>(m', n) \<in> set (q_maps q). m' = m \<and> i < n) \<longleftrightarrow> (m, i) \<in> segs (storageRegistry p)"
    by (auto simp: maps segs_def)
  show "fst ` set (q_maps q) = ps_mapping ` set (storageRegistry p)"
    by (simp add: maps image_image)
  show "map (segSize \<circ> fst) (q_maps q) = map (segSize \<circ> ps_mapping) (storageRegistry p)"
    by (simp add: maps)
qed (use assms in \<open>simp_all add: wstands_for_def\<close>)

section \<open>One call\<close>

definition window_config ::
  "window_policy \<Rightarrow> addr \<times> addr \<times> addr \<times> size_t \<times> size_t \<times> policy_storage list" where
  "window_config p = (w_brk p, rootFixedWindow p, rootSlidingWindow p, staticMaxMemory p, dynamicMaxMemory p,
     storageRegistry p)"

lemma window_config_upd [simp]:
  "window_config (p\<lparr>w_elts := h\<rparr>) = window_config p"
  "window_config (p\<lparr>w_flags := fl\<rparr>) = window_config p"
  "window_config (p\<lparr>currentFixedMemory := n\<rparr>) = window_config p"
  "window_config (p\<lparr>currentSlidingWindowMemory := n\<rparr>) = window_config p"
  "window_config (window_uncount segSize m b p) = window_config p"
  by (simp_all add: window_config_def window_uncount_def)

lemma window_evict_loop_config:
  assumes "window_evict_loop segSize p ids = returns (p', ids')"
  shows "window_config p' = window_config p"
proof -
  have "\<forall>p' ids'. y = Inr (p', ids') \<longrightarrow> window_config p' = window_config p"
    if ev: "window_evict_loop segSize p ids = Some y" for y
  proof (rule window_evict_loop.raw_induct
      [where P = "\<lambda>_ p _ y. \<forall>p' ids'. y = Inr (p', ids') \<longrightarrow> window_config p' = window_config p", OF _ ev])
    fix loop segSize p ids y
    assume IH: "\<And>segSize p ids y. loop segSize p ids = Some y \<Longrightarrow>
        \<forall>p' ids'. y = Inr (p', ids') \<longrightarrow> window_config p' = window_config p"
      and body: "(if currentSlidingWindowMemory p > maxSlidingMemory p
      then
        (case popPrev (rootSlidingWindow p) (w_elts p) of
           (None, h) \<Rightarrow> loop segSize (p\<lparr>w_elts := h\<rparr>) ids
         | (Some toEvict, h) \<Rightarrow>
             (case getStorageInfo_entry toEvict p of
                Inl e \<Rightarrow> aborts e
              | Inr evictInfos \<Rightarrow>
                  (let ids' = ids @ [(ps_mapping evictInfos,
                               (toEvict - ps_elements evictInfos) div sizeof_ListElement)]
                   in if \<not> length ids' < maxIdsToEvict
                      then aborts (Fatal ''Reach maximum pages to evict due to optimization, cannot continue !'')
                      else loop segSize
                             (p\<lparr>w_elts := h,
                                currentSlidingWindowMemory := sz_sub (currentSlidingWindowMemory p)
                                  (segSize (ps_mapping evictInfos))\<rparr>) ids')))
      else returns (p, ids)) = Some y"
    show "\<forall>p' ids'. y = Inr (p', ids') \<longrightarrow> window_config p' = window_config p"
      using body by (auto simp: Let_def dest!: IH split: if_splits prod.splits option.splits sum.splits)
  qed
  with assms show ?thesis by blast
qed

lemma window_notifyTouch_config:
  assumes "window_notifyTouch_cs segSize m i p = returns (p', ids, first, orig)"
  shows "window_config p' = window_config p"
  using assms
  by (auto simp: window_notifyTouch_cs_def Let_def dest!: window_evict_loop_config
      split: sum.splits if_splits prod.splits)

lemma wstands_for_config:
  assumes "wstands_for segSize p q" and "window_config p' = window_config p"
    and "wtracks segSize p' F S" and "storageRegistry p' = storageRegistry p" and "pol_local p' = pol_local p"
    and "maxFixedMemory p' = maxFixedMemory p" and "maxSlidingMemory p' = maxSlidingMemory p"
  shows "wstands_for segSize p' (q\<lparr>q_segs := S, q_fixed := F\<rparr>)"
  using assms by (simp add: wstands_for_def window_config_def usable_def wheap_ok_def)

lemma window_exec_Alloc:
  assumes sf: "wstands_for segSize p q" and st: "wqueue_step segSize (Alloc m n) q = Some (q', ids)"
  shows "\<exists>p'. window_exec segSize (Alloc m n) p = returns (p', ids) \<and> wstands_for segSize p' q'"
proof -
  let ?need = "sum_list (map (segSize \<circ> fst) (q_maps q)) + segSize m"
  have g: "m \<noteq> 0" "m \<notin> fst ` set (q_maps q)" "sizeof_ListElement * n < W64"
    "segSize m \<le> q_static q" "?need < W64" "?need \<le> q_limit q" "q_local q \<longrightarrow> q_maps q = []"
    and q': "q' = q\<lparr>q_maps := q_maps q @ [(m, n)]\<rparr>" "ids = []"
    using st by (simp_all add: Let_def split: if_splits)
  note d = wstands_forD [OF sf]
  obtain p' where p': "window_allocateElementStorage segSize m n p = Inr p'"
      "wtracks segSize p' (q_fixed q) (q_segs q)" "wheap_ok p'" "dynamicMaxMemory p' = dynamicMaxMemory p"
      "staticMaxMemory p' = staticMaxMemory p" "pol_local p' = pol_local p"
      "maxFixedMemory p' = maxFixedMemory p" "maxSlidingMemory p' = maxSlidingMemory p"
      "map (\<lambda>st. (ps_mapping st, ps_elementCount st)) (storageRegistry p') =
        map (\<lambda>st. (ps_mapping st, ps_elementCount st)) (storageRegistry p) @ [(m, n)]"
    by (rule window_allocateElementStorage_correct [OF d(1,3) g(1), of n])
      (use g d(7,8,10,11) in \<open>simp_all del: map_map\<close>)
  have "length (storageRegistry p') = Suc (length (storageRegistry p))"
    using arg_cong [OF p'(9), of length] by simp
  then have "usable p'"
    using g(7) d(9,12) p'(6) by (auto simp: usable_def)
  then show ?thesis
    using p' q' d(4,5,9-12) by (simp add: wstands_for_def)
qed

lemma window_exec_Free:
  assumes sf: "wstands_for segSize p q" and st: "wqueue_step segSize (Free m) q = Some (q', ids)"
  shows "\<exists>p'. window_exec segSize (Free m) p = returns (p', ids) \<and> wstands_for segSize p' q'"
proof -
  note d = wstands_forD [OF sf]
  have g: "m \<in> ps_mapping ` set (storageRegistry p)"
    and q': "q' = q\<lparr>q_maps := filter (\<lambda>x. fst x \<noteq> m) (q_maps q), q_segs := filter (\<lambda>t. fst t \<noteq> m) (q_segs q),
      q_fixed := filter (\<lambda>t. fst t \<noteq> m) (q_fixed q)\<rparr>" "ids = []"
    using st d(7) by (simp_all split: if_splits)
  obtain h n1 n2 where p': "window_freeElementStorage segSize m p =
      Inr (p\<lparr>w_elts := h, currentFixedMemory := n1, currentSlidingWindowMemory := n2,
        storageRegistry := filter (\<lambda>st. ps_mapping st \<noteq> m) (storageRegistry p)\<rparr>)"
    "wtracks segSize (p\<lparr>w_elts := h, currentFixedMemory := n1, currentSlidingWindowMemory := n2,
        storageRegistry := filter (\<lambda>st. ps_mapping st \<noteq> m) (storageRegistry p)\<rparr>)
      (filter (\<lambda>t. fst t \<noteq> m) (q_fixed q)) (filter (\<lambda>t. fst t \<noteq> m) (q_segs q))"
    by (rule window_freeElementStorage_correct [OF d(1,2) g])
  have "length (filter (\<lambda>st. ps_mapping st \<noteq> m) (storageRegistry p)) \<le> 1" if "length (storageRegistry p) \<le> 1"
    using that le_trans [OF length_filter_le] by blast
  then show ?thesis
    using p' q' d(2-5,9-12)
    by (intro exI [of _ "p\<lparr>w_elts := h, currentFixedMemory := n1, currentSlidingWindowMemory := n2,
        storageRegistry := filter (\<lambda>st. ps_mapping st \<noteq> m) (storageRegistry p)\<rparr>"])
      (simp add: wstands_for_def wheap_ok_def usable_def filter_map comp_def)
qed

lemma window_exec_Touch:
  assumes sf: "wstands_for segSize p q" and st: "wqueue_step segSize (Touch m i) q = Some (q', ids)"
  shows "\<exists>p'. window_exec segSize (Touch m i) p = returns (p', ids) \<and> wstands_for segSize p' q'"
proof -
  note d = wstands_forD [OF sf] and mem = wtracks_memory [OF wstands_forD(1) [OF sf]]
  have g: "(m, i) \<in> segs (storageRegistry p)" "currentFixedMemory p + currentSlidingWindowMemory p + segSize m < W64"
    and t: "wqueue_touch segSize (m, i) q = (q', ids)" and len: "length ids < maxIdsToEvict"
    using st d(6) [of m i] mem by (simp_all add: few_Some split: if_splits)
  let ?F = "remove1 (m, i) (q_fixed q)" and ?S = "remove1 (m, i) (q_segs q)"
  let ?fixed = "sum_list (map (segSize \<circ> fst) ?F) < maxFixedMemory p"
  let ?F2 = "if ?fixed then (m, i) # ?F else ?F" and ?S2 = "if ?fixed then ?S else (m, i) # ?S"
  have q': "q' = q\<lparr>q_segs := kept (segSize \<circ> fst) (maxSlidingMemory p) ?S2, q_fixed := ?F2\<rparr>"
    and ids: "ids = dropped (segSize \<circ> fst) (maxSlidingMemory p) ?S2"
    using t d(4,5) by (auto simp: wqueue_touch_def Let_def split: if_splits)
  obtain p' first orig where p': "window_notifyTouch_cs segSize m i p = returns (p', ids, first, orig)"
      "wtracks segSize p' ?F2 (kept (segSize \<circ> fst) (maxSlidingMemory p) ?S2)"
      "storageRegistry p' = storageRegistry p" "maxFixedMemory p' = maxFixedMemory p"
      "maxSlidingMemory p' = maxSlidingMemory p" "pol_local p' = pol_local p"
    using window_notifyTouch_cs_correct [OF d(1,2) g] len unfolding ids by blast
  from wstands_for_config [OF sf window_notifyTouch_config [OF p'(1)] p'(2,3,6,4,5)] p'(1) show ?thesis
    by (simp add: q')
qed

lemma window_exec_Evict:
  assumes sf: "wstands_for segSize p q" and st: "wqueue_step segSize (Evict m i) q = Some (q', ids)"
  shows "\<exists>p'. window_exec segSize (Evict m i) p = returns (p', ids) \<and> wstands_for segSize p' q'"
proof -
  note d = wstands_forD [OF sf]
  have g: "(m, i) \<in> set (q_fixed q) \<union> set (q_segs q)"
    and q': "q' = q\<lparr>q_segs := remove1 (m, i) (q_segs q), q_fixed := remove1 (m, i) (q_fixed q)\<rparr>" "ids = []"
    using st by (simp_all split: if_splits)
  have "(m, i) \<in> segs (storageRegistry p)"
    using g wtracks_memory(4) [OF d(1)] by blast
  from window_notifyEvict_correct [OF d(1,2) this g] obtain h n1 n2
    where p': "window_notifyEvict segSize m i p =
        Inr (p\<lparr>w_elts := h, currentFixedMemory := n1, currentSlidingWindowMemory := n2\<rparr>)"
      "wtracks segSize (p\<lparr>w_elts := h, currentFixedMemory := n1, currentSlidingWindowMemory := n2\<rparr>)
        (remove1 (m, i) (q_fixed q)) (remove1 (m, i) (q_segs q))"
    by blast
  from wstands_for_config [OF sf _ p'(2)] p'(1) show ?thesis
    by (simp add: q')
qed

lemma window_exec_Shrink:
  assumes sf: "wstands_for segSize p q" and st: "wqueue_step segSize (Shrink limit) q = Some (q', ids)"
  shows "\<exists>p'. window_exec segSize (Shrink limit) p = returns (p', ids) \<and> wstands_for segSize p' q'"
proof -
  let ?p = "setDynamicMaxMemory limit p" and ?q = "q\<lparr>q_limit := limit\<rparr>"
  let ?S = "kept (segSize \<circ> fst) (q_slidingMax q) (q_segs q)"
  have sf': "wstands_for segSize ?p ?q"
    using sf by (simp add: wstands_for_def setDynamicMaxMemory_def wtracks_def wtracking_def usable_def wheap_ok_def)
  note d = wstands_forD [OF sf']
  have q': "q' = ?q\<lparr>q_segs := ?S, q_fixed := q_fixed q\<rparr>"
    "ids = dropped (segSize \<circ> fst) (q_slidingMax q) (q_segs q)" "length ids < maxIdsToEvict"
    using st by (auto simp: few_Some)
  obtain h n where p': "window_shrinkMemory_cs segSize ?p = returns (?p\<lparr>w_elts := h, currentSlidingWindowMemory := n\<rparr>, ids)"
      "wtracks segSize (?p\<lparr>w_elts := h, currentSlidingWindowMemory := n\<rparr>) (q_fixed q) ?S"
    using window_shrinkMemory_cs_correct [OF d(1)] d(5) q'(2,3) by auto
  from wstands_for_config [OF sf' _ p'(2)] p'(1) show ?thesis
    by (simp add: q'(1))
qed

section \<open>A whole history\<close>

lemma window_exec_correct:
  assumes "wstands_for segSize p q" and "wqueue_step segSize c q = Some (q', ids)"
  shows "\<exists>p'. window_exec segSize c p = returns (p', ids) \<and> wstands_for segSize p' q'"
  using assms
  by (cases c; hypsubst)
    (rule window_exec_Alloc window_exec_Free window_exec_Touch window_exec_Evict window_exec_Shrink, assumption+)+

lemma window_run_correct:
  assumes "wstands_for segSize p q" and "wqueue_run segSize cs q = Some (q', ids)"
  shows "\<exists>p'. window_run segSize cs p = returns (p', ids) \<and> wstands_for segSize p' q'"
  using assms
proof (induction cs arbitrary: p q ids)
  case (Cons c cs)
  obtain q1 ids1 ids2 where q1: "wqueue_step segSize c q = Some (q1, ids1)"
    and q2: "wqueue_run segSize cs q1 = Some (q', ids2)" and ids: "ids = ids1 @ ids2"
    using Cons.prems(2) by (auto split: option.splits)
  obtain p1 where p1: "window_exec segSize c p = returns (p1, ids1)" "wstands_for segSize p1 q1"
    using window_exec_correct [OF Cons.prems(1) q1] by auto
  then show ?case
    using Cons.IH [OF p1(2) q2] ids by auto
qed simp

lemma newFifoWindowPolicy_stands_for:
  "wstands_for segSize (newFifoWindowPolicy mutex limit window local) (new_wqueue limit window local)"
  unfolding wstands_for_def wtracks_def wtracking_def
  by (auto simp: newFifoWindowPolicy_def new_wqueue_def usable_def wheap_ok_def storages_ok_def ring_def
      elts_of_def newElement_def set_next_def set_prev_def empty_elements_def intro!: exI [of _ "[]"])

lemmas wqueue_eval = queue_eval new_wqueue_def wqueue_touch_def

text \<open>
  C8. Every history of calls on a window policy, from its constructor on, that the
  specification allows is executed by the code: the run returns and hands over the segments of
  the specification in its order. A touched segment goes to the fixed window while that is
  not full, and otherwise to the front of the sliding window, which alone is trimmed, from its
  end, to its size. Both rings hold the segments of the specification and the memory counted
  is their total size.
\<close>

theorem window_history:
  assumes "wqueue_run segSize cs (new_wqueue limit window local) = Some (q, ids)"
  shows "\<exists>p. window_run segSize cs (newFifoWindowPolicy mutex limit window local) = returns (p, ids) \<and>
    wtracks segSize p (q_fixed q) (q_segs q) \<and>
    window_getCurrentMemory p = sum_list (map (segSize \<circ> fst) (q_fixed q)) + sum_list (map (segSize \<circ> fst) (q_segs q))"
proof -
  obtain p where p: "window_run segSize cs (newFifoWindowPolicy mutex limit window local) = returns (p, ids)"
      "wstands_for segSize p q"
    using window_run_correct [OF newFifoWindowPolicy_stands_for assms] by blast
  then show ?thesis
    using wstands_forD(1) [OF p(2)] wtracks_memory(3) by blast
qed

theorem window_history_witness:
  "wqueue_run (\<lambda>m. 4 * m) [Alloc 1 5, Alloc 2 2, Touch 1 0, Touch 1 1, Touch 1 2, Touch 2 0, Touch 1 0, Evict 1 1, Touch 1 3, Free 2]
     (new_wqueue 16 8 False) =
     Some (\<lparr>q_local = False, q_static = 16, q_limit = 16, q_maps = [(1, 5)], q_segs = [],
       q_fixed = [(1, 3), (1, 0)], q_fixedMax = 8, q_slidingMax = 8\<rparr>, [(1, 2)]) \<and>
   (\<exists>p. window_run (\<lambda>m. 4 * m)
      [Alloc 1 5, Alloc 2 2, Touch 1 0, Touch 1 1, Touch 1 2, Touch 2 0, Touch 1 0, Evict 1 1, Touch 1 3, Free 2]
      (newFifoWindowPolicy 8 16 8 False) = returns (p, [(1, 2)]) \<and>
      wtracks (\<lambda>m. 4 * m) p [(1, 3), (1, 0)] [] \<and> window_getCurrentMemory p = 8)"
proof -
  have run: "wqueue_run (\<lambda>m. 4 * m)
      [Alloc 1 5, Alloc 2 2, Touch 1 0, Touch 1 1, Touch 1 2, Touch 2 0, Touch 1 0, Evict 1 1, Touch 1 3, Free 2]
      (new_wqueue 16 8 False) =
     Some (\<lparr>q_local = False, q_static = 16, q_limit = 16, q_maps = [(1, 5)], q_segs = [],
       q_fixed = [(1, 3), (1, 0)], q_fixedMax = 8, q_slidingMax = 8\<rparr>, [(1, 2)])"
    by (simp add: wqueue_eval)
  show ?thesis
    using run window_history [OF run, of 8] by simp
qed

section \<open>The memory of a window policy\<close>

lemma sum_filter_le: "sum_list (map f (filter P xs)) \<le> (sum_list (map f xs) :: nat)"
  by (induction xs) auto

lemma sum_remove1_le: "sum_list (map f (remove1 x xs)) \<le> (sum_list (map f xs) :: nat)"
  by (induction xs) auto

lemma sum_kept_le: "sum_list (map f (kept f lim xs)) \<le> (lim :: nat)"
  using kept_weight [of f lim xs] by auto

definition within :: "(mapping_ptr \<Rightarrow> nat) \<Rightarrow> nat \<Rightarrow> wqueue \<Rightarrow> bool" where
  "within segSize sg q \<longleftrightarrow>
     sum_list (map (segSize \<circ> fst) (q_fixed q)) \<le> q_fixedMax q + (sg - 1) \<and>
     sum_list (map (segSize \<circ> fst) (q_segs q)) \<le> q_slidingMax q"

lemma wqueue_step_within:
  assumes st: "wqueue_step segSize c q = Some (q', ids)" and sg: "\<forall>m. segSize m \<le> sg" and w: "within segSize sg q"
  shows "within segSize sg q' \<and> q_fixedMax q' = q_fixedMax q \<and> q_slidingMax q' = q_slidingMax q"
proof (cases c)
  case (Touch m i)
  let ?f = "segSize \<circ> fst"
  have t: "wqueue_touch segSize (m, i) q = (q', ids)"
    using st by (simp add: Touch few_Some split: if_splits)
  have "sum_list (map ?f (remove1 (m, i) (q_fixed q))) \<le> q_fixedMax q + (sg - 1)"
    using w sum_remove1_le [of ?f "(m, i)" "q_fixed q"] by (simp add: within_def)
  moreover have "segSize m + x \<le> q_fixedMax q + (sg - 1)" if "x < q_fixedMax q" for x
    using that sg [rule_format, of m] by linarith
  ultimately show ?thesis
    using t sum_kept_le [of ?f "q_slidingMax q"]
    by (auto simp: wqueue_touch_def within_def Let_def split: if_splits)
next
  case (Free m)
  then show ?thesis
    using st w sum_filter_le [of "segSize \<circ> fst" "\<lambda>t. fst t \<noteq> m" "q_fixed q"]
      sum_filter_le [of "segSize \<circ> fst" "\<lambda>t. fst t \<noteq> m" "q_segs q"]
    by (auto simp: within_def split: if_splits)
next
  case (Evict m i)
  then show ?thesis
    using st w sum_remove1_le [of "segSize \<circ> fst" "(m, i)" "q_fixed q"]
      sum_remove1_le [of "segSize \<circ> fst" "(m, i)" "q_segs q"]
    by (auto simp: within_def split: if_splits)
next
  case (Shrink limit)
  then show ?thesis
    using st w sum_kept_le [of "segSize \<circ> fst" "q_slidingMax q" "q_segs q"] by (auto simp: within_def few_Some)
qed (use st w in \<open>auto simp: within_def Let_def split: if_splits\<close>)

lemma wqueue_run_within:
  assumes "wqueue_run segSize cs q = Some (q', ids)" and "\<forall>m. segSize m \<le> sg" and "within segSize sg q"
  shows "within segSize sg q' \<and> q_fixedMax q' = q_fixedMax q \<and> q_slidingMax q' = q_slidingMax q"
  using assms(1,3)
proof (induction cs arbitrary: q ids)
  case (Cons c cs)
  obtain q1 ids1 ids2 where q1: "wqueue_step segSize c q = Some (q1, ids1)"
    and q2: "wqueue_run segSize cs q1 = Some (q', ids2)"
    using Cons.prems(1) by (auto split: option.splits)
  note s = wqueue_step_within [OF q1 assms(2) Cons.prems(2)]
  with Cons.IH [OF q2] show ?case by simp
qed simp

text \<open>
  C17. The memory of a window policy: after any allowed history the sliding window fits in its
  size, and the memory counted exceeds the memory given to the policy by less than one segment.
  The test for the fixed window lets a segment in when one byte is free, so the excess is real
  when the size of the fixed window is not a multiple of the segment size.
\<close>

theorem window_memory_bound:
  assumes "wqueue_run segSize cs (new_wqueue limit window local) = Some (q, ids)"
    and "\<forall>m. segSize m \<le> sg" and "window \<le> limit" and "limit < W64"
  shows "\<exists>p. window_run segSize cs (newFifoWindowPolicy mutex limit window local) = returns (p, ids) \<and>
    currentSlidingWindowMemory p \<le> window \<and> window_getCurrentMemory p \<le> limit + (sg - 1)"
proof -
  obtain p where p: "window_run segSize cs (newFifoWindowPolicy mutex limit window local) = returns (p, ids)"
      "wstands_for segSize p q"
    using window_run_correct [OF newFifoWindowPolicy_stands_for assms(1)] by blast
  have "sz_sub limit window = limit - window"
    using assms(3,4) by (rule sz_sub_exact)
  moreover have "within segSize sg (new_wqueue limit window local)"
    by (simp add: within_def new_wqueue_def)
  ultimately have "within segSize sg q" "q_fixedMax q = limit - window" "q_slidingMax q = window"
    using wqueue_run_within [OF assms(1,2)] by (simp_all add: new_wqueue_def)
  then show ?thesis
    using p(1) wtracks_memory [OF wstands_forD(1) [OF p(2)]] assms(3) by (auto simp: within_def)
qed

theorem window_memory_bound_witness:
  "\<exists>p. window_run (\<lambda>m. 4) [Alloc 1 5, Touch 1 0, Touch 1 1, Touch 1 2, Touch 1 3] (newFifoWindowPolicy 8 10 4 False) =
      returns (p, [(1, 2)]) \<and>
    currentSlidingWindowMemory p \<le> 4 \<and> window_getCurrentMemory p \<le> 10 + (4 - 1)"
  by (rule window_memory_bound) (simp_all add: wqueue_eval)

end
