(* ===== verification/PolicyLayout.thy ===== *)
theory PolicyLayout
  imports World WindowHistory
begin

text \<open>
  Where the elements of a policy lie: the next free address of its heap, the roots of its
  lists and the storages of its mappings. Only registering and releasing a mapping changes
  this layout; every new storage is put behind the ones in use.
\<close>

section \<open>The layout\<close>

definition list_config :: "list_policy \<Rightarrow> addr \<times> addr \<times> policy_storage list" where
  "list_config p = (brk p, root p, storageRegistry p)"

lemma list_config_upd [simp]:
  "list_config (p\<lparr>elts := h\<rparr>) = list_config p"
  "list_config (p\<lparr>currentMemory := n\<rparr>) = list_config p"
  by (simp_all add: list_config_def)

lemma evict_loop_config:
  assumes "evict_loop segSize p ids = returns (p', ids')"
  shows "list_config p' = list_config p"
proof -
  have "\<forall>p' ids'. y = Inr (p', ids') \<longrightarrow> list_config p' = list_config p"
    if ev: "evict_loop segSize p ids = Some y" for y
  proof (rule evict_loop.raw_induct
      [where P = "\<lambda>_ p _ y. \<forall>p' ids'. y = Inr (p', ids') \<longrightarrow> list_config p' = list_config p", OF _ ev])
    fix loop segSize p ids y
    assume IH: "\<And>segSize p ids y. loop segSize p ids = Some y \<Longrightarrow>
        \<forall>p' ids'. y = Inr (p', ids') \<longrightarrow> list_config p' = list_config p"
      and body: "(if currentMemory p > dynamicMaxMemory p
      then
        (case popPrev (root p) (elts p) of
           (None, h) \<Rightarrow> loop segSize (p\<lparr>elts := h\<rparr>) ids
         | (Some toEvict, h) \<Rightarrow>
             (case getStorageInfo_entry toEvict p of
                Inl e \<Rightarrow> aborts e
              | Inr evictInfos \<Rightarrow>
                  (let ids' = ids @ [(ps_mapping evictInfos,
                               (toEvict - ps_elements evictInfos) div sizeof_ListElement)]
                   in if \<not> length ids' < maxIdsToEvict
                      then aborts (Fatal ''Reach maximum pages to evict due to optimization, cannot continue !'')
                      else loop segSize
                             (p\<lparr>elts := h,
                                currentMemory := sz_sub (currentMemory p)
                                                   (segSize (ps_mapping evictInfos))\<rparr>) ids')))
      else returns (p, ids)) = Some y"
    show "\<forall>p' ids'. y = Inr (p', ids') \<longrightarrow> list_config p' = list_config p"
      using body by (auto simp: Let_def dest!: IH split: if_splits prod.splits option.splits sum.splits)
  qed
  with assms show ?thesis by blast
qed

lemma fifo_notifyTouch_config:
  assumes "fifo_notifyTouch_cs segSize m i p = returns (p', ids, first, orig)"
  shows "list_config p' = list_config p"
  using assms
  by (auto simp: fifo_notifyTouch_cs_def Let_def dest!: evict_loop_config split: sum.splits if_splits prod.splits)

lemma lifo_notifyTouch_config:
  assumes "lifo_notifyTouch_cs segSize m i p = returns (p', ids, first, orig)"
  shows "list_config p' = list_config p"
  using assms
  by (auto simp: lifo_notifyTouch_cs_def Let_def dest!: evict_loop_config split: sum.splits if_splits prod.splits)

section \<open>Of any policy\<close>

text \<open>
  The storages of a policy lie below the next free address and hold at least one element each.
\<close>

definition pobj_registry :: "policy_obj \<Rightarrow> policy_storage list" where
  "pobj_registry po =
     (case po of PFifo p \<Rightarrow> storageRegistry p | PLifo p \<Rightarrow> storageRegistry p | PWindow p \<Rightarrow> storageRegistry p)"

definition pobj_room :: "policy_obj \<Rightarrow> bool" where
  "pobj_room po \<longleftrightarrow>
     (case po of PFifo p \<Rightarrow> heap_ok p | PLifo p \<Rightarrow> heap_ok p | PWindow p \<Rightarrow> wheap_ok p) \<and>
     (\<forall>st \<in> set (pobj_registry po). 0 < ps_elementCount st)"

lemmas pobj_room_defs = pobj_room_def pobj_registry_def map_result_def map_outcome_def

lemma list_config_room:
  "list_config p' = list_config p \<Longrightarrow> heap_ok p' = heap_ok p \<and> storageRegistry p' = storageRegistry p"
  by (simp add: list_config_def heap_ok_def)

lemma window_config_room:
  "window_config p' = window_config p \<Longrightarrow> wheap_ok p' = wheap_ok p \<and> storageRegistry p' = storageRegistry p"
  by (simp add: window_config_def wheap_ok_def)

lemma pobj_touch_room:
  "pobj_notifyTouch_cs segSize m i po = returns (po', ids, first, orig) \<Longrightarrow>
    pobj_room po' = pobj_room po \<and> pobj_registry po' = pobj_registry po"
  by (cases po)
    (auto simp: pobj_room_defs pobj_notifyTouch_cs_def
      dest!: fifo_notifyTouch_config lifo_notifyTouch_config list_config_room window_notifyTouch_config window_config_room)

lemma pobj_evict_room:
  "pobj_notifyEvict segSize m i po = Inr po' \<Longrightarrow>
    pobj_room po' = pobj_room po \<and> pobj_registry po' = pobj_registry po"
  by (cases po)
    (auto simp: pobj_room_defs pobj_notifyEvict_def fifo_notifyEvict_def lifo_notifyEvict_def window_notifyEvict_def
      heap_ok_def wheap_ok_def window_uncount_def Let_def split: if_splits)

lemma pobj_shrink_room:
  "pobj_shrinkMemory_cs segSize po = returns (po', ids) \<Longrightarrow>
    pobj_room po' = pobj_room po \<and> pobj_registry po' = pobj_registry po"
  by (cases po)
    (auto simp: pobj_room_defs pobj_shrinkMemory_cs_def fifo_shrinkMemory_cs_def lifo_shared window_shrinkMemory_cs_def
      dest!: evict_loop_config list_config_room window_evict_loop_config window_config_room)

lemma pobj_limit_room [simp]:
  "pobj_room (pobj_setDynamicMaxMemory n po) = pobj_room po"
  "pobj_registry (pobj_setDynamicMaxMemory n po) = pobj_registry po"
  by (cases po; simp add: pobj_room_defs pobj_setDynamicMaxMemory_def setDynamicMaxMemory_def heap_ok_def wheap_ok_def)+

end
