(* ===== verification/WorldInv.thy ===== *)
theory WorldInv
  imports PolicyLayout
begin

text \<open>
  The invariant of the whole system: every policy satisfies the contract of theory
  \<open>Eviction\<close> for the segments of its mappings, and every segment that is in memory is tracked
  by the policies of its mapping. It holds across faults, evictions and quota updates, and
  with it the memory limits of the list policies.
\<close>

section \<open>What the mapping methods change in the mapping\<close>

text \<open>These facts need nothing of the driver but that it does not map memory itself.\<close>

lemma flush_segment_status:
  assumes "flush_segment ops d unmap off (m, s, v) = Inr (m', s', v')"
  obtains st where "m' = set_status (off div segmentSize m) st m"
    and "mapped st \<longleftrightarrow> mapped (segmentStatus m ! (off div segmentSize m)) \<and> \<not> unmap"
proof -
  let ?id = "off div segmentSize m"
  let ?old = "segmentStatus m ! ?id"
  obtain x where first: "(if dirty ?old \<and> mapped ?old
           then bindE (if threadSafe m
                       then mprotect (baseAddress m + off) (segmentSize m) True (\<not> threadSafe m) (exec_flag m) v
                       else Inr v)
                  (\<lambda>v1. bindE (d_pwrite ops d (baseAddress m + off) (load_buf (baseAddress m + off) v1)
                                 (readWriteSize off m) (sz_add (storageOffset m) off) s)
                     (\<lambda>(res, s1).
                        if \<not> res \<noteq> -1 then Inl (Fatal ''Fail to pwrite'')
                        else if \<not> res \<ge> 0 then Inl (Fatal ''Fail to fully write the segment'')
                        else Inr (?old\<lparr>dirty := False, needRead := True\<rparr>, s1, v1)))
           else Inr (?old, s, v)) = Inr x"
    and rest: "(case x of (st, s1, v1) \<Rightarrow> if mapped st
       then if unmap
            then bindE (mprotect (baseAddress m + off) (segmentSize m) False False (exec_flag m) v1)
                   (\<lambda>v2. Inr (set_status ?id (st\<lparr>mapped := False\<rparr>) m, s1,
                              madviseDontNeed (baseAddress m + off) (segmentSize m) v2))
            else if \<not> threadSafe m
            then bindE (mprotect (baseAddress m + off) (segmentSize m) True False (exec_flag m) v1)
                   (\<lambda>v2. Inr (set_status ?id st m, s1, v2))
            else Inr (set_status ?id st m, s1, v1)
       else Inr (set_status ?id st m, s1, v1)) = Inr (m', s', v')"
    using assms unfolding flush_segment_def prod.case Let_def bindE_eq_Inr by blast
  obtain st s1 v1 where x: "x = (st, s1, v1)"
    by (cases x) blast
  have same: "mapped st = mapped ?old"
    using first unfolding x
    by (cases "dirty ?old \<and> mapped ?old") (auto simp only: bindE_eq_Inr split: if_splits, auto split: if_splits)
  note rest = rest [unfolded x prod.case]
  show thesis
  proof (cases "mapped st \<and> unmap")
    case True
    with rest have "m' = set_status ?id (st\<lparr>mapped := False\<rparr>) m"
      by (auto elim!: bindE_InrE)
    with True show thesis by (intro that [of "st\<lparr>mapped := False\<rparr>"]) simp_all
  next
    case False
    with rest have "m' = set_status ?id st m"
      by (auto split: if_splits elim!: bindE_InrE)
    with False same show thesis by (intro that [of st]) auto
  qed
qed

lemma sz_mul_segment:
  assumes "shape m" and "i < segments m"
  shows "sz_mul i (segmentSize m) = i * segmentSize m"
    and "sz_add (i * segmentSize m) (segmentSize m) = Suc i * segmentSize m"
    and "Suc i * segmentSize m \<le> segments m * segmentSize m"
proof -
  show le: "Suc i * segmentSize m \<le> segments m * segmentSize m"
    using assms(2) by (intro mult_right_mono) simp_all
  then have "Suc i * segmentSize m < W64"
    using assms(1) by (simp add: shape_def)
  then show "sz_mul i (segmentSize m) = i * segmentSize m"
    and "sz_add (i * segmentSize m) (segmentSize m) = Suc i * segmentSize m"
    by (simp_all add: add.commute)
qed

lemma evict_flush_status:
  assumes sh: "shape m" and i: "i < segments m"
    and soft: "\<And>a n off s v. d_directMSync ops d a n off s v = Inr (False, s, v)"
    and run: "evict_flush ops d i m s v = Inr (m', s', v')"
  obtains st where "m' = set_status i st m" and "\<not> mapped st"
proof -
  have sg: "0 < segmentSize m"
    using sh by (simp add: shape_def)
  have fl: "\<not> has_flag (UMMAP_FLUSH_UNMAP OR UMMAP_FLUSH_NO_LOCK) UMMAP_FLUSH_SYNC"
    "has_flag (UMMAP_FLUSH_UNMAP OR UMMAP_FLUSH_NO_LOCK) UMMAP_FLUSH_UNMAP"
    by (simp_all add: has_flag_def)
  note e = sz_mul_segment [OF sh i]
  have rg: "for_range (i * segmentSize m) (Suc i * segmentSize m) (segmentSize m) = [i * segmentSize m]"
    using sg by simp
  have "flush_segment ops d True (i * segmentSize m) (m, s, v) = Inr (m', s', v')"
    using run unfolding evict_flush_def flush_def e Let_def fl soft rg
    by (auto simp: has_flag_def split: if_splits elim!: bindE_InrE)
  from flush_segment_status [OF this] sg that show thesis
    by auto
qed

lemma fault_status:
  assumes sh: "shape m"
    and run: "onSegmentationFault_cs ops kmmap d a wr m s v = Inr (m', s', v', r)"
  obtains (early) "r = None" and "m' = m"
  | (touched) i st where "r = Some (i, segmentStatus m ! i)" and "i < segments m" and "m' = set_status i st m"
proof -
  let ?i = "(a - baseAddress m) div segmentSize m"
  have rng: "baseAddress m \<le> a" "a < baseAddress m + segments m * segmentSize m"
    using run by (auto simp: onSegmentationFault_cs_def Let_def split: if_splits)
  then have "a - baseAddress m < segments m * segmentSize m"
    by simp
  then have i: "?i < segments m"
    by (rule less_mult_imp_div_less)
  let ?st = "segmentStatus m ! ?i"
  show thesis
  proof (cases "wr = dirty ?st \<and> mapped ?st")
    case True
    then show thesis
      using run by (intro early) (auto simp: onSegmentationFault_cs_def Let_def split: if_splits)
  next
    case False
    then obtain st where "m' = set_status ?i st m" and "r = Some (?i, ?st)"
      using run unfolding onSegmentationFault_cs_def Let_def if_not_P [OF False]
      by (auto split: if_splits elim!: bindE_InrE)
    then show thesis
      using touched i by blast
  qed
qed

section \<open>The contract, for any policy\<close>

definition pobj_inv :: "(mapping_ptr \<Rightarrow> size_t) \<Rightarrow> policy_obj \<Rightarrow> bool" where
  "pobj_inv segSize po =
     ((case po of PFifo p \<Rightarrow> list_inv segSize p | PLifo p \<Rightarrow> list_inv segSize p | PWindow p \<Rightarrow> window_inv segSize p) \<and>
      pobj_room po)"

definition pobj_tracked :: "policy_obj \<Rightarrow> (mapping_ptr \<times> nat) set" where
  "pobj_tracked po =
     (case po of PFifo p \<Rightarrow> list_tracked p | PLifo p \<Rightarrow> list_tracked p | PWindow p \<Rightarrow> window_tracked p)"

definition pobj_registered :: "policy_obj \<Rightarrow> (mapping_ptr \<times> nat) set" where
  "pobj_registered po =
     (case po of PFifo p \<Rightarrow> registered_segments p | PLifo p \<Rightarrow> registered_segments p
      | PWindow p \<Rightarrow> registered_segments p)"

definition pobj_dynamicMaxMemory :: "policy_obj \<Rightarrow> size_t" where
  "pobj_dynamicMaxMemory po =
     (case po of PFifo p \<Rightarrow> dynamicMaxMemory p | PLifo p \<Rightarrow> dynamicMaxMemory p | PWindow p \<Rightarrow> dynamicMaxMemory p)"

fun is_list_policy :: "policy_obj \<Rightarrow> bool" where
  "is_list_policy (PWindow p) = False"
| "is_list_policy _ = True"

lemmas pobj_defs =
  pobj_inv_def pobj_tracked_def pobj_registered_def pobj_dynamicMaxMemory_def
  pobj_getCurrentMemory_def pobj_notifyTouch_cs_def pobj_notifyEvict_def pobj_shrinkMemory_cs_def
  map_result_def map_outcome_def

interpretation pobj: eviction_policy segSize "pobj_notifyTouch_cs segSize" "pobj_notifyEvict segSize"
    "pobj_shrinkMemory_cs segSize" pobj_getCurrentMemory "pobj_inv segSize" pobj_tracked pobj_registered
  for segSize
proof
  fix p m i p' ids first orig
  assume *: "pobj_inv segSize p" "(m, i) \<in> pobj_registered p"
    "pobj_getCurrentMemory p + segSize m < W64"
    "pobj_notifyTouch_cs segSize m i p = returns (p', ids, first, orig)"
  show "pobj_inv segSize p' \<and> pobj_registered p' = pobj_registered p \<and>
      set ids \<subseteq> insert (m, i) (pobj_tracked p) \<and>
      pobj_tracked p' = insert (m, i) (pobj_tracked p) - set ids \<and> orig = pobj_getCurrentMemory p"
  proof (cases p)
    case (PFifo q)
    then obtain q' where "p' = PFifo q'" and "fifo_notifyTouch_cs segSize m i q = returns (q', ids, first, orig)"
      using *(4) by (auto simp: pobj_defs)
    with fifo.touch [of segSize q m i q' ids first orig] pobj_touch_room [OF *(4)] * PFifo show ?thesis
      by (simp add: pobj_defs)
  next
    case (PLifo q)
    then obtain q' where "p' = PLifo q'" and "lifo_notifyTouch_cs segSize m i q = returns (q', ids, first, orig)"
      using *(4) by (auto simp: pobj_defs)
    with lifo.touch [of segSize q m i q' ids first orig] pobj_touch_room [OF *(4)] * PLifo show ?thesis
      by (simp add: pobj_defs)
  next
    case (PWindow q)
    then obtain q' where "p' = PWindow q'" and "window_notifyTouch_cs segSize m i q = returns (q', ids, first, orig)"
      using *(4) by (auto simp: pobj_defs)
    with window.touch [of segSize q m i q' ids first orig] pobj_touch_room [OF *(4)] * PWindow show ?thesis
      by (simp add: pobj_defs)
  qed
next
  fix p m i
  assume *: "pobj_inv segSize p" "(m, i) \<in> pobj_tracked p"
  note room = pobj_evict_room [of segSize m i p]
  show "\<exists>p'. pobj_notifyEvict segSize m i p = Inr p' \<and> pobj_inv segSize p' \<and>
      pobj_registered p' = pobj_registered p \<and> pobj_tracked p' = pobj_tracked p - {(m, i)}"
  proof (cases p)
    case (PFifo q)
    with fifo.evict_tracked [of segSize q m i] * obtain q' where "fifo_notifyEvict segSize m i q = Inr q'"
        "list_inv segSize q'" "registered_segments q' = registered_segments q" "list_tracked q' = list_tracked q - {(m, i)}"
      by (auto simp: pobj_defs)
    with PFifo room [of "PFifo q'"] * show ?thesis by (simp add: pobj_defs)
  next
    case (PLifo q)
    with lifo.evict_tracked [of segSize q m i] * obtain q' where "lifo_notifyEvict segSize m i q = Inr q'"
        "list_inv segSize q'" "registered_segments q' = registered_segments q" "list_tracked q' = list_tracked q - {(m, i)}"
      by (auto simp: pobj_defs)
    with PLifo room [of "PLifo q'"] * show ?thesis by (simp add: pobj_defs)
  next
    case (PWindow q)
    with window.evict_tracked [of segSize q m i] * obtain q' where "window_notifyEvict segSize m i q = Inr q'"
        "window_inv segSize q'" "registered_segments q' = registered_segments q" "window_tracked q' = window_tracked q - {(m, i)}"
      by (auto simp: pobj_defs)
    with PWindow room [of "PWindow q'"] * show ?thesis by (simp add: pobj_defs)
  qed
next
  fix p m i
  assume "pobj_inv segSize p" and "(m, i) \<in> pobj_registered p" and "(m, i) \<notin> pobj_tracked p"
  then show "pobj_notifyEvict segSize m i p = Inl (AssertFailure ''cur.isInList()'')"
    by (cases p) (simp_all add: pobj_defs fifo.evict_untracked lifo.evict_untracked window.evict_untracked)
next
  fix p p' ids
  assume *: "pobj_inv segSize p" "pobj_shrinkMemory_cs segSize p = returns (p', ids)"
  show "pobj_inv segSize p' \<and> pobj_registered p' = pobj_registered p \<and>
      set ids \<subseteq> pobj_tracked p \<and> pobj_tracked p' = pobj_tracked p - set ids"
  proof (cases p)
    case (PFifo q)
    then obtain q' where "p' = PFifo q'" and "fifo_shrinkMemory_cs segSize q = returns (q', ids)"
      using *(2) by (auto simp: pobj_defs)
    with fifo.shrink [of segSize q q' ids] pobj_shrink_room [OF *(2)] * PFifo show ?thesis
      by (simp add: pobj_defs)
  next
    case (PLifo q)
    then obtain q' where "p' = PLifo q'" and "lifo_shrinkMemory_cs segSize q = returns (q', ids)"
      using *(2) by (auto simp: pobj_defs)
    with lifo.shrink [of segSize q q' ids] pobj_shrink_room [OF *(2)] * PLifo show ?thesis
      by (simp add: pobj_defs)
  next
    case (PWindow q)
    then obtain q' where "p' = PWindow q'" and "window_shrinkMemory_cs segSize q = returns (q', ids)"
      using *(2) by (auto simp: pobj_defs)
    with window.shrink [of segSize q q' ids] pobj_shrink_room [OF *(2)] * PWindow show ?thesis
      by (simp add: pobj_defs)
  qed
next
  fix p
  assume *: "pobj_inv segSize p"
  have "pobj_tracked p \<subseteq> pobj_registered p \<and> finite (pobj_tracked p) \<and>
    pobj_getCurrentMemory p = (\<Sum>t \<in> pobj_tracked p. segSize (fst t))"
  proof (cases p)
    case (PFifo q)
    then have "list_inv segSize q" using * by (simp add: pobj_inv_def)
    from fifo.tracked_registered [OF this] fifo.tracked_finite [OF this] fifo.mem_tracked [OF this] PFifo
    show ?thesis by (simp add: pobj_tracked_def pobj_registered_def pobj_getCurrentMemory_def)
  next
    case (PLifo q)
    then have "list_inv segSize q" using * by (simp add: pobj_inv_def)
    from lifo.tracked_registered [OF this] lifo.tracked_finite [OF this] lifo.mem_tracked [OF this] PLifo
    show ?thesis by (simp add: pobj_tracked_def pobj_registered_def pobj_getCurrentMemory_def)
  next
    case (PWindow q)
    then have "window_inv segSize q" using * by (simp add: pobj_inv_def)
    from window.tracked_registered [OF this] window.tracked_finite [OF this] window.mem_tracked [OF this] PWindow
    show ?thesis by (simp add: pobj_tracked_def pobj_registered_def pobj_getCurrentMemory_def)
  qed
  then show "pobj_tracked p \<subseteq> pobj_registered p" and "finite (pobj_tracked p)"
    and "pobj_getCurrentMemory p = (\<Sum>t \<in> pobj_tracked p. segSize (fst t))"
    by blast+
qed

section \<open>The parts of a policy that stay\<close>

text \<open>What a critical section keeps of the rest of the policy, and the limit it enforces.\<close>

lemma pobj_evict_keeps:
  assumes "pobj_notifyEvict segSize m i po = Inr po'"
  shows "pobj_dynamicMaxMemory po' = pobj_dynamicMaxMemory po" and "pobj_policyQuota po' = pobj_policyQuota po"
    and "is_list_policy po' = is_list_policy po"
  using assms
  by (cases po; auto simp: pobj_defs pobj_policyQuota_def fifo_notifyEvict_def lifo_notifyEvict_def
      window_notifyEvict_def window_uncount_def Let_def split: if_splits)+

lemma pobj_touch_keeps:
  assumes "pobj_inv segSize po" and "(m, i) \<in> pobj_registered po"
    and "pobj_getCurrentMemory po + segSize m < W64"
    and "pobj_notifyTouch_cs segSize m i po = returns (po', ids, first, orig)"
  shows "pobj_dynamicMaxMemory po' = pobj_dynamicMaxMemory po \<and> pobj_policyQuota po' = pobj_policyQuota po \<and>
    is_list_policy po' = is_list_policy po \<and>
    (is_list_policy po \<longrightarrow> pobj_getCurrentMemory po' \<le> pobj_dynamicMaxMemory po')"
proof (cases po)
  case (PFifo q)
  then obtain q' where "po' = PFifo q'" and "fifo_notifyTouch_cs segSize m i q = returns (q', ids, first, orig)"
    using assms(4) by (auto simp: pobj_defs)
  with fifo_touch_law(2,3) [of segSize q m i q' ids first orig] assms PFifo show ?thesis
    by (simp add: pobj_defs fifo_getCurrentMemory_def pobj_policyQuota_def)
next
  case (PLifo q)
  then obtain q' where "po' = PLifo q'" and "lifo_notifyTouch_cs segSize m i q = returns (q', ids, first, orig)"
    using assms(4) by (auto simp: pobj_defs)
  with lifo_touch_law(2,3) [of segSize q m i q' ids first orig] assms PLifo show ?thesis
    by (simp add: pobj_defs lifo_getCurrentMemory_def pobj_policyQuota_def)
next
  case (PWindow q)
  then obtain q' where "po' = PWindow q'" and "window_notifyTouch_cs segSize m i q = returns (q', ids, first, orig)"
    using assms(4) by (auto simp: pobj_defs)
  with window_touch_law(2) [of segSize q m i q' ids first orig] assms PWindow show ?thesis
    by (simp add: pobj_defs pobj_policyQuota_def)
qed

lemma pobj_shrink_keeps:
  assumes "pobj_inv segSize po" and "pobj_shrinkMemory_cs segSize po = returns (po', ids)"
  shows "pobj_dynamicMaxMemory po' = pobj_dynamicMaxMemory po \<and> pobj_policyQuota po' = pobj_policyQuota po \<and>
    is_list_policy po' = is_list_policy po \<and>
    (is_list_policy po \<longrightarrow> pobj_getCurrentMemory po' \<le> pobj_dynamicMaxMemory po')"
proof (cases po)
  case (PFifo q)
  then obtain q' where "po' = PFifo q'" and "fifo_shrinkMemory_cs segSize q = returns (q', ids)"
    using assms(2) by (auto simp: pobj_defs)
  with list_shrink_law(2,3) [of segSize q q' ids] assms PFifo show ?thesis
    by (simp add: pobj_defs fifo_getCurrentMemory_def pobj_policyQuota_def)
next
  case (PLifo q)
  then obtain q' where "po' = PLifo q'" and "fifo_shrinkMemory_cs segSize q = returns (q', ids)"
    using assms(2) by (auto simp: pobj_defs lifo_shared)
  with list_shrink_law(2,3) [of segSize q q' ids] assms PLifo show ?thesis
    by (simp add: pobj_defs lifo_getCurrentMemory_def pobj_policyQuota_def)
next
  case (PWindow q)
  then obtain q' where "po' = PWindow q'" and "window_shrinkMemory_cs segSize q = returns (q', ids)"
    using assms(2) by (auto simp: pobj_defs)
  with window_shrink_law(2) [of segSize q q' ids] assms PWindow show ?thesis
    by (simp add: pobj_defs pobj_policyQuota_def)
qed

text \<open>Setting the dynamic limit changes nothing else.\<close>

lemma tracks_limit [simp]: "tracks segSize (setDynamicMaxMemory n p) ts = tracks segSize p ts"
  by (simp add: tracks_def tracking_def setDynamicMaxMemory_def)

lemma wtracks_limit [simp]: "wtracks segSize (setDynamicMaxMemory n p) F S = wtracks segSize p F S"
  by (simp add: wtracks_def wtracking_def setDynamicMaxMemory_def)

lemma list_limit [simp]:
  "list_inv segSize (setDynamicMaxMemory n p) = list_inv segSize p"
  "list_tracked (setDynamicMaxMemory n p) = list_tracked p"
  "registered_segments (setDynamicMaxMemory n p') = registered_segments p'"
  "window_inv segSize (setDynamicMaxMemory n q) = window_inv segSize q"
  "window_tracked (setDynamicMaxMemory n q) = window_tracked q"
proof -
  have u: "usable (setDynamicMaxMemory n p') = usable p'" for p' :: "'b policy_scheme"
    by (simp add: usable_def setDynamicMaxMemory_def)
  show "list_inv segSize (setDynamicMaxMemory n p) = list_inv segSize p"
    "window_inv segSize (setDynamicMaxMemory n q) = window_inv segSize q"
    by (simp_all add: list_inv_def window_inv_def u)
qed (simp_all add: list_tracked_def window_tracked_def registered_segments_def setDynamicMaxMemory_def)

lemma pobj_limit [simp]:
  "pobj_inv segSize (pobj_setDynamicMaxMemory n po) = pobj_inv segSize po"
  "pobj_tracked (pobj_setDynamicMaxMemory n po) = pobj_tracked po"
  "pobj_registered (pobj_setDynamicMaxMemory n po) = pobj_registered po"
  "pobj_getCurrentMemory (pobj_setDynamicMaxMemory n po) = pobj_getCurrentMemory po"
  "pobj_policyQuota (pobj_setDynamicMaxMemory n po) = pobj_policyQuota po"
  "pobj_dynamicMaxMemory (pobj_setDynamicMaxMemory n po) = n"
proof -
  show "pobj_inv segSize (pobj_setDynamicMaxMemory n po) = pobj_inv segSize po"
    unfolding pobj_inv_def pobj_limit_room by (cases po) (simp_all add: pobj_setDynamicMaxMemory_def)
qed (cases po; simp add: pobj_tracked_def pobj_registered_def pobj_getCurrentMemory_def pobj_policyQuota_def
    pobj_dynamicMaxMemory_def pobj_setDynamicMaxMemory_def fifo_getCurrentMemory_def lifo_getCurrentMemory_def
    window_getCurrentMemory_def; simp add: setDynamicMaxMemory_def)+

lemma is_list_policy_limit [simp]: "is_list_policy (pobj_setDynamicMaxMemory n po) = is_list_policy po"
  by (cases po) (simp_all add: pobj_setDynamicMaxMemory_def)

section \<open>The invariant\<close>

definition policies_of :: "mapping \<Rightarrow> policy_ptr set" where
  "policies_of mp = {localPolicy mp, globalPolicy mp} - {0}"

text \<open>
  A live policy satisfies its contract and has registered exactly the segments of the
  mappings that use it; their total size is far from the width of \<open>size_t\<close>, as it is for
  memory mapped in one address space. No driver maps memory by itself.
\<close>

definition policy_ok :: "'f world \<Rightarrow> policy_ptr \<Rightarrow> policy_obj \<Rightarrow> bool" where
  "policy_ok w p po \<longleftrightarrow>
     pobj_inv (world_segSize w) po \<and>
     (\<forall>m i. (m, i) \<in> pobj_registered po \<longleftrightarrow>
        (\<exists>mp. w_mappings w m = Some mp \<and> i < segments mp \<and> p \<in> policies_of mp)) \<and>
     finite (pobj_registered po) \<and>
     2 * (\<Sum>t \<in> pobj_registered po. world_segSize w (fst t)) < W64"

definition world_base :: "'f world \<Rightarrow> bool" where
  "world_base w \<longleftrightarrow>
     (\<forall>m mp. w_mappings w m = Some mp \<longrightarrow> shape mp) \<and>
     (\<forall>a d. w_drivers w a = Some d \<longrightarrow> soft_driver d) \<and>
     (\<forall>p po. w_policies w p = Some po \<longrightarrow> policy_ok w p po)"

text \<open>
  Every segment in memory is tracked by the policies of its mapping; \<open>E p\<close> are the segments
  for which policy \<open>p\<close> is not up to date yet.
\<close>

definition resident_ok :: "(policy_ptr \<Rightarrow> (mapping_ptr \<times> nat) set) \<Rightarrow> 'f world \<Rightarrow> bool" where
  "resident_ok E w \<longleftrightarrow>
     (\<forall>p po m mp i. w_policies w p = Some po \<longrightarrow> w_mappings w m = Some mp \<longrightarrow> p \<in> policies_of mp \<longrightarrow>
        i < segments mp \<longrightarrow> mapped (segmentStatus mp ! i) \<longrightarrow> (m, i) \<in> pobj_tracked po \<union> E p)"

definition bounded_except :: "policy_ptr set \<Rightarrow> 'f world \<Rightarrow> bool" where
  "bounded_except X w \<longleftrightarrow>
     (\<forall>p po. w_policies w p = Some po \<longrightarrow> p \<notin> X \<longrightarrow> is_list_policy po \<longrightarrow>
        pobj_getCurrentMemory po \<le> pobj_dynamicMaxMemory po)"

text \<open>
  The configuration that no step of this theory changes, and the relation of an eviction:
  segments leave memory and policies track less.
\<close>

definition same_mapping :: "mapping \<Rightarrow> mapping \<Rightarrow> bool" where
  "same_mapping mp mp' \<longleftrightarrow>
     (\<exists>sts. mp' = mp\<lparr>segmentStatus := sts\<rparr> \<and> length sts = length (segmentStatus mp))"

definition same_config :: "'f world \<Rightarrow> 'f world \<Rightarrow> bool" where
  "same_config w w' \<longleftrightarrow> w_drivers w' = w_drivers w \<and> (\<forall>m. rel_option same_mapping (w_mappings w m) (w_mappings w' m))"

definition policy_le :: "(mapping_ptr \<Rightarrow> size_t) \<Rightarrow> policy_obj \<Rightarrow> policy_obj \<Rightarrow> bool" where
  "policy_le segSize po po' \<longleftrightarrow>
     pobj_inv segSize po' \<and> pobj_registered po' = pobj_registered po \<and> pobj_tracked po' \<subseteq> pobj_tracked po \<and>
     pobj_dynamicMaxMemory po' = pobj_dynamicMaxMemory po \<and> pobj_policyQuota po' = pobj_policyQuota po \<and>
     is_list_policy po' = is_list_policy po"

definition evicts :: "'f world \<Rightarrow> 'f world \<Rightarrow> bool" where
  "evicts w w' \<longleftrightarrow>
     same_config w w' \<and> w_quotas w' = w_quotas w \<and> w_shm w' = w_shm w \<and> w_interproc w' = w_interproc w \<and>
     (\<forall>p. rel_option (policy_le (world_segSize w)) (w_policies w p) (w_policies w' p))"

lemma same_mapping_refl [simp]: "same_mapping mp mp"
  by (auto simp: same_mapping_def intro!: exI [of _ "segmentStatus mp"])

lemma same_mapping_trans: "same_mapping a b \<Longrightarrow> same_mapping b c \<Longrightarrow> same_mapping a c"
  by (auto simp: same_mapping_def)

lemma same_mappingD:
  assumes "same_mapping mp mp'"
  shows "segments mp' = segments mp" "segmentSize mp' = segmentSize mp" "policies_of mp' = policies_of mp"
    "localPolicy mp' = localPolicy mp" "globalPolicy mp' = globalPolicy mp" "mp_driver mp' = mp_driver mp"
    "shape mp' = shape mp"
  using assms by (auto simp: same_mapping_def policies_of_def shape_def)

lemma same_mapping_set_status [simp]: "same_mapping mp (set_status i st mp)"
  by (auto simp: same_mapping_def set_status_def)

lemma same_config_refl [simp]: "same_config w w"
  by (simp add: same_config_def option.rel_refl)

lemma rel_option_trans:
  "(\<And>x y z. R x y \<Longrightarrow> R y z \<Longrightarrow> R x z) \<Longrightarrow> rel_option R a b \<Longrightarrow> rel_option R b c \<Longrightarrow> rel_option R a c"
  by (cases a; cases b; cases c) simp_all

lemma same_config_trans: "same_config a b \<Longrightarrow> same_config b c \<Longrightarrow> same_config a c"
  unfolding same_config_def
  by (intro conjI allI) (simp, rule rel_option_trans [OF same_mapping_trans], auto)

lemma same_config_mapping:
  assumes "same_config w w'"
  shows "w_mappings w m = Some mp \<Longrightarrow> \<exists>mp'. w_mappings w' m = Some mp' \<and> same_mapping mp mp'"
    and "w_mappings w' m = Some mp' \<Longrightarrow> \<exists>mp. w_mappings w m = Some mp \<and> same_mapping mp mp'"
proof -
  have "rel_option same_mapping (w_mappings w m) (w_mappings w' m)"
    using assms by (simp add: same_config_def)
  then show "w_mappings w m = Some mp \<Longrightarrow> \<exists>mp'. w_mappings w' m = Some mp' \<and> same_mapping mp mp'"
    and "w_mappings w' m = Some mp' \<Longrightarrow> \<exists>mp. w_mappings w m = Some mp \<and> same_mapping mp mp'"
    by (auto elim: option.rel_cases)
qed

lemma same_config_segSize: "same_config w w' \<Longrightarrow> world_segSize w' = world_segSize w"
proof (rule ext)
  fix m
  assume c: "same_config w w'"
  then have "rel_option same_mapping (w_mappings w m) (w_mappings w' m)"
    by (simp add: same_config_def)
  then show "world_segSize w' m = world_segSize w m"
    by (cases "w_mappings w m"; cases "w_mappings w' m")
      (simp_all add: world_segSize_def getSegmentSize_def same_mappingD)
qed

lemma policy_ok_config:
  assumes c: "same_config w w'" and ok: "policy_ok w p po" and inv: "pobj_inv (world_segSize w) po'"
    and reg: "pobj_registered po' = pobj_registered po"
  shows "policy_ok w' p po'"
proof -
  have "(\<exists>mp. w_mappings w m = Some mp \<and> i < segments mp \<and> p \<in> policies_of mp) \<longleftrightarrow>
      (\<exists>mp. w_mappings w' m = Some mp \<and> i < segments mp \<and> p \<in> policies_of mp)" for m i
    using same_config_mapping [OF c, of m] by (force simp: same_mappingD)
  with ok inv reg show ?thesis
    by (simp add: policy_ok_def same_config_segSize [OF c])
qed

lemma world_base_config:
  assumes c: "same_config w w'" and base: "world_base w"
    and pol: "\<And>p po'. w_policies w' p = Some po' \<Longrightarrow> \<exists>po. w_policies w p = Some po \<and>
      pobj_inv (world_segSize w) po' \<and> pobj_registered po' = pobj_registered po"
  shows "world_base w'"
  unfolding world_base_def
proof (intro conjI allI impI)
  fix m mp'
  assume "w_mappings w' m = Some mp'"
  from same_config_mapping(2) [OF c this]
  obtain mp where "w_mappings w m = Some mp" and "same_mapping mp mp'" by blast
  with base show "shape mp'"
    by (simp add: world_base_def same_mappingD)
next
  fix a d
  assume "w_drivers w' a = Some d"
  with c base show "soft_driver d"
    by (simp add: same_config_def world_base_def)
next
  fix p po'
  assume "w_policies w' p = Some po'"
  then obtain po where "w_policies w p = Some po" "pobj_inv (world_segSize w) po'"
      "pobj_registered po' = pobj_registered po"
    using pol by blast
  with base show "policy_ok w' p po'"
    by (intro policy_ok_config [OF c, of p po]) (simp_all add: world_base_def)
qed

lemma policy_okD:
  assumes "world_base w" and "w_policies w p = Some po"
  shows "pobj_inv (world_segSize w) po"
    and "w_mappings w m = Some mp \<Longrightarrow> i < segments mp \<Longrightarrow> p \<in> policies_of mp \<Longrightarrow> (m, i) \<in> pobj_registered po"
    and "(m, i) \<in> pobj_registered po \<Longrightarrow>
      \<exists>mp. w_mappings w m = Some mp \<and> i < segments mp \<and> p \<in> policies_of mp"
    and "(m, i) \<in> pobj_registered po \<Longrightarrow> pobj_getCurrentMemory po + world_segSize w m < W64"
proof -
  have ok: "policy_ok w p po"
    using assms by (auto simp: world_base_def)
  then show inv: "pobj_inv (world_segSize w) po"
    by (simp add: policy_ok_def)
  have reg: "(m, i) \<in> pobj_registered po \<longleftrightarrow>
      (\<exists>mp. w_mappings w m = Some mp \<and> i < segments mp \<and> p \<in> policies_of mp)"
    using ok by (simp add: policy_ok_def)
  from reg show "w_mappings w m = Some mp \<Longrightarrow> i < segments mp \<Longrightarrow> p \<in> policies_of mp \<Longrightarrow> (m, i) \<in> pobj_registered po"
    by blast
  from reg show "(m, i) \<in> pobj_registered po \<Longrightarrow>
      \<exists>mp. w_mappings w m = Some mp \<and> i < segments mp \<and> p \<in> policies_of mp"
    by blast
  assume reg: "(m, i) \<in> pobj_registered po"
  let ?S = "\<Sum>t \<in> pobj_registered po. world_segSize w (fst t)"
  have fin: "finite (pobj_registered po)" and S: "2 * ?S < W64"
    using ok by (simp_all add: policy_ok_def)
  have "pobj_getCurrentMemory po \<le> ?S"
    unfolding pobj.mem_tracked [OF inv]
    by (rule sum_mono2 [OF fin pobj.tracked_registered [OF inv]]) simp
  moreover have "world_segSize w m \<le> ?S"
    using member_le_sum [OF reg, of "\<lambda>t. world_segSize w (fst t)"] fin by simp
  ultimately show "pobj_getCurrentMemory po + world_segSize w m < W64"
    using S by linarith
qed

lemma policy_le_trans: "policy_le segSize a b \<Longrightarrow> policy_le segSize b c \<Longrightarrow> policy_le segSize a c"
  by (auto simp: policy_le_def)

lemma evicts_refl: "world_base w \<Longrightarrow> evicts w w"
proof -
  assume "world_base w"
  then have "policy_le (world_segSize w) po po" if "w_policies w p = Some po" for p po
    using policy_okD(1) that by (auto simp: policy_le_def)
  then have "rel_option (policy_le (world_segSize w)) (w_policies w p) (w_policies w p)" for p
    by (cases "w_policies w p") simp_all
  then show ?thesis by (simp add: evicts_def)
qed

lemma evicts_trans: "evicts a b \<Longrightarrow> evicts b c \<Longrightarrow> evicts a c"
proof -
  assume ab: "evicts a b" and bc: "evicts b c"
  have sz: "world_segSize b = world_segSize a"
    using ab by (auto simp: evicts_def intro: same_config_segSize)
  have "rel_option (policy_le (world_segSize a)) (w_policies a p) (w_policies b p)"
    and "rel_option (policy_le (world_segSize a)) (w_policies b p) (w_policies c p)" for p
    using ab bc by (simp_all add: evicts_def sz)
  then have "rel_option (policy_le (world_segSize a)) (w_policies a p) (w_policies c p)" for p
    by (rule rel_option_trans [rotated]) (rule policy_le_trans)
  moreover have "same_config a c"
    using ab bc same_config_trans [of a b c] by (simp add: evicts_def)
  ultimately show ?thesis
    using ab bc by (simp add: evicts_def)
qed

lemma evicts_policy:
  assumes "evicts w w'"
  shows "w_policies w p = Some po \<Longrightarrow> \<exists>po'. w_policies w' p = Some po' \<and> policy_le (world_segSize w) po po'"
    and "w_policies w' p = Some po' \<Longrightarrow> \<exists>po. w_policies w p = Some po \<and> policy_le (world_segSize w) po po'"
proof -
  have "rel_option (policy_le (world_segSize w)) (w_policies w p) (w_policies w' p)"
    using assms by (simp add: evicts_def)
  then show "w_policies w p = Some po \<Longrightarrow> \<exists>po'. w_policies w' p = Some po' \<and> policy_le (world_segSize w) po po'"
    and "w_policies w' p = Some po' \<Longrightarrow> \<exists>po. w_policies w p = Some po \<and> policy_le (world_segSize w) po po'"
    by (auto elim: option.rel_cases)
qed

lemma evicts_base: "evicts w w' \<Longrightarrow> world_base w \<Longrightarrow> world_base w'"
proof (rule world_base_config [of w w'])
  fix p po'
  assume "evicts w w'" and "w_policies w' p = Some po'"
  then show "\<exists>po. w_policies w p = Some po \<and> pobj_inv (world_segSize w) po' \<and>
      pobj_registered po' = pobj_registered po"
    using evicts_policy(2) by (fastforce simp: policy_le_def)
qed (simp_all add: evicts_def)

lemma evicts_memory:
  assumes "world_base w" and "w_policies w p = Some po" and "policy_le (world_segSize w) po po'"
  shows "pobj_getCurrentMemory po' \<le> pobj_getCurrentMemory po"
  using assms(3) pobj.memory_mono [OF policy_okD(1) [OF assms(1,2)]] by (simp add: policy_le_def)

lemma evicts_bounded:
  assumes "evicts w w'" and "world_base w" and "bounded_except X w"
  shows "bounded_except X w'"
  unfolding bounded_except_def
proof (intro allI impI)
  fix p po'
  assume p: "w_policies w' p = Some po'" "p \<notin> X" "is_list_policy po'"
  then obtain po where po: "w_policies w p = Some po" "policy_le (world_segSize w) po po'"
    using evicts_policy(2) [OF assms(1)] by blast
  have "pobj_getCurrentMemory po' \<le> pobj_getCurrentMemory po"
    by (rule evicts_memory [OF assms(2) po])
  moreover have "pobj_getCurrentMemory po \<le> pobj_dynamicMaxMemory po"
    using assms(3) p po by (auto simp: bounded_except_def policy_le_def)
  ultimately show "pobj_getCurrentMemory po' \<le> pobj_dynamicMaxMemory po'"
    using po(2) by (simp add: policy_le_def)
qed

section \<open>Eviction\<close>

lemma derefE [elim!]:
  assumes "deref f p = Inr x"
  obtains "f p = Some x"
  using assms by (auto simp: deref_def split: option.splits)

lemma put_simps [simp]:
  "w_mappings (put_policy p po w) = w_mappings w"
  "w_drivers (put_policy p po w) = w_drivers w"
  "w_quotas (put_policy p po w) = w_quotas w"
  "w_shm (put_policy p po w) = w_shm w"
  "w_interproc (put_policy p po w) = w_interproc w"
  "w_policies (put_policy p po w) = (w_policies w)(p \<mapsto> po)"
  "w_policies (put_mapping m mp w) = w_policies w"
  "w_drivers (put_mapping m mp w) = w_drivers w"
  "w_quotas (put_mapping m mp w) = w_quotas w"
  "w_shm (put_mapping m mp w) = w_shm w"
  "w_interproc (put_mapping m mp w) = w_interproc w"
  "w_mappings (put_mapping m mp w) = (w_mappings w)(m \<mapsto> mp)"
  "w_policies (put_effects s v w) = w_policies w"
  "w_mappings (put_effects s v w) = w_mappings w"
  "w_drivers (put_effects s v w) = w_drivers w"
  "w_quotas (put_effects s v w) = w_quotas w"
  "w_shm (put_effects s v w) = w_shm w"
  "w_interproc (put_effects s v w) = w_interproc w"
  "w_mappings (put_quota q qo w) = w_mappings w"
  "w_policies (put_quota q qo w) = w_policies w"
  "w_drivers (put_quota q qo w) = w_drivers w"
  by (simp_all add: put_policy_def put_mapping_def put_effects_def put_quota_def)

lemma world_segSize_put_policy [simp]: "world_segSize (put_policy p po w) = world_segSize w"
  by (simp add: world_segSize_def fun_eq_iff)

lemma same_config_put_policy [simp]: "same_config w (put_policy p po w)"
  by (simp add: same_config_def option.rel_refl)

lemma evicts_put_policy:
  assumes "world_base w" and "w_policies w p = Some po" and "policy_le (world_segSize w) po po'"
  shows "evicts w (put_policy p po' w)"
  using evicts_refl [OF assms(1)] assms(2,3) by (simp add: evicts_def)

lemma resident_mono: "resident_ok E w \<Longrightarrow> (\<And>p. E p \<subseteq> E' p) \<Longrightarrow> resident_ok E' w"
  unfolding resident_ok_def by blast

lemma resident_put_policy:
  assumes "resident_ok E w" and "w_policies w p = Some po" and "pobj_tracked po \<subseteq> pobj_tracked po' \<union> E' p"
    and "\<And>q. E q \<subseteq> E' q"
  shows "resident_ok E' (put_policy p po' w)"
  unfolding resident_ok_def
proof (intro allI impI)
  fix q qo m mp i
  assume q: "w_policies (put_policy p po' w) q = Some qo" and r: "w_mappings (put_policy p po' w) m = Some mp"
    "q \<in> policies_of mp" "i < segments mp" "mapped (segmentStatus mp ! i)"
  show "(m, i) \<in> pobj_tracked qo \<union> E' q"
  proof (cases "q = p")
    case True
    with assms(1,2) r have "(m, i) \<in> pobj_tracked po \<union> E p"
      unfolding resident_ok_def put_simps by blast
    with True q assms(3,4) show ?thesis by auto
  next
    case False
    with q r assms(1) have "(m, i) \<in> pobj_tracked qo \<union> E q"
      unfolding resident_ok_def put_simps by simp
    with assms(4) show ?thesis by blast
  qed
qed

lemma policy_notifyEvict_step:
  assumes base: "world_base w" and mp: "w_mappings w m = Some mp" "i < segments mp" "p \<in> policies_of mp"
    and run: "policy_notifyEvict p m i w = Inr w'"
  shows "evicts w w'" and "resident_ok E w \<Longrightarrow> resident_ok (\<lambda>q. insert (m, i) (E q)) w'"
    and "w_mappings w' = w_mappings w"
    and "q \<noteq> p \<Longrightarrow> w_policies w' q = w_policies w q"
proof -
  obtain po po' where po: "w_policies w p = Some po" and ev: "pobj_notifyEvict (world_segSize w) m i po = Inr po'"
    and w': "w' = put_policy p po' w"
    using run by (auto simp: policy_notifyEvict_def)
  have reg: "(m, i) \<in> pobj_registered po"
    by (rule policy_okD(2) [OF base po mp])
  note e = pobj.evict_Inr [OF policy_okD(1) [OF base po] reg ev]
  have le: "policy_le (world_segSize w) po po'"
    using e pobj_evict_keeps [OF ev] by (auto simp: policy_le_def)
  show "evicts w w'"
    unfolding w' by (rule evicts_put_policy [OF base po le])
  show "resident_ok E w \<Longrightarrow> resident_ok (\<lambda>q. insert (m, i) (E q)) w'"
    unfolding w' using e(4) by (intro resident_put_policy [OF _ po]) auto
  show "w_mappings w' = w_mappings w" and "q \<noteq> p \<Longrightarrow> w_policies w' q = w_policies w q"
    by (simp_all add: w')
qed

text \<open>The flush of an eviction takes the segment out of memory.\<close>

lemma soft_no_direct: "soft_driver d \<Longrightarrow> d_directMSync (lib_ops env) d a n off s v = Inr (False, s, v)"
  by (cases d) (simp_all add: lib_ops_def lib_directMSync_def driver_defaults)

lemma evict_flush_step:
  assumes base: "world_base w" and mp: "w_mappings w m = Some mp" "i < segments mp"
    and d: "w_drivers w (mp_driver mp) = Some d"
    and run: "evict_flush (lib_ops env) d i mp (w_store w) (w_vm w) = Inr (mp', s', v')"
  defines "w' \<equiv> put_effects s' v' (put_mapping m mp' w)"
  shows "evicts w w'" and "resident_ok E w \<Longrightarrow> resident_ok (\<lambda>q. E q - {(m, i)}) w'"
proof -
  have sh: "shape mp" and soft: "soft_driver d"
    using base mp(1) d by (auto simp: world_base_def)
  obtain st where mp': "mp' = set_status i st mp" and st: "\<not> mapped st"
    by (rule evict_flush_status [OF sh mp(2) soft_no_direct [OF soft] run])
  have "same_config w w'"
    using mp(1) by (simp add: w'_def same_config_def mp' option.rel_refl)
  then show ev: "evicts w w'"
    using evicts_refl [OF base] by (simp add: evicts_def w'_def)
  have len: "length (segmentStatus mp) = segments mp"
    using sh by (simp add: shape_def)
  assume r: "resident_ok E w"
  show "resident_ok (\<lambda>q. E q - {(m, i)}) w'"
    unfolding resident_ok_def
  proof (intro allI impI)
    fix q qo n np j
    assume q: "w_policies w' q = Some qo" and n: "w_mappings w' n = Some np" "q \<in> policies_of np"
      "j < segments np" and mj: "mapped (segmentStatus np ! j)"
    obtain op where op: "w_mappings w n = Some op" "q \<in> policies_of op" "j < segments op"
        "mapped (segmentStatus op ! j)" "(n, j) \<noteq> (m, i)"
    proof (cases "n = m")
      case True
      then have np: "np = set_status i st mp"
        using n(1) by (simp add: w'_def mp')
      then have "j \<noteq> i"
        using mj st len mp(2) by (auto simp: set_status_def)
      with np n mj that [of mp] True mp(1) show thesis
        by (auto simp: set_status_def policies_of_def)
    next
      case False
      with n mj that [of np] show thesis by (simp add: w'_def)
    qed
    have "w_policies w q = Some qo"
      using q by (simp add: w'_def)
    with r op show "(n, j) \<in> pobj_tracked qo \<union> (E q - {(m, i)})"
      unfolding resident_ok_def by blast
  qed
qed

lemma mapping_evict_step:
  assumes base: "world_base w" and mp: "w_mappings w m = Some mp" "i < segments mp"
    and run: "mapping_evict sy src (m, i) w = Inr w'"
  shows "evicts w w'" and "resident_ok E w \<Longrightarrow> resident_ok (\<lambda>q. E q - {(m, i)}) w'"
proof -
  obtain w1 w2 d x where
      w1: "(if src \<noteq> localPolicy mp \<and> localPolicy mp \<noteq> 0
            then policy_notifyEvict (localPolicy mp) m i w else Inr w) = Inr w1"
    and w2: "(if src \<noteq> globalPolicy mp \<and> globalPolicy mp \<noteq> 0
            then policy_notifyEvict (globalPolicy mp) m i w1 else Inr w1) = Inr w2"
    and d: "deref (w_drivers w2) (mp_driver mp) = Inr d"
    and x: "evict_flush (lib_ops (sy_env sy)) d i mp (w_store w2) (w_vm w2) = Inr x"
      "(case x of (mp', s', v') \<Rightarrow> put_effects s' v' (put_mapping m mp' w2)) = w'"
    using run unfolding mapping_evict_def prod.case deref_def [of _ m] mp(1) option.case bindE_Inr bindE_eq_Inr
    by (elim exE conjE) (rule that, assumption+, simp split: prod.splits)
  obtain mp' s' v' where fl: "evict_flush (lib_ops (sy_env sy)) d i mp (w_store w2) (w_vm w2) = Inr (mp', s', v')"
    and w': "w' = put_effects s' v' (put_mapping m mp' w2)"
    using x by (cases x) auto
  have d: "w_drivers w2 (mp_driver mp) = Some d"
    using d by blast
  let ?ins = "\<lambda>E q. insert (m, i) (E q)"
  have s1: "evicts w w1 \<and> w_mappings w1 = w_mappings w \<and> (resident_ok E w \<longrightarrow> resident_ok (?ins E) w1)" for E
  proof (cases "src \<noteq> localPolicy mp \<and> localPolicy mp \<noteq> 0")
    case True
    then have "localPolicy mp \<in> policies_of mp" by (simp add: policies_of_def)
    moreover have "policy_notifyEvict (localPolicy mp) m i w = Inr w1"
      using w1 True by simp
    ultimately show ?thesis
      using policy_notifyEvict_step(1,2,3) [OF base mp] by blast
  next
    case False
    with w1 have "w1 = w" by auto
    then show ?thesis using evicts_refl [OF base] resident_mono [of E w "?ins E"] by (simp add: subset_insertI)
  qed
  have base1: "world_base w1"
    using evicts_base s1 base by blast
  have mp1: "w_mappings w1 m = Some mp"
    using s1 mp(1) by simp
  have s2: "evicts w1 w2 \<and> w_mappings w2 = w_mappings w1 \<and> (resident_ok E w1 \<longrightarrow> resident_ok (?ins E) w2)" for E
  proof (cases "src \<noteq> globalPolicy mp \<and> globalPolicy mp \<noteq> 0")
    case True
    then have "globalPolicy mp \<in> policies_of mp" by (simp add: policies_of_def)
    moreover have "policy_notifyEvict (globalPolicy mp) m i w1 = Inr w2"
      using w2 True by simp
    ultimately show ?thesis
      using policy_notifyEvict_step(1,2,3) [OF base1 mp1 mp(2)] by blast
  next
    case False
    with w2 have "w2 = w1" by auto
    then show ?thesis using evicts_refl [OF base1] resident_mono [of E w1 "?ins E"] by (simp add: subset_insertI)
  qed
  have base2: "world_base w2"
    using evicts_base s2 base1 by blast
  have mp2: "w_mappings w2 m = Some mp"
    using s2 mp1 by simp
  note f = evict_flush_step [OF base2 mp2 mp(2) d fl, folded w']
  show "evicts w w'"
    using s1 s2 f(1) evicts_trans by blast
  show "resident_ok (\<lambda>q. E q - {(m, i)}) w'" if "resident_ok E w"
  proof (rule resident_mono)
    show "resident_ok (\<lambda>q. ?ins (?ins E) q - {(m, i)}) w'"
      using that s1 s2 by (intro f(2)) blast
  qed auto
qed

lemma evict_ids_step:
  assumes "world_base w" and "\<And>m i. (m, i) \<in> set ids \<Longrightarrow> \<exists>mp. w_mappings w m = Some mp \<and> i < segments mp"
    and "evict_ids sy src ids w = Inr w'"
  shows "evicts w w' \<and> (resident_ok E w \<longrightarrow> resident_ok (\<lambda>q. E q - set ids) w')"
  using assms
proof (induction ids arbitrary: w E)
  case Nil
  then show ?case using evicts_refl by (simp add: evict_ids_def)
next
  case (Cons x ids)
  obtain m i where x: "x = (m, i)" by (cases x)
  obtain w1 where w1: "mapping_evict sy src (m, i) w = Inr w1" and w': "evict_ids sy src ids w1 = Inr w'"
    using Cons.prems(3) by (auto simp: evict_ids_def x)
  obtain mp where mp: "w_mappings w m = Some mp" "i < segments mp"
    using Cons.prems(2) [of m i] x by auto
  note s = mapping_evict_step [OF Cons.prems(1) mp w1]
  have conf: "same_config w w1"
    using s(1) by (simp add: evicts_def)
  have "\<exists>mp. w_mappings w1 n = Some mp \<and> j < segments mp" if "(n, j) \<in> set ids" for n j
    using Cons.prems(2) [of n j] that same_config_mapping(1) [OF conf] by (fastforce simp: same_mappingD)
  from Cons.IH [OF evicts_base [OF s(1) Cons.prems(1)] this w', of "\<lambda>q. E q - {(m, i)}"] s(2) [of E]
  have "evicts w1 w'" and "resident_ok E w \<longrightarrow> resident_ok (\<lambda>q. E q - {(m, i)} - set ids) w'"
    by blast+
  moreover have "(\<lambda>q. E q - {(m, i)} - set ids) = (\<lambda>q. E q - set (x # ids))"
    by (auto simp: x)
  ultimately show ?case
    using evicts_trans [OF s(1)] by simp
qed

end
