(* ===== verification/WorldSteps.thy ===== *)
theory WorldSteps
  imports WorldInv
begin

text \<open>
  The operations of theory \<open>World\<close> keep the invariant of theory \<open>WorldInv\<close>: shrinking a
  policy, updating a quota, touching a segment and handling a fault. The limits of the list
  policies hold after each of them.
\<close>

text \<open>
  The invariant of the process: \<open>E p\<close> are the segments for which policy \<open>p\<close> is not up to
  date, and the list policies outside \<open>X\<close> are within their limits.
\<close>

definition world_inv ::
  "policy_ptr set \<Rightarrow> (policy_ptr \<Rightarrow> (mapping_ptr \<times> nat) set) \<Rightarrow> 'f world \<Rightarrow> bool" where
  "world_inv X E w \<longleftrightarrow> world_base w \<and> resident_ok E w \<and> bounded_except X w"

abbreviation world_good :: "(policy_ptr \<Rightarrow> (mapping_ptr \<times> nat) set) \<Rightarrow> 'f world \<Rightarrow> bool" where
  "world_good \<equiv> world_inv {}"

abbreviation (input) up_to_date :: "policy_ptr \<Rightarrow> (mapping_ptr \<times> nat) set" where
  "up_to_date \<equiv> \<lambda>_. {}"

lemma bounded_put_policy:
  assumes "bounded_except (insert p X) w" and "is_list_policy po \<Longrightarrow> pobj_getCurrentMemory po \<le> pobj_dynamicMaxMemory po"
  shows "bounded_except X (put_policy p po w)"
  using assms by (auto simp: bounded_except_def)

lemma bounded_weaken: "bounded_except X w \<Longrightarrow> X \<subseteq> Y \<Longrightarrow> bounded_except Y w"
  by (auto simp: bounded_except_def)

lemma world_inv_mono: "world_inv X E w \<Longrightarrow> (\<And>p. E p \<subseteq> E' p) \<Longrightarrow> world_inv X E' w"
  using resident_mono [of E w E'] by (auto simp: world_inv_def)

section \<open>Shrinking\<close>

lemma registered_valid:
  assumes "world_base w" and "w_policies w p = Some po" and "X \<subseteq> pobj_registered po" and "(m, i) \<in> X"
  shows "\<exists>mp. w_mappings w m = Some mp \<and> i < segments mp"
  using policy_okD(3) [OF assms(1,2)] assms(3,4) by blast

lemma policy_shrinkMemory_step:
  assumes base: "world_base w" and run: "policy_shrinkMemory sy p w = returns w'"
  shows "evicts w w'" and "resident_ok E w \<Longrightarrow> resident_ok E w'"
    and "bounded_except (insert p X) w \<Longrightarrow> bounded_except X w'"
proof -
  obtain po po' ids where po: "w_policies w p = Some po"
    and cs: "pobj_shrinkMemory_cs (world_segSize w) po = returns (po', ids)"
    and ev: "evict_ids sy p ids (put_policy p po' w) = Inr w'"
    using run by (auto simp: policy_shrinkMemory_def)
  note inv = policy_okD(1) [OF base po]
  note s = pobj.shrink [OF inv cs] and k = pobj_shrink_keeps [OF inv cs]
  let ?w1 = "put_policy p po' w"
  have le: "policy_le (world_segSize w) po po'"
    using s k by (auto simp: policy_le_def)
  have e1: "evicts w ?w1"
    by (rule evicts_put_policy [OF base po le])
  have base1: "world_base ?w1"
    by (rule evicts_base [OF e1 base])
  have ids: "set ids \<subseteq> pobj_registered po"
    using s pobj.tracked_registered [OF inv] by blast
  have valid: "\<exists>mp. w_mappings ?w1 m = Some mp \<and> i < segments mp" if "(m, i) \<in> set ids" for m i
    using registered_valid [OF base po ids that] by simp
  note e2 = evict_ids_step [OF base1 valid ev]
  show "evicts w w'"
    using evicts_trans [OF e1] e2 by blast
  show "resident_ok E w'" if r: "resident_ok E w"
  proof (rule resident_mono)
    have "resident_ok (\<lambda>q. if q = p then E q \<union> set ids else E q) ?w1"
      using s by (intro resident_put_policy [OF r po]) auto
    then show "resident_ok (\<lambda>q. (if q = p then E q \<union> set ids else E q) - set ids) w'"
      using e2 by blast
  qed auto
  show "bounded_except X w'" if "bounded_except (insert p X) w"
  proof (rule evicts_bounded [OF _ base1])
    show "evicts ?w1 w'" using e2 by blast
    show "bounded_except X ?w1"
      using k by (intro bounded_put_policy [OF that]) blast
  qed
qed

section \<open>Quotas\<close>

lemma limit_step:
  assumes good: "world_inv X E w" and po: "w_policies w p = Some po"
  shows "world_base (put_policy p (pobj_setDynamicMaxMemory n po) w)"
    and "resident_ok E (put_policy p (pobj_setDynamicMaxMemory n po) w)"
    and "bounded_except (insert p X) (put_policy p (pobj_setDynamicMaxMemory n po) w)"
proof -
  have base: "world_base w" and res: "resident_ok E w" and bnd: "bounded_except X w"
    using good by (simp_all add: world_inv_def)
  let ?w = "put_policy p (pobj_setDynamicMaxMemory n po) w"
  show "world_base ?w"
  proof (rule world_base_config [OF same_config_put_policy base])
    fix q qo
    assume "w_policies ?w q = Some qo"
    then show "\<exists>po. w_policies w q = Some po \<and> pobj_inv (world_segSize w) qo \<and>
        pobj_registered qo = pobj_registered po"
      using po policy_okD(1) [OF base] by (cases "q = p") auto
  qed
  show "resident_ok E ?w"
    by (rule resident_put_policy [OF res po]) auto
  show "bounded_except (insert p X) ?w"
    using bnd by (auto simp: bounded_except_def)
qed

lemma quota_reduce_step:
  assumes good: "world_inv X E w" and run: "quota_reduce sy ps averageMem w = returns (totMem, w')"
  shows "same_config w w'" and "world_inv X E w'" and "getUsedMemory ps w' = Inr totMem"
    and "w_quotas w' = w_quotas w"
proof -
  obtain p po n where po: "w_policies w p = Some po"
    and sh: "policy_shrinkMemory sy p (put_policy p (pobj_setDynamicMaxMemory n po) w) = returns w'"
    and tot: "getUsedMemory ps w' = Inr totMem"
    using run by (auto simp: quota_reduce_def Let_def)
  note l = limit_step [OF good po, of n]
  note s = policy_shrinkMemory_step [OF l(1) sh]
  show "same_config w w'"
    using s(1) same_config_trans [OF same_config_put_policy] by (auto simp: evicts_def)
  show "world_inv X E w'"
    using evicts_base [OF s(1) l(1)] s(2) [OF l(2)] s(3) [of X] l(3) by (simp add: world_inv_def)
  show "getUsedMemory ps w' = Inr totMem"
    by (fact tot)
  show "w_quotas w' = w_quotas w"
    using s(1) by (simp add: evicts_def)
qed

lemma quota_reduce_loop_step:
  assumes "quota_reduce_loop sy ps staticMax averageMem totMem w = returns w'"
    and "world_inv X E w" and "getUsedMemory ps w = Inr totMem"
  shows "same_config w w' \<and> world_inv X E w' \<and> w_quotas w' = w_quotas w \<and>
    (\<exists>t. getUsedMemory ps w' = Inr t \<and> t \<le> staticMax)"
proof -
  have "world_inv X E w \<longrightarrow> getUsedMemory ps w = Inr totMem \<longrightarrow> (\<forall>w'. y = Inr w' \<longrightarrow>
      same_config w w' \<and> world_inv X E w' \<and> w_quotas w' = w_quotas w \<and>
      (\<exists>t. getUsedMemory ps w' = Inr t \<and> t \<le> staticMax))"
    if run: "quota_reduce_loop sy ps staticMax averageMem totMem w = Some y" for y
  proof (rule quota_reduce_loop.raw_induct [where P = "\<lambda>sy ps staticMax averageMem totMem w y.
      world_inv X E w \<longrightarrow> getUsedMemory ps w = Inr totMem \<longrightarrow> (\<forall>w'. y = Inr w' \<longrightarrow>
      same_config w w' \<and> world_inv X E w' \<and> w_quotas w' = w_quotas w \<and>
      (\<exists>t. getUsedMemory ps w' = Inr t \<and> t \<le> staticMax))", OF _ run], intro impI allI)
    fix loop sy ps staticMax averageMem totMem y w'
    fix w :: "'a world"
    assume IH: "\<And>sy ps staticMax averageMem totMem w y. loop sy ps staticMax averageMem totMem w = Some y \<Longrightarrow>
        world_inv X E w \<longrightarrow> getUsedMemory ps w = Inr totMem \<longrightarrow> (\<forall>w'. y = Inr w' \<longrightarrow>
        same_config w w' \<and> world_inv X E w' \<and> w_quotas w' = w_quotas w \<and>
        (\<exists>t. getUsedMemory ps w' = Inr t \<and> t \<le> staticMax))"
      and body: "(if totMem > staticMax
        then (case quota_reduce sy ps averageMem w of
              None \<Rightarrow> None
            | Some r \<Rightarrow>
                (case r of
                   Inl e \<Rightarrow> aborts e
                 | Inr (totMem', w') \<Rightarrow> loop sy ps staticMax averageMem totMem' w'))
        else returns w) = Some y"
      and good: "world_inv X E w" and tot: "getUsedMemory ps w = Inr totMem" and y: "y = Inr w'"
    show "same_config w w' \<and> world_inv X E w' \<and> w_quotas w' = w_quotas w \<and>
        (\<exists>t. getUsedMemory ps w' = Inr t \<and> t \<le> staticMax)"
    proof (cases "totMem > staticMax")
      case False
      with body y good tot show ?thesis by simp
    next
      case True
      with body y obtain tot1 w1 where r: "quota_reduce sy ps averageMem w = returns (tot1, w1)"
        and rec: "loop sy ps staticMax averageMem tot1 w1 = Some (Inr w')"
        by (auto split: option.splits sum.splits prod.splits)
      note s = quota_reduce_step [OF good r]
      from IH [OF rec] s have "same_config w1 w' \<and> world_inv X E w' \<and> w_quotas w' = w_quotas w1 \<and>
          (\<exists>t. getUsedMemory ps w' = Inr t \<and> t \<le> staticMax)"
        by blast
      with s(1,4) same_config_trans show ?thesis by metis
    qed
  qed
  from this [OF assms(1)] assms(2,3) show ?thesis by blast
qed

lemma quotaLocal_update_step:
  assumes "quotaLocal_update sy q w = returns w'" and "world_inv X E w" and "w_quotas w q = Some qo"
  shows "same_config w w' \<and> world_inv X E w' \<and> w_quotas w' = w_quotas w \<and>
    (q_policies qo \<noteq> [] \<longrightarrow> (\<exists>t. getUsedMemory (q_policies qo) w' = Inr t \<and> t \<le> q_staticMaxMemory qo))"
proof (cases "q_policies qo = []")
  case True
  with assms show ?thesis by (simp add: quotaLocal_update_def deref_def)
next
  case False
  with assms(1,3) obtain totMem where "getUsedMemory (q_policies qo) w = Inr totMem"
    and "quota_reduce_loop sy (q_policies qo) (q_staticMaxMemory qo)
      (q_staticMaxMemory qo div length (q_policies qo)) totMem w = returns w'"
    by (auto simp: quotaLocal_update_def deref_def Let_def)
  with quota_reduce_loop_step assms(2) show ?thesis by blast
qed

lemma world_inv_put_quota: "world_inv X E (put_quota q qo w) = world_inv X E w"
proof -
  have "world_segSize (put_quota q qo w) = world_segSize w"
    by (simp add: fun_eq_iff world_segSize_def)
  then show ?thesis
    by (simp add: world_inv_def world_base_def resident_ok_def bounded_except_def policy_ok_def)
qed

lemma quota_update_step:
  assumes run: "quota_update sy q w = returns w'" and good: "world_inv X E w"
  shows "same_config w w' \<and> world_inv X E w' \<and>
    (\<exists>qo. w_quotas w' q = Some qo \<and>
      (q_policies qo \<noteq> [] \<longrightarrow> (\<exists>t. getUsedMemory (q_policies qo) w' = Inr t \<and> t \<le> q_staticMaxMemory qo)))"
proof -
  obtain qo where qo: "w_quotas w q = Some qo"
    and r: "(if q_interproc qo = None then quotaLocal_update sy q w else quotaInterProc_update sy q w) = returns w'"
    using run by (auto simp: quota_update_def)
  show ?thesis
  proof (cases "q_interproc qo")
    case None
    then have "quotaLocal_update sy q w = returns w'"
      using r by simp
    from quotaLocal_update_step [OF this good qo] qo show ?thesis by auto
  next
    case (Some x)
    obtain name tot where x: "x = (name, tot)" by (cases x)
    obtain n where u: "quotaLocal_update sy q (put_quota q (qo\<lparr>q_staticMaxMemory := n\<rparr>) w) = returns w'"
      using r Some qo by (auto simp: quotaInterProc_update_def deref_def x split: option.splits)
    let ?w = "put_quota q (qo\<lparr>q_staticMaxMemory := n\<rparr>) w"
    have "w_quotas ?w q = Some (qo\<lparr>q_staticMaxMemory := n\<rparr>)"
      by (simp add: put_quota_def)
    moreover have "world_inv X E ?w"
      using good by (simp add: world_inv_put_quota)
    ultimately have "same_config ?w w' \<and> world_inv X E w' \<and> w_quotas w' = w_quotas ?w \<and>
        (q_policies qo \<noteq> [] \<longrightarrow> (\<exists>t. getUsedMemory (q_policies qo) w' = Inr t \<and> t \<le> n))"
      using quotaLocal_update_step [OF u] by fastforce
    then show ?thesis
      by (auto simp: same_config_def put_quota_def)
  qed
qed
section \<open>Touching a segment\<close>

lemma policy_notifyTouch_step:
  assumes good: "world_inv X E w" and mp: "w_mappings w m = Some mp" "i < segments mp" "p \<in> policies_of mp"
    and run: "policy_notifyTouch sy p m i w = returns w'"
  shows "same_config w w'" and "world_inv X (E(p := E p - {(m, i)})) w'"
proof -
  have base: "world_base w" and res: "resident_ok E w" and bnd: "bounded_except X w"
    using good by (simp_all add: world_inv_def)
  obtain po po' ids first orig w1 po1 where po: "w_policies w p = Some po"
    and cs: "pobj_notifyTouch_cs (world_segSize w) m i po = returns (po', ids, first, orig)"
    and ev: "evict_ids sy p ids (put_policy p po' w) = Inr w1"
    and w': "(if first \<and> pobj_policyQuota po1 \<noteq> 0 \<and> 0 < ssize (sz_sub (pobj_getCurrentMemory po1) orig)
      then quota_update sy (pobj_policyQuota po1) w1 else returns w1) = returns w'"
    using run by (auto simp: policy_notifyTouch_def Let_def)
  note inv = policy_okD(1) [OF base po] and reg = policy_okD(2) [OF base po mp]
  note fits = policy_okD(4) [OF base po reg]
  note t = pobj.touch [OF inv reg fits cs] and k = pobj_touch_keeps [OF inv reg fits cs]
  let ?w1 = "put_policy p po' w" and ?E = "E(p := E p - {(m, i)})"
  have base1: "world_base ?w1"
  proof (rule world_base_config [OF same_config_put_policy base])
    fix q qo
    assume "w_policies ?w1 q = Some qo"
    then show "\<exists>po. w_policies w q = Some po \<and> pobj_inv (world_segSize w) qo \<and>
        pobj_registered qo = pobj_registered po"
      using po t policy_okD(1) [OF base] by (cases "q = p") auto
  qed
  have ids: "set ids \<subseteq> pobj_registered po"
    using t reg pobj.tracked_registered [OF inv] by blast
  have valid: "\<exists>mp. w_mappings ?w1 n = Some mp \<and> j < segments mp" if "(n, j) \<in> set ids" for n j
    using registered_valid [OF base po ids that] by simp
  have res1: "resident_ok (\<lambda>q. ?E q \<union> set ids) ?w1"
    unfolding resident_ok_def
  proof (intro allI impI)
    fix q qo n np j
    assume q: "w_policies ?w1 q = Some qo" "w_mappings ?w1 n = Some np" "q \<in> policies_of np"
      "j < segments np" "mapped (segmentStatus np ! j)"
    show "(n, j) \<in> pobj_tracked qo \<union> (?E q \<union> set ids)"
    proof (cases "q = p")
      case True
      with res po q have "(n, j) \<in> pobj_tracked po \<union> E p"
        unfolding resident_ok_def put_simps by blast
      with True q(1) t show ?thesis by auto
    next
      case False
      with res q have "(n, j) \<in> pobj_tracked qo \<union> E q"
        unfolding resident_ok_def put_simps by simp
      with False show ?thesis by auto
    qed
  qed
  have bnd1: "bounded_except X ?w1"
  proof (rule bounded_put_policy)
    show "bounded_except (insert p X) w"
      using bnd by (rule bounded_weaken) auto
    show "pobj_getCurrentMemory po' \<le> pobj_dynamicMaxMemory po'" if "is_list_policy po'"
      using k that by blast
  qed
  note e = evict_ids_step [OF base1 valid ev]
  have ev1: "evicts ?w1 w1" and "resident_ok (\<lambda>q. ?E q \<union> set ids - set ids) w1"
    using e res1 by blast+
  then have "resident_ok ?E w1"
    by (auto intro: resident_mono)
  then have good1: "world_inv X ?E w1"
    using evicts_base [OF ev1 base1] evicts_bounded [OF ev1 base1 bnd1] by (simp add: world_inv_def)
  have conf1: "same_config w w1"
    using same_config_trans [OF same_config_put_policy] ev1 by (auto simp: evicts_def)
  have "same_config w w' \<and> world_inv X ?E w'"
  proof (cases "first \<and> pobj_policyQuota po1 \<noteq> 0 \<and> 0 < ssize (sz_sub (pobj_getCurrentMemory po1) orig)")
    case True
    then have "quota_update sy (pobj_policyQuota po1) w1 = returns w'"
      using w' by simp
    from quota_update_step [OF this good1] conf1 show ?thesis
      using same_config_trans by blast
  next
    case False
    then have "w' = w1"
      using w' by auto
    with good1 conf1 show ?thesis by simp
  qed
  then show "same_config w w'" and "world_inv X ?E w'" by simp_all
qed

section \<open>Faults\<close>

lemma fault_mark_step:
  fixes s :: "'f lib_store" and v :: vm and st :: segment_status
  assumes good: "world_inv X up_to_date w" and mp: "w_mappings w m = Some mp" "i < segments mp"
  defines "w1 \<equiv> put_effects s v (put_mapping m (set_status i st mp) w)"
  shows "same_config w w1" and "world_inv X (\<lambda>p. if p \<in> policies_of mp then {(m, i)} else {}) w1"
proof -
  show conf: "same_config w w1"
    using mp(1) by (simp add: w1_def same_config_def option.rel_refl)
  have base: "world_base w" and res: "resident_ok up_to_date w" and bnd: "bounded_except X w"
    using good by (simp_all add: world_inv_def)
  have "world_base w1"
    by (rule world_base_config [OF conf base]) (use policy_okD(1) [OF base] in \<open>simp add: w1_def\<close>)
  moreover have "bounded_except X w1"
    using bnd by (simp add: bounded_except_def w1_def)
  moreover have "resident_ok (\<lambda>p. if p \<in> policies_of mp then {(m, i)} else {}) w1"
    unfolding resident_ok_def
  proof (intro allI impI)
    fix q qo n np j
    assume q: "w_policies w1 q = Some qo" "w_mappings w1 n = Some np" "q \<in> policies_of np"
      "j < segments np" "mapped (segmentStatus np ! j)"
    show "(n, j) \<in> pobj_tracked qo \<union> (if q \<in> policies_of mp then {(m, i)} else {})"
    proof (cases "(n, j) = (m, i)")
      case True
      with q show ?thesis by (auto simp: w1_def policies_of_def set_status_def)
    next
      case False
      obtain op where "w_mappings w n = Some op" "q \<in> policies_of op" "j < segments op"
          "mapped (segmentStatus op ! j)"
      proof (cases "n = m")
        case True
        with q False mp(1) that [of mp] show thesis
          by (auto simp: w1_def set_status_def policies_of_def)
      next
        case False
        with q that [of np] show thesis by (simp add: w1_def)
      qed
      moreover have "w_policies w q = Some qo"
        using q(1) by (simp add: w1_def)
      ultimately show ?thesis
        using res unfolding resident_ok_def by blast
    qed
  qed
  ultimately show "world_inv X (\<lambda>p. if p \<in> policies_of mp then {(m, i)} else {}) w1"
    by (simp add: world_inv_def)
qed

text \<open>A fault that is handled keeps the invariant and the limits.\<close>

lemma onSegmentationFault_step:
  assumes good: "world_inv X up_to_date w"
    and run: "onSegmentationFault sy m a wr w = returns w'"
  shows "same_config w w' \<and> world_inv X up_to_date w'"
proof -
  obtain mp d mp' s v r where mp: "w_mappings w m = Some mp" and d: "w_drivers w (mp_driver mp) = Some d"
    and cs: "onSegmentationFault_cs (lib_ops (sy_env sy)) (sy_kmmap sy) d a wr mp (w_store w) (w_vm w) = Inr (mp', s, v, r)"
    and rest: "(case r of
            None \<Rightarrow> returns (put_effects s v (put_mapping m mp' w))
          | Some (segmentId, oldStatus) \<Rightarrow>
              bindO (if localPolicy mp' \<noteq> 0
                     then policy_notifyTouch sy (localPolicy mp') m segmentId (put_effects s v (put_mapping m mp' w))
                     else returns (put_effects s v (put_mapping m mp' w)))
                (\<lambda>w2. if globalPolicy mp' \<noteq> 0 then policy_notifyTouch sy (globalPolicy mp') m segmentId w2
                       else returns w2)) = returns w'"
    using run by (auto simp: onSegmentationFault_def)
  have sh: "shape mp"
    using good mp by (auto simp: world_inv_def world_base_def)
  show ?thesis
  proof (rule fault_status [OF sh cs])
    assume "r = None" and mp': "mp' = mp"
    then have w': "w' = put_effects s v (put_mapping m mp w)"
      using rest by simp
    have "(w_mappings w)(m \<mapsto> mp) = w_mappings w"
      using mp by auto
    then have "w_mappings w' = w_mappings w" and "w_policies w' = w_policies w" and "w_drivers w' = w_drivers w"
      by (simp_all add: w')
    with good show ?thesis
      by (simp add: world_inv_def world_base_def resident_ok_def bounded_except_def policy_ok_def
          world_segSize_def [abs_def] same_config_def option.rel_refl)
  next
    fix i st
    assume r: "r = Some (i, segmentStatus mp ! i)" and i: "i < segments mp" and mp': "mp' = set_status i st mp"
    define w1 where "w1 = put_effects s v (put_mapping m (set_status i st mp) w)"
    let ?E = "\<lambda>p. if p \<in> policies_of mp then {(m, i)} else {}"
    note f = fault_mark_step [OF good mp i, where s = s and v = v and st = st, folded w1_def]
    have pol: "localPolicy mp' = localPolicy mp" "globalPolicy mp' = globalPolicy mp"
      by (simp_all add: mp' set_status_def)
    obtain w2 where lo: "(if localPolicy mp \<noteq> 0 then policy_notifyTouch sy (localPolicy mp) m i w1 else returns w1) = returns w2"
      and gl: "(if globalPolicy mp \<noteq> 0 then policy_notifyTouch sy (globalPolicy mp) m i w2 else returns w2) = returns w'"
      using rest unfolding r option.case prod.case pol
      unfolding mp' w1_def [symmetric] bindO_eq_returns by blast
    have mp1: "w_mappings w1 m = Some (set_status i st mp)" "i < segments (set_status i st mp)"
      "policies_of (set_status i st mp) = policies_of mp"
      using i by (simp_all add: w1_def set_status_def policies_of_def)
    have s2: "same_config w1 w2 \<and> world_inv X (\<lambda>p. ?E p - (if p = localPolicy mp then {(m, i)} else {})) w2"
    proof (cases "localPolicy mp = 0")
      case True
      with lo have "w2 = w1" by simp
      moreover have "world_inv X (\<lambda>p. ?E p - (if p = localPolicy mp then {(m, i)} else {})) w1"
        by (rule world_inv_mono [OF f(2)]) (use True in \<open>auto simp: policies_of_def\<close>)
      ultimately show ?thesis by simp
    next
      case False
      then have "localPolicy mp \<in> policies_of (set_status i st mp)"
        by (simp add: mp1(3)) (simp add: policies_of_def)
      moreover have "policy_notifyTouch sy (localPolicy mp) m i w1 = returns w2"
        using lo False by simp
      ultimately have "same_config w1 w2" and "world_inv X (?E(localPolicy mp := ?E (localPolicy mp) - {(m, i)})) w2"
        by (rule policy_notifyTouch_step [OF f(2) mp1(1,2)])+
      then show ?thesis
        by (auto elim!: world_inv_mono split: if_splits)
    qed
    then obtain np where np: "w_mappings w2 m = Some np" "same_mapping (set_status i st mp) np"
      using same_config_mapping(1) [OF conjunct1 [OF s2] mp1(1)] by blast
    have np': "i < segments np" "policies_of np = policies_of mp"
      using same_mappingD [OF np(2)] mp1 by simp_all
    have "same_config w2 w' \<and> world_inv X up_to_date w'"
    proof (cases "globalPolicy mp = 0")
      case True
      with gl have "w' = w2" by simp
      moreover have "world_inv X up_to_date w2"
        by (rule world_inv_mono [OF conjunct2 [OF s2]]) (use True in \<open>auto simp: policies_of_def\<close>)
      ultimately show ?thesis by simp
    next
      case False
      then have "globalPolicy mp \<in> policies_of np"
        by (simp add: np'(2)) (simp add: policies_of_def)
      moreover have "policy_notifyTouch sy (globalPolicy mp) m i w2 = returns w'"
        using gl False by simp
      ultimately have "same_config w2 w'"
        and "world_inv X ((\<lambda>p. ?E p - (if p = localPolicy mp then {(m, i)} else {}))(globalPolicy mp :=
          ?E (globalPolicy mp) - (if globalPolicy mp = localPolicy mp then {(m, i)} else {}) - {(m, i)})) w'"
        by (rule policy_notifyTouch_step [OF conjunct2 [OF s2] np(1) np'(1)])+
      then show ?thesis
        by (auto simp: policies_of_def elim!: world_inv_mono split: if_splits)
    qed
    then show ?thesis
      using f(1) s2 same_config_trans by blast
  qed
qed

text \<open>
  The memory of the segments a list policy is responsible for is within its limit. The sum is
  over the segments in memory of all the mappings that use the policy.
\<close>

definition resident_segments :: "policy_ptr \<Rightarrow> 'f world \<Rightarrow> (mapping_ptr \<times> nat) set" where
  "resident_segments p w =
     {(m, i). \<exists>mp. w_mappings w m = Some mp \<and> p \<in> policies_of mp \<and> i < segments mp \<and>
        mapped (segmentStatus mp ! i)}"

lemma resident_memory:
  assumes "world_inv X up_to_date w" and "w_policies w p = Some po"
  shows "(\<Sum>t \<in> resident_segments p w. world_segSize w (fst t)) \<le> pobj_getCurrentMemory po"
proof -
  have base: "world_base w" and "resident_ok up_to_date w"
    using assms(1) by (simp_all add: world_inv_def)
  then have "resident_segments p w \<subseteq> pobj_tracked po"
    using assms(2) unfolding resident_ok_def resident_segments_def by blast
  then show ?thesis
    by (rule pobj.subset_memory [OF policy_okD(1) [OF base assms(2)]])
qed

lemma resident_limit:
  assumes "world_inv X up_to_date w" and "w_policies w p = Some po" and "is_list_policy po" and "p \<notin> X"
  shows "(\<Sum>t \<in> resident_segments p w. world_segSize w (fst t)) \<le> pobj_dynamicMaxMemory po"
proof -
  note resident_memory [OF assms(1,2)]
  also have "pobj_getCurrentMemory po \<le> pobj_dynamicMaxMemory po"
    using assms by (simp add: world_inv_def bounded_except_def)
  finally show ?thesis .
qed

end
