(* ===== verification/QuotaLoop.thy ===== *)
theory QuotaLoop
  imports WorldSteps
begin

text \<open>
  The reduction loop of \<open>PolicyQuotaLocal::update\<close>: it ends when the policies of the quota
  are list policies, because every round lowers the memory of the largest one, and it does
  not end with a window policy, which ignores the limit it is given.
\<close>

definition mem_of :: "'f world \<Rightarrow> policy_ptr \<Rightarrow> size_t" where
  "mem_of w p = (case w_policies w p of None \<Rightarrow> 0 | Some po \<Rightarrow> pobj_getCurrentMemory po)"

definition limit_of :: "'f world \<Rightarrow> policy_ptr \<Rightarrow> size_t" where
  "limit_of w p = (case w_policies w p of None \<Rightarrow> 0 | Some po \<Rightarrow> pobj_dynamicMaxMemory po)"

text \<open>
  No policy grows, and a policy is given a new limit only when it used more than its share; the
  new limit is at least the share and less than what the policy used.
\<close>

definition fair :: "size_t \<Rightarrow> 'f world \<Rightarrow> 'f world \<Rightarrow> bool" where
  "fair share w w' \<longleftrightarrow>
     (\<forall>p. mem_of w' p \<le> mem_of w p \<and>
        (limit_of w' p = limit_of w p \<or> share \<le> limit_of w' p \<and> limit_of w' p < mem_of w p))"

lemma fair_refl: "fair share w w"
  by (simp add: fair_def)

lemma fair_trans:
  assumes "fair share w1 w2" and "fair share w2 w3"
  shows "fair share w1 w3"
  unfolding fair_def
proof (intro allI)
  fix p
  have "mem_of w2 p \<le> mem_of w1 p" "mem_of w3 p \<le> mem_of w2 p"
    "limit_of w2 p = limit_of w1 p \<or> share \<le> limit_of w2 p \<and> limit_of w2 p < mem_of w1 p"
    "limit_of w3 p = limit_of w2 p \<or> share \<le> limit_of w3 p \<and> limit_of w3 p < mem_of w2 p"
    using assms unfolding fair_def by blast+
  then show "mem_of w3 p \<le> mem_of w1 p \<and>
      (limit_of w3 p = limit_of w1 p \<or> share \<le> limit_of w3 p \<and> limit_of w3 p < mem_of w1 p)"
    by auto
qed

definition all_live :: "'f world \<Rightarrow> policy_ptr list \<Rightarrow> bool" where
  "all_live w ps \<longleftrightarrow> (\<forall>p \<in> set ps. w_policies w p \<noteq> None)"

definition all_lists :: "'f world \<Rightarrow> policy_ptr list \<Rightarrow> bool" where
  "all_lists w ps \<longleftrightarrow> (\<forall>p \<in> set ps. \<exists>po. w_policies w p = Some po \<and> is_list_policy po)"

lemma all_lists_live: "all_lists w ps \<Longrightarrow> all_live w ps"
  by (auto simp: all_lists_def all_live_def)

lemma deref_live: "w_policies w p = Some po \<Longrightarrow> deref (w_policies w) p = Inr po"
  by (simp add: deref_def)

lemma getUsedMemory_loop_exact:
  assumes "all_live w ps" and "t + sum_list (map (mem_of w) ps) < W64"
  shows "getUsedMemory_loop w ps t = Inr (t + sum_list (map (mem_of w) ps))"
  using assms
proof (induction ps arbitrary: t)
  case (Cons p ps)
  then obtain po where po: "w_policies w p = Some po"
    by (auto simp: all_live_def)
  then have m: "mem_of w p = pobj_getCurrentMemory po"
    by (simp add: mem_of_def)
  have "sz_add t (pobj_getCurrentMemory po) = t + mem_of w p"
    using Cons.prems(2) m by (intro sz_add_exact [THEN trans]) simp_all
  then show ?case
    using Cons.IH [of "t + mem_of w p"] Cons.prems by (simp add: deref_live [OF po] all_live_def add.assoc)
qed simp

lemma getUsedMemory_exact:
  assumes "all_live w ps" and "sum_list (map (mem_of w) ps) < W64"
  shows "getUsedMemory ps w = Inr (sum_list (map (mem_of w) ps))"
  using getUsedMemory_loop_exact [of w ps 0] assms by (simp add: getUsedMemory_def)

lemma polMax_loop_correct:
  assumes "all_live w (pm # ps)"
  shows "\<exists>p. polMax_loop w ps pm = Inr p \<and> p \<in> set (pm # ps) \<and> (\<forall>q \<in> set (pm # ps). mem_of w q \<le> mem_of w p)"
  using assms
proof (induction ps arbitrary: pm)
  case (Cons a ps)
  obtain ao mo where a: "w_policies w a = Some ao" and m: "w_policies w pm = Some mo"
    using Cons.prems by (auto simp: all_live_def)
  define pm' where "pm' = (if pobj_getCurrentMemory ao > pobj_getCurrentMemory mo then a else pm)"
  have "all_live w (pm' # ps)"
    using Cons.prems by (auto simp: all_live_def pm'_def)
  from Cons.IH [OF this] obtain p where p: "polMax_loop w ps pm' = Inr p" "p \<in> set (pm' # ps)"
      "\<forall>q \<in> set (pm' # ps). mem_of w q \<le> mem_of w p"
    by blast
  have "mem_of w pm' = max (mem_of w a) (mem_of w pm)"
    using a m by (simp add: pm'_def mem_of_def)
  then have "mem_of w a \<le> mem_of w p" and "mem_of w pm \<le> mem_of w p"
    using p(3) by auto
  moreover have "p \<in> set (pm # a # ps)"
    using p(2) by (auto simp: pm'_def split: if_splits)
  moreover have "polMax_loop w (a # ps) pm = Inr p"
    using p(1) by (simp add: deref_live [OF a] deref_live [OF m] pm'_def)
  ultimately show ?case
    using p(3) by auto
qed simp

text \<open>The largest of the policies is above the average when the total is above the quota.\<close>

lemma above_average:
  assumes "\<forall>q \<in> set ps. f q \<le> (M :: nat)" and "sum_list (map f ps) > S"
  shows "M > S div length ps"
proof (rule ccontr)
  assume "\<not> M > S div length ps"
  then have "f q \<le> S div length ps" if "q \<in> set ps" for q
    using assms(1) that by fastforce
  then have "sum_list (map f ps) \<le> sum_list (map (\<lambda>_. S div length ps) ps)"
    by (intro sum_list_mono) simp
  also have "\<dots> = length ps * (S div length ps)"
    by (simp add: sum_list_triv)
  also have "\<dots> \<le> S" by simp
  finally show False using assms(2) by simp
qed

lemma sum_list_less:
  fixes f g :: "'a \<Rightarrow> nat"
  assumes "\<And>q. f q \<le> g q" and "p \<in> set ps" and "f p < g p"
  shows "sum_list (map f ps) < sum_list (map g ps)"
  using assms(2)
proof (induction ps)
  case (Cons a ps)
  have "sum_list (map f ps) \<le> sum_list (map g ps)"
    by (rule sum_list_mono) (rule assms(1))
  with Cons assms(1) [of a] assms(3) show ?case
    by (cases "a = p") auto
qed simp

text \<open>The critical section of a shrink ends.\<close>

lemma list_shrink_ends:
  assumes "tracks segSize p ts"
  shows "fifo_shrinkMemory_cs segSize p \<noteq> None"
proof -
  obtain as where as: "tracking segSize p as 0"
    using assms by (auto simp: tracks_def)
  show ?thesis
  proof (cases "length (dropped (eltSize segSize (storageRegistry p)) (dynamicMaxMemory p) as) < maxIdsToEvict")
    case True
    then show ?thesis
      using evict_loop_correct [OF as, of "[]"] by (auto simp: fifo_shrinkMemory_cs_def)
  next
    case False
    then show ?thesis
      using evict_loop_too_many [OF as, of "[]"] by (simp add: fifo_shrinkMemory_cs_def)
  qed
qed

lemma pobj_shrink_ends:
  assumes "pobj_inv segSize po" and "is_list_policy po"
  shows "pobj_shrinkMemory_cs segSize po \<noteq> None"
proof (cases po)
  case (PFifo p)
  then obtain ts where "tracks segSize p ts"
    using assms(1) by (auto simp: pobj_inv_def list_inv_def)
  from list_shrink_ends [OF this] show ?thesis
    by (auto simp: PFifo pobj_shrinkMemory_cs_def map_outcome_def bindO_def split: option.splits sum.splits)
next
  case (PLifo p)
  then obtain ts where "tracks segSize p ts"
    using assms(1) by (auto simp: pobj_inv_def list_inv_def)
  from list_shrink_ends [OF this] show ?thesis
    by (auto simp: PLifo pobj_shrinkMemory_cs_def map_outcome_def bindO_def lifo_shared split: option.splits sum.splits)
next
  case (PWindow p)
  with assms(2) show ?thesis by simp
qed

lemma policy_shrinkMemory_ends:
  assumes "world_base w" and "w_policies w p = Some po" and "is_list_policy po"
  shows "policy_shrinkMemory sy p w \<noteq> None"
proof -
  obtain r where "pobj_shrinkMemory_cs (world_segSize w) po = Some r"
    using pobj_shrink_ends [OF policy_okD(1) [OF assms(1,2)] assms(3)] by blast
  then show ?thesis
    by (cases r) (auto simp: policy_shrinkMemory_def deref_live [OF assms(2)])
qed

lemma evicts_mem_of:
  assumes "evicts w w'" and "world_base w"
  shows "mem_of w' p \<le> mem_of w p"
proof (cases "w_policies w p")
  case None
  then show ?thesis
    using evicts_policy(2) [OF assms(1), of p] by (cases "w_policies w' p") (auto simp: mem_of_def)
next
  case (Some po)
  then obtain po' where "w_policies w' p = Some po'" "policy_le (world_segSize w) po po'"
    using evicts_policy(1) [OF assms(1)] by blast
  with evicts_memory [OF assms(2) Some] Some show ?thesis by (simp add: mem_of_def)
qed

lemma evicts_limit_of:
  assumes "evicts w w'"
  shows "limit_of w' p = limit_of w p"
proof (cases "w_policies w p")
  case None
  then show ?thesis
    using evicts_policy(2) [OF assms, of p] by (cases "w_policies w' p") (auto simp: limit_of_def)
next
  case (Some po)
  with evicts_policy(1) [OF assms Some] show ?thesis
    by (auto simp: limit_of_def policy_le_def)
qed

lemma evicts_all_lists: "evicts w w' \<Longrightarrow> all_lists w ps \<Longrightarrow> all_lists w' ps"
  unfolding all_lists_def by (fastforce dest: evicts_policy(1) simp: policy_le_def)

text \<open>One round ends, and when it returns the total is lower.\<close>

lemma quota_reduce_decreases:
  assumes good: "world_good E w" and ls: "all_lists w ps" and ne: "ps \<noteq> []"
    and small: "sum_list (map (mem_of w) ps) < W64" and over: "sum_list (map (mem_of w) ps) > staticMax"
  shows "quota_reduce sy ps (staticMax div length ps) w \<noteq> None"
    and "quota_reduce sy ps (staticMax div length ps) w = returns (tot, w') \<Longrightarrow>
      tot = sum_list (map (mem_of w') ps) \<and> tot < sum_list (map (mem_of w) ps) \<and> all_lists w' ps \<and>
      fair (staticMax div length ps) w w'"
proof -
  let ?avg = "staticMax div length ps"
  have base: "world_base w"
    using good by (simp add: world_inv_def)
  have "all_live w (hd ps # ps)"
    using all_lists_live [OF ls] ne by (simp add: all_live_def)
  from polMax_loop_correct [OF this] ne
  obtain p where p: "polMax_loop w ps (hd ps) = Inr p" "p \<in> set ps" "\<forall>q \<in> set ps. mem_of w q \<le> mem_of w p"
    by auto
  obtain po where po: "w_policies w p = Some po" "is_list_policy po"
    using ls p(2) by (auto simp: all_lists_def)
  define M where "M = pobj_getCurrentMemory po"
  have M: "mem_of w p = M"
    using po(1) by (simp add: mem_of_def M_def)
  have "M > ?avg"
    using above_average [OF p(3) over] M by simp
  have "M \<le> sum_list (map (mem_of w) ps)"
    using member_le_sum_list [of M "map (mem_of w) ps"] p(2) M by auto
  then have W: "M < W64"
    using small by simp
  define n where "n = sz_add ?avg (sz_sub M ?avg div 2)"
  have "sz_sub M ?avg = M - ?avg"
    using \<open>M > ?avg\<close> W by simp
  then have n: "n = ?avg + (M - ?avg) div 2"
    unfolding n_def using \<open>M > ?avg\<close> W by (simp add: sz_add_exact)
  then have "n < M"
    using \<open>M > ?avg\<close> by linarith
  let ?w1 = "put_policy p (pobj_setDynamicMaxMemory n po) w"
  note l = limit_step [OF good po(1), of n]
  have po1: "w_policies ?w1 p = Some (pobj_setDynamicMaxMemory n po)" "is_list_policy (pobj_setDynamicMaxMemory n po)"
    using po(2) by simp_all
  have run: "quota_reduce sy ps ?avg w =
      bindO (policy_shrinkMemory sy p ?w1) (\<lambda>w'. bindO (Some (getUsedMemory ps w')) (\<lambda>t. returns (t, w')))"
    unfolding quota_reduce_def p(1) deref_live [OF po(1)] bindO_returns Let_def n_def M_def ..
  show "quota_reduce sy ps ?avg w \<noteq> None"
    using policy_shrinkMemory_ends [OF l(1) po1, of sy]
    unfolding run by (auto simp: bindO_def split: sum.splits option.splits)
  assume "quota_reduce sy ps ?avg w = returns (tot, w')"
  then have sh: "policy_shrinkMemory sy p ?w1 = returns w'" and tot: "getUsedMemory ps w' = Inr tot"
    unfolding run by auto
  note s = policy_shrinkMemory_step [OF l(1) sh]
  have "mem_of ?w1 q = mem_of w q" for q
    using po(1) by (simp add: mem_of_def)
  then have le: "mem_of w' q \<le> mem_of w q" for q
    using evicts_mem_of [OF s(1) l(1), of q] by simp
  obtain po' where po': "w_policies w' p = Some po'" "policy_le (world_segSize ?w1) (pobj_setDynamicMaxMemory n po) po'"
    using evicts_policy(1) [OF s(1) po1(1)] by blast
  have "bounded_except {} w'"
    using s(3) [of "{}"] l(3) by simp
  then have "pobj_getCurrentMemory po' \<le> n"
    using po' po(2) by (auto simp: bounded_except_def policy_le_def)
  then have less: "mem_of w' p < mem_of w p"
    using po'(1) M \<open>n < M\<close> by (simp add: mem_of_def)
  have "sum_list (map (mem_of w') ps) < sum_list (map (mem_of w) ps)"
    using p(2) less by (intro sum_list_less [of "mem_of w'" "mem_of w"] le)
  moreover have "all_lists w' ps"
    using ls po(2) by (intro evicts_all_lists [OF s(1)]) (simp add: all_lists_def)
  moreover from calculation have "tot = sum_list (map (mem_of w') ps)"
    using getUsedMemory_exact [OF all_lists_live, of w' ps] tot small by auto
  moreover have "fair ?avg w w'"
    unfolding fair_def
  proof (intro allI conjI le)
    fix q
    have "limit_of w' q = limit_of ?w1 q"
      by (rule evicts_limit_of [OF s(1)])
    also have "\<dots> = (if q = p then n else limit_of w q)"
      by (simp add: limit_of_def)
    finally show "limit_of w' q = limit_of w q \<or> ?avg \<le> limit_of w' q \<and> limit_of w' q < mem_of w q"
      using M \<open>n < M\<close> n by auto
  qed
  ultimately show "tot = sum_list (map (mem_of w') ps) \<and> tot < sum_list (map (mem_of w) ps) \<and> all_lists w' ps \<and>
      fair ?avg w w'"
    by simp
qed

lemma quota_reduce_loop_ends:
  assumes "world_good E w" and "all_lists w ps" and "ps \<noteq> []"
    and "sum_list (map (mem_of w) ps) < W64"
  shows "quota_reduce_loop sy ps staticMax (staticMax div length ps) (sum_list (map (mem_of w) ps)) w \<noteq> None"
  using assms
proof (induction "sum_list (map (mem_of w) ps)" arbitrary: w rule: less_induct)
  case less
  let ?tot = "\<lambda>w. sum_list (map (mem_of w) ps)" and ?avg = "staticMax div length ps"
  show ?case
  proof (cases "?tot w > staticMax")
    case False
    then show ?thesis by (subst quota_reduce_loop.simps) simp
  next
    case True
    note d = quota_reduce_decreases [OF less.prems(1-4) True]
    obtain r where r: "quota_reduce sy ps ?avg w = Some r"
      using d(1) by blast
    show ?thesis
    proof (cases r)
      case (Inl e)
      with r True show ?thesis by (subst quota_reduce_loop.simps) simp
    next
      case (Inr x)
      obtain tot w' where x: "x = (tot, w')" by (cases x)
      have run: "quota_reduce sy ps ?avg w = returns (tot, w')"
        using r Inr x by simp
      have t: "tot = ?tot w'" "?tot w' < ?tot w" "all_lists w' ps"
        using d(2) [OF run] by simp_all
      have "quota_reduce_loop sy ps staticMax ?avg (?tot w') w' \<noteq> None"
        using t less.prems(3,4) quota_reduce_step(2) [OF less.prems(1) run] by (intro less.hyps) simp_all
      then show ?thesis
        using True run t(1) by (subst quota_reduce_loop.simps) simp
    qed
  qed
qed

lemma quotaLocal_update_ends:
  assumes good: "world_good E w" and q: "w_quotas w q = Some qo" and ls: "all_lists w (q_policies qo)"
    and small: "sum_list (map (mem_of w) (q_policies qo)) < W64"
  shows "quotaLocal_update sy q w \<noteq> None"
proof (cases "q_policies qo = []")
  case True
  then show ?thesis by (simp add: quotaLocal_update_def deref_def q)
next
  case False
  then show ?thesis
    using quota_reduce_loop_ends [OF good ls False small]
      getUsedMemory_exact [OF all_lists_live [OF ls] small]
    by (simp add: quotaLocal_update_def deref_def q Let_def)
qed

text \<open>When the loop returns the exact total fits in the quota and the policies were treated fairly.\<close>

lemma quota_reduce_loop_result:
  assumes "world_good E w" and "all_lists w ps" and "ps \<noteq> []" and "sum_list (map (mem_of w) ps) < W64"
    and "quota_reduce_loop sy ps staticMax (staticMax div length ps) (sum_list (map (mem_of w) ps)) w = returns w'"
  shows "world_good E w' \<and> all_lists w' ps \<and> sum_list (map (mem_of w') ps) \<le> staticMax \<and>
    fair (staticMax div length ps) w w'"
  using assms
proof (induction "sum_list (map (mem_of w) ps)" arbitrary: w rule: less_induct)
  case less
  let ?tot = "\<lambda>w. sum_list (map (mem_of w) ps)" and ?avg = "staticMax div length ps"
  show ?case
  proof (cases "?tot w > staticMax")
    case False
    then have "w' = w"
      using less.prems(5) by (subst (asm) quota_reduce_loop.simps) simp
    then show ?thesis
      using False less.prems(1,2) by (simp add: fair_refl)
  next
    case True
    obtain tot w1 where one: "quota_reduce sy ps ?avg w = returns (tot, w1)"
      and rest: "quota_reduce_loop sy ps staticMax ?avg tot w1 = returns w'"
      using less.prems(5) True by (subst (asm) quota_reduce_loop.simps) (auto split: option.splits sum.splits)
    note d = quota_reduce_decreases(2) [OF less.prems(1-4) True one]
    have "world_good E w1"
      by (rule quota_reduce_step(2) [OF less.prems(1) one])
    with less.hyps [of w1] d rest less.prems(3,4) show ?thesis
      using fair_trans [of ?avg w w1 w'] by auto
  qed
qed

lemma quotaLocal_update_result:
  assumes good: "world_good E w" and q: "w_quotas w q = Some qo" and ls: "all_lists w (q_policies qo)"
    and small: "sum_list (map (mem_of w) (q_policies qo)) < W64" and run: "quotaLocal_update sy q w = returns w'"
  shows "world_good E w' \<and> all_lists w' (q_policies qo) \<and>
    sum_list (map (mem_of w') (q_policies qo)) \<le> q_staticMaxMemory qo \<and>
    fair (q_staticMaxMemory qo div length (q_policies qo)) w w'"
proof (cases "q_policies qo = []")
  case True
  then show ?thesis
    using run good ls by (simp add: quotaLocal_update_def deref_def q fair_refl)
next
  case False
  then show ?thesis
    using run quota_reduce_loop_result [OF good ls False small] getUsedMemory_exact [OF all_lists_live [OF ls] small]
    by (simp add: quotaLocal_update_def deref_def q Let_def)
qed

section \<open>A window policy\<close>

text \<open>
  The window policy evicts against its own two limits only. When its memory is above the
  quota although its sliding window fits, a round of the loop changes nothing but the dynamic
  limit, which the policy does not read.
\<close>

lemma window_ignores_limit:
  assumes "currentSlidingWindowMemory p \<le> maxSlidingMemory p"
  shows "pobj_shrinkMemory_cs segSize (PWindow p) = returns (PWindow p, [])"
  using assms
  by (simp add: pobj_shrinkMemory_cs_def window_shrinkMemory_cs_def window_evict_loop.simps map_outcome_def)

definition window_stuck :: "size_t \<Rightarrow> policy_ptr \<Rightarrow> 'f world \<Rightarrow> bool" where
  "window_stuck staticMax p w \<longleftrightarrow>
     (\<exists>wp. w_policies w p = Some (PWindow wp) \<and> currentSlidingWindowMemory wp \<le> maxSlidingMemory wp \<and>
        window_getCurrentMemory wp > staticMax)"

lemma window_reduce:
  assumes "window_stuck staticMax p w"
  shows "\<exists>t w'. quota_reduce sy [p] avg w = returns (t, w') \<and> t > staticMax \<and> window_stuck staticMax p w'"
proof -
  obtain wp where wp: "w_policies w p = Some (PWindow wp)" "currentSlidingWindowMemory wp \<le> maxSlidingMemory wp"
      "window_getCurrentMemory wp > staticMax"
    using assms by (auto simp: window_stuck_def)
  have W: "window_getCurrentMemory wp < W64"
    by (simp add: window_getCurrentMemory_def)
  define n where "n = sz_add avg (sz_sub (window_getCurrentMemory wp) avg div 2)"
  define wp' where "wp' = setDynamicMaxMemory n wp"
  have keep: "currentSlidingWindowMemory wp' \<le> maxSlidingMemory wp'"
      "window_getCurrentMemory wp' = window_getCurrentMemory wp"
    using wp(2) by (simp_all add: wp'_def setDynamicMaxMemory_def window_getCurrentMemory_def)
  let ?w = "put_policy p (PWindow wp') w"
  have put: "put_policy p (PWindow wp') ?w = ?w"
    by (simp add: put_policy_def)
  have sh: "policy_shrinkMemory sy p ?w = returns ?w"
    by (simp add: policy_shrinkMemory_def deref_def window_ignores_limit [OF keep(1)] evict_ids_def put)
  have used: "getUsedMemory [p] ?w = Inr (window_getCurrentMemory wp)"
    using W keep(2) by (simp add: getUsedMemory_def deref_def pobj_getCurrentMemory_def)
  have mx: "polMax_loop w [p] p = Inr p"
    by (simp add: deref_def wp(1))
  have "quota_reduce sy [p] avg w = returns (window_getCurrentMemory wp, ?w)"
    unfolding quota_reduce_def list.sel mx bindO_returns deref_live [OF wp(1)]
    using sh used
    by (simp add: pobj_getCurrentMemory_def pobj_setDynamicMaxMemory_def n_def [symmetric] wp'_def [symmetric])
  moreover have "window_stuck staticMax p ?w"
    using wp(3) keep by (simp add: window_stuck_def)
  ultimately show ?thesis
    using wp(3) by blast
qed

lemma window_quota_loops:
  assumes "window_stuck staticMax p w" and "totMem > staticMax"
  shows "quota_reduce_loop sy [p] staticMax avg totMem w = None"
proof (rule ccontr)
  assume "quota_reduce_loop sy [p] staticMax avg totMem w \<noteq> None"
  then obtain y where run: "quota_reduce_loop sy [p] staticMax avg totMem w = Some y"
    by blast
  have "ps = [p] \<longrightarrow> totMem > staticMax \<longrightarrow> \<not> window_stuck staticMax p w"
    if "quota_reduce_loop sy ps staticMax avg totMem w = Some y" for ps totMem and w :: "'a world" and sy
  proof (rule quota_reduce_loop.raw_induct [where P = "\<lambda>sy ps staticMax averageMem totMem w y.
      ps = [p] \<longrightarrow> totMem > staticMax \<longrightarrow> \<not> window_stuck staticMax p w", OF _ that], intro impI notI)
    fix loop sy ps staticMax averageMem totMem y
    fix w :: "'a world"
    assume IH: "\<And>sy ps staticMax averageMem totMem w y. loop sy ps staticMax averageMem totMem w = Some y \<Longrightarrow>
        ps = [p] \<longrightarrow> totMem > staticMax \<longrightarrow> \<not> window_stuck staticMax p w"
      and body: "(if totMem > staticMax
        then (case quota_reduce sy ps averageMem w of
              None \<Rightarrow> None
            | Some r \<Rightarrow>
                (case r of
                   Inl e \<Rightarrow> aborts e
                 | Inr (totMem', w') \<Rightarrow> loop sy ps staticMax averageMem totMem' w'))
        else returns w) = Some y"
      and ps: "ps = [p]" and over: "totMem > staticMax" and st: "window_stuck staticMax p w"
    obtain t w' where "quota_reduce sy [p] averageMem w = returns (t, w')" "t > staticMax" "window_stuck staticMax p w'"
      using window_reduce [OF st] by blast
    with body ps over IH [of sy "[p]" staticMax averageMem t w' y] show False by simp
  qed
  from this [OF run] assms show False by simp
qed

end
