(* ===== verification/WorldProps.thy ===== *)
theory WorldProps
  imports QuotaLoop PolicyHistory Instances Transfers
begin

text \<open>
  What the mappings, the policies and the quotas of a process guarantee together: along any
  sequence of faults, quota updates and signals every segment in memory is known to the
  policies of its mapping, and the memory of a policy stays within its limit. The reduction of
  a quota ends for list policies and never ends for a window policy that is above the quota.
\<close>

section \<open>Runs of a process\<close>

datatype process_event =
    PFault mapping_ptr addr bool
  | PShrink policy_ptr
  | PUpdate quota_ptr
  | PSignal

fun process_step :: "'f sys \<Rightarrow> process_event \<Rightarrow> 'f world \<Rightarrow> 'f world outcome" where
  "process_step sy (PFault m a wr) w = onSegmentationFault sy m a wr w"
| "process_step sy (PShrink p) w = policy_shrinkMemory sy p w"
| "process_step sy (PUpdate q) w = quota_update sy q w"
| "process_step sy PSignal w = sigHandler sy w"

fun process_run :: "'f sys \<Rightarrow> process_event list \<Rightarrow> 'f world \<Rightarrow> 'f world outcome" where
  "process_run sy [] w = returns w"
| "process_run sy (e # es) w = bindO (process_step sy e w) (process_run sy es)"

lemma process_step_good:
  assumes good: "world_good up_to_date w" and run: "process_step sy e w = returns w'"
  shows "same_config w w' \<and> world_good up_to_date w'"
proof (cases e)
  case (PFault m a wr)
  with onSegmentationFault_step [OF good] run show ?thesis by simp
next
  case (PShrink p)
  have base: "world_base w" and res: "resident_ok up_to_date w" and bnd: "bounded_except {} w"
    using good by (simp_all add: world_inv_def)
  have run': "policy_shrinkMemory sy p w = returns w'"
    using run PShrink by simp
  note st = policy_shrinkMemory_step [OF base run']
  show ?thesis
    using st(1) evicts_base [OF st(1) base] st(2) [OF res] st(3) [OF bounded_weaken [OF bnd]]
    by (simp add: world_inv_def evicts_def)
next
  case (PUpdate q)
  with quota_update_step [OF _ good, of sy q w'] run show ?thesis by simp
next
  case PSignal
  with quota_update_step [OF _ good, of sy "w_interproc w" w'] run good show ?thesis
    by (auto simp: sigHandler_def split: if_splits)
qed

lemma process_run_good:
  assumes "world_good up_to_date w" and "process_run sy es w = returns w'"
  shows "same_config w w' \<and> world_good up_to_date w'"
  using assms
proof (induction es arbitrary: w)
  case (Cons e es)
  obtain w1 where w1: "process_step sy e w = returns w1" "process_run sy es w1 = returns w'"
    using Cons.prems(2) unfolding process_run.simps bindO_eq_returns by blast
  from process_step_good [OF Cons.prems(1) w1(1)] Cons.IH [OF _ w1(2)] show ?case
    using same_config_trans by blast
qed simp

section \<open>A process with one mapping\<close>

definition map_pol :: mapping where
  "map_pol = map0\<lparr>globalPolicy := 2\<rparr>"

definition seg0 :: "mapping_ptr \<Rightarrow> size_t" where
  "seg0 m = (if m = 1 then 4096 else 0)"

definition fifo0 :: list_policy where
  "fifo0 = projr (fifo_allocateElementStorage seg0 1 2 (newFifoPolicy 8 4096 False))"

definition world0 :: "outside_state world" where
  "world0 = \<lparr>w_mappings = [1 \<mapsto> map_pol], w_policies = [2 \<mapsto> PFifo fifo0],
     w_quotas = [3 \<mapsto> \<lparr>q_staticMaxMemory = 4096, q_policies = [2], q_interproc = None\<rparr>],
     w_drivers = [1 \<mapsto> DMemory drv0], w_store = store0, w_vm = vm1, w_shm = \<lambda>_. None, w_interproc = 0\<rparr>"

definition no_sessions :: "'f session_lib" where
  "no_sessions = \<lparr>sl_have_mero = False, sl_have_ioc = False, sl_mero_running = \<lambda>f. False, sl_mero_init = \<lambda>i file f. (1, f),
     sl_mero_free = \<lambda>f. f, sl_ioc_init = \<lambda>server port f. (0, f), sl_ioc_fini = \<lambda>c f. f\<rparr>"

definition sys0 :: "outside_state sys" where
  "sys0 = \<lparr>sy_env = ram_env, sy_kmmap = first_fit, sy_cpus = 4, sy_pid = 10, sy_alive = \<lambda>_. True,
     sy_sessions = no_sessions\<rparr>"

lemma fifo0_ok:
  "fifo_allocateElementStorage seg0 1 2 (newFifoPolicy 8 4096 False) = Inr fifo0"
  "tracks seg0 fifo0 []" "usable fifo0" "segs (storageRegistry fifo0) = {(1, 0), (1, 1)}"
  "dynamicMaxMemory fifo0 = 4096" "policyQuota fifo0 = 0" "currentMemory fifo0 = 0"
  "pobj_room (PFifo fifo0)"
proof -
  note n = newFifoPolicy_stands_for [of seg0 8 4096 False, unfolded stands_for_def, simplified new_queue_def]
  show al: "fifo_allocateElementStorage seg0 1 2 (newFifoPolicy 8 4096 False) = Inr fifo0"
    by (simp add: fifo0_def fifo_allocateElementStorage_def registerMapping_def checkHasEnoughMem_def
        newFifoPolicy_def Let_def seg0_def)
  obtain p' where p': "fifo_allocateElementStorage seg0 1 2 (newFifoPolicy 8 4096 False) = Inr p'"
    "tracks seg0 p' []"
    "segs (storageRegistry p') = segs (storageRegistry (newFifoPolicy 8 4096 False)) \<union> {(1, i) |i. i < 2}"
    by (rule fifo_allocateElementStorage_correct [of seg0 "newFifoPolicy 8 4096 False" "[]" 1 2])
      (use n in \<open>simp_all add: newFifoPolicy_def seg0_def\<close>)
  then show "tracks seg0 fifo0 []" and "segs (storageRegistry fifo0) = {(1, 0), (1, 1)}"
    using al by (auto simp: newFifoPolicy_def segs_def less_2_cases_iff)
  show "usable fifo0" "dynamicMaxMemory fifo0 = 4096" "policyQuota fifo0 = 0" "currentMemory fifo0 = 0"
    by (simp_all add: fifo0_def fifo_allocateElementStorage_def registerMapping_def checkHasEnoughMem_def
        newFifoPolicy_def Let_def usable_def seg0_def)
  show "pobj_room (PFifo fifo0)"
    by (simp add: pobj_room_defs heap_ok_def storage_end_def fifo0_def fifo_allocateElementStorage_def registerMapping_def
        checkHasEnoughMem_def newFifoPolicy_def Let_def seg0_def)
qed

lemma map_pol_simps [simp]:
  "mp_driver map_pol = 1" "localPolicy map_pol = 0" "globalPolicy map_pol = 2" "protection map_pol = 3"
  "baseAddress map_pol = 1048576" "segments map_pol = 2" "segmentSize map_pol = 4096" "mp_size map_pol = 5000"
  "storageOffset map_pol = 0" "threadSafe map_pol"
  "segmentStatus map_pol = replicate 2 \<lparr>mapped = False, dirty = False, needRead = True\<rparr>"
  by (simp_all add: map_pol_def)

lemma world0_simps [simp]:
  "w_mappings world0 = [1 \<mapsto> map_pol]" "w_policies world0 = [2 \<mapsto> PFifo fifo0]"
  "w_quotas world0 = [3 \<mapsto> \<lparr>q_staticMaxMemory = 4096, q_policies = [2], q_interproc = None\<rparr>]"
  "w_drivers world0 = [1 \<mapsto> DMemory drv0]" "w_store world0 = store0" "w_vm world0 = vm1"
  by (simp_all add: world0_def)

lemma world0_segSize: "world_segSize world0 = seg0"
  by (simp add: fun_eq_iff world_segSize_def getSegmentSize_def seg0_def)

lemma world0_good: "world_good up_to_date world0"
proof -
  have sh: "shape map_pol" by (simp add: shape_def)
  have inv: "list_inv seg0 fifo0" and tr: "list_tracked fifo0 = {}"
    using fifo0_ok(2,3) tracks_list_tracked by (auto simp: list_inv_def)
  have "policy_ok world0 2 (PFifo fifo0)"
    using inv fifo0_ok(4,8)
    by (auto simp: policy_ok_def pobj_inv_def pobj_registered_def registered_segments_def world0_segSize
        policies_of_def less_2_cases_iff seg0_def)
  then have "world_base world0"
    using sh by (simp add: world_base_def)
  moreover have "resident_ok up_to_date world0"
    by (auto simp: resident_ok_def less_2_cases_iff)
  moreover have "bounded_except {} world0"
    by (simp add: bounded_except_def pobj_getCurrentMemory_def fifo_getCurrentMemory_def fifo0_ok(7))
  ultimately show ?thesis
    by (simp add: world_inv_def)
qed

text \<open>The steps of a write fault on the second segment.\<close>

definition map_pol1 :: mapping where
  "map_pol1 = map1\<lparr>globalPolicy := 2\<rparr>"

lemma load_pol: "loadAndSwapSegment (lib_ops ram_env) first_fit (DMemory drv0) 4096 True map_pol store0 vm1 = Inr (store0, vm2)"
proof -
  have "readWriteSize 4096 map_pol = 904"
    by (simp add: readWriteSize_def)
  then show ?thesis
    by (simp add: loadAndSwapSegment_def mmapProtFull_def free1 has_flag_def pread1 Let_def
        mremapForced_def pages_mapped_ops vm2_def)
qed

lemma fault_pol: "onSegmentationFault_cs (lib_ops ram_env) first_fit (DMemory drv0) 1052676 True map_pol store0 vm1 =
    Inr (map_pol1, store0, vm2, Some (1, \<lparr>mapped = False, dirty = False, needRead = True\<rparr>))"
proof -
  have "set_status 1 \<lparr>mapped = True, dirty = True, needRead = True\<rparr> map_pol = map_pol1"
    by (simp add: map_pol1_def map1_def set_status_def map_pol_def)
  then show ?thesis
    by (simp add: onSegmentationFault_cs_def load_pol has_flag_def Let_def)
qed

lemma quota_loop_done: "totMem \<le> staticMax \<Longrightarrow> quota_reduce_loop sy ps staticMax avg totMem w = returns w"
  by (subst quota_reduce_loop.simps) simp

lemma map_pol1_simps [simp]:
  "localPolicy map_pol1 = 0" "globalPolicy map_pol1 = 2" "segmentSize map_pol1 = 4096" "segments map_pol1 = 2"
  "baseAddress map_pol1 = 1048576" "mp_size map_pol1 = 5000" "storageOffset map_pol1 = 0" "threadSafe map_pol1"
  "protection map_pol1 = 3" "mp_driver map_pol1 = 1"
  "segmentStatus map_pol1 = [\<lparr>mapped = False, dirty = False, needRead = True\<rparr>,
     \<lparr>mapped = True, dirty = True, needRead = True\<rparr>]"
  by (simp_all add: map_pol1_def map1_def set_status_def numeral_2_eq_2)

lemma sys0_simps [simp]: "sy_env sys0 = ram_env" "sy_kmmap sys0 = first_fit"
  by (simp_all add: sys0_def)

definition world1 :: "outside_state world" where
  "world1 = put_effects store0 vm2 (put_mapping 1 map_pol1 world0)"

lemma world1_simps [simp]:
  "w_policies world1 = [2 \<mapsto> PFifo fifo0]" "w_mappings world1 = [1 \<mapsto> map_pol1]"
  "w_quotas world1 = [3 \<mapsto> \<lparr>q_staticMaxMemory = 4096, q_policies = [2], q_interproc = None\<rparr>]"
  "world_segSize world1 = seg0"
  by (auto simp: world1_def put_effects_def put_mapping_def fun_eq_iff world_segSize_def getSegmentSize_def seg0_def)

lemma touch_pol:
  obtains p where "fifo_notifyTouch_cs seg0 1 1 fifo0 = returns (p, [], True, 0)" and "policyQuota p = 0"
    and "currentMemory p = 4096" and "tracks seg0 p [(1, 1)]" and "dynamicMaxMemory p = 4096"
proof -
  have d: "dropped (seg0 \<circ> fst) 4096 (touch_list (1, 1) []) = []" "kept (seg0 \<circ> fst) 4096 (touch_list (1, 1) []) = [(1, 1)]"
    by (simp_all add: dropped_def kept_def touch_list_def seg0_def)
  have seg: "(1, 1) \<in> segs (storageRegistry fifo0)" and fits: "currentMemory fifo0 + seg0 1 < W64"
    by (simp_all add: fifo0_ok(4,7) seg0_def)
  have cap: "length (dropped (seg0 \<circ> fst) (dynamicMaxMemory fifo0) (touch_list (1, 1) [])) < maxIdsToEvict"
    unfolding fifo0_ok(5) d by simp
  obtain h n where touch: "fifo_notifyTouch_cs seg0 1 1 fifo0 =
      returns (fifo0\<lparr>elts := h, currentMemory := n\<rparr>, [], (1, 1) \<notin> set ([] :: (mapping_ptr \<times> nat) list), 0)"
    and tr: "tracks seg0 (fifo0\<lparr>elts := h, currentMemory := n\<rparr>) [(1, 1)]"
    using fifo_notifyTouch_cs_correct [OF fifo0_ok(2,3) seg fits cap] unfolding fifo0_ok(5,7) d by blast
  have touch: "fifo_notifyTouch_cs seg0 1 1 fifo0 = returns (fifo0\<lparr>elts := h, currentMemory := n\<rparr>, [], True, 0)"
    using touch by simp
  show thesis
    by (rule that [OF touch]) (use fifo0_ok(5,6) tr tracks_memory [OF tr] in \<open>simp_all add: seg0_def\<close>)
qed

lemma fault_step_pol:
  assumes "fifo_notifyTouch_cs seg0 1 1 fifo0 = returns (p, [], True, 0)" and "policyQuota p = 0"
  shows "onSegmentationFault sys0 1 1052676 True world0 = returns (put_policy 2 (PFifo p) world1)"
proof -
  have "policy_notifyTouch sys0 2 1 1 world1 = returns (put_policy 2 (PFifo p) world1)"
    using assms
    by (simp add: policy_notifyTouch_def deref_def pobj_notifyTouch_cs_def map_outcome_def evict_ids_def put_policy_def
        pobj_policyQuota_def)
  moreover have "onSegmentationFault sys0 1 1052676 True world0 = policy_notifyTouch sys0 2 1 1 world1"
    by (simp add: onSegmentationFault_def deref_def fault_pol world1_def [symmetric] del: One_nat_def)
  ultimately show ?thesis by simp
qed

lemma update_pol:
  assumes "currentMemory p = 4096"
  shows "quota_update sys0 3 (put_policy 2 (PFifo p) world1) = returns (put_policy 2 (PFifo p) world1)"
  using assms
  by (simp add: quota_update_def quotaLocal_update_def deref_def getUsedMemory_def put_policy_def
      pobj_getCurrentMemory_def fifo_getCurrentMemory_def quota_loop_done)

lemma run_pol:
  obtains p where "process_run sys0 [PFault 1 1052676 True, PUpdate 3] world0 = returns (put_policy 2 (PFifo p) world1)"
    and "currentMemory p = 4096" and "tracks seg0 p [(1, 1)]" and "dynamicMaxMemory p = 4096"
proof -
  obtain p where p: "fifo_notifyTouch_cs seg0 1 1 fifo0 = returns (p, [], True, 0)" "policyQuota p = 0"
    "currentMemory p = 4096" "tracks seg0 p [(1, 1)]" "dynamicMaxMemory p = 4096"
    by (rule touch_pol)
  then have "process_run sys0 [PFault 1 1052676 True, PUpdate 3] world0 = returns (put_policy 2 (PFifo p) world1)"
    by (simp add: fault_step_pol update_pol del: One_nat_def)
  with p(3-5) that show thesis by blast
qed

text \<open>The segment that the run has loaded.\<close>

lemma resident_pol: "resident_segments 2 (put_policy 2 po world1) = {(1, 1)}"
  by (auto simp: resident_segments_def policies_of_def less_2_cases_iff split: if_splits)

section \<open>Properties\<close>

text \<open>
  C6. Along any sequence of faults, shrinks, quota updates and signals that does not abort, the
  policies are up to date: every segment in memory is tracked by each policy of its mapping,
  every policy has registered exactly the segments of its mappings, and the set of mappings
  and drivers does not change.
\<close>

theorem process_keeps_invariant:
  assumes "world_good up_to_date w" and "process_run sy es w = returns w'"
  shows "world_good up_to_date w' \<and> same_config w w' \<and>
    (\<forall>p po. w_policies w' p = Some po \<longrightarrow> resident_segments p w' \<subseteq> pobj_tracked po)"
proof -
  note g = process_run_good [OF assms]
  then have "resident_ok up_to_date w'"
    by (simp add: world_inv_def)
  then have "resident_segments p w' \<subseteq> pobj_tracked po" if "w_policies w' p = Some po" for p po
    using that unfolding resident_ok_def resident_segments_def by blast
  with g show ?thesis by blast
qed

theorem process_keeps_invariant_witness:
  "\<exists>w'. process_run sys0 [PFault 1 1052676 True, PUpdate 3] world0 = returns w' \<and>
     world_good up_to_date w' \<and> same_config world0 w'"
proof -
  obtain w' where run: "process_run sys0 [PFault 1 1052676 True, PUpdate 3] world0 = returns w'"
    by (rule run_pol)
  from process_keeps_invariant [OF world0_good run] run show ?thesis by blast
qed

text \<open>
  C4. The memory limit holds: after any such sequence the total size of the segments that are
  in memory, over all the mappings of a FIFO or LIFO policy, is at most the dynamic limit of
  the policy.
\<close>

theorem resident_memory_limited:
  assumes "world_good up_to_date w" and "process_run sy es w = returns w'"
    and "w_policies w' p = Some po" and "is_list_policy po"
  shows "(\<Sum>t \<in> resident_segments p w'. world_segSize w' (fst t)) \<le> pobj_dynamicMaxMemory po"
  using resident_limit [OF _ assms(3,4)] process_run_good [OF assms(1,2)] by auto

theorem resident_memory_limited_witness:
  "\<exists>w' po. process_run sys0 [PFault 1 1052676 True, PUpdate 3] world0 = returns w' \<and> w_policies w' 2 = Some po \<and>
     resident_segments 2 w' = {(1, 1)} \<and> pobj_dynamicMaxMemory po = 4096 \<and>
     (\<Sum>t \<in> resident_segments 2 w'. world_segSize w' (fst t)) = 4096 \<and>
     (\<Sum>t \<in> resident_segments 2 w'. world_segSize w' (fst t)) \<le> pobj_dynamicMaxMemory po"
proof -
  obtain p where run: "process_run sys0 [PFault 1 1052676 True, PUpdate 3] world0 = returns (put_policy 2 (PFifo p) world1)"
    and p: "dynamicMaxMemory p = 4096"
    by (rule run_pol)
  have po: "w_policies (put_policy 2 (PFifo p) world1) 2 = Some (PFifo p)" "is_list_policy (PFifo p)"
    by (simp_all add: put_policy_def)
  have "(\<Sum>t \<in> resident_segments 2 (put_policy 2 (PFifo p) world1). world_segSize (put_policy 2 (PFifo p) world1) (fst t)) = 4096"
    unfolding resident_pol by (simp add: world_segSize_def put_policy_def getSegmentSize_def)
  with run po p resident_pol resident_memory_limited [OF world0_good run po] show ?thesis
    by (fastforce simp: pobj_dynamicMaxMemory_def)
qed

text \<open>
  C12. A quota that has been updated is respected by the memory that is really in use: when the
  update of a local quota over FIFO and LIFO policies returns, the segments in memory of all the
  mappings of its policies take together at most the maximum of the quota. The reduction is fair:
  no policy grows, and a policy is given a new limit only when it used more than the equal share;
  that limit is at least the share and below what the policy used.
\<close>

theorem quota_respected:
  assumes "world_good up_to_date w" and "w_quotas w q = Some qo" and "all_lists w (q_policies qo)"
    and "sum_list (map (mem_of w) (q_policies qo)) < W64" and "quotaLocal_update sy q w = returns w'"
  shows "sum_list (map (\<lambda>p. \<Sum>t \<in> resident_segments p w'. world_segSize w' (fst t)) (q_policies qo)) \<le> q_staticMaxMemory qo \<and>
    (\<forall>p. mem_of w' p \<le> mem_of w p \<and>
      (limit_of w' p = limit_of w p \<or>
       q_staticMaxMemory qo div length (q_policies qo) \<le> limit_of w' p \<and> limit_of w' p < mem_of w p))"
proof -
  note r = quotaLocal_update_result [OF assms]
  have "(\<Sum>t \<in> resident_segments p w'. world_segSize w' (fst t)) \<le> mem_of w' p" if "p \<in> set (q_policies qo)" for p
    using r that resident_memory [of "{}" w' p] by (auto simp: all_lists_def mem_of_def)
  then have "sum_list (map (\<lambda>p. \<Sum>t \<in> resident_segments p w'. world_segSize w' (fst t)) (q_policies qo)) \<le>
      sum_list (map (mem_of w') (q_policies qo))"
    by (rule sum_list_mono)
  with r show ?thesis
    unfolding fair_def by simp
qed

text \<open>The process after the fault, with a quota of one byte less than the segment.\<close>

definition tight :: quota where
  "tight = \<lparr>q_staticMaxMemory = 4095, q_policies = [2], q_interproc = None\<rparr>"

lemma evict_pol:
  "\<exists>m s v. evict_flush (lib_ops ram_env) (DMemory drv0) 1 map_pol1 store0 vm2 = Inr (m, s, v) \<and>
     segments m = 2 \<and> \<not> mapped (segmentStatus m ! 0) \<and> \<not> mapped (segmentStatus m ! 1)"
proof -
  have sh: "shape map_pol1"
    by (simp add: shape_def)
  have rw: "readWriteSize 4096 map_pol1 = 904"
    by (simp add: readWriteSize_def)
  have e: "evict_flush (lib_ops ram_env) (DMemory drv0) 1 map_pol1 store0 vm2 =
      flush_segment (lib_ops ram_env) (DMemory drv0) True 4096 (map_pol1, store0, vm2)"
    using storage_calls.evict_is_flush_segment [OF lib_storage_calls [OF ram_env_ok] sh, of "DMemory drv0" 1]
    by simp
  have pw: "\<exists>s. d_pwrite (lib_ops ram_env) (DMemory drv0) 1052672 buf 904 4096 store0 = Inr (904, s)" for buf
    by (simp add: lib_ops_def lib_pwrite_def lib_plumbing memory_pwrite_def drv0_def store0_def mem0_def driver.defs)
  obtain s where "d_pwrite (lib_ops ram_env) (DMemory drv0) 1052672
      (load_buf 1052672 (sys_mprotect 1052672 4096 (True, False, False) vm2)) 904 4096 store0 = Inr (904, s)"
    using pw by blast
  then show ?thesis
    unfolding e
    by (simp add: flush_segment_def Let_def rw has_flag_def mprotect_def set_status_def)
qed

lemma shrink_pol:
  assumes "tracks seg0 p [(1, 1)]"
  obtains p' where "fifo_shrinkMemory_cs seg0 (setDynamicMaxMemory 4095 p) = returns (p', [(1, 1)])" and "currentMemory p' = 0"
    and "dynamicMaxMemory p' = 4095"
proof -
  let ?p = "setDynamicMaxMemory 4095 p"
  have tr: "tracks seg0 ?p [(1, 1)]"
    using assms by (simp add: tracks_def tracking_def setDynamicMaxMemory_def)
  have d: "dropped (seg0 \<circ> fst) 4095 [(1, 1)] = [(1, 1)]" "kept (seg0 \<circ> fst) 4095 [(1, 1 :: nat)] = []"
    by (simp_all add: dropped_def kept_def seg0_def)
  have dyn: "dynamicMaxMemory ?p = 4095"
    by (simp add: setDynamicMaxMemory_def)
  obtain h n where "fifo_shrinkMemory_cs seg0 ?p = returns (?p\<lparr>elts := h, currentMemory := n\<rparr>, [(1, 1)])"
    and "tracks seg0 (?p\<lparr>elts := h, currentMemory := n\<rparr>) []"
    using fifo_shrinkMemory_cs_correct [OF tr] unfolding dyn d by auto
  with that tracks_memory dyn show thesis by fastforce
qed

lemma tight_update:
  assumes "tracks seg0 p [(1, 1)]" and "currentMemory p = 4096"
  obtains w' where "quotaLocal_update sys0 3 (put_quota 3 tight (put_policy 2 (PFifo p) world1)) = returns w'"
    and "resident_segments 2 w' = {}" and "limit_of w' 2 = 4095"
proof -
  let ?w = "put_quota 3 tight (put_policy 2 (PFifo p) world1)"
  obtain p' where sh: "fifo_shrinkMemory_cs seg0 (setDynamicMaxMemory 4095 p) = returns (p', [(1, 1)])" and p': "currentMemory p' = 0" "dynamicMaxMemory p' = 4095"
    by (rule shrink_pol [OF assms(1)])
  obtain m s v where ev: "evict_flush (lib_ops ram_env) (DMemory drv0) 1 map_pol1 store0 vm2 = Inr (m, s, v)"
    and m: "segments m = 2" "\<not> mapped (segmentStatus m ! 0)" "\<not> mapped (segmentStatus m ! 1)"
    using evict_pol by blast
  let ?w' = "put_effects s v (put_mapping 1 m (put_policy 2 (PFifo p') (put_policy 2 (PFifo (setDynamicMaxMemory 4095 p)) ?w)))"
  have seg: "world_segSize ?w = seg0"
    by (simp add: fun_eq_iff world_segSize_def put_policy_def put_quota_def getSegmentSize_def seg0_def)
  have "evict_ids sys0 2 [(1, 1)] (put_policy 2 (PFifo p') (put_policy 2 (PFifo (setDynamicMaxMemory 4095 p)) ?w)) = Inr ?w'"
    using ev
    by (simp add: evict_ids_def mapping_evict_def deref_def put_policy_def put_quota_def world1_def put_effects_def put_mapping_def)
  then have shr: "policy_shrinkMemory sys0 2 (put_policy 2 (PFifo (setDynamicMaxMemory 4095 p)) ?w) = returns ?w'"
    using sh by (simp add: policy_shrinkMemory_def deref_def seg pobj_shrinkMemory_cs_def map_outcome_def)
  have mem: "pobj_getCurrentMemory (PFifo p) = 4096" "pobj_getCurrentMemory (PFifo p') = 0"
    using assms(2) p' by (simp_all add: pobj_getCurrentMemory_def fifo_getCurrentMemory_def)
  have pol: "w_policies ?w 2 = Some (PFifo p)" "w_policies ?w' 2 = Some (PFifo p')"
    by (simp_all add: put_policy_def put_quota_def put_effects_def put_mapping_def)
  have "quota_reduce sys0 [2] 4095 ?w = returns (0, ?w')"
    using shr mem by (simp add: quota_reduce_def deref_def pobj_setDynamicMaxMemory_def Let_def getUsedMemory_def)
  then have loop: "quota_reduce_loop sys0 [2] 4095 4095 4096 ?w = returns ?w'"
    by (subst quota_reduce_loop.simps) (simp add: quota_loop_done)
  have "w_quotas ?w 3 = Some tight"
    by (simp add: put_quota_def)
  then have "quotaLocal_update sys0 3 ?w = returns ?w'"
    using loop mem by (simp add: quotaLocal_update_def deref_def tight_def getUsedMemory_def pol(1))
  moreover have "resident_segments 2 ?w' = {}"
    using m by (auto simp: resident_segments_def put_policy_def put_quota_def put_effects_def put_mapping_def less_2_cases_iff split: if_splits)
  moreover have "limit_of ?w' 2 = 4095"
    using p'(2) by (simp add: limit_of_def pol(2) pobj_dynamicMaxMemory_def)
  ultimately show thesis by (rule that)
qed

theorem quota_respected_witness:
  "\<exists>w w'. quotaLocal_update sys0 3 w = returns w' \<and> w_quotas w 3 = Some tight \<and>
     (\<Sum>t \<in> resident_segments 2 w. world_segSize w (fst t)) = 4096 \<and> limit_of w 2 = 4096 \<and>
     (\<Sum>t \<in> resident_segments 2 w'. world_segSize w' (fst t)) \<le> 4095 \<and> limit_of w' 2 = 4095"
proof -
  obtain p where run: "process_run sys0 [PFault 1 1052676 True, PUpdate 3] world0 = returns (put_policy 2 (PFifo p) world1)"
    and p: "currentMemory p = 4096" "tracks seg0 p [(1, 1)]" "dynamicMaxMemory p = 4096"
    by (rule run_pol)
  let ?w = "put_quota 3 tight (put_policy 2 (PFifo p) world1)"
  have good: "world_good up_to_date ?w"
    using process_run_good [OF world0_good run] by (simp add: world_inv_put_quota)
  obtain w' where w': "quotaLocal_update sys0 3 ?w = returns w'" "limit_of w' 2 = 4095"
    by (rule tight_update [OF p(2,1)])
  have q: "w_quotas ?w 3 = Some tight" "w_policies ?w 2 = Some (PFifo p)"
    by (simp_all add: put_quota_def put_policy_def)
  then have side: "all_lists ?w (q_policies tight)" "sum_list (map (mem_of ?w) (q_policies tight)) < W64"
    using p(1) by (simp_all add: all_lists_def tight_def mem_of_def pobj_getCurrentMemory_def fifo_getCurrentMemory_def)
  have "resident_segments 2 ?w = {(1, 1)}"
    using resident_pol [of "PFifo p"] by (simp add: resident_segments_def put_quota_def)
  then have "(\<Sum>t \<in> resident_segments 2 ?w. world_segSize ?w (fst t)) = 4096"
    by (simp add: world_segSize_def put_policy_def put_quota_def getSegmentSize_def)
  moreover have "limit_of ?w 2 = 4096"
    using q(2) p(3) by (simp add: limit_of_def pobj_dynamicMaxMemory_def)
  ultimately show ?thesis
    using quota_respected [OF good q(1) side w'(1)] w' q(1) by (auto simp: tight_def)
qed


text \<open>
  C13. The update of a local quota ends when its policies are FIFO or LIFO policies and their
  memory fits in 64 bits: each round takes the policy that uses most and shrinks it below its
  use, so the loop cannot go on for ever.
\<close>

theorem quota_update_terminates:
  assumes "world_good E w" and "w_quotas w q = Some qo" and "all_lists w (q_policies qo)"
    and "sum_list (map (mem_of w) (q_policies qo)) < W64"
  shows "quotaLocal_update sy q w \<noteq> None"
  by (rule quotaLocal_update_ends [OF assms])

theorem quota_update_terminates_witness: "quotaLocal_update sys0 3 world0 \<noteq> None"
  by (rule quota_update_terminates [OF world0_good, of 3 "\<lparr>q_staticMaxMemory = 4096, q_policies = [2], q_interproc = None\<rparr>"])
    (simp_all add: all_lists_def mem_of_def pobj_getCurrentMemory_def fifo_getCurrentMemory_def fifo0_ok(7))

text \<open>
  C30. The update of a local quota never returns for a window policy that uses more than the
  quota while its sliding window fits: the policy does not look at the limit the quota sets,
  so every round leaves its memory as it is.
\<close>

theorem window_quota_never_ends:
  assumes "w_quotas w q = Some qo" and "q_policies qo = [p]" and "w_policies w p = Some (PWindow wp)"
    and "currentSlidingWindowMemory wp \<le> maxSlidingMemory wp"
    and "window_getCurrentMemory wp > q_staticMaxMemory qo"
  shows "quotaLocal_update sy q w = None"
proof -
  have st: "window_stuck (q_staticMaxMemory qo) p w"
    using assms(3-5) by (simp add: window_stuck_def)
  have "window_getCurrentMemory wp < W64"
    by (simp add: window_getCurrentMemory_def)
  then have used: "getUsedMemory [p] w = Inr (window_getCurrentMemory wp)"
    using assms(3) by (simp add: getUsedMemory_def deref_def pobj_getCurrentMemory_def)
  show ?thesis
    using window_quota_loops [OF st assms(5)] used
    by (simp add: quotaLocal_update_def deref_def assms(1,2))
qed

lemma newWindow_sliding: "maxSlidingMemory (newFifoWindowPolicy mutex n k local) = k"
  by (simp add: newFifoWindowPolicy_def)

theorem window_quota_never_ends_witness:
  "quotaLocal_update sys0 3 (put_policy 2 (PWindow ((newFifoWindowPolicy 8 8192 4096 False)
      \<lparr>currentFixedMemory := 4096, currentSlidingWindowMemory := 4096\<rparr>)) world0) = None"
  by (rule window_quota_never_ends [where qo = "\<lparr>q_staticMaxMemory = 4096, q_policies = [2], q_interproc = None\<rparr>" and p = 2
        and wp = "(newFifoWindowPolicy 8 8192 4096 False)\<lparr>currentFixedMemory := 4096, currentSlidingWindowMemory := 4096\<rparr>"])
    (simp_all add: put_policy_def newWindow_sliding window_getCurrentMemory_def)

end
