(* ===== verification/Registries.thy ===== *)
theory Registries
  imports Policy "HOL-Library.List_Lexorder" "HOL-Library.Char_ord"
begin

text \<open>
  The registry of the active mappings, \<open>src/core/MappingRegistry.cpp\<close>, searched by address
  on every fault, and the registry of the named policies, \<open>src/core/PolicyRegistry.cpp\<close>. Both
  behave as finite maps (locale \<open>registry\<close>).
\<close>

section \<open>The mapping registry\<close>

record mapping_entry =
  me_mapping :: mapping_ptr
  me_base :: addr
  me_end :: addr

definition mreg_contain :: "mapping_ptr \<Rightarrow> mapping_entry list \<Rightarrow> bool result" where
  "mreg_contain mapping entries =
     (if \<not> mapping \<noteq> 0 then Inl (AssertFailure ''mapping != NULL'')
      else Inr (\<exists>it \<in> set entries. me_mapping it = mapping))"

text \<open>\<open>base\<close> and \<open>sz\<close> are the address and the size the mapping reports.\<close>

definition mreg_registerMapping ::
  "mapping_ptr \<Rightarrow> addr \<Rightarrow> size_t \<Rightarrow> mapping_entry list \<Rightarrow> mapping_entry list result" where
  "mreg_registerMapping mapping base sz entries =
     (if \<not> mapping \<noteq> 0 then Inl (AssertFailure ''mapping != NULL'')
      else bindE (mreg_contain mapping entries) (\<lambda>found.
        if found then Inl (AssertFailure ''!contain(mapping)'')
        else Inr (entries @ [\<lparr>me_mapping = mapping, me_base = base, me_end = base + sz\<rparr>])))"

definition mreg_unregisterMapping :: "mapping_ptr \<Rightarrow> mapping_entry list \<Rightarrow> mapping_entry list result" where
  "mreg_unregisterMapping mapping entries =
     (if \<not> mapping \<noteq> 0 then Inl (AssertFailure ''mapping != NULL'')
      else Inr (erase_skipping (\<lambda>it. me_mapping it = mapping) [] entries))"

text \<open>The result is 0 when no mapping contains the address.\<close>

definition mreg_getMapping :: "addr \<Rightarrow> mapping_entry list \<Rightarrow> mapping_ptr result" where
  "mreg_getMapping addr entries =
     (if \<not> addr \<noteq> 0 then Inl (AssertFailure ''addr != NULL'')
      else Inr (case find (\<lambda>it. addr \<ge> me_base it \<and> addr < me_end it) entries of
                  Some it \<Rightarrow> me_mapping it
                | None \<Rightarrow> 0))"

definition mreg_isEmpty :: "mapping_entry list \<Rightarrow> bool" where
  "mreg_isEmpty entries \<longleftrightarrow> entries = []"

section \<open>The policy registry\<close>

text \<open>The entries of the \<open>std::map\<close>, in the order of their names.\<close>

definition preg_registerPolicy ::
  "string \<Rightarrow> policy_ptr \<Rightarrow> (string \<times> policy_ptr) list \<Rightarrow> (string \<times> policy_ptr) list result" where
  "preg_registerPolicy name policy entries =
     (if \<not> name \<noteq> [] then Inl (AssertFailure ''name.empty() == false'')
      else if \<not> map_of entries name = None
      then Inl (Fatal ''A policy group already exist with this name'')
      else Inr (insort_key fst (name, policy) entries))"

text \<open>The second component is the policy to delete, if the name is known.\<close>

definition preg_unregisterPolicy ::
  "string \<Rightarrow> (string \<times> policy_ptr) list \<Rightarrow> ((string \<times> policy_ptr) list \<times> policy_ptr option) result" where
  "preg_unregisterPolicy name entries =
     (if \<not> name \<noteq> [] then Inl (AssertFailure ''name.empty() == false'')
      else Inr (filter (\<lambda>it. fst it \<noteq> name) entries, map_of entries name))"

definition preg_get :: "string \<Rightarrow> bool \<Rightarrow> (string \<times> policy_ptr) list \<Rightarrow> policy_ptr result" where
  "preg_get name nullNotFound entries =
     (if \<not> name \<noteq> [] then Inl (AssertFailure ''name.empty() == false'')
      else case map_of entries name of
             Some policy \<Rightarrow> Inr policy
           | None \<Rightarrow>
               if nullNotFound = False
               then Inl (Fatal ''Failed to find policy in global registry with name'')
               else Inr 0)"

definition preg_isEmpty :: "(string \<times> policy_ptr) list \<Rightarrow> bool" where
  "preg_isEmpty entries \<longleftrightarrow> entries = []"

section \<open>Registries as finite maps\<close>

datatype ('k, 'v) reg_op = Reg 'k 'v | Unreg 'k

fun map_step :: "('k, 'v) reg_op \<Rightarrow> ('k \<Rightarrow> 'v option) \<Rightarrow> 'k \<Rightarrow> 'v option" where
  "map_step (Reg k v) f = (if f k = None then f(k \<mapsto> v) else f)"
| "map_step (Unreg k) f = f(k := None)"

fun op_key :: "('k, 'v) reg_op \<Rightarrow> 'k" where
  "op_key (Reg k v) = k"
| "op_key (Unreg k) = k"

definition reg_apply ::
  "('k \<Rightarrow> 'v \<Rightarrow> 'r \<Rightarrow> 'r result) \<Rightarrow> ('k \<Rightarrow> 'r \<Rightarrow> 'r result) \<Rightarrow> ('k, 'v) reg_op \<Rightarrow> 'r \<Rightarrow> 'r result" where
  "reg_apply ins del op r = (case op of Reg k v \<Rightarrow> ins k v r | Unreg k \<Rightarrow> del k r)"

text \<open>An operation on a key that is not valid aborts, as does a second registration.\<close>

locale registry =
  fixes lookup :: "'r \<Rightarrow> 'k \<Rightarrow> 'v option"
    and insert :: "'k \<Rightarrow> 'v \<Rightarrow> 'r \<Rightarrow> 'r result"
    and remove :: "'k \<Rightarrow> 'r \<Rightarrow> 'r result"
    and inv :: "'r \<Rightarrow> bool"
    and valid :: "'k \<Rightarrow> bool"
  assumes insert_new:
      "inv r \<Longrightarrow> valid k \<Longrightarrow> lookup r k = None \<Longrightarrow>
       \<exists>r'. insert k v r = Inr r' \<and> inv r' \<and> lookup r' = (lookup r)(k \<mapsto> v)"
    and insert_old: "inv r \<Longrightarrow> valid k \<Longrightarrow> lookup r k \<noteq> None \<Longrightarrow> \<exists>e. insert k v r = Inl e"
    and remove_any:
      "inv r \<Longrightarrow> valid k \<Longrightarrow> \<exists>r'. remove k r = Inr r' \<and> inv r' \<and> lookup r' = (lookup r)(k := None)"
begin

lemma apply_correct:
  assumes "inv r" and "valid (op_key op)" and "reg_apply insert remove op r = Inr r'"
  shows "inv r' \<and> lookup r' = map_step op (lookup r)"
proof (cases op)
  case (Reg k v)
  then have k: "valid k" using assms(2) by simp
  have "lookup r k = None"
    using insert_old [OF assms(1) k, of v] assms(3) by (fastforce simp: Reg reg_apply_def)
  then show ?thesis
    using insert_new [OF assms(1) k, of v] assms(3) by (auto simp: Reg reg_apply_def)
next
  case (Unreg k)
  then show ?thesis
    using remove_any [OF assms(1), of k] assms(2,3) by (auto simp: reg_apply_def)
qed

text \<open>A history of registrations and removals leaves the registry as the map it stands for.\<close>

lemma history:
  assumes "inv r" and "\<forall>op \<in> set ops. valid (op_key op)" and "foldE (reg_apply insert remove) ops r = Inr r'"
  shows "inv r' \<and> lookup r' = fold map_step ops (lookup r)"
  using assms
proof (induction ops arbitrary: r)
  case (Cons op ops)
  obtain r1 where r1: "reg_apply insert remove op r = Inr r1" "foldE (reg_apply insert remove) ops r1 = Inr r'"
    using Cons.prems(3) unfolding foldE.simps bindE_eq_Inr by blast
  have "inv r1 \<and> lookup r1 = map_step op (lookup r)"
    using apply_correct [OF Cons.prems(1) _ r1(1)] Cons.prems(2) by simp
  then show ?case
    using Cons.IH [OF _ _ r1(2)] Cons.prems(2) by simp
qed simp

end

text \<open>The base and the size a mapping is registered with.\<close>

definition mreg_lookup :: "mapping_entry list \<Rightarrow> mapping_ptr \<Rightarrow> (addr \<times> size_t) option" where
  "mreg_lookup entries m =
     map_option (\<lambda>it. (me_base it, me_end it - me_base it)) (find (\<lambda>it. me_mapping it = m) entries)"

definition mreg_inv :: "mapping_entry list \<Rightarrow> bool" where
  "mreg_inv entries \<longleftrightarrow> distinct (map me_mapping entries)"

lemma find_None_key: "find (\<lambda>it. key it = k) xs = None \<longleftrightarrow> k \<notin> key ` set xs"
  by (auto simp: find_None_iff)

lemma find_append: "find P (xs @ ys) = (case find P xs of None \<Rightarrow> find P ys | Some x \<Rightarrow> Some x)"
  by (induction xs) auto

lemma find_filter_key:
  "find (\<lambda>it. key it = k) (filter (\<lambda>it. key it \<noteq> j) xs) = (if k = j then None else find (\<lambda>it. key it = k) xs)"
  by (induction xs) auto

lemma mreg_remove_lookup:
  assumes "mreg_inv entries" and "m \<noteq> 0"
  shows "\<exists>r. mreg_unregisterMapping m entries = Inr r \<and> mreg_inv r \<and> mreg_lookup r = (mreg_lookup entries)(m := None)"
proof -
  have "erase_skipping (\<lambda>it. me_mapping it = m) [] entries = filter (\<lambda>it. me_mapping it \<noteq> m) entries"
    using erase_skipping_distinct [of me_mapping "[]" entries m] assms(1) by (simp add: mreg_inv_def)
  moreover have "mreg_inv (filter (\<lambda>it. me_mapping it \<noteq> m) entries)"
    using assms(1) by (simp add: mreg_inv_def distinct_map_filter)
  moreover have "mreg_lookup (filter (\<lambda>it. me_mapping it \<noteq> m) entries) = (mreg_lookup entries)(m := None)"
    by (auto simp: fun_eq_iff mreg_lookup_def find_filter_key)
  ultimately show ?thesis
    using assms(2) by (simp add: mreg_unregisterMapping_def)
qed

lemma mreg_insert_new:
  assumes "mreg_inv entries" and "m \<noteq> 0" and "mreg_lookup entries m = None"
  shows "\<exists>r. mreg_registerMapping m b n entries = Inr r \<and> mreg_inv r \<and> mreg_lookup r = (mreg_lookup entries)(m \<mapsto> (b, n))"
proof -
  have "find (\<lambda>it. me_mapping it = m) entries = None"
    using assms(3) by (simp add: mreg_lookup_def)
  moreover from this have "m \<notin> me_mapping ` set entries" and "\<forall>it \<in> set entries. me_mapping it \<noteq> m"
    by (auto simp: find_None_key)
  ultimately show ?thesis
    using assms(1,2)
    by (auto simp: mreg_registerMapping_def mreg_contain_def mreg_inv_def mreg_lookup_def find_append
        fun_eq_iff split: option.split)
qed

lemma mreg_insert_old:
  assumes "m \<noteq> 0" and "mreg_lookup entries m \<noteq> None"
  shows "mreg_registerMapping m b n entries = Inl (AssertFailure ''!contain(mapping)'')"
  using assms by (auto simp: mreg_registerMapping_def mreg_contain_def mreg_lookup_def find_None_key)

interpretation mreg: registry mreg_lookup "\<lambda>m r. mreg_registerMapping m (fst r) (snd r)"
    mreg_unregisterMapping mreg_inv "\<lambda>m. m \<noteq> 0"
proof
  fix r m and v :: "addr \<times> size_t"
  assume "mreg_inv r" and m: "m \<noteq> (0 :: mapping_ptr)"
  show "\<exists>r'. mreg_registerMapping m (fst v) (snd v) r = Inr r' \<and> mreg_inv r' \<and> mreg_lookup r' = (mreg_lookup r)(m \<mapsto> v)"
    if "mreg_lookup r m = None"
    using mreg_insert_new [OF \<open>mreg_inv r\<close> m that, of "fst v" "snd v"] by simp
  show "\<exists>e. mreg_registerMapping m (fst v) (snd v) r = Inl e" if "mreg_lookup r m \<noteq> None"
    using mreg_insert_old [OF m that] by blast
  show "\<exists>r'. mreg_unregisterMapping m r = Inr r' \<and> mreg_inv r' \<and> mreg_lookup r' = (mreg_lookup r)(m := None)"
    by (rule mreg_remove_lookup [OF \<open>mreg_inv r\<close> m])
qed

text \<open>The policy registry, sorted by name and with one entry per name.\<close>

definition preg_inv :: "(string \<times> policy_ptr) list \<Rightarrow> bool" where
  "preg_inv entries \<longleftrightarrow> sorted (map fst entries) \<and> distinct (map fst entries)"

definition preg_remove :: "string \<Rightarrow> (string \<times> policy_ptr) list \<Rightarrow> (string \<times> policy_ptr) list result" where
  "preg_remove name entries = bindE (preg_unregisterPolicy name entries) (\<lambda>r. Inr (fst r))"

lemma map_of_insort:
  "map_of es k = None \<Longrightarrow> map_of (insort_key fst (k, v) es) = (map_of es)(k \<mapsto> v)"
  by (induction es) (auto simp: fun_eq_iff split: if_splits)

lemma map_of_filter_key: "map_of (filter (\<lambda>it. fst it \<noteq> k) es) = (map_of es)(k := None)"
  by (induction es) (auto simp: fun_eq_iff)

lemma preg_insert_new:
  assumes "preg_inv r" and "k \<noteq> []" and "map_of r k = None"
  shows "\<exists>r'. preg_registerPolicy k v r = Inr r' \<and> preg_inv r' \<and> map_of r' = (map_of r)(k \<mapsto> v)"
proof -
  have "k \<notin> fst ` set r"
    using assms(3) by (simp add: map_of_eq_None_iff)
  then have "distinct (map fst (insort_key fst (k, v) r))"
    using assms(1) by (simp add: preg_inv_def distinct_map inj_on_def set_insort_key distinct_insort) 
      (metis fst_conv imageI)
  then show ?thesis
    using assms by (simp add: preg_registerPolicy_def preg_inv_def map_of_insort sorted_insort_key)
qed

interpretation preg: registry map_of preg_registerPolicy preg_remove preg_inv "\<lambda>name. name \<noteq> []"
proof
  fix r k and v :: policy_ptr
  assume r: "preg_inv r" and k: "k \<noteq> ([] :: string)"
  show "\<exists>r'. preg_registerPolicy k v r = Inr r' \<and> preg_inv r' \<and> map_of r' = (map_of r)(k \<mapsto> v)"
    if "map_of r k = None"
    by (rule preg_insert_new [OF r k that])
  show "\<exists>e. preg_registerPolicy k v r = Inl e" if "map_of r k \<noteq> None"
    using k that by (simp add: preg_registerPolicy_def)
  show "\<exists>r'. preg_remove k r = Inr r' \<and> preg_inv r' \<and> map_of r' = (map_of r)(k := None)"
    using r k
    by (simp add: preg_remove_def preg_unregisterPolicy_def preg_inv_def map_of_filter_key
        distinct_map_filter sorted_filter)
qed

section \<open>Lookup by address\<close>

definition disjoint_entries :: "mapping_entry list \<Rightarrow> bool" where
  "disjoint_entries entries \<longleftrightarrow>
     (\<forall>e \<in> set entries. \<forall>f \<in> set entries. e \<noteq> f \<longrightarrow> {me_base e ..< me_end e} \<inter> {me_base f ..< me_end f} = {})"

lemma mreg_getMapping_found:
  assumes "mreg_getMapping a entries = Inr m" and "m \<noteq> 0"
  shows "\<exists>e \<in> set entries. me_mapping e = m \<and> a \<in> {me_base e ..< me_end e}"
  using assms
  by (auto simp: mreg_getMapping_def find_Some_iff split: if_splits option.splits)

lemma mreg_getMapping_in:
  assumes "disjoint_entries entries" and "e \<in> set entries" and "a \<in> {me_base e ..< me_end e}" and "a \<noteq> 0"
  shows "mreg_getMapping a entries = Inr (me_mapping e)"
proof -
  obtain f where f: "find (\<lambda>it. a \<ge> me_base it \<and> a < me_end it) entries = Some f"
    using assms(2,3) by (cases "find (\<lambda>it. a \<ge> me_base it \<and> a < me_end it) entries")
      (auto simp: find_None_iff)
  then have "f \<in> set entries" "a \<in> {me_base f ..< me_end f}"
    by (auto simp: find_Some_iff)
  then have "f = e"
    using assms(1-3) by (fastforce simp: disjoint_entries_def)
  then show ?thesis
    using f assms(4) by (simp add: mreg_getMapping_def)
qed

lemma mreg_getMapping_none:
  assumes "\<forall>e \<in> set entries. a \<notin> {me_base e ..< me_end e}" and "a \<noteq> 0"
  shows "mreg_getMapping a entries = Inr 0"
  using assms by (auto simp: mreg_getMapping_def find_Some_iff split: option.split)

section \<open>Histories of the registries\<close>

abbreviation mreg_apply :: "(mapping_ptr, addr \<times> size_t) reg_op \<Rightarrow> mapping_entry list \<Rightarrow> mapping_entry list result" where
  "mreg_apply \<equiv> reg_apply (\<lambda>m r. mreg_registerMapping m (fst r) (snd r)) mreg_unregisterMapping"

abbreviation preg_apply ::
  "(string, policy_ptr) reg_op \<Rightarrow> (string \<times> policy_ptr) list \<Rightarrow> (string \<times> policy_ptr) list result" where
  "preg_apply \<equiv> reg_apply preg_registerPolicy preg_remove"

lemma mreg_valid: "foldE mreg_apply ops r = Inr r' \<Longrightarrow> \<forall>op \<in> set ops. op_key op \<noteq> 0"
proof (induction ops arbitrary: r)
  case (Cons op ops)
  obtain r1 where r1: "mreg_apply op r = Inr r1" "foldE mreg_apply ops r1 = Inr r'"
    using Cons.prems unfolding foldE.simps bindE_eq_Inr by blast
  have "op_key op \<noteq> 0"
    using r1(1) by (cases op) (simp_all add: reg_apply_def mreg_registerMapping_def mreg_unregisterMapping_def split: if_splits)
  then show ?case
    using Cons.IH [OF r1(2)] by simp
qed simp

lemma preg_valid: "foldE preg_apply ops r = Inr r' \<Longrightarrow> \<forall>op \<in> set ops. op_key op \<noteq> []"
proof (induction ops arbitrary: r)
  case (Cons op ops)
  obtain r1 where r1: "preg_apply op r = Inr r1" "foldE preg_apply ops r1 = Inr r'"
    using Cons.prems unfolding foldE.simps bindE_eq_Inr by blast
  have "op_key op \<noteq> []"
    using r1(1) by (cases op) (simp_all add: reg_apply_def preg_registerPolicy_def preg_remove_def preg_unregisterPolicy_def split: if_splits)
  then show ?case
    using Cons.IH [OF r1(2)] by simp
qed simp

text \<open>The ranges of a map from mappings to base and size.\<close>

definition separate_ranges :: "(mapping_ptr \<Rightarrow> (addr \<times> size_t) option) \<Rightarrow> bool" where
  "separate_ranges f \<longleftrightarrow>
     (\<forall>m m' b n b' n'. f m = Some (b, n) \<longrightarrow> f m' = Some (b', n') \<longrightarrow> m \<noteq> m' \<longrightarrow> b + n \<le> b' \<or> b' + n' \<le> b)"

lemma mreg_lookup_entry:
  assumes "mreg_inv r" and "e \<in> set r"
  shows "mreg_lookup r (me_mapping e) = Some (me_base e, me_end e - me_base e)"
proof -
  have "find (\<lambda>it. me_mapping it = me_mapping e) r = Some e"
    using assms unfolding mreg_inv_def by (induction r) auto
  then show ?thesis
    by (simp add: mreg_lookup_def)
qed

lemma separate_disjoint:
  assumes "mreg_inv r" and "separate_ranges (mreg_lookup r)"
  shows "disjoint_entries r"
  unfolding disjoint_entries_def
proof (intro ballI impI)
  fix e f assume e: "e \<in> set r" "f \<in> set r" "e \<noteq> f"
  then have "me_mapping e \<noteq> me_mapping f"
    using assms(1) by (auto simp: mreg_inv_def distinct_map dest: inj_onD)
  then have "me_base e + (me_end e - me_base e) \<le> me_base f \<or> me_base f + (me_end f - me_base f) \<le> me_base e"
    using assms(2) mreg_lookup_entry [OF assms(1) e(1)] mreg_lookup_entry [OF assms(1) e(2)]
    unfolding separate_ranges_def by blast
  then show "{me_base e..<me_end e} \<inter> {me_base f..<me_end f} = {}"
    by auto
qed

text \<open>
  C24. After any history of registrations and removals that does not abort, the registry of the
  mappings is the map that the history describes, and the search by address, on which the
  dispatch of a fault rests, finds the mapping whose range contains the address, and no
  mapping when there is none, as long as the live ranges do not overlap.
\<close>

theorem mapping_registry_history:
  assumes "foldE mreg_apply ops [] = Inr r" and "separate_ranges (fold map_step ops (\<lambda>_. None))" and "a \<noteq> 0"
  shows "mreg_lookup r = fold map_step ops (\<lambda>_. None) \<and>
    (\<forall>m b n. fold map_step ops (\<lambda>_. None) m = Some (b, n) \<and> b \<le> a \<and> a < b + n \<longrightarrow>
       mreg_getMapping a r = Inr m) \<and>
    ((\<forall>m b n. fold map_step ops (\<lambda>_. None) m = Some (b, n) \<longrightarrow> \<not> (b \<le> a \<and> a < b + n)) \<longrightarrow>
       mreg_getMapping a r = Inr 0)"
proof -
  have "mreg_inv r \<and> mreg_lookup r = fold map_step ops (mreg_lookup [])"
    by (rule mreg.history [OF _ mreg_valid [OF assms(1)] assms(1)]) (simp add: mreg_inv_def)
  moreover have "mreg_lookup [] = (\<lambda>_. None)"
    by (simp add: fun_eq_iff mreg_lookup_def)
  ultimately have inv: "mreg_inv r" and look: "mreg_lookup r = fold map_step ops (\<lambda>_. None)"
    by simp_all
  have dj: "disjoint_entries r"
    using separate_disjoint [OF inv] assms(2) by (simp add: look)
  have "mreg_getMapping a r = Inr m" if l: "mreg_lookup r m = Some (b, n)" and a: "b \<le> a" "a < b + n" for m b n
  proof -
    obtain e where fe: "find (\<lambda>it. me_mapping it = m) r = Some e" and e: "b = me_base e" "n = me_end e - me_base e"
      using l by (auto simp: mreg_lookup_def)
    have "e \<in> set r" and "me_mapping e = m"
      using fe by (auto simp: find_Some_iff)
    then show ?thesis
      using mreg_getMapping_in [OF dj, of e a] a e assms(3) by auto
  qed
  moreover have "mreg_getMapping a r = Inr 0"
    if "\<forall>m b n. mreg_lookup r m = Some (b, n) \<longrightarrow> \<not> (b \<le> a \<and> a < b + n)"
    using mreg_getMapping_none [of r a] that mreg_lookup_entry [OF inv] assms(3) by fastforce
  ultimately show ?thesis
    unfolding look by blast
qed

theorem mapping_registry_history_witness:
  "\<exists>r. foldE mreg_apply [Reg 1 (4096, 8192), Reg 2 (65536, 100), Unreg 1, Reg 3 (0, 4096)] [] = Inr r \<and>
     mreg_getMapping 65540 r = Inr 2 \<and> mreg_getMapping 5000 r = Inr 0"
proof -
  let ?ops = "[Reg 1 (4096, 8192), Reg 2 (65536, 100), Unreg 1, Reg 3 (0, 4096)]"
  obtain r where r: "foldE mreg_apply ?ops [] = Inr r"
    by (simp add: reg_apply_def mreg_registerMapping_def mreg_unregisterMapping_def mreg_contain_def)
  have f: "fold map_step ?ops (\<lambda>_. None) = [2 :: mapping_ptr \<mapsto> (65536, 100), 3 \<mapsto> (0, 4096)]"
    by (auto simp: fun_eq_iff)
  have sep: "separate_ranges (fold map_step ?ops (\<lambda>_. None))"
    unfolding f by (auto simp: separate_ranges_def split: if_splits)
  note h = mapping_registry_history [OF r sep]
  have "mreg_getMapping 65540 r = Inr 2"
    using h [of 65540] unfolding f by simp
  moreover have "mreg_getMapping 5000 r = Inr 0"
    using h [of 5000] unfolding f by (auto split: if_splits)
  ultimately show ?thesis
    using r by blast
qed

text \<open>
  After any history of registrations and removals that does not abort, the registry of the
  named policies is the map that the history describes, sorted by name, and \<open>get\<close> returns the
  registered policy, or aborts or returns \<open>NULL\<close> for an unknown name, as asked.
\<close>

theorem policy_registry_history:
  assumes "foldE preg_apply ops [] = Inr r" and "name \<noteq> []"
  shows "map_of r = fold map_step ops (\<lambda>_. None) \<and> sorted (map fst r) \<and> distinct (map fst r) \<and>
    preg_get name nullNotFound r =
      (case fold map_step ops (\<lambda>_. None) name of
         Some p \<Rightarrow> Inr p
       | None \<Rightarrow> if nullNotFound then Inr 0
                else Inl (Fatal ''Failed to find policy in global registry with name''))"
proof -
  have "preg_inv r \<and> map_of r = fold map_step ops (map_of [])"
    by (rule preg.history [OF _ preg_valid [OF assms(1)] assms(1)]) (simp add: preg_inv_def)
  moreover have "map_of [] = (\<lambda>_. None)"
    by (simp add: fun_eq_iff)
  ultimately show ?thesis
    using assms(2) by (simp add: preg_inv_def preg_get_def)
qed

theorem policy_registry_history_witness:
  "\<exists>r. foldE preg_apply [Reg ''b'' 5, Reg ''a'' 4, Unreg ''b''] [] = Inr r \<and> preg_get ''a'' False r = Inr 4 \<and>
     preg_get ''b'' True r = Inr 0"
proof -
  obtain r where r: "foldE preg_apply [Reg ''b'' 5, Reg ''a'' 4, Unreg ''b''] [] = Inr r"
    by (simp add: reg_apply_def preg_registerPolicy_def preg_remove_def preg_unregisterPolicy_def)
  then show ?thesis
    using policy_registry_history [OF r, of "''a''" False] policy_registry_history [OF r, of "''b''" True] by simp
qed

end
