(* ===== verification/GlobalHandler.thy ===== *)
theory GlobalHandler
  imports WorldSteps Registries Listings
begin

text \<open>
  The global handler, \<open>src/core/GlobalHandler.cpp\<close> and \<open>GlobalHandler.hpp\<close>: it owns the two
  registries, finds the mapping of an address and passes the request on. A fault of the
  process enters the library here.
\<close>

section \<open>State\<close>

text \<open>
  The state of the library in a process: the members of the global handler and of its URI
  handler, the objects of the process, the two flags of \<open>PolicyQuotaInterProc\<close> that defer the
  signal, and the global variables. \<open>h_live\<close> says that \<open>gblHandler\<close> is not null;
  \<open>h_sigaction\<close> and \<open>h_oldHandler\<close> are the handlers of \<open>SIGSEGV\<close>, the installed one and
  \<open>gblOldHandler\<close>: the handler of the library, \<open>SIG_DFL\<close>, which is a null pointer and what a program
  starts with, \<open>SIG_IGN\<close>, which is the pointer 1, or a function of the program.
\<close>

datatype sig_handler = Segfault_handler | Default_action | Ignore_action | Other_handler

record 'f handler =
  h_world :: "'f world"
  h_mappings :: "mapping_entry list"
  h_policies :: "(string \<times> policy_ptr) list"
  h_variables :: "(string \<times> string) list"
  h_listings :: listing_map
  h_ressources :: "(string \<times> ressource) list"
  h_statics :: ressource_statics
  h_allowSignal :: bool
  h_hasPendingSignal :: bool
  h_live :: bool
  h_cntInit :: int
  h_sigaction :: sig_handler
  h_oldHandler :: sig_handler

definition on_world :: "'f world outcome \<Rightarrow> 'f handler \<Rightarrow> 'f handler outcome" where
  "on_world r h = bindO r (\<lambda>w. returns (h\<lparr>h_world := w\<rparr>))"

definition live_mapping :: "mapping_ptr \<Rightarrow> 'f handler \<Rightarrow> mapping result" where
  "live_mapping m h = deref (w_mappings (h_world h)) m"

definition live_driver :: "addr \<Rightarrow> 'f handler \<Rightarrow> 'f lib_driver result" where
  "live_driver d h = deref (w_drivers (h_world h)) d"

text \<open>The mapping of an address, for the operations that abort when there is none.\<close>

definition find_mapping :: "addr \<Rightarrow> 'f handler \<Rightarrow> mapping_ptr result" where
  "find_mapping ptr h =
     bindE (mreg_getMapping ptr (h_mappings h)) (\<lambda>m.
       if \<not> m \<noteq> 0 then Inl (Fatal ''Fail to find ummap mapping to unmap'') else Inr m)"

section \<open>Faults\<close>

definition deferSignal :: "'f handler \<Rightarrow> 'f handler" where
  "deferSignal h = (if w_interproc (h_world h) = 0 then h else h\<lparr>h_allowSignal := False\<rparr>)"

text \<open>The loop clears the flag before the update, which does not set it: it runs once at most.\<close>

definition runDeferedSignal :: "'f sys \<Rightarrow> 'f handler \<Rightarrow> 'f handler outcome" where
  "runDeferedSignal sy h =
     (if w_interproc (h_world h) = 0 then returns h
      else bindO (if h_hasPendingSignal h
                  then on_world (quota_update sy (w_interproc (h_world h)) (h_world h))
                         (h\<lparr>h_hasPendingSignal := False\<rparr>)
                  else returns h)
             (\<lambda>h1. returns (h1\<lparr>h_allowSignal := True\<rparr>)))"

text \<open>The second component tells whether the fault was for a mapping of the library.\<close>

definition onSegFault :: "'f sys \<Rightarrow> addr \<Rightarrow> bool \<Rightarrow> 'f handler \<Rightarrow> ('f handler \<times> bool) outcome" where
  "onSegFault sy addr isWrite h =
     bindO (Some (mreg_getMapping addr (h_mappings h))) (\<lambda>m.
       if m = 0 then returns (h, False)
       else let h1 = deferSignal h
            in bindO (on_world (onSegmentationFault sy m addr isWrite (h_world h1)) h1) (\<lambda>h2.
                 bindO (runDeferedSignal sy h2) (\<lambda>h3. returns (h3, True))))"

text \<open>
  The handler of \<open>SIGSEGV\<close>: the error code of the processor tells a write by its second bit. A
  fault outside the mappings calls the handler that was installed before. The result \<open>False\<close>
  stands for the call of a function of the program, which is not modelled further; \<open>SIG_DFL\<close> and
  \<open>SIG_IGN\<close> are not functions.
\<close>

partial_function (option) segfaultHandler ::
  "'f sys \<Rightarrow> addr \<Rightarrow> nat \<Rightarrow> 'f handler \<Rightarrow> ('f handler \<times> bool) outcome" where
  "segfaultHandler sy addr regErr h =
     (case onSegFault sy addr (drop_bit 1 (regErr AND 2) = 1) h of
        None \<Rightarrow> None
      | Some r \<Rightarrow>
          (case r of
             Inl e \<Rightarrow> aborts e
           | Inr (h1, delivered) \<Rightarrow>
               if delivered = False
               then (case h_oldHandler h1 of
                       Segfault_handler \<Rightarrow> segfaultHandler sy addr regErr h1
                     | Default_action \<Rightarrow> aborts (Undefined ''call of SIG_DFL'')
                     | Ignore_action \<Rightarrow> aborts (Undefined ''call of SIG_IGN'')
                     | Other_handler \<Rightarrow> returns (h1, False))
               else returns (h1, delivered)))"

section \<open>Creation and destruction of mappings\<close>

text \<open>\<open>m\<close> is the address of the new \<open>Mapping\<close>, \<open>addr\<close> is not used by the code.\<close>

definition gh_ummap ::
  "'f sys \<Rightarrow> mapping_ptr \<Rightarrow> addr \<Rightarrow> size_t \<Rightarrow> size_t \<Rightarrow> size_t \<Rightarrow> nat \<Rightarrow> nat \<Rightarrow> addr \<Rightarrow> policy_ptr \<Rightarrow> string
    \<Rightarrow> 'f handler \<Rightarrow> (addr \<times> 'f handler) result" where
  "gh_ummap sy m addr sz segSz offset prot flags driver lpol policyGroup h =
     bindE (if policyGroup \<noteq> ''none'' then preg_get policyGroup False (h_policies h) else Inr 0) (\<lambda>gpol.
       bindE (newMapping sy m 0 sz segSz offset prot flags driver lpol gpol (h_world h)) (\<lambda>w.
         bindE (deref (w_mappings w) m) (\<lambda>mp.
           bindE (mreg_registerMapping m (getAddress mp) (getSize mp) (h_mappings h)) (\<lambda>es.
             Inr (getAddress mp, h\<lparr>h_world := w, h_mappings := es\<rparr>)))))"

text \<open>\<open>flush\<close> of the mapping behind a pointer.\<close>

definition flush_object ::
  "'f sys \<Rightarrow> mapping_ptr \<Rightarrow> size_t \<Rightarrow> size_t \<Rightarrow> nat \<Rightarrow> 'f world \<Rightarrow> 'f world result" where
  "flush_object sy m offset sz flags w =
     bindE (deref (w_mappings w) m) (\<lambda>mp.
       bindE (deref (w_drivers w) (mp_driver mp)) (\<lambda>d.
         bindE (flush (lib_ops (sy_env sy)) d offset sz flags mp (w_store w) (w_vm w)) (\<lambda>(mp', s', v').
           Inr (put_effects s' v' (put_mapping m mp' w)))))"

definition uunmap :: "'f sys \<Rightarrow> addr \<Rightarrow> bool \<Rightarrow> 'f handler \<Rightarrow> 'f handler outcome" where
  "uunmap sy ptr sync h =
     bindO (Some (find_mapping ptr h)) (\<lambda>m.
       bindO (Some (mreg_unregisterMapping m (h_mappings h))) (\<lambda>es.
         let h1 = h\<lparr>h_mappings := es\<rparr>
         in bindO (Some (live_mapping m h1)) (\<lambda>mp.
              bindO (if sync
                     then Some (flush_object sy m 0 (getAlignedSize mp) UMMAP_FLUSH_SYNC (h_world h1))
                     else returns (h_world h1)) (\<lambda>w.
                on_world (deleteMapping sy m w) h1))))"

fun delete_entries :: "'f sys \<Rightarrow> mapping_entry list \<Rightarrow> 'f world \<Rightarrow> 'f world outcome" where
  "delete_entries sy [] w = returns w"
| "delete_entries sy (e # es) w = bindO (deleteMapping sy (me_mapping e) w) (delete_entries sy es)"

definition deleteAllMappings :: "'f sys \<Rightarrow> 'f handler \<Rightarrow> 'f handler outcome" where
  "deleteAllMappings sy h =
     on_world (delete_entries sy (h_mappings h) (h_world h)) (h\<lparr>h_mappings := []\<rparr>)"

fun delete_policies :: "'f sys \<Rightarrow> (string \<times> policy_ptr) list \<Rightarrow> 'f world \<Rightarrow> 'f world outcome" where
  "delete_policies sy [] w = returns w"
| "delete_policies sy (e # es) w = bindO (policy_delete sy (snd e) w) (delete_policies sy es)"

definition preg_deleteAll :: "'f sys \<Rightarrow> 'f handler \<Rightarrow> 'f handler outcome" where
  "preg_deleteAll sy h =
     on_world (delete_policies sy (h_policies h) (h_world h)) (h\<lparr>h_policies := []\<rparr>)"

section \<open>Requests on the mapping of an address\<close>

definition gh_makeDirty :: "addr \<Rightarrow> 'f handler \<Rightarrow> 'f handler result" where
  "gh_makeDirty ptr h =
     bindE (find_mapping ptr h) (\<lambda>m.
       bindE (live_mapping m h) (\<lambda>mp.
         bindE (markCleanAsDirty mp (w_vm (h_world h))) (\<lambda>(mp', v').
           Inr (h\<lparr>h_world := put_effects (w_store (h_world h)) v' (put_mapping m mp' (h_world h))\<rparr>))))"

definition gh_getDriver :: "addr \<Rightarrow> 'f handler \<Rightarrow> addr result" where
  "gh_getDriver ptr h =
     bindE (find_mapping ptr h) (\<lambda>m. bindE (live_mapping m h) (\<lambda>mp. Inr (getDriver mp)))"

definition gh_skipFirstRead :: "addr \<Rightarrow> 'f handler \<Rightarrow> 'f handler result" where
  "gh_skipFirstRead ptr h =
     bindE (find_mapping ptr h) (\<lambda>m.
       bindE (live_mapping m h) (\<lambda>mp.
         Inr (h\<lparr>h_world := put_mapping m (skipFirstRead mp) (h_world h)\<rparr>)))"

text \<open>The range the flush is applied to: the two \<open>if\<close> that align the offset and the size.\<close>

definition flush_align :: "size_t \<Rightarrow> size_t \<Rightarrow> size_t \<Rightarrow> size_t \<times> size_t" where
  "flush_align offset sz segSz =
     (let (offset', sz') = (if offset mod segSz \<noteq> 0
                            then let delta = sz_sub offset (offset mod segSz)
                                 in (sz_sub offset delta, sz_add sz delta)
                            else (offset, sz))
      in (offset', if sz' mod segSz \<noteq> 0
                   then sz_add sz' (sz_sub segSz (offset' mod segSz)) else sz'))"

definition gh_flush :: "'f sys \<Rightarrow> addr \<Rightarrow> size_t \<Rightarrow> bool \<Rightarrow> bool \<Rightarrow> 'f handler \<Rightarrow> 'f handler result" where
  "gh_flush sy ptr sz evict sync h =
     bindE (find_mapping ptr h) (\<lambda>m.
       bindE (live_mapping m h) (\<lambda>mp.
         let offset = ptr - getAddress mp;
             size0 = (if sz = 0 then sz_sub (getAlignedSize mp) offset else sz);
             (offset', size') = flush_align offset size0 (getSegmentSize mp)
         in if \<not> ptr + size' \<le> getAddress mp + getAlignedSize mp
            then Inl (Fatal ''Invalid flush size, not fit in ummap mapping !'')
            else let flags0 = (if sync then 0 OR UMMAP_FLUSH_SYNC else 0);
                     flags = (if evict then flags0 OR UMMAP_FLUSH_UNMAP else flags0)
                 in bindE (flush_object sy m offset' size' flags (h_world h)) (\<lambda>w.
                      Inr (h\<lparr>h_world := w\<rparr>))))"

definition gh_getMapping :: "addr \<Rightarrow> bool \<Rightarrow> 'f handler \<Rightarrow> mapping_ptr result" where
  "gh_getMapping addr crashOnNotFound h =
     (if \<not> addr \<noteq> 0 then Inl (Fatal ''Get an invalid NULL address to get access to a mapping !'')
      else bindE (mreg_getMapping addr (h_mappings h)) (\<lambda>m.
        if crashOnNotFound \<and> \<not> m \<noteq> 0
        then Inl (Fatal ''Fail to find the requested mapping for address'') else Inr m))"

section \<open>Registered policies\<close>

definition gh_registerPolicy :: "string \<Rightarrow> policy_ptr \<Rightarrow> 'f handler \<Rightarrow> 'f handler result" where
  "gh_registerPolicy name policy h =
     bindE (preg_registerPolicy name policy (h_policies h)) (\<lambda>es. Inr (h\<lparr>h_policies := es\<rparr>))"

definition gh_unregisterPolicy :: "'f sys \<Rightarrow> string \<Rightarrow> 'f handler \<Rightarrow> 'f handler outcome" where
  "gh_unregisterPolicy sy name h =
     bindO (Some (preg_unregisterPolicy name (h_policies h))) (\<lambda>(es, found).
       case found of
         None \<Rightarrow> returns h
       | Some p \<Rightarrow> on_world (policy_delete sy p (h_world h)) (h\<lparr>h_policies := es\<rparr>))"

definition gh_getPolicy :: "string \<Rightarrow> bool \<Rightarrow> 'f handler \<Rightarrow> policy_ptr result" where
  "gh_getPolicy name nullNotFound h = preg_get name nullNotFound (h_policies h)"

section \<open>Copy on write and switch\<close>

text \<open>
  \<open>cast\<close> is the \<open>dynamic_cast\<close> to the class \<open>T\<close>: the object of a driver of that class.
  The action may change the driver, the storage and the address space.
\<close>

type_synonym ummap_switch_clean = int

abbreviation (input) "UMMAP_NO_ACTION \<equiv> 0 :: int"
abbreviation (input) "UMMAP_DROP_CLEAN \<equiv> 1 :: int"
abbreviation (input) "UMMAP_MARK_CLEAN_DIRTY \<equiv> 2 :: int"

definition on_ranges ::
  "(('f lib_driver, 'f lib_store) driver_ops \<Rightarrow> 'f lib_driver \<Rightarrow> mapping \<Rightarrow> 'f lib_store
      \<Rightarrow> (mapping \<times> 'f lib_store) result)
    \<Rightarrow> 'f sys \<Rightarrow> mapping_ptr \<Rightarrow> 'f handler \<Rightarrow> 'f handler result" where
  "on_ranges f sy m h =
     bindE (live_mapping m h) (\<lambda>mp.
       bindE (live_driver (mp_driver mp) h) (\<lambda>d.
         bindE (f (lib_ops (sy_env sy)) d mp (w_store (h_world h))) (\<lambda>(mp', s').
           Inr (h\<lparr>h_world := put_mapping m mp' (put_effects s' (w_vm (h_world h)) (h_world h))\<rparr>))))"

definition applyCow ::
  "'f sys \<Rightarrow> ('f lib_driver \<Rightarrow> 't option) \<Rightarrow> addr \<Rightarrow> (mapping_ptr \<Rightarrow> addr \<Rightarrow> 't \<Rightarrow> 'f handler \<Rightarrow> (int \<times> 'f handler) result)
    \<Rightarrow> 'f handler \<Rightarrow> (int \<times> 'f handler) result" where
  "applyCow sy cast addr action h =
     (if \<not> addr \<noteq> 0 then Inl (AssertFailure ''addr != NULL'')
      else bindE (gh_getMapping addr True h) (\<lambda>m.
        bindE (live_mapping m h) (\<lambda>mp.
          if \<not> getDriver mp \<noteq> 0 then Inl (Fatal ''Get an unknown NULL driver !'')
          else bindE (live_driver (getDriver mp) h) (\<lambda>d.
            case cast d of
              None \<Rightarrow> Inl (Fatal ''Get an invalid unknown driver type, cannot COW !'')
            | Some t \<Rightarrow>
                bindE (on_ranges unregisterRange sy m h) (\<lambda>h1.
                  bindE (action m (getDriver mp) t h1) (\<lambda>(status, h2).
                    bindE (on_ranges registerRange sy m h2) (\<lambda>h3. Inr (status, h3))))))))"

definition switch_clean :: "ummap_switch_clean \<Rightarrow> mapping \<Rightarrow> vm \<Rightarrow> (mapping \<times> vm) result" where
  "switch_clean cleanAction mp v =
     (if cleanAction = UMMAP_NO_ACTION then Inr (mp, v)
      else if cleanAction = UMMAP_DROP_CLEAN then dropClean mp v
      else if cleanAction = UMMAP_MARK_CLEAN_DIRTY then markCleanAsDirty mp v
      else Inl (Fatal ''Invalid clean action for switch operation''))"

definition applySwitch ::
  "'f sys \<Rightarrow> ('f lib_driver \<Rightarrow> 't option) \<Rightarrow> addr \<Rightarrow> ummap_switch_clean
    \<Rightarrow> (addr \<Rightarrow> 't \<Rightarrow> 'f handler \<Rightarrow> 'f handler result) \<Rightarrow> 'f handler \<Rightarrow> (int \<times> 'f handler) result" where
  "applySwitch sy cast addr cleanAction action h =
     (if \<not> addr \<noteq> 0 then Inl (AssertFailure ''addr != NULL'')
      else bindE (gh_getMapping addr True h) (\<lambda>m.
        bindE (live_mapping m h) (\<lambda>mp.
          if \<not> getDriver mp \<noteq> 0 then Inl (Fatal ''Get an unknown NULL driver !'')
          else bindE (live_driver (getDriver mp) h) (\<lambda>d.
            case cast d of
              None \<Rightarrow> Inl (Fatal ''Get an invalid unknown driver type, cannot COW !'')
            | Some t \<Rightarrow>
                bindE (on_ranges unregisterRange sy m h) (\<lambda>h1.
                  bindE (action (getDriver mp) t h1) (\<lambda>h2.
                    bindE (on_ranges registerRange sy m h2) (\<lambda>h3.
                      bindE (live_mapping m h3) (\<lambda>mp3.
                        bindE (switch_clean cleanAction mp3 (w_vm (h_world h3))) (\<lambda>(mp4, v4).
                          Inr (0, h3\<lparr>h_world := put_effects (w_store (h_world h3)) v4
                                                   (put_mapping m mp4 (h_world h3))\<rparr>))))))))))"

section \<open>The global pointer\<close>

definition newGlobalHandler :: "'f handler \<Rightarrow> 'f handler" where
  "newGlobalHandler h =
     h\<lparr>h_mappings := [], h_policies := [], h_variables := [], h_listings := [], h_ressources := []\<rparr>"

definition setGlobalHandler :: "'f handler \<Rightarrow> 'f handler result" where
  "setGlobalHandler h =
     (if h_live h then Inl (Fatal ''Try to re-init ummap-io without previously destroy states !'')
      else Inr (h\<lparr>h_live := True\<rparr>))"

definition getGlobalhandler :: "'f handler \<Rightarrow> 'f handler result" where
  "getGlobalhandler h =
     (if \<not> h_live h then Inl (Fatal ''Missing initialization of ummap-io before use !'') else Inr h)"

text \<open>
  The destructor of the handler: its body deletes the mappings that are left, then its members
  go in reverse order: the sessions of the object stores are closed, the listings of the URI
  handler are saved and the policies deleted.
\<close>

definition deleteGlobalHandler :: "'f sys \<Rightarrow> 'f text_files \<Rightarrow> 'f handler \<Rightarrow> 'f handler outcome" where
  "deleteGlobalHandler sy files h =
     bindO (if mreg_isEmpty (h_mappings h) = False then deleteAllMappings sy h else returns h) (\<lambda>h1.
       case deleteRessourceHandler (sy_sessions sy) (h_ressources h1) (h_statics h1, outside (w_store (h_world h1))) of
         (st, f0) \<Rightarrow>
           bindO (Some (saveListings files (h_listings h1) f0)) (\<lambda>f.
             let s = w_store (h_world h1); w = (h_world h1)\<lparr>w_store := s\<lparr>outside := f\<rparr>\<rparr>
             in preg_deleteAll sy (h1\<lparr>h_world := w, h_statics := st, h_ressources := [], h_listings := [], h_variables := []\<rparr>)))"

definition clearGlobalHandler :: "'f sys \<Rightarrow> 'f text_files \<Rightarrow> 'f handler \<Rightarrow> 'f handler outcome" where
  "clearGlobalHandler sy files h =
     (if h_live h
      then bindO (deleteGlobalHandler sy files h) (\<lambda>h1. returns (h1\<lparr>h_live := False\<rparr>))
      else returns h)"

definition setupSegfaultHandler :: "'f handler \<Rightarrow> 'f handler" where
  "setupSegfaultHandler h = h\<lparr>h_oldHandler := h_sigaction h, h_sigaction := Segfault_handler\<rparr>"

definition unsetSegfaultHandler :: "'f handler \<Rightarrow> 'f handler" where
  "unsetSegfaultHandler h = h\<lparr>h_sigaction := h_oldHandler h\<rparr>"

end
