(* ===== verification/CopySwitch.thy ===== *)
theory CopySwitch
  imports GlobalHandler
begin

text \<open>
  The operations that give a mapping another storage, \<open>ummap_cow_*\<close> and \<open>ummap_switch_*\<close> of
  \<open>src/public-api/ummap.cpp\<close>: copy on write copies the content first, a switch does not.
\<close>

section \<open>The host\<close>

text \<open>
  What these operations use of the system: \<open>open(path, O_RDWR | O_CREAT, ...)\<close>, \<open>fopen\<close> (the
  descriptor of the stream, if it could be opened), \<open>fclose\<close>, \<open>access(path, F_OK)\<close>, text files,
  the environment, and whether the library was built with regular expressions.
\<close>

record 'f host =
  ho_open :: "string \<Rightarrow> 'f \<Rightarrow> int \<times> 'f"
  ho_fopen :: "string \<Rightarrow> string \<Rightarrow> 'f \<Rightarrow> int option \<times> 'f"
  ho_fclose :: "int \<Rightarrow> 'f \<Rightarrow> 'f"
  ho_access :: "string \<Rightarrow> 'f \<Rightarrow> bool"
  ho_files :: "'f text_files"
  ho_getenv :: "string \<Rightarrow> string option"
  ho_regex :: bool

definition get_outside :: "'f handler \<Rightarrow> 'f" where
  "get_outside h = outside (w_store (h_world h))"

definition put_outside :: "'f \<Rightarrow> 'f handler \<Rightarrow> 'f handler" where
  "put_outside f h = h\<lparr>h_world := (h_world h)\<lparr>w_store := (w_store (h_world h))\<lparr>outside := f\<rparr>\<rparr>\<rparr>"

definition put_driver :: "addr \<Rightarrow> 'f lib_driver \<Rightarrow> 'f handler \<Rightarrow> 'f handler" where
  "put_driver a d h = h\<lparr>h_world := (h_world h)\<lparr>w_drivers := (w_drivers (h_world h))(a \<mapsto> d)\<rparr>\<rparr>"

definition posix_of :: "'f sys \<Rightarrow> 'f posix" where
  "posix_of sy = env_posix (sy_env sy)"

text \<open>The casts to the classes of drivers.\<close>

definition cast_fd :: "'f lib_driver \<Rightarrow> fd_driver option" where
  "cast_fd d = (case d of DFD x \<Rightarrow> Some x | _ \<Rightarrow> None)"

definition cast_mmap :: "'f lib_driver \<Rightarrow> mmap_driver option" where
  "cast_mmap d = (case d of DMmap x \<Rightarrow> Some x | _ \<Rightarrow> None)"

definition cast_ioc :: "'f lib_driver \<Rightarrow> ioc_driver option" where
  "cast_ioc d = (case d of DIoc x \<Rightarrow> Some x | _ \<Rightarrow> None)"

definition cast_clovis :: "'f lib_driver \<Rightarrow> clovis_driver option" where
  "cast_clovis d = (case d of DClovis x \<Rightarrow> Some x | _ \<Rightarrow> None)"

text \<open>\<open>copyToDriver\<close> of the mapping behind a pointer; \<open>scratch\<close> is its fresh buffer.\<close>

definition copy_object ::
  "'f sys \<Rightarrow> addr \<times> buffer \<Rightarrow> mapping_ptr \<Rightarrow> 'f lib_driver \<Rightarrow> size_t \<Rightarrow> 'f handler \<Rightarrow> 'f handler result" where
  "copy_object sy scratch m newDriver storageSize h =
     bindE (live_mapping m h) (\<lambda>mp.
       bindE (live_driver (mp_driver mp) h) (\<lambda>d.
         bindE (copyToDriver (lib_ops (sy_env sy)) d (Some newDriver) mp (w_vm (h_world h))
                  (fst scratch) (snd scratch) storageSize (w_store (h_world h))) (\<lambda>s'.
           Inr (h\<lparr>h_world := (h_world h)\<lparr>w_store := s'\<rparr>\<rparr>))))"

definition delete_temp :: "'f sys \<Rightarrow> 'f lib_driver \<Rightarrow> 'f handler \<Rightarrow> 'f handler" where
  "delete_temp sy d h =
     h\<lparr>h_world := (h_world h)\<lparr>w_store := lib_delete (sy_env sy) d (w_store (h_world h))\<rparr>\<rparr>"

section \<open>Copy on write\<close>

definition cow_fd_action ::
  "'f sys \<Rightarrow> addr \<times> buffer \<Rightarrow> int \<Rightarrow> mapping_ptr \<Rightarrow> addr \<Rightarrow> fd_driver \<Rightarrow> 'f handler \<Rightarrow> (int \<times> 'f handler) result" where
  "cow_fd_action sy scratch fd m a driver h =
     bindE (live_mapping m h) (\<lambda>mp.
       let (tryClone, f1) = fd_cloneRange (posix_of sy) fd (getStorageOffset mp) (getSize mp) driver (get_outside h);
           h1 = put_outside f1 h
       in bindE (if \<not> tryClone
                 then bindE (newFDDriver (posix_of sy) fd f1) (\<lambda>(newDriver, f2).
                        bindE (copy_object sy scratch m (DFD newDriver)
                                 (sz_add (getStorageOffset mp) (getSize mp)) (put_outside f2 h1)) (\<lambda>h2.
                          Inr (delete_temp sy (DFD newDriver) h2)))
                 else Inr h1) (\<lambda>h3.
            bindE (fd_setFd (posix_of sy) fd driver (get_outside h3)) (\<lambda>(driver', f4).
              Inr (0, put_driver a (DFD driver') (put_outside f4 h3)))))"

definition ummap_cow_fd ::
  "'f sys \<Rightarrow> addr \<times> buffer \<Rightarrow> addr \<Rightarrow> int \<Rightarrow> bool \<Rightarrow> 'f handler \<Rightarrow> (int \<times> 'f handler) result" where
  "ummap_cow_fd sy scratch addr fd allow_exist h =
     bindE (getGlobalhandler h) (applyCow sy cast_fd addr (cow_fd_action sy scratch fd))"

definition ummap_cow_fopen ::
  "'f host \<Rightarrow> 'f sys \<Rightarrow> addr \<times> buffer \<Rightarrow> addr \<Rightarrow> string \<Rightarrow> string \<Rightarrow> bool \<Rightarrow> 'f handler
    \<Rightarrow> (int \<times> 'f handler) result" where
  "ummap_cow_fopen ho sy scratch addr file_path mode allow_exist h =
     (if allow_exist = False \<and> ho_access ho file_path (get_outside h)
      then Inl (Fatal ''Try to cow on an existing file, but allow_exist is set to false !'')
      else if mode = []
      then (case ho_open ho file_path (get_outside h) of (fd, f1) \<Rightarrow>
              if \<not> fd > 0 then Inl (Fatal ''Fail to open file'')
              else bindE (ummap_cow_fd sy scratch addr fd allow_exist (put_outside f1 h)) (\<lambda>(status, h2).
                     Inr (status, put_outside (sys_close (posix_of sy) fd (get_outside h2)) h2)))
      else (case ho_fopen ho file_path mode (get_outside h) of (fp, f1) \<Rightarrow>
              (case fp of
                 None \<Rightarrow> Inl (Fatal ''Fail to open file'')
               | Some fd \<Rightarrow>
                   bindE (ummap_cow_fd sy scratch addr fd allow_exist (put_outside f1 h)) (\<lambda>(status, h2).
                     Inr (status, put_outside (ho_fclose ho fd (get_outside h2)) h2)))))"

definition cow_dax_action ::
  "'f sys \<Rightarrow> int \<Rightarrow> mapping_ptr \<Rightarrow> addr \<Rightarrow> mmap_driver \<Rightarrow> 'f handler \<Rightarrow> (int \<times> 'f handler) result" where
  "cow_dax_action sy fd m a driver h =
     bindE (newMmapDriver (posix_of sy) fd True (get_outside h)) (\<lambda>(new_driver, f1).
       let h1 = put_outside f1 h
       in bindE (live_mapping m h1) (\<lambda>mp.
            bindE (directMmapCow (lib_ops (sy_env sy)) (DMmap new_driver) mp (w_store (h_world h1)) (w_vm (h_world h1)))
              (\<lambda>(s2, v2).
                 let h2 = h1\<lparr>h_world := put_effects s2 v2 (h_world h1)\<rparr>
                 in bindE (mmap_setFd (posix_of sy) fd driver (get_outside h2)) (\<lambda>(driver', f3).
                      Inr (0, delete_temp sy (DMmap new_driver) (put_driver a (DMmap driver') (put_outside f3 h2)))))))"

definition ummap_cow_dax :: "'f sys \<Rightarrow> addr \<Rightarrow> int \<Rightarrow> bool \<Rightarrow> 'f handler \<Rightarrow> (int \<times> 'f handler) result" where
  "ummap_cow_dax sy addr fd allow_exist h =
     bindE (getGlobalhandler h) (applyCow sy cast_mmap addr (cow_dax_action sy fd))"

definition ummap_cow_dax_fopen ::
  "'f host \<Rightarrow> 'f sys \<Rightarrow> addr \<Rightarrow> string \<Rightarrow> string \<Rightarrow> bool \<Rightarrow> 'f handler \<Rightarrow> (int \<times> 'f handler) result" where
  "ummap_cow_dax_fopen ho sy addr file_path mode allow_exist h =
     (if allow_exist = False \<and> ho_access ho file_path (get_outside h)
      then Inl (Fatal ''Try to cow on an existing file, but allow_exist is set to false !'')
      else case ho_fopen ho file_path mode (get_outside h) of (fp, f1) \<Rightarrow>
             (case fp of
                None \<Rightarrow> Inl (Fatal ''Fail to open file'')
              | Some fd \<Rightarrow>
                  bindE (ummap_cow_dax sy addr fd allow_exist (put_outside f1 h)) (\<lambda>(status, h2).
                    Inr (status, put_outside (ho_fclose ho fd (get_outside h2)) h2))))"

definition cow_clovis_action ::
  "'f sys \<Rightarrow> addr \<times> buffer \<Rightarrow> int \<Rightarrow> int \<Rightarrow> mapping_ptr \<Rightarrow> addr \<Rightarrow> clovis_driver \<Rightarrow> 'f handler
    \<Rightarrow> (int \<times> 'f handler) result" where
  "cow_clovis_action sy scratch high low m a driver h =
     (let (new_driver, f1) = newClovisDriver (env_mero (sy_env sy)) high low True (get_outside h);
          d1 = DClovis (setAutoclean True new_driver)
      in bindE (live_mapping m h) (\<lambda>mp.
           bindE (copy_object sy scratch m d1 (sz_add (getStorageOffset mp) (getSize mp)) (put_outside f1 h)) (\<lambda>h2.
             Inr (0, delete_temp sy d1 (put_driver a (DClovis (setObjectId high low driver)) h2)))))"

definition ummap_cow_clovis ::
  "'f host \<Rightarrow> 'f sys \<Rightarrow> addr \<times> buffer \<Rightarrow> addr \<Rightarrow> int \<Rightarrow> int \<Rightarrow> bool \<Rightarrow> 'f handler \<Rightarrow> (int \<times> 'f handler) result" where
  "ummap_cow_clovis ho sy scratch addr high low allow_exist h =
     (if sl_have_mero (sy_sessions sy)
      then bindE (getGlobalhandler h) (applyCow sy cast_clovis addr (cow_clovis_action sy scratch high low))
      else Inl (Fatal ''Try to cow a clovis driver, but ummap was compiled without mero/motr !''))"

definition cow_ioc_action ::
  "'f sys \<Rightarrow> int \<Rightarrow> int \<Rightarrow> bool \<Rightarrow> mapping_ptr \<Rightarrow> addr \<Rightarrow> ioc_driver \<Rightarrow> 'f handler \<Rightarrow> (int \<times> 'f handler) result" where
  "cow_ioc_action sy high low allow_exist m a driver h =
     bindE (live_mapping m h) (\<lambda>mp.
       bindE (ioc_cow (env_ioc (sy_env sy)) high low allow_exist (getStorageOffset mp) (getSize mp) driver (get_outside h))
         (\<lambda>(status, driver', f'). Inr (status, put_driver a (DIoc driver') (put_outside f' h))))"

definition ummap_cow_ioc ::
  "'f host \<Rightarrow> 'f sys \<Rightarrow> addr \<Rightarrow> int \<Rightarrow> int \<Rightarrow> bool \<Rightarrow> 'f handler \<Rightarrow> (int \<times> 'f handler) result" where
  "ummap_cow_ioc ho sy addr high low allow_exist h =
     (if sl_have_ioc (sy_sessions sy)
      then bindE (getGlobalhandler h) (applyCow sy cast_ioc addr (cow_ioc_action sy high low allow_exist))
      else Inl (Fatal ''Ummap-io was built without IOC support, cannot apply COW on the requested mapping !''))"

section \<open>Switch\<close>

definition switch_fd_action :: "'f sys \<Rightarrow> int \<Rightarrow> addr \<Rightarrow> fd_driver \<Rightarrow> 'f handler \<Rightarrow> 'f handler result" where
  "switch_fd_action sy fd a driver h =
     bindE (fd_setFd (posix_of sy) fd driver (get_outside h)) (\<lambda>(driver', f').
       Inr (put_driver a (DFD driver') (put_outside f' h)))"

definition ummap_switch_fd ::
  "'f sys \<Rightarrow> addr \<Rightarrow> int \<Rightarrow> ummap_switch_clean \<Rightarrow> 'f handler \<Rightarrow> (int \<times> 'f handler) result" where
  "ummap_switch_fd sy addr fd clean_action h =
     bindE (getGlobalhandler h) (applySwitch sy cast_fd addr clean_action (switch_fd_action sy fd))"

definition ummap_switch_fopen ::
  "'f host \<Rightarrow> 'f sys \<Rightarrow> addr \<Rightarrow> string \<Rightarrow> string \<Rightarrow> ummap_switch_clean \<Rightarrow> 'f handler \<Rightarrow> (int \<times> 'f handler) result" where
  "ummap_switch_fopen ho sy addr file_path mode clean_action h =
     (case ho_fopen ho file_path mode (get_outside h) of (fp, f1) \<Rightarrow>
        (case fp of
           None \<Rightarrow> Inl (Fatal ''Fail to open file'')
         | Some fd \<Rightarrow>
             bindE (getGlobalhandler (put_outside f1 h)) (\<lambda>h1.
               bindE (applySwitch sy cast_fd addr clean_action (switch_fd_action sy fd) h1) (\<lambda>(status, h2).
                 Inr (status, put_outside (ho_fclose ho fd (get_outside h2)) h2)))))"

definition ummap_switch_dax ::
  "'f sys \<Rightarrow> addr \<Rightarrow> int \<Rightarrow> ummap_switch_clean \<Rightarrow> 'f handler \<Rightarrow> (int \<times> 'f handler) result" where
  "ummap_switch_dax sy addr fd clean_action h = ummap_cow_dax sy addr fd True h"

definition ummap_switch_dax_fopen ::
  "'f host \<Rightarrow> 'f sys \<Rightarrow> addr \<Rightarrow> string \<Rightarrow> string \<Rightarrow> ummap_switch_clean \<Rightarrow> 'f handler \<Rightarrow> (int \<times> 'f handler) result" where
  "ummap_switch_dax_fopen ho sy addr file_path mode clean_action h =
     ummap_cow_dax_fopen ho sy addr file_path mode True h"

definition switch_clovis_action :: "int \<Rightarrow> int \<Rightarrow> addr \<Rightarrow> clovis_driver \<Rightarrow> 'f handler \<Rightarrow> 'f handler result" where
  "switch_clovis_action high low a driver h = Inr (put_driver a (DClovis (setObjectId high low driver)) h)"

definition ummap_switch_clovis ::
  "'f host \<Rightarrow> 'f sys \<Rightarrow> addr \<Rightarrow> int \<Rightarrow> int \<Rightarrow> ummap_switch_clean \<Rightarrow> 'f handler \<Rightarrow> (int \<times> 'f handler) result" where
  "ummap_switch_clovis ho sy addr high low clean_action h =
     (if sl_have_mero (sy_sessions sy)
      then bindE (getGlobalhandler h) (applySwitch sy cast_clovis addr clean_action (switch_clovis_action high low))
      else Inl (Fatal ''Ummap-io was built without Mero/Motr support, cannot apply COW on the requested mapping !''))"

definition switch_ioc_action :: "'f sys \<Rightarrow> int \<Rightarrow> int \<Rightarrow> addr \<Rightarrow> ioc_driver \<Rightarrow> 'f handler \<Rightarrow> 'f handler result" where
  "switch_ioc_action sy high low a driver h =
     (case ioc_switchDestination (env_ioc (sy_env sy)) high low driver (get_outside h) of
        (driver', f') \<Rightarrow> Inr (put_driver a (DIoc driver') (put_outside f' h)))"

definition ummap_switch_ioc ::
  "'f host \<Rightarrow> 'f sys \<Rightarrow> addr \<Rightarrow> int \<Rightarrow> int \<Rightarrow> ummap_switch_clean \<Rightarrow> 'f handler \<Rightarrow> (int \<times> 'f handler) result" where
  "ummap_switch_ioc ho sy addr high low clean_action h =
     (if sl_have_ioc (sy_sessions sy)
      then bindE (getGlobalhandler h) (applySwitch sy cast_ioc addr clean_action (switch_ioc_action sy high low))
      else Inl (Fatal ''Ummap-io was built without IOC support, cannot apply COW on the requested mapping !''))"

end
