(* ===== verification/UriHandler.thy ===== *)
theory UriHandler
  imports CopySwitch Uri Variables HumanUnits
begin

text \<open>
  The URI handler, \<open>src/uri/UriHandler.cpp\<close>: drivers and policies are built from the URI that
  describes them, and copy on write and switch choose the operation from it.
\<close>

section \<open>Files and object identifiers\<close>

definition hex_digit :: "nat \<Rightarrow> char" where
  "hex_digit n = (if n < 10 then char_of (48 + n) else char_of (87 + n))"

fun hex :: "nat \<Rightarrow> string" where
  "hex n = (if n < 16 then [hex_digit n] else hex (n div 16) @ [hex_digit (n mod 16)])"

declare hex.simps [simp del]

text \<open>\<open>sprintf(fname, "%lx:%lx", id.high, id.low)\<close>\<close>

definition id_file :: "object_id \<Rightarrow> string" where
  "id_file obj = hex (to_size (oid_high obj)) @ '':'' @ hex (to_size (oid_low obj))"

definition open_file :: "'f host \<Rightarrow> string \<Rightarrow> string \<Rightarrow> 'f \<Rightarrow> (int \<times> 'f) result" where
  "open_file ho fname mode f =
     (if mode = []
      then (case ho_open ho fname f of (fd, f1) \<Rightarrow>
              if \<not> fd > 0 then Inl (Fatal ''Fail to open file'') else Inr (fd, f1))
      else (case ho_fopen ho fname mode f of
              (None, f1) \<Rightarrow> Inl (Fatal ''Fail to open file'')
            | (Some fd, f1) \<Rightarrow> Inr (fd, f1)))"

definition close_file :: "'f host \<Rightarrow> 'f sys \<Rightarrow> string \<Rightarrow> int \<Rightarrow> 'f \<Rightarrow> 'f" where
  "close_file ho sy mode fd f = (if mode \<noteq> [] then ho_fclose ho fd f else sys_close (posix_of sy) fd f)"

definition buildDriverFOpen ::
  "'f host \<Rightarrow> 'f sys \<Rightarrow> string \<Rightarrow> string \<Rightarrow> 'f handler \<Rightarrow> ('f lib_driver \<times> 'f handler) result" where
  "buildDriverFOpen ho sy fname mode h =
     bindE (open_file ho fname mode (get_outside h)) (\<lambda>(fd, f1).
       bindE (newFDDriver (posix_of sy) fd f1) (\<lambda>(res, f2).
         Inr (DFD res, put_outside (close_file ho sy mode fd f2) h)))"

definition buildDriverFOpenMmap ::
  "'f host \<Rightarrow> 'f sys \<Rightarrow> string \<Rightarrow> string \<Rightarrow> 'f handler \<Rightarrow> ('f lib_driver \<times> 'f handler) result" where
  "buildDriverFOpenMmap ho sy fname mode h =
     bindE (open_file ho fname mode (get_outside h)) (\<lambda>(fd, f1).
       bindE (newMmapDriver (posix_of sy) fd False f1) (\<lambda>(res, f2).
         Inr (DMmap res, put_outside (close_file ho sy mode fd f2) h)))"

text \<open>
  \<open>src/uri/RessourceHandler.hpp\<close> on the handler of the process; starting the Mero client sets the
  fault handler again.
\<close>

definition checkRessource :: "'f sys \<Rightarrow> ressource_kind \<Rightarrow> string \<Rightarrow> 'f handler \<Rightarrow> 'f handler result" where
  "checkRessource sy kind name h =
     bindE (rh_checkRessource (sy_sessions sy) kind name (h_ressources h) (h_statics h) (get_outside h))
       (\<lambda>(rm, st, f, new).
          let h1 = put_outside f (h\<lparr>h_ressources := rm, h_statics := st\<rparr>)
          in Inr (if new = Some (MeroRessource True) then setupSegfaultHandler h1 else h1))"

definition getIocObjectId ::
  "'f host \<Rightarrow> int \<times> int \<times> int \<times> int \<Rightarrow> uri \<Rightarrow> 'f handler \<Rightarrow> (object_id \<times> 'f handler) result" where
  "getIocObjectId ho rands uri h =
     (let path = getPath uri
      in if path = ''auto''
         then bindE (getParam ''listing'' uri) (\<lambda>listing.
                bindE (getParam ''name'' uri) (\<lambda>name.
                  bindE (getObjectId (ho_files ho) rands listing name (get_outside h) (h_listings h)) (\<lambda>(obj, ls).
                    Inr (obj, h\<lparr>h_listings := ls\<rparr>))))
         else bindE (scan_pair path) (\<lambda>r. case r of
                Some (high, low) \<Rightarrow> Inr (\<lparr>oid_low = low, oid_high = high\<rparr>, h)
              | None \<Rightarrow> Inl (Fatal ''Invalid object ID in mero URI'')))"

definition mero_types :: "string list" where
  "mero_types = [''mero'', ''clovis'', ''merofile'', ''motr'']"

definition ioc_types :: "string list" where
  "ioc_types = [''meroioc'', ''clovisioc'', ''ioc'', ''iocfile'']"

text \<open>The identifier is read as in \<open>getIocObjectId\<close>.\<close>

definition buildDriverMero ::
  "'f host \<Rightarrow> 'f sys \<Rightarrow> int \<times> int \<times> int \<times> int \<Rightarrow> uri \<Rightarrow> 'f handler \<Rightarrow> ('f lib_driver \<times> 'f handler) result" where
  "buildDriverMero ho sy rands uri h =
     (if \<not> getType uri \<in> set mero_types then Inl (AssertFailure ''uri.getType()'')
      else bindE (getIocObjectId ho rands uri h) (\<lambda>(obj, h1).
        bindE (checkRessource sy Mero_kind ''mero'' h1) (\<lambda>h2.
          if sl_have_mero (sy_sessions sy)
          then (case newClovisDriver (env_mero (sy_env sy)) (oid_high obj) (oid_low obj) True (get_outside h2) of
                  (d, f) \<Rightarrow> Inr (DClovis d, put_outside f h2))
          else if getType uri = ''merofile'' then buildDriverFOpen ho sy (id_file obj) '''' h2
          else Inl (Fatal ''Mero is not available, cannot use uri''))))"

definition buildDriverIoc ::
  "'f host \<Rightarrow> 'f sys \<Rightarrow> int \<times> int \<times> int \<times> int \<Rightarrow> uri \<Rightarrow> 'f handler \<Rightarrow> ('f lib_driver \<times> 'f handler) result" where
  "buildDriverIoc ho sy rands uri h =
     (if \<not> getType uri \<in> set ioc_types then Inl (AssertFailure ''uri.getType()'')
      else bindE (getIocObjectId ho rands uri h) (\<lambda>(obj, h1).
        bindE (checkRessource sy Ioc_kind ''ioc'' h1) (\<lambda>h2.
          if sl_have_ioc (sy_sessions sy)
          then (case newIocDriver (env_ioc (sy_env sy)) (oid_high obj) (oid_low obj) True (get_outside h2) of
                  (d, f) \<Rightarrow> Inr (DIoc d, put_outside f h2))
          else if getType uri = ''iocfile'' then buildDriverFOpen ho sy (id_file obj) '''' h2
          else Inl (Fatal ''Mero is not available, cannot use uri''))))"

section \<open>Building drivers and policies\<close>

definition real_uri :: "'f handler \<Rightarrow> string \<Rightarrow> string" where
  "real_uri h uri = replaceVariables (h_variables h) uri"

text \<open>The object that is built; the caller of the library keeps the pointer.\<close>

definition buildDriver ::
  "'f host \<Rightarrow> 'f sys \<Rightarrow> int \<times> int \<times> int \<times> int \<Rightarrow> string \<Rightarrow> 'f handler \<Rightarrow> ('f lib_driver \<times> 'f handler) result" where
  "buildDriver ho sy rands uri h =
     (if \<not> uri \<noteq> [] then Inl (AssertFailure ''uri.empty() == false'')
      else bindE (parse (ho_regex ho) (real_uri h uri)) (\<lambda>parser.
        let type = getType parser
        in bindE
          (if type = ''file'' then buildDriverFOpen ho sy (getPath parser) (getParam_default ''mode'' '''' parser) h
           else if type = ''mem''
           then bindE (fromHumanMemSize (ho_regex ho) (getPath parser)) (\<lambda>memsize.
                  bindE (newMemoryDriver memsize 0 (mems (w_store (h_world h)))) (\<lambda>(d, ms).
                    Inr (DMemory d, h\<lparr>h_world := (h_world h)\<lparr>w_store := (w_store (h_world h))\<lparr>mems := ms\<rparr>\<rparr>\<rparr>)))
           else if type = ''dummy''
           then bindE (atol (getPath parser)) (\<lambda>v. Inr (DDummy (newDummyDriver (nat (v mod 256))), h))
           else if type \<in> set mero_types then buildDriverMero ho sy rands parser h
           else if type \<in> set ioc_types then buildDriverIoc ho sy rands parser h
           else if type = ''mmap'' \<or> type = ''dax''
           then buildDriverFOpenMmap ho sy (getPath parser) (getParam_default ''mode'' '''' parser) h
           else if type = ''mmapanon''
           then bindE (newMmapDriver (posix_of sy) 0 True (get_outside h)) (\<lambda>(d, f). Inr (DMmap d, put_outside f h))
           else Inl (Fatal ''Invalid ressource type to build driver''))
          (\<lambda>(d, h1). Inr (lib_setUri (real_uri h uri) d, h1))))"

definition pobj_setUri :: "string \<Rightarrow> policy_obj \<Rightarrow> policy_obj" where
  "pobj_setUri uri po =
     (case po of PFifo p \<Rightarrow> PFifo (setUri uri p) | PLifo p \<Rightarrow> PLifo (setUri uri p)
      | PWindow p \<Rightarrow> PWindow (setUri uri p))"

definition page_multiple :: "size_t \<Rightarrow> 'a result \<Rightarrow> 'a result" where
  "page_multiple n r =
     (if \<not> n mod 4096 = 0 then Inl (Fatal ''The given size is not multiple of the page size'') else r)"

text \<open>\<open>None\<close> is the null policy of \<open>none://\<close>; \<open>mutex\<close> is the address of the object's own mutex.\<close>

definition buildPolicy ::
  "'f host \<Rightarrow> addr \<Rightarrow> string \<Rightarrow> bool \<Rightarrow> 'f handler \<Rightarrow> policy_obj option result" where
  "buildPolicy ho mutex uri local h =
     (if \<not> uri \<noteq> [] then Inl (AssertFailure ''uri.empty() == false'')
      else bindE (parse (ho_regex ho) (real_uri h uri)) (\<lambda>parser.
        let type = getType parser
        in bindE
          (if type = ''fifo''
           then bindE (fromHumanMemSize (ho_regex ho) (getPath parser)) (\<lambda>memsize.
                  page_multiple memsize (Inr (Some (PFifo (newFifoPolicy mutex memsize local)))))
           else if type = ''lifo''
           then bindE (fromHumanMemSize (ho_regex ho) (getPath parser)) (\<lambda>memsize.
                  page_multiple memsize (Inr (Some (PLifo (newLifoPolicy mutex memsize local)))))
           else if type = ''fifo-window''
           then bindE (fromHumanMemSize (ho_regex ho) (getPath parser)) (\<lambda>memSize.
                  bindE (getParam ''window'' parser) (\<lambda>window.
                    bindE (fromHumanMemSize (ho_regex ho) window) (\<lambda>slidingSize.
                      page_multiple memSize (page_multiple slidingSize
                        (Inr (Some (PWindow (newFifoWindowPolicy mutex memSize slidingSize local))))))))
           else if type = ''none'' then Inr None
           else Inl (Fatal ''Invalid ressource type to build policy''))
          (\<lambda>policy. Inr (map_option (pobj_setUri (real_uri h uri)) policy))))"

section \<open>Copy on write and switch by URI\<close>

definition uh_applyCow ::
  "'f host \<Rightarrow> 'f sys \<Rightarrow> addr \<times> buffer \<Rightarrow> int \<times> int \<times> int \<times> int \<Rightarrow> addr \<Rightarrow> string \<Rightarrow> bool \<Rightarrow> 'f handler
    \<Rightarrow> (int \<times> 'f handler) result" where
  "uh_applyCow ho sy scratch rands addr uri allowExist h =
     (if \<not> uri \<noteq> [] then Inl (AssertFailure ''uri.empty() == false'')
      else bindE (parse (ho_regex ho) (real_uri h uri)) (\<lambda>parser.
        let type = getType parser
        in if type \<in> set ioc_types
           then bindE (getIocObjectId ho rands parser h) (\<lambda>(obj, h1).
                  ummap_cow_ioc ho sy addr (oid_high obj) (oid_low obj) allowExist h1)
           else if type \<in> set mero_types
           then bindE (getIocObjectId ho rands parser h) (\<lambda>(obj, h1).
                  ummap_cow_clovis ho sy scratch addr (oid_high obj) (oid_low obj) allowExist h1)
           else if type = ''dummy'' \<or> type = ''mem'' \<or> type = ''mapanon'' then Inr (0, h)
           else if type = ''file''
           then ummap_cow_fopen ho sy scratch addr (getPath parser) (getParam_default ''mode'' '''' parser) allowExist h
           else if type = ''mmap'' \<or> type = ''dax''
           then ummap_cow_dax_fopen ho sy addr (getPath parser) (getParam_default ''mode'' '''' parser) allowExist h
           else Inl (Fatal ''Invalid ressource type to run COW operation'')))"

definition uh_applySwitch ::
  "'f host \<Rightarrow> 'f sys \<Rightarrow> int \<times> int \<times> int \<times> int \<Rightarrow> addr \<Rightarrow> string \<Rightarrow> ummap_switch_clean \<Rightarrow> 'f handler
    \<Rightarrow> (int \<times> 'f handler) result" where
  "uh_applySwitch ho sy rands addr uri cleanAction h =
     (if \<not> uri \<noteq> [] then Inl (AssertFailure ''uri.empty() == false'')
      else bindE (parse (ho_regex ho) (real_uri h uri)) (\<lambda>parser.
        let type = getType parser
        in if type \<in> set ioc_types
           then bindE (getIocObjectId ho rands parser h) (\<lambda>(obj, h1).
                  ummap_switch_ioc ho sy addr (oid_high obj) (oid_low obj) cleanAction h1)
           else if type \<in> set mero_types
           then bindE (getIocObjectId ho rands parser h) (\<lambda>(obj, h1).
                  ummap_switch_clovis ho sy addr (oid_high obj) (oid_low obj) cleanAction h1)
           else if type = ''dummy'' \<or> type = ''mem'' \<or> type = ''mapanon'' then Inr (0, h)
           else if type = ''file''
           then ummap_switch_fopen ho sy addr (getPath parser) (getParam_default ''mode'' '''' parser) cleanAction h
           else if type = ''mmap'' \<or> type = ''dax''
           then ummap_switch_dax_fopen ho sy addr (getPath parser) (getParam_default ''mode'' '''' parser) cleanAction h
           else Inl (Fatal ''Invalid ressource type to run switch operation'')))"

definition initMero :: "'f sys \<Rightarrow> string \<Rightarrow> int \<Rightarrow> 'f handler \<Rightarrow> 'f handler result" where
  "initMero sy file index h =
     checkRessource sy Mero_kind ''mero'' (h\<lparr>h_statics := setMeroRessourceInfo file index (h_statics h)\<rparr>)"

end
