(* ===== verification/PublicApi.thy ===== *)
theory PublicApi
  imports UriHandler
begin

text \<open>
  The C interface, \<open>src/public-api/ummap.cpp\<close>. An operation that creates an object is given
  the address of the new object; a null name is \<open>None\<close>.
\<close>

section \<open>Initialisation\<close>

definition ummap_init :: "'f handler \<Rightarrow> 'f handler result" where
  "ummap_init h =
     bindE (if h_cntInit h = 0
            then bindE (setGlobalHandler (newGlobalHandler h)) (\<lambda>h1. Inr (setupSegfaultHandler h1))
            else Inr h)
       (\<lambda>h1. Inr (h1\<lparr>h_cntInit := h_cntInit h1 + 1\<rparr>))"

definition ummap_finalize :: "'f sys \<Rightarrow> 'f text_files \<Rightarrow> 'f handler \<Rightarrow> 'f handler outcome" where
  "ummap_finalize sy files h =
     (let h1 = h\<lparr>h_cntInit := h_cntInit h - 1\<rparr>
      in if h_cntInit h1 = 0 then clearGlobalHandler sy files (unsetSegfaultHandler h1) else returns h1)"

section \<open>Mappings\<close>

definition ummap ::
  "'f sys \<Rightarrow> mapping_ptr \<Rightarrow> addr \<Rightarrow> size_t \<Rightarrow> size_t \<Rightarrow> size_t \<Rightarrow> nat \<Rightarrow> nat \<Rightarrow> addr \<Rightarrow> policy_ptr \<Rightarrow> string option
    \<Rightarrow> 'f handler \<Rightarrow> (addr \<times> 'f handler) result" where
  "ummap sy m addr sz segment_size storage_offset prot flags driver local_policy policy_group h =
     bindE (getGlobalhandler h) (\<lambda>h1.
       gh_ummap sy m addr sz segment_size storage_offset prot flags driver local_policy
         (case policy_group of None \<Rightarrow> ''none'' | Some g \<Rightarrow> g) h1)"

definition umunmap :: "'f sys \<Rightarrow> addr \<Rightarrow> bool \<Rightarrow> 'f handler \<Rightarrow> (int \<times> 'f handler) outcome" where
  "umunmap sy ptr sync h =
     bindO (Some (getGlobalhandler h)) (\<lambda>h1.
       if \<not> ptr \<noteq> 0 then aborts (AssertFailure ''ptr != NULL'')
       else bindO (uunmap sy ptr sync h1) (\<lambda>h2. returns (0, h2)))"

definition ummap_skip_first_read :: "addr \<Rightarrow> 'f handler \<Rightarrow> 'f handler result" where
  "ummap_skip_first_read ptr h =
     bindE (getGlobalhandler h) (\<lambda>h1.
       if \<not> ptr \<noteq> 0 then Inl (AssertFailure ''ptr != NULL'') else gh_skipFirstRead ptr h1)"

definition umflush :: "'f sys \<Rightarrow> addr \<Rightarrow> size_t \<Rightarrow> bool \<Rightarrow> 'f handler \<Rightarrow> 'f handler result" where
  "umflush sy ptr sz evict h = bindE (getGlobalhandler h) (gh_flush sy ptr sz evict False)"

definition umsync :: "'f sys \<Rightarrow> addr \<Rightarrow> size_t \<Rightarrow> bool \<Rightarrow> 'f handler \<Rightarrow> 'f handler result" where
  "umsync sy ptr sz evict h = bindE (getGlobalhandler h) (gh_flush sy ptr sz evict True)"

definition ummap_get_driver :: "addr \<Rightarrow> 'f handler \<Rightarrow> addr result" where
  "ummap_get_driver ptr h = bindE (getGlobalhandler h) (gh_getDriver ptr)"

definition ummap_make_dirty :: "addr \<Rightarrow> size_t \<Rightarrow> 'f handler \<Rightarrow> 'f handler result" where
  "ummap_make_dirty ptr sz h = bindE (getGlobalhandler h) (gh_makeDirty ptr)"

section \<open>Drivers\<close>

definition add_driver :: "addr \<Rightarrow> 'f lib_driver \<Rightarrow> 'f handler \<Rightarrow> 'f handler" where
  "add_driver a d h = put_driver a (lib_setAutoclean True d) h"

definition ummap_driver_create_dummy :: "addr \<Rightarrow> byte \<Rightarrow> 'f handler \<Rightarrow> 'f handler" where
  "ummap_driver_create_dummy a v h = add_driver a (DDummy (newDummyDriver v)) h"

definition ummap_driver_create_fd :: "'f sys \<Rightarrow> addr \<Rightarrow> int \<Rightarrow> 'f handler \<Rightarrow> 'f handler result" where
  "ummap_driver_create_fd sy a fd h =
     bindE (newFDDriver (posix_of sy) fd (get_outside h)) (\<lambda>(d, f).
       Inr (add_driver a (DFD d) (put_outside f h)))"

definition ummap_driver_create_dax_fd :: "'f sys \<Rightarrow> addr \<Rightarrow> int \<Rightarrow> bool \<Rightarrow> 'f handler \<Rightarrow> 'f handler result" where
  "ummap_driver_create_dax_fd sy a fd notAligned h =
     bindE (newMmapDriver (posix_of sy) fd notAligned (get_outside h)) (\<lambda>(d, f).
       Inr (add_driver a (DMmap d) (put_outside f h)))"

definition ummap_driver_set_autoclean :: "addr \<Rightarrow> bool \<Rightarrow> 'f handler \<Rightarrow> 'f handler result" where
  "ummap_driver_set_autoclean a status h =
     (if \<not> a \<noteq> 0 then Inl (AssertFailure ''driver != NULL'')
      else bindE (live_driver a h) (\<lambda>d. Inr (put_driver a (lib_setAutoclean status d) h)))"

definition ummap_driver_create_fopen ::
  "'f host \<Rightarrow> 'f sys \<Rightarrow> addr \<Rightarrow> string \<Rightarrow> string \<Rightarrow> 'f handler \<Rightarrow> 'f handler result" where
  "ummap_driver_create_fopen ho sy a file_path mode h =
     (case ho_fopen ho file_path mode (get_outside h) of (fp, f1) \<Rightarrow>
        (case fp of
           None \<Rightarrow> Inl (Fatal ''Fail to open file'')
         | Some fd \<Rightarrow>
             bindE (ummap_driver_create_fd sy a fd (put_outside f1 h)) (\<lambda>h1.
               bindE (ummap_driver_set_autoclean a True h1) (\<lambda>h2.
                 Inr (put_outside (ho_fclose ho fd (get_outside h2)) h2)))))"

definition ummap_driver_create_dax_fopen ::
  "'f host \<Rightarrow> 'f sys \<Rightarrow> addr \<Rightarrow> string \<Rightarrow> string \<Rightarrow> bool \<Rightarrow> 'f handler \<Rightarrow> 'f handler result" where
  "ummap_driver_create_dax_fopen ho sy a file_path mode notAligned h =
     (case ho_fopen ho file_path mode (get_outside h) of (fp, f1) \<Rightarrow>
        (case fp of
           None \<Rightarrow> Inl (Fatal ''Fail to open file'')
         | Some fd \<Rightarrow>
             bindE (ummap_driver_create_dax_fd sy a fd notAligned (put_outside f1 h)) (\<lambda>h1.
               bindE (ummap_driver_set_autoclean a True h1) (\<lambda>h2.
                 Inr (put_outside (ho_fclose ho fd (get_outside h2)) h2)))))"

definition ummap_driver_create_clovis ::
  "'f host \<Rightarrow> 'f sys \<Rightarrow> addr \<Rightarrow> int \<Rightarrow> int \<Rightarrow> bool \<Rightarrow> 'f handler \<Rightarrow> 'f handler result" where
  "ummap_driver_create_clovis ho sy a high low create h =
     (if sl_have_mero (sy_sessions sy)
      then (case newClovisDriver (env_mero (sy_env sy)) high low create (get_outside h) of
              (d, f) \<Rightarrow> Inr (add_driver a (DClovis d) (put_outside f h)))
      else Inl (Fatal ''Try to create a clovis driver, but ummap was compiled without mero/motr !''))"

definition ummap_driver_create_ioc ::
  "'f host \<Rightarrow> 'f sys \<Rightarrow> addr \<Rightarrow> int \<Rightarrow> int \<Rightarrow> bool \<Rightarrow> 'f handler \<Rightarrow> 'f handler result" where
  "ummap_driver_create_ioc ho sy a high low create h =
     (if sl_have_ioc (sy_sessions sy)
      then (case newIocDriver (env_ioc (sy_env sy)) high low create (get_outside h) of
              (d, f) \<Rightarrow> Inr (add_driver a (DIoc d) (put_outside f h)))
      else Inl (Fatal ''Ummap-io was build without support of IOC, cannot create the requested driver !''))"

definition ummap_driver_create_memory :: "addr \<Rightarrow> size_t \<Rightarrow> 'f handler \<Rightarrow> 'f handler result" where
  "ummap_driver_create_memory a sz h =
     bindE (newMemoryDriver sz 0 (mems (w_store (h_world h)))) (\<lambda>(d, ms).
       Inr (add_driver a (DMemory d)
              (h\<lparr>h_world := (h_world h)\<lparr>w_store := (w_store (h_world h))\<lparr>mems := ms\<rparr>\<rparr>\<rparr>)))"

definition ummap_driver_create_c :: "addr \<Rightarrow> 'f c_functions option \<Rightarrow> addr \<Rightarrow> 'f handler \<Rightarrow> 'f handler result" where
  "ummap_driver_create_c a fns driver_data h =
     bindE (newCDriver fns driver_data) (\<lambda>d. Inr (add_driver a (DC d) h))"

definition ummap_driver_create_uri ::
  "'f host \<Rightarrow> 'f sys \<Rightarrow> int \<times> int \<times> int \<times> int \<Rightarrow> addr \<Rightarrow> string \<Rightarrow> 'f handler \<Rightarrow> 'f handler result" where
  "ummap_driver_create_uri ho sy rands a uri h =
     bindE (getGlobalhandler h) (\<lambda>h1.
       bindE (buildDriver ho sy rands uri h1) (\<lambda>(d, h2). Inr (add_driver a d h2)))"

definition ummap_driver_destroy :: "'f sys \<Rightarrow> addr \<Rightarrow> 'f handler \<Rightarrow> 'f handler result" where
  "ummap_driver_destroy sy a h =
     (if \<not> a \<noteq> 0 then Inl (AssertFailure ''driver != NULL'')
      else bindE (live_driver a h) (\<lambda>d.
        let h1 = delete_temp sy d h
        in Inr (h1\<lparr>h_world := (h_world h1)\<lparr>w_drivers := (w_drivers (h_world h1))(a := None)\<rparr>\<rparr>)))"

section \<open>Policies\<close>

definition add_policy :: "policy_ptr \<Rightarrow> policy_obj \<Rightarrow> 'f handler \<Rightarrow> 'f handler" where
  "add_policy p po h = h\<lparr>h_world := put_policy p po (h_world h)\<rparr>"

definition ummap_policy_create_fifo :: "policy_ptr \<Rightarrow> size_t \<Rightarrow> bool \<Rightarrow> 'f handler \<Rightarrow> 'f handler" where
  "ummap_policy_create_fifo p max_size local h = add_policy p (PFifo (newFifoPolicy p max_size local)) h"

definition ummap_policy_create_lifo :: "policy_ptr \<Rightarrow> size_t \<Rightarrow> bool \<Rightarrow> 'f handler \<Rightarrow> 'f handler" where
  "ummap_policy_create_lifo p max_size local h = add_policy p (PLifo (newLifoPolicy p max_size local)) h"

definition ummap_policy_create_fifo_window ::
  "policy_ptr \<Rightarrow> size_t \<Rightarrow> size_t \<Rightarrow> bool \<Rightarrow> 'f handler \<Rightarrow> 'f handler" where
  "ummap_policy_create_fifo_window p max_size window_size local h =
     add_policy p (PWindow (newFifoWindowPolicy p max_size window_size local)) h"

text \<open>The result is the pointer, 0 for the policy \<open>none\<close>.\<close>

definition ummap_policy_create_uri ::
  "'f host \<Rightarrow> policy_ptr \<Rightarrow> string \<Rightarrow> bool \<Rightarrow> 'f handler \<Rightarrow> (policy_ptr \<times> 'f handler) result" where
  "ummap_policy_create_uri ho p uri local h =
     bindE (getGlobalhandler h) (\<lambda>h1.
       bindE (buildPolicy ho p uri local h1) (\<lambda>policy.
         Inr (case policy of None \<Rightarrow> (0, h1) | Some po \<Rightarrow> (p, add_policy p po h1))))"

text \<open>The cast names the class of drivers; the virtual destructor of the object runs.\<close>

definition ummap_policy_destroy :: "'f sys \<Rightarrow> policy_ptr \<Rightarrow> 'f handler \<Rightarrow> 'f handler outcome" where
  "ummap_policy_destroy sy p h =
     (if \<not> p \<noteq> 0 then aborts (AssertFailure ''policy != NULL'')
      else on_world (policy_delete sy p (h_world h)) h)"

definition ummap_policy_get_memory :: "policy_ptr \<Rightarrow> 'f handler \<Rightarrow> size_t result" where
  "ummap_policy_get_memory p h =
     (if p = 0 then Inr 0
      else bindE (deref (w_policies (h_world h)) p) (\<lambda>po. Inr (pobj_getCurrentMemory po)))"

definition ummap_policy_group_register :: "string option \<Rightarrow> policy_ptr \<Rightarrow> 'f handler \<Rightarrow> 'f handler result" where
  "ummap_policy_group_register name p h =
     bindE (getGlobalhandler h) (\<lambda>h1.
       case name of
         None \<Rightarrow> Inl (AssertFailure ''name != NULL'')
       | Some n \<Rightarrow> gh_registerPolicy n p h1)"

definition ummap_policy_group_destroy :: "'f sys \<Rightarrow> string option \<Rightarrow> 'f handler \<Rightarrow> 'f handler outcome" where
  "ummap_policy_group_destroy sy name h =
     bindO (Some (getGlobalhandler h)) (\<lambda>h1.
       case name of
         None \<Rightarrow> aborts (AssertFailure ''name != NULL'')
       | Some n \<Rightarrow> gh_unregisterPolicy sy n h1)"

section \<open>Variables, copy on write and switch by URI\<close>

definition ummap_uri_set_variable :: "string \<Rightarrow> string \<Rightarrow> 'f handler \<Rightarrow> 'f handler result" where
  "ummap_uri_set_variable name v h =
     bindE (getGlobalhandler h) (\<lambda>h1. Inr (h1\<lparr>h_variables := registerVariable name v (h_variables h1)\<rparr>))"

definition ummap_uri_set_variable_int :: "string \<Rightarrow> int \<Rightarrow> 'f handler \<Rightarrow> 'f handler result" where
  "ummap_uri_set_variable_int name v h =
     bindE (getGlobalhandler h) (\<lambda>h1. Inr (h1\<lparr>h_variables := registerVariable_int name v (h_variables h1)\<rparr>))"

definition ummap_uri_set_variable_size_t :: "string \<Rightarrow> size_t \<Rightarrow> 'f handler \<Rightarrow> 'f handler result" where
  "ummap_uri_set_variable_size_t name v h =
     bindE (getGlobalhandler h) (\<lambda>h1. Inr (h1\<lparr>h_variables := registerVariable_size name v (h_variables h1)\<rparr>))"

definition ummap_cow_uri ::
  "'f host \<Rightarrow> 'f sys \<Rightarrow> addr \<times> buffer \<Rightarrow> int \<times> int \<times> int \<times> int \<Rightarrow> addr \<Rightarrow> string \<Rightarrow> bool \<Rightarrow> 'f handler
    \<Rightarrow> (int \<times> 'f handler) result" where
  "ummap_cow_uri ho sy scratch rands addr uri allow_exist h =
     bindE (getGlobalhandler h) (uh_applyCow ho sy scratch rands addr uri allow_exist)"

definition ummap_switch_uri ::
  "'f host \<Rightarrow> 'f sys \<Rightarrow> int \<times> int \<times> int \<times> int \<Rightarrow> addr \<Rightarrow> string \<Rightarrow> ummap_switch_clean \<Rightarrow> 'f handler
    \<Rightarrow> (int \<times> 'f handler) result" where
  "ummap_switch_uri ho sy rands addr uri clean_action h =
     bindE (getGlobalhandler h) (uh_applySwitch ho sy rands addr uri clean_action)"

definition ummap_mero_init :: "'f sys \<Rightarrow> string \<Rightarrow> int \<Rightarrow> 'f handler \<Rightarrow> 'f handler result" where
  "ummap_mero_init sy ressource_file index h = bindE (getGlobalhandler h) (initMero sy ressource_file index)"

definition ummap_config_clovis_init_options :: "string \<Rightarrow> int \<Rightarrow> 'f handler \<Rightarrow> 'f handler" where
  "ummap_config_clovis_init_options ressource_file index h =
     h\<lparr>h_statics := setMeroRessourceInfo ressource_file index (h_statics h)\<rparr>"

definition ummap_config_ioc_init_options :: "string \<Rightarrow> string \<Rightarrow> 'f handler \<Rightarrow> 'f handler" where
  "ummap_config_ioc_init_options server port h = h\<lparr>h_statics := setIocRessourceInfo server port (h_statics h)\<rparr>"

section \<open>Quotas\<close>

definition ummap_quota_create_local :: "quota_ptr \<Rightarrow> size_t \<Rightarrow> 'f handler \<Rightarrow> 'f handler" where
  "ummap_quota_create_local q max_memory h = h\<lparr>h_world := newPolicyQuotaLocal q max_memory (h_world h)\<rparr>"

text \<open>The second component of the result is the processes that are sent the signal.\<close>

definition ummap_quota_create_inter_proc ::
  "'f sys \<Rightarrow> quota_ptr \<Rightarrow> string \<Rightarrow> size_t \<Rightarrow> 'f handler \<Rightarrow> ('f handler \<times> int list) outcome" where
  "ummap_quota_create_inter_proc sy q group_name max_memory h =
     bindO (newPolicyQuotaInterProc sy q group_name max_memory (h_world h)) (\<lambda>(w, signalled).
       returns (h\<lparr>h_world := w\<rparr>, signalled))"

definition ummap_quota_create_inter_proc_env ::
  "'f host \<Rightarrow> 'f sys \<Rightarrow> quota_ptr \<Rightarrow> string \<Rightarrow> string option \<Rightarrow> size_t \<Rightarrow> 'f handler
    \<Rightarrow> (quota_ptr \<times> 'f handler \<times> int list) outcome" where
  "ummap_quota_create_inter_proc_env ho sy q group_name env_name default_max_mem h =
     (case env_name of
        None \<Rightarrow> aborts (Fatal ''Invalid NULL or empty env name !'')
      | Some env \<Rightarrow>
          if env = [] then aborts (Fatal ''Invalid NULL or empty env name !'')
          else bindO (Some (case ho_getenv ho env of
                              None \<Rightarrow> Inr default_max_mem
                            | Some var \<Rightarrow> fromHumanMemSize (ho_regex ho) var)) (\<lambda>v.
                 if v = 0 then returns (0, h, [])
                 else bindO (ummap_quota_create_inter_proc sy q group_name v h) (\<lambda>(h1, signalled).
                        returns (q, h1, signalled))))"

text \<open>The cast names the inter-process class; the virtual destructor of the object runs.\<close>

definition ummap_quota_destroy :: "'f sys \<Rightarrow> quota_ptr \<Rightarrow> 'f handler \<Rightarrow> 'f handler result" where
  "ummap_quota_destroy sy q h =
     (if q \<noteq> 0 then bindE (deletePolicyQuota sy q (h_world h)) (\<lambda>w. Inr (h\<lparr>h_world := w\<rparr>)) else Inr h)"

definition ummap_quota_register_policy :: "'f sys \<Rightarrow> quota_ptr \<Rightarrow> policy_ptr \<Rightarrow> 'f handler \<Rightarrow> 'f handler outcome" where
  "ummap_quota_register_policy sy q p h =
     (if q = 0 \<or> p = 0 then returns h else on_world (quota_registerPolicy sy q p (h_world h)) h)"

definition ummap_quota_unregister_policy :: "'f sys \<Rightarrow> quota_ptr \<Rightarrow> policy_ptr \<Rightarrow> 'f handler \<Rightarrow> 'f handler outcome" where
  "ummap_quota_unregister_policy sy q p h =
     (if q = 0 \<or> p = 0 then returns h else on_world (quota_unregisterPolicy sy q p (h_world h)) h)"

end
