(* ===== verification/HandlerProps.thy ===== *)
theory HandlerProps
  imports WorldProps PublicApi
begin

text \<open>
  The entry points of the library: the dispatch of a fault, the nesting of initialisation and
  finalisation and the flush of a range of addresses.
\<close>

section \<open>Dispatch of faults\<close>

definition handler0 :: "outside_state handler" where
  "handler0 = \<lparr>h_world = world0, h_mappings = [\<lparr>me_mapping = 1, me_base = 1048576, me_end = 1053576\<rparr>], h_policies = [],
     h_variables = [], h_listings = [], h_ressources = [], h_statics = initial_statics, h_allowSignal = True, h_hasPendingSignal = False,
     h_live = True, h_cntInit = 1, h_sigaction = Segfault_handler, h_oldHandler = Other_handler\<rparr>"

lemma handler0_simps [simp]:
  "h_world handler0 = world0" "h_mappings handler0 = [\<lparr>me_mapping = 1, me_base = 1048576, me_end = 1053576\<rparr>]"
  "h_live handler0" "h_oldHandler handler0 = Other_handler"
  by (simp_all add: handler0_def)

lemma runDeferedSignal_good:
  assumes "world_good up_to_date (h_world h)" and "runDeferedSignal sy h = returns h'"
  shows "world_good up_to_date (h_world h') \<and> same_config (h_world h) (h_world h') \<and> h_mappings h' = h_mappings h"
proof (cases "w_interproc (h_world h) \<noteq> 0 \<and> h_hasPendingSignal h")
  case True
  then obtain w where w: "quota_update sy (w_interproc (h_world h)) (h_world h) = returns w"
    and h': "h' = h\<lparr>h_hasPendingSignal := False, h_world := w, h_allowSignal := True\<rparr>"
    using assms(2) by (auto simp: runDeferedSignal_def on_world_def)
  show ?thesis
    using quota_update_step [OF w assms(1)] by (simp add: h')
next
  case False
  then show ?thesis
    using assms by (auto simp: runDeferedSignal_def split: if_splits)
qed

text \<open>
  C14. A fault is dispatched to the right place. It is reported as handled exactly when a
  registered mapping contains the address; then that mapping serves the fault and the deferred
  signal is delivered afterwards, and this is all that happens. A fault elsewhere changes
  nothing. The registries, the set of mappings and drivers and the invariant of the process are
  kept.
\<close>

theorem fault_dispatch:
  assumes "world_good up_to_date (h_world h)" and "\<forall>e \<in> set (h_mappings h). me_mapping e \<noteq> 0"
    and "onSegFault sy a wr h = returns (h', handled)"
  shows "(handled \<longleftrightarrow> (\<exists>e \<in> set (h_mappings h). me_base e \<le> a \<and> a < me_end e)) \<and>
    (handled \<longrightarrow> (\<exists>e \<in> set (h_mappings h). \<exists>w. me_base e \<le> a \<and> a < me_end e \<and>
       onSegmentationFault sy (me_mapping e) a wr (h_world h) = returns w \<and>
       runDeferedSignal sy ((deferSignal h)\<lparr>h_world := w\<rparr>) = returns h')) \<and>
    (\<not> handled \<longrightarrow> h' = h) \<and> h_mappings h' = h_mappings h \<and> world_good up_to_date (h_world h') \<and>
    same_config (h_world h) (h_world h')"
proof -
  obtain m where m: "mreg_getMapping a (h_mappings h) = Inr m"
    and run: "(if m = 0 then returns (h, False)
       else bindO (on_world (onSegmentationFault sy m a wr (h_world (deferSignal h))) (deferSignal h))
         (\<lambda>h2. bindO (runDeferedSignal sy h2) (\<lambda>h3. returns (h3, True)))) = returns (h', handled)"
    using assms(3) unfolding onSegFault_def Let_def bindO_eq_returns by auto
  have in_range: "m \<noteq> 0 \<longleftrightarrow> (\<exists>e \<in> set (h_mappings h). me_base e \<le> a \<and> a < me_end e)"
  proof
    assume "m \<noteq> 0"
    then show "\<exists>e \<in> set (h_mappings h). me_base e \<le> a \<and> a < me_end e"
      using mreg_getMapping_found [OF m] by auto
  next
    assume ex: "\<exists>e \<in> set (h_mappings h). me_base e \<le> a \<and> a < me_end e"
    show "m \<noteq> 0"
    proof (cases "find (\<lambda>it. a \<ge> me_base it \<and> a < me_end it) (h_mappings h)")
      case None
      with ex show ?thesis by (auto simp: find_None_iff)
    next
      case (Some e)
      then have "e \<in> set (h_mappings h)" by (auto simp: find_Some_iff)
      with Some m assms(2) show ?thesis by (auto simp: mreg_getMapping_def split: if_splits)
    qed
  qed
  show ?thesis
  proof (cases "m = 0")
    case True
    then show ?thesis using run in_range assms(1) by auto
  next
    case False
    have d: "h_world (deferSignal h) = h_world h" "h_mappings (deferSignal h) = h_mappings h"
      by (simp_all add: deferSignal_def)
    obtain w h3 where w: "onSegmentationFault sy m a wr (h_world h) = returns w"
      and h3: "runDeferedSignal sy ((deferSignal h)\<lparr>h_world := w\<rparr>) = returns h3" and h': "h' = h3" "handled"
      using run False d(1) by (auto simp: on_world_def)
    note g = onSegmentationFault_step [OF assms(1) w]
    have "world_good up_to_date (h_world h3) \<and> same_config w (h_world h3) \<and> h_mappings h3 = h_mappings h"
      using runDeferedSignal_good [OF _ h3] g d(2) by simp
    moreover obtain e where "e \<in> set (h_mappings h)" "me_base e \<le> a" "a < me_end e" "me_mapping e = m"
      using mreg_getMapping_found [OF m False] by auto
    ultimately show ?thesis
      using g same_config_trans in_range False h' w h3 by blast
  qed
qed

theorem fault_dispatch_witness:
  "onSegFault sys0 5000000 True handler0 = returns (handler0, False) \<and>
   (\<exists>h' w. onSegFault sys0 1052676 True handler0 = returns (h', True) \<and> world_good up_to_date (h_world h') \<and>
      onSegmentationFault sys0 1 1052676 True world0 = returns w \<and>
      runDeferedSignal sys0 ((deferSignal handler0)\<lparr>h_world := w\<rparr>) = returns h')"
proof -
  have reg: "\<forall>e \<in> set (h_mappings handler0). me_mapping e \<noteq> 0"
    by simp
  have away: "onSegFault sys0 5000000 True handler0 = returns (handler0, False)"
    by (simp add: onSegFault_def mreg_getMapping_def)
  obtain p where p: "fifo_notifyTouch_cs seg0 1 1 fifo0 = returns (p, [], True, 0)" "policyQuota p = 0"
    by (rule touch_pol)
  let ?w = "put_policy 2 (PFifo p) world1"
  have "w_interproc world0 = 0" and ip: "w_interproc ?w = 0"
    by (simp_all add: world0_def put_policy_def world1_def put_effects_def put_mapping_def)
  then have "deferSignal handler0 = handler0"
    by (simp add: deferSignal_def)
  then have run: "onSegFault sys0 1052676 True handler0 = returns (handler0\<lparr>h_world := ?w\<rparr>, True)"
    using fault_step_pol [OF p] ip
    by (simp add: onSegFault_def mreg_getMapping_def on_world_def runDeferedSignal_def del: One_nat_def)
  show ?thesis
    using away run fault_dispatch [OF _ reg run] world0_good by (simp del: One_nat_def)
qed

section \<open>Initialisation and finalisation\<close>

text \<open>A history of the two calls: \<open>True\<close> is an initialisation.\<close>

fun life_run :: "'f sys \<Rightarrow> 'f text_files \<Rightarrow> bool list \<Rightarrow> 'f handler \<Rightarrow> 'f handler outcome" where
  "life_run sy fl [] h = returns h"
| "life_run sy fl (b # bs) h =
     bindO (if b then Some (ummap_init h) else ummap_finalize sy fl h) (life_run sy fl bs)"

fun balance :: "bool list \<Rightarrow> int" where
  "balance [] = 0"
| "balance (b # bs) = (if b then 1 else -1) + balance bs"

fun never_below :: "int \<Rightarrow> bool list \<Rightarrow> bool" where
  "never_below n [] = True"
| "never_below n (b # bs) = (let n' = n + (if b then 1 else -1) in 0 \<le> n' \<and> never_below n' bs)"

definition life_ok :: "sig_handler \<Rightarrow> 'f handler \<Rightarrow> bool" where
  "life_ok old h \<longleftrightarrow> 0 \<le> h_cntInit h \<and> (h_live h \<longleftrightarrow> 0 < h_cntInit h) \<and>
     h_sigaction h = (if h_live h then Segfault_handler else old) \<and> (h_live h \<longrightarrow> h_oldHandler h = old)"

lemma on_world_fields:
  assumes "on_world r h = returns h'"
  shows "h_cntInit h' = h_cntInit h \<and> h_sigaction h' = h_sigaction h"
  using assms by (auto simp: on_world_def)

lemma deleteGlobalHandler_fields:
  assumes "deleteGlobalHandler sy fl h = returns h'"
  shows "h_cntInit h' = h_cntInit h \<and> h_sigaction h' = h_sigaction h"
proof -
  obtain h1 f st where h1: "(if mreg_isEmpty (h_mappings h) = False then deleteAllMappings sy h else returns h) = returns h1"
    and h': "preg_deleteAll sy (h1\<lparr>h_world := (h_world h1)\<lparr>w_store := (w_store (h_world h1))\<lparr>outside := f\<rparr>\<rparr>,
        h_statics := st, h_ressources := [], h_listings := [], h_variables := []\<rparr>) = returns h'"
    using assms unfolding deleteGlobalHandler_def Let_def bindO_eq_returns case_prod_unfold by blast
  have "h_cntInit h1 = h_cntInit h \<and> h_sigaction h1 = h_sigaction h"
    using h1 on_world_fields by (fastforce simp: deleteAllMappings_def split: if_splits)
  then show ?thesis
    using on_world_fields [OF h' [unfolded preg_deleteAll_def]] by simp
qed

lemma life_step:
  assumes ok: "life_ok old h" and b: "0 \<le> h_cntInit h + (if b then 1 else -1)"
    and run: "(if b then Some (ummap_init h) else ummap_finalize sy fl h) = returns h'"
  shows "life_ok old h' \<and> h_cntInit h' = h_cntInit h + (if b then 1 else -1)"
proof (cases b)
  case True
  then have "ummap_init h = Inr h'" using run by simp
  then show ?thesis
    using ok True
    by (cases "h_cntInit h = 0")
      (auto simp: ummap_init_def life_ok_def setGlobalHandler_def newGlobalHandler_def setupSegfaultHandler_def)
next
  case False
  then have fin: "ummap_finalize sy fl h = returns h'" and pos: "h_cntInit h \<ge> 1"
    using run b by simp_all
  show ?thesis
  proof (cases "h_cntInit h = 1")
    case last: True
    let ?h = "unsetSegfaultHandler (h\<lparr>h_cntInit := 0\<rparr>)"
    have live: "h_live ?h" "h_sigaction ?h = old" "h_cntInit ?h = 0"
      using ok last by (simp_all add: life_ok_def unsetSegfaultHandler_def)
    obtain h1 where h1: "deleteGlobalHandler sy fl ?h = returns h1" and h': "h' = h1\<lparr>h_live := False\<rparr>"
      using fin last live(1) by (auto simp: ummap_finalize_def clearGlobalHandler_def)
    show ?thesis
      using deleteGlobalHandler_fields [OF h1] live False last by (simp add: life_ok_def h')
  next
    case more: False
    then have "h' = h\<lparr>h_cntInit := h_cntInit h - 1\<rparr>"
      using fin by (auto simp: ummap_finalize_def)
    then show ?thesis
      using ok pos more False by (simp add: life_ok_def)
  qed
qed

text \<open>
  C15. Initialisations and finalisations nest: in any history in which a finalisation is never
  called without an open initialisation, the library is live exactly while one is open, its
  handler of \<open>SIGSEGV\<close> is installed exactly then, and after the last finalisation the handler
  the program had before is back.
\<close>

theorem init_finalize_nest:
  assumes "life_ok old h" and "h_cntInit h = n" and "never_below n bs" and "life_run sy fl bs h = returns h'"
  shows "h_cntInit h' = n + balance bs \<and> (h_live h' \<longleftrightarrow> 0 < n + balance bs) \<and>
    h_sigaction h' = (if 0 < n + balance bs then Segfault_handler else old)"
  using assms
proof (induction bs arbitrary: h n)
  case Nil
  then show ?case by (simp add: life_ok_def)
next
  case (Cons b bs)
  obtain h1 where h1: "(if b then Some (ummap_init h) else ummap_finalize sy fl h) = returns h1"
    and rest: "life_run sy fl bs h1 = returns h'"
    using Cons.prems(4) unfolding life_run.simps bindO_eq_returns by blast
  have nb: "0 \<le> h_cntInit h + (if b then 1 else -1)" "never_below (n + (if b then 1 else -1)) bs"
    using Cons.prems(2,3) by (simp_all add: Let_def)
  note st = life_step [OF Cons.prems(1) nb(1) h1]
  show ?case
    using Cons.IH [OF _ _ nb(2) rest] st Cons.prems(2) by (simp add: add.assoc)
qed

definition handler1 :: "outside_state handler" where
  "handler1 = handler0\<lparr>h_mappings := [], h_live := False, h_cntInit := 0, h_sigaction := Other_handler\<rparr>"

definition no_files :: "'f text_files" where
  "no_files = \<lparr>read_text = \<lambda>n f. None, open_write = \<lambda>n f. None, put_text = \<lambda>n c f. (-1, f), close_text = \<lambda>n f. (-1, f)\<rparr>"

theorem init_finalize_nest_witness:
  "\<exists>h'. life_run sys0 no_files [True, True, False, False] handler1 = returns h' \<and>
     \<not> h_live h' \<and> h_sigaction h' = Other_handler"
proof -
  obtain h' where run: "life_run sys0 no_files [True, True, False, False] handler1 = returns h'"
    by (simp add: ummap_init_def ummap_finalize_def setGlobalHandler_def newGlobalHandler_def setupSegfaultHandler_def
        unsetSegfaultHandler_def clearGlobalHandler_def deleteGlobalHandler_def deleteRessourceHandler_def mreg_isEmpty_def
        saveListings_def
        preg_deleteAll_def on_world_def handler1_def handler0_def)
  have "life_ok Other_handler handler1"
    by (simp add: life_ok_def handler1_def)
  from init_finalize_nest [OF this _ _ run, of 0] run show ?thesis
    by (simp add: handler1_def)
qed

section \<open>Faults outside the mappings\<close>

text \<open>
  C33. A fault outside every mapping is passed to the previous handler as if it were a function.
  When the handler of the library was installed once, the handler of the program is called if it
  has one; a program that left \<open>SIG_DFL\<close> or \<open>SIG_IGN\<close> in place has a null pointer or the pointer 1
  called. When the handler was installed twice in a row, which the start of a Mero or Motr session
  does, the library takes itself for the previous handler and such a fault never returns.
\<close>

theorem foreign_fault:
  assumes "a \<noteq> 0" and "\<forall>e \<in> set (h_mappings h). \<not> (me_base e \<le> a \<and> a < me_end e)" and "h_sigaction h \<noteq> Segfault_handler"
  shows "segfaultHandler sy a err (setupSegfaultHandler h) =
      (case h_sigaction h of
         Other_handler \<Rightarrow> returns (setupSegfaultHandler h, False)
       | Ignore_action \<Rightarrow> aborts (Undefined ''call of SIG_IGN'')
       | _ \<Rightarrow> aborts (Undefined ''call of SIG_DFL'')) \<and>
    segfaultHandler sy a err (setupSegfaultHandler (setupSegfaultHandler h)) = None"
proof -
  have away: "onSegFault sy' a wr h1 = returns (h1, False)" if "h_mappings h1 = h_mappings h" for sy' h1 wr
    using mreg_getMapping_none [of "h_mappings h" a] assms(1,2) that by (simp add: onSegFault_def)
  have "h_mappings (setupSegfaultHandler h1) = h_mappings h1" for h1 :: "'a handler"
    by (simp add: setupSegfaultHandler_def)
  then have once: "segfaultHandler sy a err (setupSegfaultHandler h) =
      (case h_sigaction h of
         Other_handler \<Rightarrow> returns (setupSegfaultHandler h, False)
       | Ignore_action \<Rightarrow> aborts (Undefined ''call of SIG_IGN'')
       | _ \<Rightarrow> aborts (Undefined ''call of SIG_DFL''))"
    using assms(3) by (subst segfaultHandler.simps) (simp add: away setupSegfaultHandler_def split: sig_handler.split)
  let ?h2 = "setupSegfaultHandler (setupSegfaultHandler h)"
  have old: "h_oldHandler ?h2 = Segfault_handler" and mp: "h_mappings ?h2 = h_mappings h"
    by (simp_all add: setupSegfaultHandler_def)
  have "addr = a \<longrightarrow> h1 \<noteq> ?h2" if "segfaultHandler sy' addr err h1 = Some y" for sy' addr err h1 y
  proof (rule segfaultHandler.raw_induct [where P = "\<lambda>sy' addr err h1 y. addr = a \<longrightarrow> h1 \<noteq> ?h2", OF _ that], intro impI notI)
    fix loop sy' addr err h1 y
    assume IH: "\<And>sy' addr err h1 y. loop sy' addr err h1 = Some y \<Longrightarrow> addr = a \<longrightarrow> h1 \<noteq> ?h2"
      and body: "(case onSegFault sy' addr (drop_bit 1 (err AND 2) = 1) h1 of
          None \<Rightarrow> None
        | Some r \<Rightarrow> (case r of
             Inl e \<Rightarrow> aborts e
           | Inr (h1, delivered) \<Rightarrow>
               if delivered = False
               then (case h_oldHandler h1 of
                       Segfault_handler \<Rightarrow> loop sy' addr err h1
                     | Default_action \<Rightarrow> aborts (Undefined ''call of SIG_DFL'')
                     | Ignore_action \<Rightarrow> aborts (Undefined ''call of SIG_IGN'')
                     | Other_handler \<Rightarrow> returns (h1, False))
               else returns (h1, delivered))) = Some y"
      and a: "addr = a" and h1: "h1 = ?h2"
    have "loop sy' a err ?h2 = Some y"
      using body old unfolding a h1 away [OF mp] by simp
    then show False
      using IH by blast
  qed
  then have "\<nexists>y. segfaultHandler sy a err ?h2 = Some y"
    by blast
  then have "segfaultHandler sy a err ?h2 = None"
    by simp
  with once show ?thesis by blast
qed

theorem foreign_fault_witness:
  "segfaultHandler sys0 5000000 2 (setupSegfaultHandler (handler0\<lparr>h_sigaction := Other_handler\<rparr>)) =
     returns (setupSegfaultHandler (handler0\<lparr>h_sigaction := Other_handler\<rparr>), False) \<and>
   segfaultHandler sys0 5000000 2 (setupSegfaultHandler (handler0\<lparr>h_sigaction := Default_action\<rparr>)) =
     aborts (Undefined ''call of SIG_DFL'') \<and>
   segfaultHandler sys0 5000000 2 (setupSegfaultHandler (setupSegfaultHandler (handler0\<lparr>h_sigaction := Default_action\<rparr>))) = None"
  using foreign_fault [of 5000000 "handler0\<lparr>h_sigaction := Other_handler\<rparr>" sys0 2]
    foreign_fault [of 5000000 "handler0\<lparr>h_sigaction := Default_action\<rparr>" sys0 2]
  by simp

section \<open>Flush of a range of addresses\<close>

lemma flush_refuses:
  assumes "x mod segmentSize m \<noteq> 0"
  shows "\<exists>msg. flush ops d x n flags m s v = Inl (Fatal msg)"
  using assms by (cases "x < getSize m"; cases "sz_add x n \<le> getAlignedSize m") (simp_all add: flush_def)

lemma flush_align_unaligned:
  assumes "x < W64" and "x mod k \<noteq> 0"
  shows "fst (flush_align x n k) = x mod k"
proof -
  have "sz_sub x (x mod k) = x - x mod k"
    using assms(1) by (intro sz_sub_exact) simp_all
  moreover have "sz_sub x (x - x mod k) = x mod k"
    using assms(1) by (subst sz_sub_exact) simp_all
  ultimately show ?thesis
    using assms(2) by (simp add: flush_align_def Let_def)
qed

text \<open>
  C34. A flush that starts inside a segment always aborts: the correction of the range subtracts
  the aligned part of the offset instead of the rest, so the range that is passed on is not
  aligned either and the mapping refuses it.
\<close>

theorem unaligned_flush_aborts:
  assumes "mreg_getMapping ptr (h_mappings h) = Inr m" and "m \<noteq> 0"
    and "w_mappings (h_world h) m = Some mp" and "w_drivers (h_world h) (mp_driver mp) = Some d"
    and "ptr - baseAddress mp < W64" and "(ptr - baseAddress mp) mod segmentSize mp \<noteq> 0"
  shows "\<exists>msg. gh_flush sy ptr sz evict sync h = Inl (Fatal msg)"
proof -
  let ?o = "ptr - baseAddress mp"
  let ?S = "if sz = 0 then sz_sub (getAlignedSize mp) ?o else sz"
  obtain n where al: "flush_align ?o ?S (segmentSize mp) = (?o mod segmentSize mp, n)"
    using flush_align_unaligned [OF assms(5,6), of ?S] by (metis prod.collapse)
  have "\<exists>msg. bindE (flush_object sy m (?o mod segmentSize mp) n fl (h_world h)) k = Inl (Fatal msg)"
    for fl and k :: "'a world \<Rightarrow> 'a handler result"
  proof -
    obtain msg where "flush (lib_ops (sy_env sy)) d (?o mod segmentSize mp) n fl mp (w_store (h_world h)) (w_vm (h_world h))
        = Inl (Fatal msg)"
      using flush_refuses [of "?o mod segmentSize mp" mp] assms(6) by (metis mod_mod_trivial)
    then show ?thesis
      using assms(3,4) by (simp add: flush_object_def deref_def)
  qed
  moreover have "find_mapping ptr h = Inr m" and "live_mapping m h = Inr mp"
    using assms(1-3) by (simp_all add: find_mapping_def live_mapping_def deref_def)
  ultimately show ?thesis
    by (simp add: gh_flush_def getAddress_def getSegmentSize_def al Let_def)
qed

theorem unaligned_flush_aborts_witness:
  "\<exists>msg. gh_flush sys0 1048580 4096 False False handler0 = Inl (Fatal msg)"
  by (rule unaligned_flush_aborts [of _ _ 1 map_pol "DMemory drv0"]) (simp_all add: mreg_getMapping_def)

end
