(* ===== verification/RwWrapper.thy ===== *)
theory RwWrapper
  imports GlobalHandler
begin

text \<open>
  The wrappers of \<open>write\<close>, \<open>read\<close>, \<open>fread\<close> and \<open>fwrite\<close>, \<open>src/rw-wrapper/rw-wrapper.cpp\<close>.
  The kernel cannot take a fault of the library inside a system call and reports \<open>EFAULT\<close>; the
  wrapper then touches the pages itself and calls again. The functions of the C library are
  parameters: given the buffer and the size they return the result, \<open>errno\<close> and the state. The
  result of the wrapped stream functions is a signed number here, as in the code; \<open>fread\<close> and
  \<open>fwrite\<close> of a C library return a count of elements, so the branches on -1 are not taken with a
  library that follows its documentation.
\<close>

section \<open>Touching the pages\<close>

datatype errno = EFAULT | EAGAIN | Other_errno

text \<open>The positions touched by the loop, from the last byte downwards.\<close>

function touch_offsets :: "int \<Rightarrow> int list" where
  "touch_offsets i = (if i \<ge> 0 then i # touch_offsets (i - 4096) else [])"
  by pat_completeness auto
termination
  by (relation "measure (\<lambda>i. nat (i + 1))") auto

declare touch_offsets.simps [simp del]

fun touch_list_loop :: "'f sys \<Rightarrow> mapping_ptr \<Rightarrow> addr \<Rightarrow> bool \<Rightarrow> int list \<Rightarrow> 'f world \<Rightarrow> 'f world outcome" where
  "touch_list_loop sy m buf isWrite [] w = returns w"
| "touch_list_loop sy m buf isWrite (i # is) w =
     bindO (onSegmentationFault sy m (buf + nat i) isWrite w) (touch_list_loop sy m buf isWrite is)"

definition ummap_touch ::
  "'f sys \<Rightarrow> mapping_ptr \<Rightarrow> addr \<Rightarrow> size_t \<Rightarrow> bool \<Rightarrow> 'f handler \<Rightarrow> 'f handler outcome" where
  "ummap_touch sy m buf sz isWrite h =
     (if sz = 0 then returns h
      else on_world (bindO (touch_list_loop sy m buf isWrite (touch_offsets (ssize (sz_sub sz 1))) (h_world h))
                       (onSegmentationFault sy m buf isWrite)) h)"

definition policyMaxMemory :: "mapping_ptr \<Rightarrow> 'f handler \<Rightarrow> size_t result" where
  "policyMaxMemory m h =
     bindE (live_mapping m h) (\<lambda>mp.
       bindE (if localPolicy mp \<noteq> 0
              then bindE (deref (w_policies (h_world h)) (localPolicy mp)) (\<lambda>po. Inr (Some (pobj_getStaticMaxMemory po)))
              else Inr None) (\<lambda>lmax.
         bindE (if globalPolicy mp \<noteq> 0
                then bindE (deref (w_policies (h_world h)) (globalPolicy mp)) (\<lambda>po. Inr (Some (pobj_getStaticMaxMemory po)))
                else Inr None) (\<lambda>gmax. Inr (getPolicyMaxMemory lmax gmax))))"

section \<open>System calls\<close>

type_synonym 'f libc_call = "addr \<Rightarrow> size_t \<Rightarrow> 'f handler \<Rightarrow> int \<times> errno \<times> 'f handler"

text \<open>\<open>write\<close> and \<open>read\<close> differ in the access they prepare.\<close>

definition retry_call ::
  "'f libc_call \<Rightarrow> bool \<Rightarrow> 'f sys \<Rightarrow> addr \<Rightarrow> size_t \<Rightarrow> 'f handler \<Rightarrow> (int \<times> 'f handler) outcome" where
  "retry_call libc isWrite sy buffer count h =
     (case libc buffer count h of (res, errno, h1) \<Rightarrow>
        if res = -1 \<and> errno = EFAULT
        then bindO (Some (bindE (getGlobalhandler h1) (gh_getMapping buffer False))) (\<lambda>m.
               if m = 0 then returns (-1, h1)
               else bindO (Some (policyMaxMemory m h1)) (\<lambda>policy_max.
                 let fetch = min count policy_max
                 in bindO (ummap_touch sy m buffer fetch isWrite h1) (\<lambda>h2.
                      case libc buffer count h2 of (res2, errno2, h3) \<Rightarrow> returns (res2, h3))))
        else returns (res, h1))"

definition write_wrapper ::
  "'f libc_call \<Rightarrow> 'f sys \<Rightarrow> addr \<Rightarrow> size_t \<Rightarrow> 'f handler \<Rightarrow> (int \<times> 'f handler) outcome" where
  "write_wrapper libc_write sy buf count h = retry_call libc_write False sy buf count h"

definition read_wrapper ::
  "'f libc_call \<Rightarrow> 'f sys \<Rightarrow> addr \<Rightarrow> size_t \<Rightarrow> 'f handler \<Rightarrow> (int \<times> 'f handler) outcome" where
  "read_wrapper libc_read sy buf count h = retry_call libc_read True sy buf count h"

section \<open>Streams\<close>

type_synonym 'f libc_fcall = "addr \<Rightarrow> size_t \<Rightarrow> size_t \<Rightarrow> 'f handler \<Rightarrow> int \<times> errno \<times> 'f handler"

text \<open>The loop that repeats the call of the C library on \<open>EAGAIN\<close>.\<close>

partial_function (option) again_loop ::
  "'f libc_fcall \<Rightarrow> addr \<Rightarrow> size_t \<Rightarrow> size_t \<Rightarrow> 'f handler \<Rightarrow> (int \<times> errno \<times> 'f handler) option" where
  "again_loop libc ptr sz nmemb h =
     (case libc ptr sz nmemb h of (res, errno, h1) \<Rightarrow>
        if res = -1 \<and> errno = EAGAIN then again_loop libc ptr sz nmemb h1 else Some (res, errno, h1))"

text \<open>
  What is touched before the call is repeated: the mapping, if the buffer is in one, and the
  number of bytes, a multiple of the size of an element.
\<close>

definition fetch_size :: "addr \<Rightarrow> size_t \<Rightarrow> size_t \<Rightarrow> 'f handler \<Rightarrow> (mapping_ptr \<times> size_t) result" where
  "fetch_size buffer sz nmemb h =
     bindE (bindE (getGlobalhandler h) (gh_getMapping buffer False)) (\<lambda>m.
       if m = 0 then Inr (0, 0)
       else bindE (policyMaxMemory m h) (\<lambda>policy_max.
         let fetch = min (sz_mul sz nmemb) policy_max
         in if sz = 0 then Inl (Undefined ''division by zero'')
            else let fetch' = sz_sub fetch (fetch mod sz)
                 in if \<not> fetch' > sz then Inl (Fatal ''Invalid fetch smaller than size'')
                    else Inr (m, fetch')))"

text \<open>
  \<open>repeated\<close> marks the recursive call, which sits in a loop of its own on \<open>EAGAIN\<close>. The result
  of a call is the \<open>ssize_t\<close> value that the caller reads.
\<close>

partial_function (option) fread_wrapper ::
  "'f libc_fcall \<Rightarrow> 'f sys \<Rightarrow> bool \<Rightarrow> addr \<Rightarrow> size_t \<Rightarrow> size_t \<Rightarrow> 'f handler \<Rightarrow> (int \<times> errno \<times> 'f handler) outcome" where
  "fread_wrapper libc_fread sy repeated ptr sz nmemb h =
     bindO
       (case libc_fread ptr sz nmemb h of (res, errno, h1) \<Rightarrow>
          if res = 0 \<or> res = -1 \<and> errno = EFAULT
          then bindO (Some (fetch_size ptr sz nmemb h1)) (\<lambda>(m, fetch).
                 if m = 0 then returns (res, errno, h1)
                 else bindO (ummap_touch sy m ptr fetch True h1) (\<lambda>h2.
                   bindO (map_option Inr (again_loop libc_fread ptr sz (fetch div sz) h2)) (\<lambda>(res2, errno2, h3).
                     if res2 > 0 \<and> res2 < int nmemb
                     then bindO (fread_wrapper libc_fread sy True (ptr + nat res2 * sz) sz (nmemb - nat res2) h3)
                            (\<lambda>(res3, errno3, h4).
                               if \<not> res3 \<ge> 0 then aborts (Fatal ''Invalid status'')
                               else returns (res2 + res3, errno3, h4))
                     else returns (res2, errno2, h3))))
          else returns (res, errno, h1))
       (\<lambda>(res, errno, h').
          if repeated \<and> res = -1 \<and> errno = EAGAIN
          then fread_wrapper libc_fread sy repeated ptr sz nmemb h' else returns (res, errno, h'))"

text \<open>
  \<open>fwrite\<close> repeats itself, not the function of the C library, from \<open>buffer + res * size\<close> with
  \<open>nmemb - res\<close> elements, where \<open>res\<close> is the result of the failed call, -1; all in \<open>size_t\<close>.
  The loop around the second recursive call tests \<open>res\<close>, which is positive, and runs once.
\<close>

partial_function (option) fwrite_wrapper ::
  "'f libc_fcall \<Rightarrow> 'f sys \<Rightarrow> bool \<Rightarrow> addr \<Rightarrow> size_t \<Rightarrow> size_t \<Rightarrow> 'f handler \<Rightarrow> (int \<times> errno \<times> 'f handler) outcome" where
  "fwrite_wrapper libc_fwrite sy repeated ptr sz nmemb h =
     bindO
       (case libc_fwrite ptr sz nmemb h of (res, errno, h1) \<Rightarrow>
          if res = -1 \<and> errno = EFAULT
          then bindO (Some (fetch_size ptr sz nmemb h1)) (\<lambda>(m, fetch).
                 if m = 0 then returns (-1, errno, h1)
                 else bindO (ummap_touch sy m ptr fetch True h1) (\<lambda>h2.
                   bindO (fwrite_wrapper libc_fwrite sy True (sz_sub ptr sz) sz (sz_add nmemb 1) h2) (\<lambda>(res2, errno2, h3).
                     if res2 > 0 \<and> res2 < int nmemb
                     then bindO (fwrite_wrapper libc_fwrite sy False (ptr + nat res2 * sz) sz (nmemb - nat res2) h3)
                            (\<lambda>(res3, errno3, h4).
                               if \<not> res3 \<ge> 0 then aborts (Fatal ''Invalid status'')
                               else returns (res2 + res3, errno3, h4))
                     else returns (res2, errno2, h3))))
          else returns (res, errno, h1))
       (\<lambda>(res, errno, h').
          if repeated \<and> res = -1 \<and> errno = EAGAIN
          then fwrite_wrapper libc_fwrite sy repeated ptr sz nmemb h' else returns (res, errno, h'))"

end
