(* ===== verification/TouchProps.thy ===== *)
theory TouchProps
  imports HandlerProps RwWrapper MappingProps
begin

text \<open>
  The wrappers of system calls: what the touching of a buffer achieves, and what the wrapper of
  \<open>fread\<close> does at the end of a file.
\<close>

section \<open>A fault on a segment\<close>

text \<open>Every byte of a dirty segment can be written.\<close>

definition writable :: "mapping \<Rightarrow> vm \<Rightarrow> bool" where
  "writable m v \<longleftrightarrow>
     (\<forall>y < segments m * segmentSize m. dirty (segmentStatus m ! (y div segmentSize m)) \<longrightarrow> can_write v (baseAddress m + y))"

context storage_calls
begin

lemma fault_same_segment:
  assumes "shape m" and "i < segments m" and "a \<in> seg_addrs m i" and "b \<in> seg_addrs m i"
  shows "onSegmentationFault_cs ops kmmap d b w m s v = onSegmentationFault_cs ops kmmap d a w m s v"
proof -
  have "baseAddress m \<le> c \<and> c < baseAddress m + segments m * segmentSize m \<and> (c - baseAddress m) div segmentSize m = i"
    if c: "c \<in> seg_addrs m i" for c
  proof -
    obtain x where x: "c = baseAddress m + x" "x div segmentSize m = i"
      by (rule segment_address [OF assms(1) c])
    then have "x < segments m * segmentSize m"
      using assms(1,2) div_less_iff_less_mult [of "segmentSize m" x "segments m"] by (simp add: shape_def)
    with x show ?thesis by simp
  qed
  from this [OF assms(3)] this [OF assms(4)] show ?thesis
    by (simp add: onSegmentationFault_cs_def)
qed

text \<open>What a fault does to the statuses and to the access rights of the whole mapping.\<close>

lemma fault_touches:
  assumes ok: "mapping_ok cont m v" and k: "kmmap_ok kmmap"
    and run: "onSegmentationFault_cs ops kmmap d a w m s v = Inr (m', s', v', r)"
  obtains i sts where "i < segments m" and "a \<in> seg_addrs m i" and "m' = m\<lparr>segmentStatus := sts\<rparr>"
    and "mapped (sts ! i)" and "w \<longrightarrow> dirty (sts ! i)" and "\<forall>j. j \<noteq> i \<longrightarrow> sts ! j = segmentStatus m ! j"
    and "\<exists>cont'. mapping_ok cont' m' v'" and "w \<and> writable m v \<longrightarrow> writable m' v'"
proof -
  obtain c where c: "mapping_ok (backing array_content () c m) m v"
    and run': "onSegmentationFault_cs array_ops kmmap () a w m c v = Inr (m', c, v', r)"
    using array_fault [OF ok run] by blast
  obtain i where i: "i < segments m" "a \<in> seg_addrs m i" "mapped (segmentStatus m' ! i)"
    and st: "segment_step array_content {i} () (m, c, v) (m', c, v')"
    by (rule array.fault_step [OF c k run'])
  note sh = mapping_okD(1) [OF ok]
  obtain sts where m': "m' = m\<lparr>segmentStatus := sts\<rparr>" and same: "\<And>j. j \<noteq> i \<Longrightarrow> sts ! j = segmentStatus m ! j"
    using st by (auto simp: segment_step_def)
  have fr: "frame (seg_addrs m i) v v'"
    using st by (simp add: segment_step_def)
  have dt: "dirty (sts ! i)" if w
  proof -
    obtain x where "a = baseAddress m + x" "x div segmentSize m = i"
      by (rule segment_address [OF sh i(2)])
    then have "dirty (segmentStatus m' ! i)"
      using run that i(1) sh by (auto simp: onSegmentationFault_cs_def Let_def shape_def split: if_splits)
    then show ?thesis by (simp add: m')
  qed
  have wr: "writable m' v'" if w "writable m v"
    unfolding writable_def
  proof (intro allI impI)
    fix y assume y: "y < segments m' * segmentSize m'" and d: "dirty (segmentStatus m' ! (y div segmentSize m'))"
    let ?j = "y div segmentSize m"
    have jb: "?j < segments m" "baseAddress m + y \<in> seg_addrs m ?j"
      using y sh by (simp_all add: m' less_mult_imp_div_less)
    show "can_write v' (baseAddress m' + y)"
    proof (cases "?j = i")
      case False
      have "can_write v (baseAddress m + y)"
        using that(2) y d same [OF False] by (simp add: writable_def m')
      moreover have "prot_at v (baseAddress m + y) \<noteq> None"
        using calculation by (auto simp: can_write_def split: option.splits)
      moreover have "baseAddress m + y \<notin> seg_addrs m i"
        using False sh by simp
      ultimately show ?thesis
        using fr by (simp add: frame_def can_write_def m')
    next
      case True
      have run2: "onSegmentationFault_cs ops kmmap d (baseAddress m + y) w m s v = Inr (m', s', v', r)"
        using fault_same_segment [OF sh i(1,2)] jb(2) True run by simp
      show ?thesis
      proof (cases "mapped (segmentStatus m ! i) \<and> dirty (segmentStatus m ! i)")
        case False
        then show ?thesis
          using fault_gives_access(2) [OF ok k jb run2] that(1) True by (simp add: m')
      next
        case early: True
        then have "v' = v"
          using run2 that(1) True by (auto simp: onSegmentationFault_cs_def Let_def split: if_splits)
        then show ?thesis
          using that(2) y early True by (simp add: writable_def m')
      qed
    qed
  qed
  show thesis
    by (rule that [OF i(1,2) m']) (use i(3) m' dt same wr fault_gives_access(3) [OF ok k i(1,2) run] in auto)
qed

end

section \<open>Touching a buffer\<close>

text \<open>
  The state of the mapping \<open>m\<close> while its pages are touched: it differs from \<open>mp\<close> in the statuses
  only, and the segments \<open>T\<close> are in memory, for a write dirty and writable.
\<close>

definition touching :: "mapping_ptr \<Rightarrow> mapping \<Rightarrow> 'f lib_driver \<Rightarrow> bool \<Rightarrow> nat set \<Rightarrow> 'f world \<Rightarrow> bool" where
  "touching m mp d wr T w \<longleftrightarrow>
     w_drivers w (mp_driver mp) = Some d \<and> T \<subseteq> {..<segments mp} \<and>
     (\<exists>sts cont. w_mappings w m = Some (mp\<lparr>segmentStatus := sts\<rparr>) \<and> mapping_ok cont (mp\<lparr>segmentStatus := sts\<rparr>) (w_vm w) \<and>
        (\<forall>i \<in> T. mapped (sts ! i) \<and> (wr \<longrightarrow> dirty (sts ! i))) \<and> (wr \<longrightarrow> writable (mp\<lparr>segmentStatus := sts\<rparr>) (w_vm w)))"

lemma touching_step:
  assumes env: "env_ok (sy_env sy) wc" and soft: "soft_driver d" and k: "kmmap_ok (sy_kmmap sy)"
    and pol: "localPolicy mp = 0" "globalPolicy mp = 0"
    and t: "touching m mp d wr T w" and run: "onSegmentationFault sy m a wr w = returns w'"
  shows "touching m mp d wr (insert ((a - baseAddress mp) div segmentSize mp) T) w'" and "baseAddress mp \<le> a"
proof -
  obtain sts cont where mp: "w_mappings w m = Some (mp\<lparr>segmentStatus := sts\<rparr>)" and dr: "w_drivers w (mp_driver mp) = Some d"
    and ok: "mapping_ok cont (mp\<lparr>segmentStatus := sts\<rparr>) (w_vm w)"
    and T: "\<forall>i \<in> T. mapped (sts ! i) \<and> (wr \<longrightarrow> dirty (sts ! i))" "T \<subseteq> {..<segments mp}" and wrt: "wr \<longrightarrow> writable (mp\<lparr>segmentStatus := sts\<rparr>) (w_vm w)"
    using t unfolding touching_def by blast
  let ?m = "mp\<lparr>segmentStatus := sts\<rparr>"
  obtain m' s' v' r where f: "onSegmentationFault_cs (lib_ops (sy_env sy)) (sy_kmmap sy) d a wr ?m (w_store w) (w_vm w) = Inr (m', s', v', r)"
  proof (cases "onSegmentationFault_cs (lib_ops (sy_env sy)) (sy_kmmap sy) d a wr ?m (w_store w) (w_vm w)")
    case (Inl e)
    with run mp dr show thesis by (simp add: onSegmentationFault_def deref_def)
  qed (metis prod_cases4 that)
  obtain i sts' where i: "i < segments ?m" "a \<in> seg_addrs ?m i" and m': "m' = ?m\<lparr>segmentStatus := sts'\<rparr>"
    and s: "mapped (sts' ! i)" "wr \<longrightarrow> dirty (sts' ! i)" "\<forall>j. j \<noteq> i \<longrightarrow> sts' ! j = segmentStatus ?m ! j"
    and ok': "\<exists>cont'. mapping_ok cont' m' v'" and wrt': "wr \<and> writable ?m (w_vm w) \<longrightarrow> writable m' v'"
    by (rule storage_calls.fault_touches [OF lib_storage_calls [OF env soft] ok k f])
  have "w' = put_effects s' v' (put_mapping m m' w)"
    using run f pol mp dr by (cases r) (simp_all add: onSegmentationFault_def deref_def m' case_prod_unfold)
  moreover obtain x where x: "a = baseAddress ?m + x" "x div segmentSize ?m = i"
    by (rule segment_address [OF mapping_okD(1) [OF ok] i(2)])
  then have "(a - baseAddress mp) div segmentSize mp = i"
    by simp
  moreover have "\<forall>j \<in> insert i T. mapped (sts' ! j) \<and> (wr \<longrightarrow> dirty (sts' ! j))"
  proof
    fix j assume "j \<in> insert i T"
    then show "mapped (sts' ! j) \<and> (wr \<longrightarrow> dirty (sts' ! j))"
      using T(1) s by (cases "j = i") auto
  qed
  ultimately show "touching m mp d wr (insert ((a - baseAddress mp) div segmentSize mp) T) w'"
    using ok' wrt wrt' dr i(1) T(2) unfolding touching_def m' by (auto simp: put_effects_def put_mapping_def)
  show "baseAddress mp \<le> a"
    using x by simp
qed

lemma touching_loop:
  assumes "env_ok (sy_env sy) wc" and "soft_driver d" and "kmmap_ok (sy_kmmap sy)"
    and "localPolicy mp = 0" and "globalPolicy mp = 0"
    and "touching m mp d wr T w" and "touch_list_loop sy m buf wr is w = returns w'"
  shows "touching m mp d wr (T \<union> (\<lambda>i. (buf + nat i - baseAddress mp) div segmentSize mp) ` set is) w'"
  using assms(6,7)
proof (induction "is" arbitrary: T w)
  case (Cons i "is")
  obtain w1 where one: "onSegmentationFault sy m (buf + nat i) wr w = returns w1" and rest: "touch_list_loop sy m buf wr is w1 = returns w'"
    using Cons.prems(2) by auto
  from Cons.IH [OF touching_step(1) [OF assms(1-5) Cons.prems(1) one] rest] show ?case
    by simp
qed simp

text \<open>A page of the buffer that is touched: the offset is one of the loop or the first byte.\<close>

lemma in_touch_offsets: "i \<in> set (touch_offsets k) \<longleftrightarrow> 0 \<le> i \<and> (\<exists>j::nat. i = k - 4096 * int j)"
proof (induction k rule: touch_offsets.induct)
  case (1 k)
  show ?case
  proof (cases "k \<ge> 0")
    case True
    have "(\<exists>j::nat. i = k - 4096 * int j) \<longleftrightarrow> i = k \<or> (\<exists>j::nat. i = k - 4096 - 4096 * int j)"
    proof
      assume "\<exists>j::nat. i = k - 4096 * int j"
      then obtain j where j: "i = k - 4096 * int j" ..
      then show "i = k \<or> (\<exists>j::nat. i = k - 4096 - 4096 * int j)"
        by (cases j) auto
    next
      assume "i = k \<or> (\<exists>j::nat. i = k - 4096 - 4096 * int j)"
      then show "\<exists>j::nat. i = k - 4096 * int j"
        by (auto intro: exI [of _ 0] exI [of _ "Suc _"])
    qed
    then show ?thesis
      using True 1 by (subst touch_offsets.simps) auto
  next
    case False
    then show ?thesis by (subst touch_offsets.simps) auto
  qed
qed

lemma page_touched:
  assumes "x < sz"
  obtains i where "i \<in> set (touch_offsets (int (sz - 1))) \<union> {0}" and "0 \<le> i" and "i < int sz"
    and "(buf + nat i) div 4096 = (buf + x) div 4096"
proof -
  define j where "j = (sz - 1 - x) div 4096"
  define y where "y = sz - 1 - 4096 * j"
  have "4096 * j \<le> sz - 1 - x" and "sz - 1 - x < 4096 * j + 4096"
    by (simp_all add: j_def)
  then have y: "x \<le> y" "y < x + 4096" "y < sz" "int y = int (sz - 1) - 4096 * int j"
    using assms by (auto simp: y_def)
  define P where "P = (buf + x) div 4096"
  have P: "4096 * P \<le> buf + x" "buf + x < 4096 * P + 4096"
    by (simp_all add: P_def)
  have page: "z div 4096 = P" if "4096 * P \<le> z" "z < 4096 * P + 4096" for z
    using that by (intro div_nat_eqI) simp_all
  consider (same) "buf + y < 4096 * P + 4096" | (next_page) "4096 * P + 4096 \<le> buf + y" "4096 \<le> y"
    | (first) "4096 * P + 4096 \<le> buf + y" "y < 4096"
    by linarith
  then show thesis
  proof cases
    case same
    then have "(buf + y) div 4096 = P"
      using P y by (intro page) linarith+
    then show thesis
      using y by (intro that [of "int y"]) (auto simp: in_touch_offsets P_def)
  next
    case next_page
    then have "(buf + (y - 4096)) div 4096 = P"
      using P y by (intro page) linarith+
    moreover have "int (y - 4096) = int (sz - 1) - 4096 * int (Suc j)"
      using y(4) next_page by simp
    then have "int (y - 4096) \<in> set (touch_offsets (int (sz - 1)))"
      unfolding in_touch_offsets by (intro conjI exI [of _ "Suc j"]) simp_all
    ultimately show thesis
      using y by (intro that [of "int (y - 4096)"]) (auto simp: P_def)
  next
    case first
    then have "(buf + 0) div 4096 = P"
      using P y by (intro page) linarith+
    then show thesis
      using assms by (intro that [of 0]) (auto simp: P_def)
  qed
qed


text \<open>Two addresses on the same page are in the same segment.\<close>

lemma same_page_segment:
  assumes "shape m" and "baseAddress m \<le> buf" and "(buf + i) div 4096 = (buf + x) div 4096"
  shows "(buf + i - baseAddress m) div segmentSize m = (buf + x - baseAddress m) div segmentSize m"
proof -
  obtain b g where b: "baseAddress m = 4096 * b" and g: "segmentSize m = 4096 * g"
    using assms(1) by (auto simp: shape_def mod_eq_0_iff_dvd elim!: dvdE)
  have "(c - 4096 * b) div (4096 * g) = (c div 4096 - b) div g" if "4096 * b \<le> c" for c
    using that div_mult_self4 [of 4096 b "c - 4096 * b"] by (auto simp: div_mult2_eq le_iff_add)
  then show ?thesis
    using assms(2,3) by (simp add: b g)
qed

text \<open>
  C16. What the touching of a buffer achieves: when \<open>ummap_touch\<close> returns for a buffer in a mapping
  that no policy can evict from, every byte of the buffer can be read, and for a write every byte
  can be written, provided the dirty segments could be written before. The loop visits every
  4096th byte from the last one down, which may miss the page of the first byte; the touch after
  the loop makes up for it.
\<close>

theorem touch_gives_access:
  assumes "env_ok (sy_env sy) wc" and "kmmap_ok (sy_kmmap sy)"
    and "w_mappings (h_world h) m = Some mp" and "w_drivers (h_world h) (mp_driver mp) = Some d" and "soft_driver d"
    and "localPolicy mp = 0" and "globalPolicy mp = 0" and "mapping_ok cont mp (w_vm (h_world h))"
    and "wr \<longrightarrow> writable mp (w_vm (h_world h))" and "sz \<le> 2 ^ 63"
    and "ummap_touch sy m buf sz wr h = returns h'" and "x < sz"
  shows "can_read (w_vm (h_world h')) (buf + x) \<and> (wr \<longrightarrow> can_write (w_vm (h_world h')) (buf + x))"
proof -
  let ?seg = "\<lambda>a. (a - baseAddress mp) div segmentSize mp"
  have k: "ssize (sz_sub sz 1) = int (sz - 1)"
    using assms(10,12) by (simp add: ssize_def)
  obtain w1 w2 where loop: "touch_list_loop sy m buf wr (touch_offsets (int (sz - 1))) (h_world h) = returns w1"
    and last: "onSegmentationFault sy m buf wr w1 = returns w2" and h': "h' = h\<lparr>h_world := w2\<rparr>"
    using assms(11,12) unfolding ummap_touch_def on_world_def k by auto
  have "touching m mp d wr {} (h_world h)"
    using assms(3,4,8,9) unfolding touching_def by (auto intro!: exI [of _ "segmentStatus mp"])
  note step = touching_step [OF assms(1,5,2,6,7) touching_loop [OF assms(1,5,2,6,7) this loop] last]
  then have t: "touching m mp d wr (insert (?seg buf) ((\<lambda>i. ?seg (buf + nat i)) ` set (touch_offsets (int (sz - 1))))) w2"
    by simp
  obtain i where i: "i \<in> set (touch_offsets (int (sz - 1))) \<union> {0}" and page: "(buf + nat i) div 4096 = (buf + x) div 4096"
    by (rule page_touched [OF assms(12)])
  have same: "?seg (buf + nat i) = ?seg (buf + x)"
    using same_page_segment [OF mapping_okD(1) [OF assms(8)] step(2) page] .
  have T: "?seg (buf + x) \<in> insert (?seg buf) ((\<lambda>i. ?seg (buf + nat i)) ` set (touch_offsets (int (sz - 1))))"
    using i same imageI [of i "set (touch_offsets (int (sz - 1)))" "\<lambda>i. ?seg (buf + nat i)"] by auto
  obtain sts cont' where ok: "mapping_ok cont' (mp\<lparr>segmentStatus := sts\<rparr>) (w_vm w2)" and seg: "?seg (buf + x) < segments mp"
    and st: "mapped (sts ! ?seg (buf + x))" "wr \<longrightarrow> dirty (sts ! ?seg (buf + x))"
    and wrt: "wr \<longrightarrow> writable (mp\<lparr>segmentStatus := sts\<rparr>) (w_vm w2)"
    using t T unfolding touching_def by blast
  let ?y = "buf + x - baseAddress mp"
  have y: "buf + x = baseAddress mp + ?y"
    using step(2) by simp
  have "byte_ok cont' (mp\<lparr>segmentStatus := sts\<rparr>) (w_vm w2) (sts ! ?seg (buf + x)) ?y"
    using seg_okD(2) [OF mapping_okD(2) [OF ok], of "?seg (buf + x)" ?y] seg by simp
  then have "can_read (w_vm w2) (buf + x)"
    using st(1) y by (auto simp: byte_ok_def can_read_def)
  moreover have "?y < segments mp * segmentSize mp"
    using seg mapping_okD(1) [OF ok] div_less_iff_less_mult [of "segmentSize mp" ?y "segments mp"] by (simp add: shape_def)
  then have "wr \<longrightarrow> can_write (w_vm w2) (buf + x)"
    using st(2) wrt y by (auto simp: writable_def)
  ultimately show ?thesis by (simp add: h')
qed

text \<open>A mapping without policy and a buffer of eight bytes, four in each of its two segments.\<close>

definition plain_handler :: "outside_state handler" where
  "plain_handler = handler0\<lparr>h_world := world0\<lparr>w_mappings := [1 \<mapsto> map0]\<rparr>\<rparr>"

lemma plain_first:
  "onSegmentationFault sys0 1 1052675 True (h_world plain_handler) =
     returns (put_effects store0 vm2 (put_mapping 1 map1 (h_world plain_handler)))"
proof -
  have "onSegmentationFault_cs (lib_ops ram_env) first_fit (DMemory drv0) 1052675 True map0 store0 vm1 =
      Inr (map1, store0, vm2, Some (1, \<lparr>mapped = False, dirty = False, needRead = True\<rparr>))"
    using fault1 storage_calls.fault_same_segment [OF lib_storage_calls [OF ram_env_ok], of "DMemory drv0" map0 1 1052676 1052675]
    by (simp add: seg_addrs_def in_range_def shape_def)
  then show ?thesis
    by (simp add: onSegmentationFault_def deref_def plain_handler_def map1_def)
qed

lemma plain_second:
  "\<exists>w'. onSegmentationFault sys0 1 1052668 True (put_effects store0 vm2 (put_mapping 1 map1 (h_world plain_handler))) = returns w'"
proof -
  have rd: "\<exists>r buf' s'. 0 \<le> r \<and> d_pread (lib_ops ram_env) (DMemory drv0) ptr buf (readWriteSize (j * segmentSize map1) map1)
      (storageOffset map1 + j * segmentSize map1) store0 = Inr (r, buf', s')" if "ptr \<noteq> 0" "j < segments map1" for ptr buf j
    using that
    by (auto simp: map1_def less_2_cases_iff readWriteSize_def lib_ops_def lib_pread_def lib_plumbing memory_pread_def drv0_def
        store0_def mem0_def driver.defs)
  have mem: "threadSafe map1 \<longrightarrow> first_fit vm2 0 (segmentSize map1) \<noteq> None"
    by (simp add: first_fit_def free_pages_def vm2_def vm1_def vm0_def sys_map_def sys_mremap_def store_buf_def in_pages_def)
  obtain i where "segment_step (lib_content ram_content) {i} (DMemory drv0) (map0, store0, vm1) (map1, store0, vm2)"
    by (rule storage_driver.fault_step [OF ram_whole map0_ok first_fit_ok fault1])
  note ok = segment_step_ok(1) [OF this]
  have side: "baseAddress map1 \<le> 1052668" "1052668 < baseAddress map1 + segments map1 * segmentSize map1" "protection map1 \<noteq> 0"
    "True \<longrightarrow> has_flag (protection map1) PROT_WRITE" "soft_driver (DMemory drv0)"
    by (simp_all add: has_flag_def)
  obtain m' s' v' r where f: "onSegmentationFault_cs (lib_ops ram_env) first_fit (DMemory drv0) 1052668 True map1 store0 vm2 = Inr (m', s', v', r)"
    using storage_calls.fault_returns [OF lib_storage_calls [OF ram_env_ok side(5)] ok side(1-4) first_fit_ok mem rd] by blast
  have "localPolicy m' = 0" "globalPolicy m' = 0"
    by (rule fault_status [OF mapping_okD(1) [OF ok] f]; simp add: map1_def)+
  with f show ?thesis
    by (cases r) (simp_all add: onSegmentationFault_def deref_def plain_handler_def map1_def put_effects_def put_mapping_def case_prod_unfold)
qed

theorem touch_gives_access_witness:
  "\<exists>h'. ummap_touch sys0 1 1052668 8 True plain_handler = returns h' \<and>
     can_write (w_vm (h_world h')) (1052668 + 0) \<and> can_write (w_vm (h_world h')) (1052668 + 7)"
proof -
  have off: "touch_offsets (ssize (sz_sub 8 1)) = [7]"
    by (simp add: ssize_def touch_offsets.simps)
  obtain w' where "onSegmentationFault sys0 1 1052668 True (put_effects store0 vm2 (put_mapping 1 map1 (h_world plain_handler))) = returns w'"
    using plain_second by blast
  then have run: "ummap_touch sys0 1 1052668 8 True plain_handler = returns (plain_handler\<lparr>h_world := w'\<rparr>)"
    using plain_first unfolding ummap_touch_def off by (simp add: on_world_def)
  have side: "env_ok (sy_env sys0) ram_content" "kmmap_ok (sy_kmmap sys0)" "w_mappings (h_world plain_handler) 1 = Some map0"
    "w_drivers (h_world plain_handler) (mp_driver map0) = Some (DMemory drv0)" "soft_driver (DMemory drv0)"
    "localPolicy map0 = 0" "globalPolicy map0 = 0"
    "mapping_ok (backing (lib_content ram_content) (DMemory drv0) store0 map0) map0 (w_vm (h_world plain_handler))"
    "True \<longrightarrow> writable map0 (w_vm (h_world plain_handler))" "8 \<le> (2 :: nat) ^ 63"
    using ram_env_ok first_fit_ok map0_ok
    by (simp_all add: plain_handler_def writable_def less_mult_imp_div_less nth_replicate)
  from touch_gives_access [OF side run, of 0] touch_gives_access [OF side run, of 7] run show ?thesis by auto
qed

section \<open>Streams\<close>

text \<open>
  C35. Reading a single element through the wrapper of \<open>fread\<close> into a mapping aborts at the end of
  the file: the C library reports zero elements, the wrapper takes this for a buffer that has to
  be loaded, and the number of bytes it would prepare is at most the size of one element while it
  requires more.
\<close>

theorem fread_end_of_file_aborts:
  assumes "h_live h1" and "ptr \<noteq> 0" and "mreg_getMapping ptr (h_mappings h1) = Inr m" and "m \<noteq> 0"
    and "policyMaxMemory m h1 = Inr n" and "0 < sz" and "sz < W64"
    and "libc ptr sz 1 h = (0, err, h1)"
  shows "fread_wrapper libc sy repeated ptr sz 1 h = aborts (Fatal ''Invalid fetch smaller than size'')"
proof -
  have "sz_sub (min sz n) (min sz n mod sz) \<le> sz"
  proof -
    have "min sz n < W64"
      using assms(7) by simp
    then have "sz_sub (min sz n) (min sz n mod sz) = min sz n - min sz n mod sz"
      by (intro sz_sub_exact mod_less_eq_dividend)
    then show ?thesis by simp
  qed
  then have "fetch_size ptr sz 1 h1 = Inl (Fatal ''Invalid fetch smaller than size'')"
    using assms(1-7) by (simp add: fetch_size_def getGlobalhandler_def gh_getMapping_def Let_def)
  then show ?thesis
    using assms(8) by (subst fread_wrapper.simps) simp
qed

theorem fread_end_of_file_aborts_witness:
  "fread_wrapper (\<lambda>p s n h. (0, Other_errno, h)) sys0 False 1052676 8 1 handler0 =
     aborts (Fatal ''Invalid fetch smaller than size'')"
proof -
  have "staticMaxMemory fifo0 = 4096"
    by (simp add: fifo0_def fifo_allocateElementStorage_def registerMapping_def checkHasEnoughMem_def
        newFifoPolicy_def Let_def seg0_def)
  then have max: "policyMaxMemory 1 handler0 = Inr 4096"
    by (simp add: policyMaxMemory_def live_mapping_def deref_def pobj_getStaticMaxMemory_def getStaticMaxMemory_def
        getPolicyMaxMemory_def)
  show ?thesis
    by (rule fread_end_of_file_aborts [OF _ _ _ _ max]) (simp_all add: mreg_getMapping_def)
qed

end
