(* ===== verification/PolicyProps.thy ===== *)
theory PolicyProps
  imports Eviction PolicyHistory
begin

text \<open>
  The touch of a segment that is larger than the limit of its policy, in which the FIFO and
  the LIFO policy differ.
\<close>

lemma evict_loop_spins:
  assumes "tracking segSize p as c" and "c > dynamicMaxMemory p" and "length ids + length as < maxIdsToEvict"
  shows "evict_loop segSize p ids = None"
  using assms
proof (induction as arbitrary: p ids rule: rev_induct)
  case Nil
  then have "currentMemory p > dynamicMaxMemory p" and "isAlone (elts p) (root p)"
    by (simp_all add: tracking_def)
  then show ?case by (simp add: evict_loop_stuck)
next
  case (snoc e as)
  let ?f = "eltSize segSize (storageRegistry p)"
  let ?h = "removeFromList e (elts p)"
  let ?q = "p\<lparr>elts := ?h, currentMemory := sz_sub (currentMemory p) (?f e)\<rparr>"
  obtain st i where st: "st \<in> set (storageRegistry p)" "i < ps_elementCount st" "e = elt st i"
    using tracking_elt [OF snoc.prems(1), of e] by auto
  note ok = trackingD(1) [OF snoc.prems(1)]
  have own: "owner (storageRegistry p) e = (ps_mapping st, i)"
    and info: "getStorageInfo_entry e p = Inr st"
    using st owner_elt [OF ok] getStorageInfo_entry_elt [OF ok] by simp_all
  have idx: "(e - ps_elements st) div sizeof_ListElement = i"
    using st(3) by (simp add: elt_def)
  have over: "currentMemory p > dynamicMaxMemory p"
    using trackingD(4) [OF snoc.prems(1)] snoc.prems(2) by simp
  have "tracking segSize (p\<lparr>elts := ?h\<rparr>) (as @ []) (?f e + c)"
    using tracking_unlink [of segSize p as e "[]" c] snoc.prems(1) by simp
  then have "tracking segSize ?q as c"
    using tracking_counted by fastforce
  from snoc.IH [OF this, of "ids @ [(ps_mapping st, i)]"] snoc.prems(2,3)
  have "evict_loop segSize ?q (ids @ [(ps_mapping st, i)]) = None"
    by simp
  then show ?case
    using over popPrev_ring [OF trackingD(2) [OF snoc.prems(1)]] info own snoc.prems(3)
    by (subst evict_loop.simps) (simp add: idx eltSize_def)
qed

text \<open>
  C36. A touch of a segment that is larger than the dynamic limit of a LIFO policy, as a quota
  with a small share can set it, never returns: the policy evicts everything else and then
  spins on the empty list. The FIFO policy hands the touched segment itself over for eviction
  in the same situation and returns.
\<close>

theorem oversized_touch:
  assumes "tracks segSize p ts" and "usable p" and "(m, i) \<in> segs (storageRegistry p)"
    and "currentMemory p + segSize m < W64" and "segSize m > dynamicMaxMemory p" and "Suc (length ts) < maxIdsToEvict"
  shows "lifo_notifyTouch_cs segSize m i p = None \<and>
    (\<exists>p' ids first orig. fifo_notifyTouch_cs segSize m i p = returns (p', ids, first, orig) \<and> (m, i) \<in> set ids)"
proof
  obtain h n e as where cs: "lifo_notifyTouch_cs segSize m i p =
      bindO (evict_loop segSize (p\<lparr>elts := h, currentMemory := n\<rparr>) [])
      (\<lambda>(p3, ids). case insertBefore (root p3) e (elts p3) of
          Inl err \<Rightarrow> aborts err
        | Inr h' \<Rightarrow> returns (p3\<lparr>elts := h'\<rparr>, ids, False, currentMemory p))"
    and as: "tracking segSize (p\<lparr>elts := h, currentMemory := n\<rparr>) as (segSize m)"
      "map (owner (storageRegistry p)) as = remove1 (m, i) ts"
    by (rule lifo_notifyTouch_unlinked [OF assms(1-4)])
  have "length as \<le> length ts"
    using arg_cong [OF as(2), of length] by (auto simp: length_remove1)
  then have "evict_loop segSize (p\<lparr>elts := h, currentMemory := n\<rparr>) [] = None"
    using assms(5,6) by (intro evict_loop_spins [OF as(1)]) simp_all
  then show "lifo_notifyTouch_cs segSize m i p = None"
    by (simp add: cs bindO_def)
next
  let ?l = "touch_list (m, i) ts" and ?f = "segSize \<circ> fst" and ?lim = "dynamicMaxMemory p"
  have len: "length ?l \<le> Suc (length ts)"
    by (auto simp: touch_list_def length_remove1)
  have "kept ?f ?lim ?l = []"
  proof (rule ccontr)
    assume ne: "kept ?f ?lim ?l \<noteq> []"
    have "kept ?f ?lim ?l @ rev (dropped ?f ?lim ?l) = (m, i) # remove1 (m, i) ts"
      using kept_append_dropped [of ?f ?lim ?l] by (simp add: touch_list_def)
    then have "(m, i) \<in> set (kept ?f ?lim ?l)"
      using ne by (cases "kept ?f ?lim ?l") auto
    then have "?f (m, i) \<le> sum_list (map ?f (kept ?f ?lim ?l))"
      by (intro member_le_sum_list) (auto intro!: rev_image_eqI)
    then show False
      using kept_weight [of ?f ?lim ?l] ne assms(5) by simp
  qed
  then have d: "dropped ?f ?lim ?l = rev ?l"
    using kept_append_dropped [of ?f ?lim ?l] by (metis append_Nil rev_rev_ident)
  then have "length (dropped ?f ?lim ?l) < maxIdsToEvict"
    using len assms(6) by simp
  from fifo_notifyTouch_cs_correct [OF assms(1-4) this]
  show "\<exists>p' ids first orig. fifo_notifyTouch_cs segSize m i p = returns (p', ids, first, orig) \<and> (m, i) \<in> set ids"
    unfolding d by (auto simp: touch_list_def)
qed

text \<open>A policy whose limit was lowered below the segment size by its quota.\<close>

theorem oversized_touch_witness:
  "\<exists>p. pol_run (fifo_notifyTouch_cs (\<lambda>m. 4)) (\<lambda>m. 4) [Alloc 1 2, Touch 1 1, Shrink 2] (newFifoPolicy 8 16 False) =
      returns (p, [(1, 1)]) \<and>
    lifo_notifyTouch_cs (\<lambda>m. 4) 1 0 p = None \<and>
    (\<exists>p' ids first orig. fifo_notifyTouch_cs (\<lambda>m. 4) 1 0 p = returns (p', ids, first, orig) \<and> (1, 0) \<in> set ids)"
proof -
  let ?q = "\<lparr>q_local = False, q_static = 16, q_limit = 2, q_maps = [(1, 2)], q_segs = []\<rparr>"
  have run: "queue_run (fifo_order (\<lambda>m. 4)) (\<lambda>m. 4) [Alloc 1 2, Touch 1 1, Shrink 2] (new_queue 16 False) =
      Some (?q, [(1, 1)])"
    by (simp add: queue_eval)
  obtain p where p: "pol_run (fifo_notifyTouch_cs (\<lambda>m. 4)) (\<lambda>m. 4) [Alloc 1 2, Touch 1 1, Shrink 2] (newFifoPolicy 8 16 False) =
      returns (p, [(1, 1)])" "stands_for (\<lambda>m. 4) p ?q"
    using fifo_touch.run_correct [OF newFifoPolicy_stands_for run, of 8] by blast
  note d = stands_forD [OF p(2)]
  have seg: "(1, 0) \<in> segs (storageRegistry p)"
    using d(5) [of 1 0] by simp
  show ?thesis
    using p(1) oversized_touch [OF d(1,2) seg] d(4,8) by simp
qed

end
