(* ===== verification/DriverProps.thy ===== *)
theory DriverProps
  imports ClovisDriver InterProc MemoryDriver Drivers
begin

text \<open>
  Properties of single components below the mapping: the transfers of the Mero driver, the
  life of a shared memory buffer and the table of the inter-process quota.
\<close>

section \<open>Transfers of the Mero driver\<close>

text \<open>
  The promise of a vectored write of the object store: a write that returns 0 puts the unit of
  every extent at its place, when the extents do not overlap, and changes nothing else of the
  object. It is made of the operations of the Motr library.
\<close>

definition in_extent :: "nat \<times> size_t \<Rightarrow> nat \<Rightarrow> bool" where
  "in_extent e y \<longleftrightarrow> fst e \<le> y \<and> y < fst e + snd e"

definition vector_write_ok :: "'s mero \<Rightarrow> (int \<times> int \<Rightarrow> 's \<Rightarrow> nat \<Rightarrow> byte) \<Rightarrow> bool" where
  "vector_write_ok mero ocontent \<longleftrightarrow>
     (\<forall>obj ext units s s'. mero_write mero obj ext units s = (0, s') \<longrightarrow>
        (\<forall>i j y. i < length ext \<longrightarrow> j < length ext \<longrightarrow> in_extent (ext ! i) y \<longrightarrow> in_extent (ext ! j) y \<longrightarrow> i = j) \<longrightarrow>
        (\<forall>y i. i < length ext \<longrightarrow> in_extent (ext ! i) y \<longrightarrow> ocontent obj s' y = units i (y - fst (ext ! i))) \<and>
        (\<forall>y. (\<forall>i < length ext. \<not> in_extent (ext ! i) y) \<longrightarrow> ocontent obj s' y = ocontent obj s y))"

lemma in_unit:
  assumes "0 < du"
  shows "in_extent (l + i * du, du) y \<longleftrightarrow> l \<le> y \<and> (y - l) div du = i"
proof -
  have "l + i * du \<le> y \<and> y < l + i * du + du \<longleftrightarrow> l \<le> y \<and> i * du \<le> y - l \<and> y - l < Suc i * du"
    by auto
  also have "\<dots> \<longleftrightarrow> l \<le> y \<and> (y - l) div du = i"
    using assms dividend_less_times_div [of du "y - l"] div_times_less_eq_dividend [of "y - l" du]
    by (auto simp: div_nat_eqI mult.commute)
  finally show ?thesis by (simp add: in_extent_def)
qed

lemma vector_write_units:
  assumes ok: "vector_write_ok mero ocontent" and du: "0 < du"
    and wr: "mero_write mero obj (map (\<lambda>i. (l + i * du, du)) [0..<b]) units s = (0, s')"
  shows "ocontent obj s' y = (if l \<le> y \<and> y < l + b * du then units ((y - l) div du) ((y - l) mod du) else ocontent obj s y)"
proof -
  let ?ext = "map (\<lambda>i. (l + i * du, du)) [0..<b]"
  have inx: "in_extent (?ext ! i) y \<longleftrightarrow> l \<le> y \<and> (y - l) div du = i" if "i < length ?ext" for i y
    using that in_unit [OF du] by simp
  have w: "(\<forall>y i. i < length ?ext \<longrightarrow> in_extent (?ext ! i) y \<longrightarrow> ocontent obj s' y = units i (y - fst (?ext ! i))) \<and>
      (\<forall>y. (\<forall>i < length ?ext. \<not> in_extent (?ext ! i) y) \<longrightarrow> ocontent obj s' y = ocontent obj s y)"
  proof -
    have "\<forall>i j y. i < length ?ext \<longrightarrow> j < length ?ext \<longrightarrow> in_extent (?ext ! i) y \<longrightarrow> in_extent (?ext ! j) y \<longrightarrow> i = j"
      using inx by metis
    with ok wr show ?thesis
      unfolding vector_write_ok_def by presburger
  qed
  have iff: "(y - l) div du < b \<longleftrightarrow> y - l < b * du"
    by (rule div_less_iff_less_mult [OF du])
  show ?thesis
  proof (cases "l \<le> y \<and> y < l + b * du")
    case True
    then have q: "(y - l) div du < b"
      using iff by linarith
    have "y - fst (?ext ! ((y - l) div du)) = (y - l) mod du"
      using q True by (simp add: minus_div_mult_eq_mod [symmetric])
    with w inx [of "(y - l) div du" y] q True show ?thesis by simp
  next
    case False
    then have "\<forall>i < length ?ext. \<not> in_extent (?ext ! i) y"
      using inx iff by auto
    with w have "ocontent obj s' y = ocontent obj s y"
      by blast
    then show ?thesis
      unfolding if_not_P [OF False] .
  qed
qed

text \<open>The sizes the driver transfers in the right order: one operation, or full operations only.\<close>

definition clovis_size_ok :: "size_t \<Rightarrow> size_t \<Rightarrow> bool" where
  "clovis_size_ok du sz \<longleftrightarrow> 0 < sz \<and> (sz \<le> 50 * du \<or> 50 * du dvd sz)"

lemma total_blocks_ok:
  assumes "total_blocks du sz = Inr (du', blocks)" and "clovis_size_ok du sz" and "sz < 2147483648"
  shows "0 < du'" and "blocks * du' = sz" and "50 dvd blocks \<or> (0::nat) = 0 \<and> blocks \<le> 50"
proof -
  have "sz div du < 2147483648"
    using assms(3) div_le_dividend le_less_trans by blast
  then have id: "nat (int32 (int (sz div du))) = sz div du"
    by (simp add: int32_id)
  have du: "0 < du" and bl: "if du > sz then du' = sz \<and> blocks = 1 else du' = du \<and> sz mod du = 0 \<and> blocks = sz div du"
    using assms(1) id by (auto simp: total_blocks_def split: if_splits)
  show "0 < du'" and "blocks * du' = sz"
    using du bl assms(2) by (auto simp: clovis_size_ok_def split: if_splits)
  show "50 dvd blocks \<or> (0::nat) = 0 \<and> blocks \<le> 50"
  proof (cases "du > sz")
    case False
    have "blocks \<le> 50" if "sz \<le> 50 * du"
      using that bl False div_le_mono [OF that, of du] du by simp
    moreover have "50 dvd blocks" if "50 * du dvd sz"
      using that bl False du by auto
    ultimately show ?thesis
      using assms(2) by (auto simp: clovis_size_ok_def)
  qed (use bl in simp)
qed

text \<open>Such a read returns the bytes of the object.\<close>

lemma clovis_pread_correct:
  assumes "mero_read_ok mero ocontent" and "clovis_size_ok (mero_unit_size mero s) sz" and "offset + sz < 2147483648"
    and "clovis_pread mero d p old sz offset s = Inr (r, buf, s')" and "0 \<le> r"
  shows "r = int sz" and "ocontent (obj_hi d, obj_lo d) s' = ocontent (obj_hi d, obj_lo d) s"
    and "k < sz \<Longrightarrow> buf k = ocontent (obj_hi d, obj_lo d) s (offset + k)"
proof -
  let ?obj = "(obj_hi d, obj_lo d)"
  have off: "int32 (int offset) = int (offset + 0 * 50 * du)" for du
    using assms(3) by (simp add: int32_id)
  have ss: "ssize sz = int sz"
    using assms(3) by (simp add: ssize_def)
  obtain du blocks where tb: "total_blocks (mero_unit_size mero s) sz = Inr (du, blocks)"
    using assms(4) by (auto simp: clovis_pread_def bindE_eq_Inr split: if_splits)
  obtain ret where "clovis_read_loop mero ?obj du blocks (int (offset + 0 * 50 * du)) 0 old s = (ret, buf, s')"
    and r: "r = (if ret = 0 then int sz else -1)"
    using assms(4) tb unfolding clovis_pread_def off [symmetric] ss by (auto split: if_splits prod.splits)
  with assms(5) have rd: "clovis_read_loop mero ?obj du blocks (int (offset + 0 * 50 * du)) 0 old s = (0, buf, s')"
    and "r = int sz"
    by (auto split: if_splits)
  then show "r = int sz" by simp
  have "sz < 2147483648"
    using assms(3) by simp
  note b = total_blocks_ok [OF tb assms(2) this]
  have "offset + (0 * 50 + blocks) * du < 2147483648"
    using assms(3) b(2) by simp
  from clovis_read_loop_correct [OF assms(1) b(1) rd b(3) this] b(2)
  show "ocontent ?obj s' = ocontent ?obj s" and "k < sz \<Longrightarrow> buf k = ocontent ?obj s (offset + k)"
    by simp_all
qed

text \<open>An object store with a single object and data units of four bytes.\<close>

definition one_object :: "(nat \<Rightarrow> byte) mero" where
  "one_object =
     \<lparr>mero_read = \<lambda>obj ext s. (0, \<lambda>i k. s (fst (ext ! i) + k), s),
      mero_write = \<lambda>obj ext units s. (0, \<lambda>y. case find (\<lambda>i. in_extent (ext ! i) y) [0..<length ext] of
         Some i \<Rightarrow> units i (y - fst (ext ! i)) | None \<Rightarrow> s y),
      mero_unit_size = \<lambda>s. 4, mero_create = \<lambda>obj s. s\<rparr>"

lemma one_object_ok: "mero_read_ok one_object (\<lambda>obj s. s)" "vector_write_ok one_object (\<lambda>obj s. s)"
proof -
  show "mero_read_ok one_object (\<lambda>obj s. s)"
    by (auto simp: mero_read_ok_def one_object_def)
  have found: "find (\<lambda>i. in_extent (ext ! i) y) [0..<length ext] = Some i"
    if "\<forall>i j y. i < length ext \<longrightarrow> j < length ext \<longrightarrow> in_extent (ext ! i) y \<longrightarrow> in_extent (ext ! j) y \<longrightarrow> i = j"
      "i < length ext" "in_extent (ext ! i) y" for ext i y
  proof (cases "find (\<lambda>i. in_extent (ext ! i) y) [0..<length ext]")
    case None
    with that(2,3) show ?thesis by (auto simp: find_None_iff)
  next
    case (Some j)
    then show ?thesis
      using that find_upt_SomeD [OF Some] by blast
  qed
  have missed: "find (\<lambda>i. in_extent (ext ! i) y) [0..<length ext] = None"
    if "\<forall>i < length ext. \<not> in_extent (ext ! i) y" for ext y
    using that by (auto simp: find_None_iff)
  show "vector_write_ok one_object (\<lambda>obj s. s)"
    unfolding vector_write_ok_def
    by (intro allI impI conjI) (auto simp: one_object_def found missed)
qed

definition cdrv :: clovis_driver where
  "cdrv = fst (newClovisDriver one_object 1 2 False (\<lambda>y. 0))"

text \<open>
  C37. A transfer of one data unit more than an operation holds is reported as complete although
  the last unit of the buffer was not written: the second operation is copied to the place of
  the second unit.
\<close>

theorem clovis_read_tail_lost:
  assumes "0 < mero_unit_size mero s" and "p \<noteq> 0" and "sz = 51 * mero_unit_size mero s"
    and "\<forall>ext t. fst (mero_read mero (obj_hi d, obj_lo d) ext t) = 0"
  shows "\<exists>buf' s'. clovis_pread mero d p buf sz offset s = Inr (ssize sz, buf', s') \<and>
    (\<forall>k. 50 * mero_unit_size mero s \<le> k \<longrightarrow> buf' k = buf k)"
proof -
  let ?du = "mero_unit_size mero s" and ?obj = "(obj_hi d, obj_lo d)"
  have zero: "\<exists>units t'. mero_read mero ?obj ext t = (0, units, t')" for ext t
    using assms(4) by (metis prod.collapse)
  have "\<exists>buf' s'. clovis_read_loop mero ?obj du n l j b t = (0, buf', s')" for du n l j b t
  proof (induction n arbitrary: l j b t rule: less_induct)
    case (less n)
    obtain units t' where "mero_read mero ?obj (fst (extents du (min 50 n) l)) t = (0, units, t')"
      using zero by blast
    moreover have "(if n > 50 then 50 else n) = min 50 n"
      by simp
    ultimately show ?case
      using less.IH [of "n - min 50 n"]
      by (subst clovis_read_loop.simps) (cases "n = 0"; simp add: Let_def case_prod_unfold)
  qed
  then obtain buf' s' where rd: "clovis_read_loop mero ?obj ?du 51 (int32 (int offset)) 0 buf s = (0, buf', s')"
    by blast
  have "total_blocks ?du sz = Inr (?du, 51)"
    using assms(1,3) by (simp add: total_blocks_def int32_id)
  then have "clovis_pread mero d p buf sz offset s = Inr (ssize sz, buf', s')"
    using assms(2) rd by (simp add: clovis_pread_def)
  then show ?thesis
    using clovis_read_loop_tail [OF rd _ assms(1)] by blast
qed

theorem clovis_read_tail_lost_witness:
  "\<exists>buf' s'. clovis_pread one_object cdrv 64 (\<lambda>k. 7) 204 0 (\<lambda>y. 0) = Inr (204, buf', s') \<and> buf' 200 = 7"
proof -
  have "0 < mero_unit_size one_object (\<lambda>y. 0)" "(64 :: nat) \<noteq> 0" "204 = 51 * mero_unit_size one_object (\<lambda>y. 0)"
    "\<forall>ext t. fst (mero_read one_object (obj_hi cdrv, obj_lo cdrv) ext t) = 0"
    by (simp_all add: one_object_def)
  from clovis_read_tail_lost [OF this, of "\<lambda>k. 7" 0] obtain buf' s'
    where "clovis_pread one_object cdrv 64 (\<lambda>k. 7) 204 0 (\<lambda>y. 0) = Inr (204, buf', s')"
      and "\<forall>k. 50 * mero_unit_size one_object (\<lambda>y. 0) \<le> k \<longrightarrow> buf' k = 7"
    by (auto simp: ssize_def)
  then show ?thesis by (auto simp: one_object_def)
qed

section \<open>Life of a shared memory buffer\<close>

text \<open>
  The drivers on one buffer: each step makes a driver from one of them, with any value in the
  field the constructor leaves unset, or deletes one of them.
\<close>

datatype share_event = Share nat size_t | Unshare nat

fun share_step :: "share_event \<Rightarrow> mem_driver list \<times> mem_store \<Rightarrow> (mem_driver list \<times> mem_store) result" where
  "share_step (Share i garbage) (ds, s) =
     (if i < length ds
      then bindE (shareMemoryDriver garbage (Some (ds ! i)) s) (\<lambda>(d, s'). Inr (ds @ [d], s'))
      else Inl (Undefined ''driver''))"
| "share_step (Unshare i) (ds, s) =
     (if i < length ds
      then Inr (take i ds @ drop (Suc i) ds, deleteMemoryDriver (ds ! i) s)
      else Inl (Undefined ''driver''))"

definition share_ok :: "addr \<Rightarrow> (nat \<Rightarrow> byte) \<Rightarrow> mem_driver list \<times> mem_store \<Rightarrow> bool" where
  "share_ok b c = (\<lambda>(ds, s). (\<forall>d \<in> set ds. md_buffer d = b) \<and> mem_bytes s b = c \<and>
     mem_share s b = (if ds = [] then None else Some (int (length ds))))"

lemma share_step_ok:
  assumes "share_step e (ds, s) = Inr (ds', s')" and "share_ok b c (ds, s)"
  shows "share_ok b c (ds', s')"
proof (cases e)
  case (Share i g)
  then have "i < length ds" and buf: "md_buffer (ds ! i) = b"
    using assms by (auto simp: share_ok_def split: if_splits)
  then have "ds \<noteq> []" by auto
  with assms Share buf show ?thesis
    by (auto simp: share_ok_def shareMemoryDriver_def driver.defs split: if_splits)
next
  case (Unshare i)
  then have i: "i < length ds" and e: "ds' = take i ds @ drop (Suc i) ds" "s' = deleteMemoryDriver (ds ! i) s"
    using assms(1) by (simp_all split: if_splits)
  have buf: "md_buffer (ds ! i) = b" and sh: "mem_share s b = Some (int (length ds))" and "mem_bytes s b = c"
    using assms(2) i by (auto simp: share_ok_def)
  have len: "length ds' = length ds - 1"
    using i by (simp add: e)
  then have "ds' = [] \<longleftrightarrow> length ds = 1"
    using i by (auto simp flip: length_0_conv)
  moreover have "\<forall>d \<in> set ds'. md_buffer d = b"
    using assms(2) by (auto simp: share_ok_def e dest: in_set_takeD in_set_dropD)
  ultimately show ?thesis
    using len buf sh \<open>mem_bytes s b = c\<close> i by (auto simp: share_ok_def e deleteMemoryDriver_def)
qed

text \<open>
  C22. The life of a memory buffer: after its constructor and any history of sharing and
  deleting, the drivers that are left see the bytes of the buffer, the share count is their
  number, and the buffer is freed exactly when none is left.
\<close>

theorem share_life:
  assumes "newMemoryDriver sz v s = Inr (d, s0)" and "foldE share_step es ([d], s0) = Inr (ds, s')"
  shows "(\<forall>d' \<in> set ds. memory_content d' s' = (\<lambda>i. v)) \<and>
    mem_share s' (md_buffer d) = (if ds = [] then None else Some (int (length ds)))"
proof -
  have "share_ok (md_buffer d) (\<lambda>i. v) ([d], s0)"
    using assms(1) by (auto simp: newMemoryDriver_def share_ok_def driver.defs Let_def split: if_splits)
  then have "share_ok (md_buffer d) (\<lambda>i. v) (ds, s')"
    by (rule foldE_invariant [OF assms(2)]) (use share_step_ok in \<open>metis prod.collapse\<close>)
  then show ?thesis
    by (auto simp: share_ok_def memory_content_def)
qed

theorem share_life_witness:
  "\<exists>d s0 ds s'. newMemoryDriver 4096 7 \<lparr>mem_bytes = \<lambda>a i. 0, mem_share = \<lambda>a. None, mem_brk = 16\<rparr> = Inr (d, s0) \<and>
     foldE share_step [Share 0 5, Share 1 6, Unshare 0, Unshare 0, Unshare 0] ([d], s0) = Inr (ds, s') \<and>
     mem_share s' (md_buffer d) = None"
proof -
  let ?s = "\<lparr>mem_bytes = \<lambda>a i. 0, mem_share = \<lambda>a. None, mem_brk = 16\<rparr>"
  obtain d s0 where new: "newMemoryDriver 4096 7 ?s = Inr (d, s0)"
    by (simp add: newMemoryDriver_def Let_def)
  have "\<exists>s'. foldE share_step [Share 0 5, Share 1 6, Unshare 0, Unshare 0, Unshare 0] ([d], s0) = Inr ([], s')"
    using new by (auto simp: newMemoryDriver_def Let_def shareMemoryDriver_def driver.defs)
  then obtain s' where run: "foldE share_step [Share 0 5, Share 1 6, Unshare 0, Unshare 0, Unshare 0] ([d], s0) = Inr ([], s')"
    by blast
  from share_life [OF new run] new run show ?thesis by auto
qed

section \<open>The table of the inter-process quota\<close>

text \<open>
  A history of the processes: each event carries the processes that are alive when it happens.
  The run counts how often a process took over the slot of a dead one, and how often a process
  left that was not in the table: a forked child that destroys the quota it has inherited, or a
  process whose slot was cleared because it could not be signalled. Such a process aborts after
  it has changed the table.
\<close>

datatype ip_event =
    Enter "int \<Rightarrow> bool" int
  | Leave int
  | Signal "int \<Rightarrow> bool" int

definition takes_over :: "(int \<Rightarrow> bool) \<Rightarrow> interproc_shared \<Rightarrow> bool" where
  "takes_over alive sh = (case find_slot alive sh of None \<Rightarrow> False | Some i \<Rightarrow> pids sh i \<noteq> 0)"

fun ip_step :: "ip_event \<Rightarrow> interproc_shared \<times> nat \<times> nat \<Rightarrow> (interproc_shared \<times> nat \<times> nat) result" where
  "ip_step (Enter alive pid) (sh, n, k) =
     bindE (interproc_enter alive pid sh) (\<lambda>sh'. Inr (sh', if takes_over alive sh then Suc n else n, k))"
| "ip_step (Leave pid) (sh, n, k) =
     (case interproc_leave pid sh of (sh', found) \<Rightarrow> Inr (sh', n, if found then k else Suc k))"
| "ip_step (Signal alive pid) (sh, n, k) = Inr (fst (signalAll alive pid sh), n, k)"

fun ip_pid :: "ip_event \<Rightarrow> int" where
  "ip_pid (Enter alive pid) = pid"
| "ip_pid (Leave pid) = pid"
| "ip_pid (Signal alive pid) = pid"

definition surplus :: "interproc_shared \<Rightarrow> int" where
  "surplus sh = processes sh - int (card (slots sh))"

lemma surplus_clear:
  assumes "i \<in> slots sh"
  shows "surplus (sh\<lparr>processes := processes sh - 1, pids := (pids sh)(i := 0)\<rparr>) = surplus sh"
proof -
  have "card (slots sh) = Suc (card (slots sh - {i}))"
    using card.remove [OF finite_slots assms] .
  then show ?thesis
    by (simp add: surplus_def slots_clear)
qed

lemma surplus_prune: "surplus (prune alive sh) = surplus sh"
proof -
  have "surplus (fold (prune_slot alive) is sh) = surplus sh" if "set is \<subseteq> {..<indexMax sh}" for "is"
    using that
  proof (induction "is" arbitrary: sh)
    case (Cons i "is")
    have "surplus (prune_slot alive i sh) = surplus sh"
      using Cons.prems by (auto simp: prune_slot_def surplus_clear slots_def)
    with Cons.IH [of "prune_slot alive i sh"] Cons.prems show ?case
      by (simp add: prune_slot_pids)
  qed simp
  then show ?thesis
    by (simp add: prune_def atLeast0LessThan)
qed

lemma surplus_enter:
  assumes "interproc_enter alive pid sh = Inr sh'" and "pid \<noteq> 0"
  shows "surplus sh' = surplus sh + (if takes_over alive sh then 1 else 0)"
proof -
  have fs: "find_slot alive (sh\<lparr>processes := n\<rparr>) = find_slot alive sh" for n
    by (simp add: find_slot_def)
  show ?thesis
  proof (cases "find_slot alive sh")
    case None
    then have sh': "sh' = sh\<lparr>processes := processes sh + 1, pids := (pids sh)(indexMax sh := pid), indexMax := Suc (indexMax sh)\<rparr>"
      using assms(1) fs by (simp add: interproc_enter_def Let_def split: if_splits)
    have "indexMax sh \<notin> slots sh"
      by (simp add: slots_def)
    with None show ?thesis
      by (simp add: surplus_def takes_over_def sh' slots_extend assms(2))
  next
    case (Some i)
    then have sh': "sh' = sh\<lparr>processes := processes sh + 1, pids := (pids sh)(i := pid)\<rparr>" and i: "i < indexMax sh"
      using assms(1) fs find_upt_SomeD [OF Some [unfolded find_slot_def]] by (simp_all add: interproc_enter_def Let_def)
    have "i \<in> slots sh \<longleftrightarrow> pids sh i \<noteq> 0"
      using i by (simp add: slots_def)
    then show ?thesis
      using Some i by (auto simp: surplus_def takes_over_def sh' slots_fill assms(2) card_insert_if)
  qed
qed

lemma surplus_leave:
  assumes "interproc_leave pid sh = (sh', found)" and "pid \<noteq> 0"
  shows "surplus sh' = surplus sh - (if found then 0 else 1)"
proof (cases "find (\<lambda>i. pids sh i = pid) [0..<indexMax sh]")
  case None
  then have "sh' = sh\<lparr>processes := processes sh - 1\<rparr>" "\<not> found"
    using assms(1) by (auto simp: interproc_leave_def)
  then show ?thesis
    by (simp add: surplus_def slots_def)
next
  case (Some i)
  then have "i \<in> slots sh"
    using find_upt_SomeD [OF Some] assms(2) by (auto simp: slots_def)
  from surplus_clear [OF this] show ?thesis
    using assms(1) Some by (auto simp: interproc_leave_def)
qed

lemma surplus_step:
  assumes "ip_step e (sh, n, k) = Inr (sh', n', k')" and "ip_pid e \<noteq> 0" and "surplus sh = int n - int k"
  shows "surplus sh' = int n' - int k'"
proof (cases e)
  case (Leave pid)
  obtain sh1 found where "interproc_leave pid sh = (sh1, found)"
    by (cases "interproc_leave pid sh")
  with surplus_leave [OF this] assms Leave show ?thesis
    by (auto split: if_splits)
qed (use assms in \<open>auto simp: bindE_eq_Inr signalAll_def surplus_prune surplus_enter Let_def\<close>)

abbreviation new_table :: interproc_shared where
  "new_table \<equiv> \<lparr>spinlock = 0, processes = 0, indexMax = 0, pids = \<lambda>i. 0\<rparr>"

text \<open>
  C18. The counter of the inter-process quota: after any history of processes that enter, leave,
  die and signal, the counter is the number of registered processes, plus the number of times a
  process took over the slot of a dead one, which is then counted twice, minus the number of times
  a process left without being in the table. The shares of the registered processes fit in the
  total as long as the latter is not more frequent than the former.
\<close>

theorem interproc_shares_fit:
  assumes "foldE ip_step es (new_table, 0, 0) = Inr (sh, n, k)" and "\<forall>e \<in> set es. ip_pid e \<noteq> 0"
    and "perProcQuota totalAllowed sh = Inr q"
  shows "processes sh = int (card (slots sh)) + int n - int k \<and> (k \<le> n \<longrightarrow> card (slots sh) * q \<le> totalAllowed)"
proof -
  have "surplus new_table = int 0 - int 0"
    by (simp add: surplus_def slots_def)
  then have "surplus sh = int n - int k"
    using foldE_invariant [OF assms(1), of "\<lambda>(sh, n, k). surplus sh = int n - int k"] surplus_step assms(2) by fastforce
  then have pr: "processes sh = int (card (slots sh)) + int n - int k"
    by (simp add: surplus_def)
  moreover have "card (slots sh) * q \<le> totalAllowed" if "k \<le> n"
  proof -
    have "q = totalAllowed div nat (processes sh)"
      using assms(3) by (simp add: perProcQuota_def split: if_splits)
    then have "card (slots sh) * q \<le> nat (processes sh) * (totalAllowed div nat (processes sh))"
      using pr that by (intro mult_mono) auto
    also have "\<dots> \<le> totalAllowed"
      by simp
    finally show ?thesis .
  qed
  ultimately show ?thesis by blast
qed

text \<open>
  Two histories: one in which a slot is taken over and the shares fit, and one in which the child
  13 of a registered process leaves, after which two processes are each given the whole memory.
\<close>

theorem interproc_shares_fit_witness:
  "(\<exists>sh. foldE ip_step [Enter (\<lambda>p. True) 10, Enter (\<lambda>p. True) 11, Enter (\<lambda>p. p \<noteq> 10) 12, Leave 11] (new_table, 0, 0) = Inr (sh, 1, 0) \<and>
     processes sh = 2 \<and> card (slots sh) = 1 \<and> card (slots sh) * 500 \<le> 1000) \<and>
   (\<exists>sh. foldE ip_step [Enter (\<lambda>p. True) 10, Enter (\<lambda>p. True) 11, Leave 13] (new_table, 0, 0) = Inr (sh, 0, 1) \<and>
     card (slots sh) = 2 \<and> perProcQuota 1000 sh = Inr 1000)"
proof -
  let ?es = "[Enter (\<lambda>p. True) 10, Enter (\<lambda>p. True) 11, Enter (\<lambda>p. p \<noteq> 10) 12, Leave 11]"
  let ?fork = "[Enter (\<lambda>p. True) 10, Enter (\<lambda>p. True) 11, Leave 13]"
  obtain sh where run: "foldE ip_step ?es (new_table, 0, 0) = Inr (sh, 1, 0)" and pr: "processes sh = 2"
    by (simp add: interproc_enter_def interproc_leave_def find_slot_def takes_over_def Let_def upt_rec)
  obtain sh2 where run2: "foldE ip_step ?fork (new_table, 0, 0) = Inr (sh2, 0, 1)" and pr2: "processes sh2 = 1"
    by (simp add: interproc_enter_def interproc_leave_def find_slot_def takes_over_def Let_def upt_rec)
  have q: "perProcQuota 1000 sh = Inr 500" "perProcQuota 1000 sh2 = Inr 1000"
    using pr pr2 by (simp_all add: perProcQuota_def)
  have "\<forall>e \<in> set ?es. ip_pid e \<noteq> 0" "\<forall>e \<in> set ?fork. ip_pid e \<noteq> 0"
    by simp_all
  then show ?thesis
    using interproc_shares_fit [OF run _ q(1)] interproc_shares_fit [OF run2 _ q(2)] run run2 pr pr2 q(2) by auto
qed

text \<open>
  C19. The spin lock of the shared table excludes: whatever the order in which any number of
  processes try to take it, sleep, try again, work under it and release it, and whichever attempts
  fail spuriously, at most one process is in its critical section. The lock is free exactly when
  no process is inside and none has stopped while it held the lock, and an attempt on a free lock
  succeeds unless it fails spuriously.
\<close>

theorem interproc_lock_excludes:
  assumes "spinlock sh = 0" and "lock_step\<^sup>*\<^sup>* (sh, \<lambda>p. Outside) (sh', pc)"
  shows "(\<forall>p q. pc p = Inside \<and> pc q = Inside \<longrightarrow> p = q) \<and>
    (spinlock sh' = 0 \<longleftrightarrow> (\<forall>p. pc p \<noteq> Inside \<and> pc p \<noteq> Stopped)) \<and>
    (\<forall>p e. pc p = Spinning e \<and> spinlock sh' = 0 \<longrightarrow> fst (lock_try False e sh'))"
proof -
  have "lock_inv (sh, \<lambda>p. Outside)"
    using assms(1) by (simp add: lock_inv_def holders_def)
  from lock_run_inv [OF assms(2) this] have inv: "lock_inv (sh', pc)" .
  have "p = q" if "pc p = Inside" "pc q = Inside" for p q
  proof -
    have "p \<in> holders pc" "q \<in> holders pc"
      using that by (simp_all add: holders_def)
    with inv show ?thesis
      by (auto simp: lock_inv_def)
  qed
  moreover from inv have "spinlock sh' = 0 \<longleftrightarrow> (\<forall>p. pc p \<noteq> Inside \<and> pc p \<noteq> Stopped)"
    and "\<forall>p e. pc p = Spinning e \<and> spinlock sh' = 0 \<longrightarrow> fst (lock_try False e sh')"
    by (auto simp: lock_inv_def holders_def lock_try_def compare_exchange_weak_def)
  ultimately show ?thesis by blast
qed

text \<open>Process 10 is inside, process 11 has tried twice.\<close>

theorem interproc_lock_excludes_witness:
  "\<exists>sh pc. lock_step\<^sup>*\<^sup>* (new_table, \<lambda>p. Outside) (sh, pc) \<and> pc 10 = Inside \<and> pc 11 = Failed 1 \<and>
     spinlock sh \<noteq> 0 \<and> pc 11 \<noteq> Inside"
proof -
  let ?held = "new_table\<lparr>spinlock := 1\<rparr>"
  let ?pc0 = "\<lambda>p :: int. Outside"
  let ?pc1 = "?pc0(10 := Spinning 0)"
  let ?pc2 = "?pc1(10 := Inside)"
  let ?pc3 = "?pc2(11 := Spinning 0)"
  let ?pc4 = "?pc3(11 := Failed 1)"
  let ?pc5 = "?pc4(11 := Spinning 0)"
  let ?pc6 = "?pc5(11 := Failed 1)"
  have 1: "lock_step (new_table, ?pc0) (new_table, ?pc1)"
    using lock_step.start [of ?pc0 10] by (simp add: lock_begin_def)
  have 2: "lock_step (new_table, ?pc1) (?held, ?pc2)"
    by (rule lock_step.acquire [of _ _ 0 False _ 0]) (simp_all add: lock_try_def compare_exchange_weak_def)
  have 3: "lock_step (?held, ?pc2) (?held, ?pc3)"
    using lock_step.start [of ?pc2 11] by (simp add: lock_begin_def)
  have 4: "lock_step (?held, ?pc3) (?held, ?pc4)"
    by (rule lock_step.miss [of _ _ 0 False]) (simp_all add: lock_try_def compare_exchange_weak_def)
  have 5: "lock_step (?held, ?pc4) (?held, ?pc5)"
    using lock_step.again [of ?pc4 11 1 ?held] by (simp add: lock_reset_def)
  have 6: "lock_step (?held, ?pc5) (?held, ?pc6)"
    by (rule lock_step.miss [of _ _ 0 False]) (simp_all add: lock_try_def compare_exchange_weak_def)
  from 1 2 3 4 5 6 have run: "lock_step\<^sup>*\<^sup>* (new_table, ?pc0) (?held, ?pc6)"
    by (meson converse_rtranclp_into_rtranclp rtranclp.rtrancl_refl)
  have "spinlock new_table = 0" by simp
  from interproc_lock_excludes [OF this run] have "spinlock ?held \<noteq> 0"
    by (metis fun_upd_apply zero_neq_one num.distinct numeral_eq_iff)
  with run show ?thesis
    by (intro exI [of _ ?held] exI [of _ ?pc6]) simp
qed

end
