(* ===== verification/Messages.thy ===== *)
theory Messages
  imports CString "HOL-Library.List_Lexorder" "HOL-Library.Char_ord"
begin

text \<open>
  The messages of the program: the formats with numbered arguments of
  \<open>extern-deps/from-cern-lhcb-daqpipe-v2/FormattedMessage.cpp\<close> and the levels and categories of
  \<open>Debug.cpp\<close>, through which \<open>assume\<close> and \<open>assumeArg\<close> end the process. The two functions that
  print a size with a unit use floating point numbers and are left out.
\<close>

section \<open>Formatted messages\<close>

record formatted_message =
  format :: string
  entries :: "string list"

definition newFormattedMessage :: "string \<Rightarrow> formatted_message" where
  "newFormattedMessage f = \<lparr>format = f, entries = []\<rparr>"

definition arg_string :: "string \<Rightarrow> formatted_message \<Rightarrow> formatted_message" where
  "arg_string v msg = msg\<lparr>entries := entries msg @ [v]\<rparr>"

definition argStrErrno :: "string \<Rightarrow> formatted_message \<Rightarrow> formatted_message" where
  "argStrErrno strerror msg = arg_string strerror msg"

text \<open>
  What is written to the given stream and what is written to the error stream. The warning prints
  the format as a C string.
\<close>

definition missing_warning :: "string \<Rightarrow> int \<Rightarrow> string" where
  "missing_warning fmt n =
     ''Warning : missing ID='' @ dec_int n @ '' in formatted message '' @ [CHR 0x27] @
     takeWhile (\<lambda>c. c \<noteq> CHR 0x00) fmt @ [CHR 0x27] @ '' !'' @ [CHR 0x0A]"

definition pushValue :: "string \<Rightarrow> string list \<Rightarrow> int \<Rightarrow> string \<times> string" where
  "pushValue fmt es n =
     (if n = 0 \<or> to_size n > length es then (CHR ''%'' # dec_int n, missing_warning fmt n)
      else (es ! (nat n - 1), []))"

definition put :: "string \<times> string \<Rightarrow> (string \<times> string) result \<Rightarrow> (string \<times> string) result" where
  "put x r = bindE r (\<lambda>y. Inr (fst x @ fst y, snd x @ snd y))"

text \<open>
  The loop over the format, on what is left of it. The character after the last one is the
  terminating null character. The flag is \<open>NDEBUG\<close>, which turns the assertion off.
\<close>

function toStream_loop :: "bool \<Rightarrow> string \<Rightarrow> string list \<Rightarrow> string \<Rightarrow> (string \<times> string) result" where
  "toStream_loop nd fmt es [] = Inr ([], [])"
| "toStream_loop nd fmt es (c # s) =
     (if c = CHR ''%''
      then if s = [] \<or> hd s \<noteq> CHR ''%''
           then bindE (atoi s) (\<lambda>n.
                  if n = 0 \<and> \<not> nd then Inl (AssertFailure ''id != 0'')
                  else put (pushValue fmt es n) (toStream_loop nd fmt es (dropWhile is_digit s)))
           else put (''%'', []) (toStream_loop nd fmt es (tl s))
      else put ([c], []) (toStream_loop nd fmt es s))"
  by pat_completeness auto
termination
  by (relation "measure (\<lambda>(nd, fmt, es, s). length s)") (auto simp: less_Suc_eq_le length_dropWhile_le)

declare toStream_loop.simps [simp del]

definition toStream :: "bool \<Rightarrow> formatted_message \<Rightarrow> (string \<times> string) result" where
  "toStream nd msg = toStream_loop nd (format msg) (entries msg) (format msg)"

text \<open>The string, and what building it has written to the error stream.\<close>

definition toString :: "bool \<Rightarrow> formatted_message \<Rightarrow> (string \<times> string) result" where
  "toString nd msg = bindE (toStream nd msg) (\<lambda>(buffer, err). Inr (buffer, err))"

section \<open>Levels and categories\<close>

datatype debug_level =
    MESSAGE_ASSERT
  | MESSAGE_DEBUG
  | MESSAGE_INFO
  | MESSAGE_NORMAL
  | MESSAGE_WARNING
  | MESSAGE_ERROR
  | MESSAGE_FATAL

text \<open>
  The static state of the class: the map from categories to whether they are shown, absent when
  all are, the width of the longest category and the rank of the process, which no message prints. The build options are \<open>ENABLE_COLOR\<close> and
  \<open>NDEBUG\<close>.
\<close>

record debug_state =
  catMap :: "(string \<times> bool) list option"
  catMaxWidth :: nat
  rank :: int

record debug_build =
  enable_color :: bool
  ndebug :: bool

record debug = formatted_message +
  d_cat :: "string option"
  d_file :: string
  d_line :: int
  d_level :: debug_level
  emitted :: bool

definition newDebug :: "string \<Rightarrow> string \<Rightarrow> int \<Rightarrow> debug_level \<Rightarrow> string option \<Rightarrow> debug" where
  "newDebug f file line level cat =
     formatted_message.extend (newFormattedMessage f)
       \<lparr>d_cat = cat, d_file = file, d_line = line, d_level = level, emitted = False\<rparr>"

definition newDebug_short :: "string \<Rightarrow> debug_level \<Rightarrow> string option \<Rightarrow> debug" where
  "newDebug_short f level cat = newDebug f ''??'' 0 level cat"

definition setRank :: "int \<Rightarrow> debug_state \<Rightarrow> debug_state" where
  "setRank r st = st\<lparr>rank := r\<rparr>"

definition escape :: "string \<Rightarrow> string" where
  "escape code = CHR 0x1B # ''['' @ code @ ''m''"

definition cstLevelPrefix :: "debug_build \<Rightarrow> debug_level \<Rightarrow> string" where
  "cstLevelPrefix b level =
     (if enable_color b
      then case level of
             MESSAGE_ASSERT \<Rightarrow> escape ''31'' @ ''Assert : ''
           | MESSAGE_DEBUG \<Rightarrow> escape ''36''
           | MESSAGE_INFO \<Rightarrow> escape ''36''
           | MESSAGE_NORMAL \<Rightarrow> []
           | MESSAGE_WARNING \<Rightarrow> escape ''33'' @ ''Warning : ''
           | MESSAGE_ERROR \<Rightarrow> escape ''31'' @ ''Error : ''
           | MESSAGE_FATAL \<Rightarrow> escape ''31'' @ ''Fatal : ''
      else case level of
             MESSAGE_ASSERT \<Rightarrow> ''Assert : ''
           | MESSAGE_DEBUG \<Rightarrow> ''Debug : ''
           | MESSAGE_INFO \<Rightarrow> ''Info : ''
           | MESSAGE_NORMAL \<Rightarrow> []
           | MESSAGE_WARNING \<Rightarrow> ''Warning : ''
           | MESSAGE_ERROR \<Rightarrow> ''Error : ''
           | MESSAGE_FATAL \<Rightarrow> ''Fatal : '')"

definition cstPostfix :: "debug_build \<Rightarrow> string" where
  "cstPostfix b = (if enable_color b then escape ''0'' else [])"

definition enableCat :: "string \<Rightarrow> debug_state \<Rightarrow> debug_state" where
  "enableCat cat st =
     (let m = (case catMap st of None \<Rightarrow> [] | Some m \<Rightarrow> m)
      in st\<lparr>catMaxWidth := max (length cat) (catMaxWidth st), catMap := Some (map_assign cat True m)\<rparr>)"

definition enableAll :: "debug_state \<Rightarrow> debug_state" where
  "enableAll st = st\<lparr>catMap := None\<rparr>"

text \<open>Asking for a category that is not in the map enters it as hidden.\<close>

definition showCat :: "string option \<Rightarrow> debug_state \<Rightarrow> (bool \<times> debug_state) result" where
  "showCat cat st =
     (case catMap st of
        None \<Rightarrow>
          (case cat of
             None \<Rightarrow> Inl (Undefined ''strlen(NULL)'')
           | Some c \<Rightarrow> Inr (True, st\<lparr>catMaxWidth := max (length c) (catMaxWidth st)\<rparr>))
      | Some m \<Rightarrow>
          (case cat of
             None \<Rightarrow> Inr (True, st)
           | Some c \<Rightarrow>
               (case map_of m c of
                  None \<Rightarrow> Inr (False, st\<lparr>catMap := Some (map_assign c False m)\<rparr>)
                | Some shown \<Rightarrow> Inr (shown, st))))"

text \<open>\<open>std::getline\<close> with a separator, repeated: a text that ends with it has no empty last part.\<close>

function split_at :: "char \<Rightarrow> string \<Rightarrow> string list" where
  "split_at sep s =
     (if s = [] then []
      else takeWhile (\<lambda>c. c \<noteq> sep) s # split_at sep (tl (dropWhile (\<lambda>c. c \<noteq> sep) s)))"
  by pat_completeness auto
termination
proof (relation "measure (\<lambda>(sep, s). length s)")
  fix sep :: char and s :: string
  assume "s \<noteq> []"
  then have "length (dropWhile (\<lambda>c. c \<noteq> sep) s) - 1 < length s"
    using length_dropWhile_le [of "\<lambda>c. c \<noteq> sep" s] length_greater_0_conv [of s] by linarith
  then have "length (tl (dropWhile (\<lambda>c. c \<noteq> sep) s)) < length s"
    by simp
  then show "((sep, tl (dropWhile (\<lambda>c. c \<noteq> sep) s)), sep, s) \<in> measure (\<lambda>(sep, s). length s)"
    by simp
qed simp

declare split_at.simps [simp del]

definition setVerbosity :: "string \<Rightarrow> debug_state \<Rightarrow> debug_state" where
  "setVerbosity v st =
     fold (\<lambda>token st. if token = ''all'' \<or> token = ''*'' then enableAll st else enableCat token st)
       (split_at (CHR '','') v) st"

text \<open>The text of \<open>showList\<close>, which is printed as an information message.\<close>

definition showList_text :: "debug_state \<Rightarrow> string" where
  "showList_text st =
     ''Debug categories :'' @ [CHR 0x0A] @
     (case catMap st of
        None \<Rightarrow> []
      | Some m \<Rightarrow> concat (map (\<lambda>e. '' - '' @ fst e @ [CHR 0x0A]) m))"

section \<open>Emission\<close>

datatype debug_outcome = Goes_on | Abort | Exit_failure

record emission =
  on_cout :: string
  on_cerr :: string
  then_does :: debug_outcome

definition silent :: emission where
  "silent = \<lparr>on_cout = [], on_cerr = [], then_does = Goes_on\<rparr>"

definition pad_right :: "nat \<Rightarrow> string \<Rightarrow> string" where
  "pad_right n s = s @ replicate (n - length s) (CHR '' '')"

definition message_line :: "debug_build \<Rightarrow> debug \<Rightarrow> string \<Rightarrow> string" where
  "message_line b d body = cstLevelPrefix b (d_level d) @ body @ cstPostfix b @ [CHR 0x0A]"

definition located :: "debug_build \<Rightarrow> debug \<Rightarrow> string" where
  "located b d =
     (if d_line d \<noteq> 0
      then [CHR 0x0A] @ cstLevelPrefix b (d_level d) @ ''At '' @ d_file d @ '':'' @ dec_int (d_line d) @ '' : '' @ [CHR 0x0A]
      else [])"

text \<open>
  The message is built in a buffer, so a warning about a missing argument comes before it on the
  error stream.
\<close>

definition debug_end :: "debug_build \<Rightarrow> debug \<Rightarrow> debug_state \<Rightarrow> (emission \<times> debug \<times> debug_state) result" where
  "debug_end b d0 st =
     (let d = d0\<lparr>emitted := True\<rparr>;
          msg = formatted_message.truncate d
      in case d_level d of
           MESSAGE_DEBUG \<Rightarrow>
             if ndebug b then Inr (silent, d, st)
             else bindE (showCat (d_cat d) st) (\<lambda>(shown, st1).
                    if shown
                    then (case d_cat d of
                            None \<Rightarrow> Inl (Undefined ''cat'')
                          | Some cat \<Rightarrow> bindE (toStream (ndebug b) msg) (\<lambda>(body, err).
                              Inr (silent\<lparr>on_cout := message_line b d (''['' @ pad_right (catMaxWidth st1) cat @ ''] '' @ body),
                                on_cerr := err\<rparr>, d, st1)))
                    else Inr (silent, d, st1))
         | MESSAGE_INFO \<Rightarrow> bindE (toStream (ndebug b) msg) (\<lambda>(body, err).
             Inr (silent\<lparr>on_cout := message_line b d body, on_cerr := err\<rparr>, d, st))
         | MESSAGE_NORMAL \<Rightarrow> bindE (toStream (ndebug b) msg) (\<lambda>(body, err).
             Inr (silent\<lparr>on_cout := message_line b d body, on_cerr := err\<rparr>, d, st))
         | MESSAGE_ASSERT \<Rightarrow>
             if ndebug b then Inr (silent, d, st)
             else bindE (toStream (ndebug b) msg) (\<lambda>(body, err).
                    Inr (silent\<lparr>on_cout := located b d @ message_line b d body, on_cerr := err, then_does := Abort\<rparr>, d, st))
         | MESSAGE_WARNING \<Rightarrow> bindE (toStream (ndebug b) msg) (\<lambda>(body, err).
             Inr (silent\<lparr>on_cerr := err @ located b d @ message_line b d body\<rparr>, d, st))
         | MESSAGE_ERROR \<Rightarrow> bindE (toStream (ndebug b) msg) (\<lambda>(body, err).
             Inr (silent\<lparr>on_cerr := err @ located b d @ message_line b d body\<rparr>, d, st))
         | MESSAGE_FATAL \<Rightarrow> bindE (toStream (ndebug b) msg) (\<lambda>(body, err).
             Inr (silent\<lparr>on_cerr := err @ located b d @ message_line b d body, then_does := Exit_failure\<rparr>, d, st)))"

definition deleteDebug :: "debug_build \<Rightarrow> debug \<Rightarrow> unit result" where
  "deleteDebug b d = (if ndebug b \<or> emitted d then Inr () else Inl (AssertFailure ''emitted''))"

definition showList :: "debug_build \<Rightarrow> string \<Rightarrow> int \<Rightarrow> debug_state \<Rightarrow> (emission \<times> debug_state) result" where
  "showList b file line st =
     bindE (debug_end b (newDebug (showList_text st) file line MESSAGE_INFO None) st) (\<lambda>(e, d, st'). Inr (e, st'))"

definition DAQ_ASSERT ::
  "debug_build \<Rightarrow> bool \<Rightarrow> string \<Rightarrow> string \<Rightarrow> int \<Rightarrow> debug_state \<Rightarrow> (emission \<times> debug_state) result" where
  "DAQ_ASSERT b check text file line st =
     (if ndebug b \<or> check then Inr (silent, st)
      else bindE (debug_end b (newDebug text file line MESSAGE_ASSERT None) st) (\<lambda>(e, d, st'). Inr (e, st')))"

text \<open>
  \<open>assume\<close> and \<open>assumeArg\<close>: when the condition fails, a fatal message is emitted. This is the
  error \<open>Fatal\<close> of the other theories.
\<close>

definition assumeArg ::
  "debug_build \<Rightarrow> bool \<Rightarrow> string \<Rightarrow> string list \<Rightarrow> string \<Rightarrow> int \<Rightarrow> debug_state \<Rightarrow> (emission \<times> debug_state) result" where
  "assumeArg b check f args file line st =
     (if check then Inr (silent, st)
      else bindE (debug_end b (fold (\<lambda>v d. d\<lparr>entries := entries d @ [v]\<rparr>) args (newDebug f file line MESSAGE_FATAL None)) st)
             (\<lambda>(e, d, st'). Inr (e, st')))"

section \<open>The text of a message\<close>

text \<open>The parts of a format: text, a percent sign and the number of an argument.\<close>

datatype piece = Text string | Percent | Arg nat

fun piece_text :: "piece \<Rightarrow> string" where
  "piece_text (Text t) = t"
| "piece_text Percent = ''%%''"
| "piece_text (Arg n) = CHR ''%'' # dec n"

text \<open>A text has no percent sign, and no digit comes right after the number of an argument.\<close>

fun pieces_ok :: "piece list \<Rightarrow> bool" where
  "pieces_ok [] = True"
| "pieces_ok (Text t # ps) \<longleftrightarrow> CHR ''%'' \<notin> set t \<and> pieces_ok ps"
| "pieces_ok (Percent # ps) \<longleftrightarrow> pieces_ok ps"
| "pieces_ok (Arg n # ps) \<longleftrightarrow> 0 < n \<and> n < 2 ^ 31 \<and>
     (let rest = concat (map piece_text ps) in rest = [] \<or> \<not> is_digit (hd rest)) \<and> pieces_ok ps"

text \<open>What a part writes to the given stream and to the error stream.\<close>

fun piece_value :: "string \<Rightarrow> string list \<Rightarrow> piece \<Rightarrow> string \<times> string" where
  "piece_value fmt es (Text t) = (t, [])"
| "piece_value fmt es Percent = (''%'', [])"
| "piece_value fmt es (Arg n) =
     (if n \<le> length es then (es ! (n - 1), []) else (CHR ''%'' # dec n, missing_warning fmt (int n)))"

lemma put_Inr [simp]: "put x (Inr y) = Inr (fst x @ fst y, snd x @ snd y)"
  by (simp add: put_def)

lemma toStream_text:
  "CHR ''%'' \<notin> set t \<Longrightarrow> toStream_loop nd fmt es (t @ s) = put (t, []) (toStream_loop nd fmt es s)"
proof (induction t)
  case Nil
  then show ?case by (cases "toStream_loop nd fmt es s") (simp_all add: put_def)
next
  case (Cons c t)
  then show ?case
    by (cases "toStream_loop nd fmt es s") (auto simp: toStream_loop.simps(2) [of nd fmt es c] put_def)
qed

lemma digit_not_percent: "is_digit c \<Longrightarrow> c \<noteq> CHR ''%''"
  by (auto simp: is_digit_def)

lemma toStream_arg:
  assumes "0 < n" and "n < 2 ^ 31" and "s = [] \<or> \<not> is_digit (hd s)"
  shows "toStream_loop nd fmt es (CHR ''%'' # dec n @ s) = put (piece_value fmt es (Arg n)) (toStream_loop nd fmt es s)"
proof -
  have "hd (dec n @ s) \<noteq> CHR ''%''"
    using digit_not_percent dec_digits [of "hd (dec n)" n] by simp
  moreover have "atoi (dec n @ s) = Inr (int n)"
    using scan_ld_dec [OF assms(3), of n] assms(2) by (simp add: atoi_def fits_int_def)
  moreover have "dropWhile is_digit (dec n @ s) = s"
    using takeWhile_digits(2) [OF _ assms(3), of "dec n"] dec_digits by blast
  moreover have "to_size (int n) = n"
    using assms(2) by (simp add: to_size_def)
  then have "pushValue fmt es (int n) = piece_value fmt es (Arg n)"
    using assms(1) by (simp add: pushValue_def dec_int_def)
  ultimately show ?thesis
    using assms(1) by (subst toStream_loop.simps) simp
qed

lemma toStream_pieces:
  assumes "pieces_ok ps"
  shows "toStream_loop nd fmt es (concat (map piece_text ps)) =
    Inr (concat (map (fst \<circ> piece_value fmt es) ps), concat (map (snd \<circ> piece_value fmt es) ps))"
  using assms
proof (induction ps)
  case Nil
  then show ?case by (simp add: toStream_loop.simps)
next
  case (Cons p ps)
  show ?case
  proof (cases p)
    case (Text t)
    with Cons show ?thesis by (simp add: toStream_text)
  next
    case Percent
    with Cons show ?thesis by (simp add: toStream_loop.simps(2))
  next
    case (Arg n)
    with Cons toStream_arg [of n "concat (map piece_text ps)" nd fmt es] show ?thesis
      by (simp add: Let_def)
  qed
qed

lemma fold_args: "entries (fold (\<lambda>v d. d\<lparr>entries := entries d @ [v]\<rparr>) args d) = entries d @ args"
  and fold_args_format: "format (fold (\<lambda>v d. d\<lparr>entries := entries d @ [v]\<rparr>) args d) = format d"
  by (induction args arbitrary: d) simp_all

lemma assumeArg_fails:
  "assumeArg b False f args file line st =
     bindE (toStream_loop (ndebug b) f args f) (\<lambda>(body, err).
       let d = newDebug f file line MESSAGE_FATAL None
       in Inr (silent\<lparr>on_cerr := err @ located b d @ message_line b d body, then_does := Exit_failure\<rparr>, st))"
proof -
  let ?g = "\<lambda>v d. d\<lparr>entries := entries d @ [v]\<rparr>" and ?d = "newDebug f file line MESSAGE_FATAL None"
  have fields: "d_level (fold ?g args d) = d_level d" "d_line (fold ?g args d) = d_line d" "d_file (fold ?g args d) = d_file d"
    for d :: debug
    by (induction args arbitrary: d) simp_all
  have "toStream (ndebug b) (formatted_message.truncate (fold ?g args ?d\<lparr>emitted := True\<rparr>)) =
      toStream_loop (ndebug b) f args f"
    by (simp add: toStream_def formatted_message.defs fold_args fold_args_format newDebug_def newFormattedMessage_def)
  moreover have "d_level ?d = MESSAGE_FATAL"
    by (simp add: newDebug_def formatted_message.defs)
  ultimately show ?thesis
    by (cases "toStream_loop (ndebug b) f args f")
      (auto simp: assumeArg_def debug_end_def Let_def fields located_def message_line_def)
qed

text \<open>
  C40. A failed check prints what its format says and ends the process: for a format made of texts,
  percent signs and numbered arguments, \<open>assumeArg\<close> writes to the error stream one warning for each
  argument that was not given, the place of the check, the prefix and the format with every argument
  replaced by its value, or left as its number when it was not given, and exits with a failure. It
  prints nothing on the output stream and does not change which categories are shown.
\<close>

theorem failed_check_prints:
  assumes "pieces_ok ps"
  shows "let fmt = concat (map piece_text ps); prefix = cstLevelPrefix b MESSAGE_FATAL in
    assumeArg b False fmt args file line st =
    Inr (\<lparr>on_cout = [],
      on_cerr = concat (map (snd \<circ> piece_value fmt args) ps) @
        (if line \<noteq> 0 then [CHR 0x0A] @ prefix @ ''At '' @ file @ '':'' @ dec_int line @ '' : '' @ [CHR 0x0A] else []) @
        prefix @ concat (map (fst \<circ> piece_value fmt args) ps) @ cstPostfix b @ [CHR 0x0A],
      then_does = Exit_failure\<rparr>, st)"
  using toStream_pieces [OF assms]
  by (simp add: assumeArg_fails Let_def silent_def located_def message_line_def newDebug_def newFormattedMessage_def
      formatted_message.defs)

text \<open>A check at line 42 of a file, whose second argument is missing.\<close>

theorem failed_check_prints_witness:
  "\<exists>e. assumeArg \<lparr>enable_color = False, ndebug = False\<rparr> False ''Fail to open %1 : %2'' [''a.txt''] ''f.cpp'' 42
      \<lparr>catMap = Some [], catMaxWidth = 0, rank = -1\<rparr> = Inr (e, \<lparr>catMap = Some [], catMaxWidth = 0, rank = -1\<rparr>) \<and>
    on_cerr e = ''Warning : missing ID=2 in formatted message '' @ [CHR 0x27] @ ''Fail to open %1 : %2'' @ [CHR 0x27] @ '' !'' @
      [CHR 0x0A, CHR 0x0A] @ ''Fatal : At f.cpp:42 : '' @ [CHR 0x0A] @ ''Fatal : Fail to open a.txt : %2'' @ [CHR 0x0A] \<and>
    then_does e = Exit_failure"
proof -
  let ?ps = "[Text ''Fail to open '', Arg 1, Text '' : '', Arg 2]"
  have "pieces_ok ?ps"
    by (simp add: is_digit_def)
  moreover have "concat (map piece_text ?ps) = ''Fail to open %1 : %2''"
    by (simp add: dec.simps digit_def char_of_def bit_0)
  moreover have digits: "dec_int 42 = ''42''" "dec_int 2 = ''2''" "dec 2 = ''2''"
    by (simp_all add: dec_int_def dec.simps digit_def char_of_def bit_0)
  ultimately show ?thesis
    using failed_check_prints [of ?ps "\<lparr>enable_color = False, ndebug = False\<rparr>" "[''a.txt'']" "''f.cpp''" 42]
    by (simp add: cstLevelPrefix_def cstPostfix_def missing_warning_def)
qed

text \<open>
  A percent sign that is followed by a letter is not an argument: the message of \<open>removeFile\<close>,
  which is written for \<open>printf\<close>, fails an assertion instead of being printed.
\<close>

lemma percent_letter_not_printed:
  assumes "\<not> ndebug b"
  shows "assumeArg b False ''Fail to remove file %s : %s'' args file line st = Inl (AssertFailure ''id != 0'')"
proof -
  let ?f = "''Fail to remove file %s : %s''"
  have "toStream_loop (ndebug b) ?f args (''Fail to remove file '' @ ''%s : %s'') =
      put (''Fail to remove file '', []) (toStream_loop (ndebug b) ?f args ''%s : %s'')"
    by (rule toStream_text) simp
  moreover have "toStream_loop (ndebug b) ?f args ''%s : %s'' = Inl (AssertFailure ''id != 0'')"
    using assms by (subst toStream_loop.simps) (simp add: atoi_def scan_ld_def Let_def is_digit_def is_space_def)
  ultimately have "toStream_loop (ndebug b) ?f args ''Fail to remove file %s : %s'' = Inl (AssertFailure ''id != 0'')"
    by (simp add: put_def)
  then show ?thesis
    by (simp add: assumeArg_fails)
qed

section \<open>Which categories are shown\<close>

lemma enableCat_shown:
  "\<exists>st'. showCat (Some cat) (enableCat cat st) = Inr (True, st')" if "case catMap st of None \<Rightarrow> True | Some m \<Rightarrow> sorted_map m"
  using that map_assign_correct(1) [of "case catMap st of None \<Rightarrow> [] | Some m \<Rightarrow> m" cat True]
  by (auto simp: showCat_def enableCat_def Let_def sorted_map_def split: option.splits)

lemma showCat_keeps_others:
  assumes "showCat (Some cat) st = Inr (shown, st')" and "catMap st = Some m" and "sorted_map m" and "map_of m c = Some v"
  shows "\<exists>m'. catMap st' = Some m' \<and> sorted_map m' \<and> map_of m' c = Some v"
  using assms map_assign_correct [OF assms(3), of cat False] by (auto simp: showCat_def split: option.splits)

end
