(* ===== verification/MotrApi.thy ===== *)
theory MotrApi
  imports DriverProps
begin

text \<open>
  The Motr build of \<open>src/drivers/ClovisDriver.cpp\<close> and the client functions it calls, of
  \<open>extern-deps/from-motr-sample-apps/buffer.c\<close> and \<open>clovis_api.c\<close>: the choice of a block size, the
  transfer of blocks between a memory buffer and an object, and the creation of an object. The
  Motr library below them is a parameter: each of its operations is a field of \<open>motr_lib\<close>. An
  operation that is launched gives two codes, the result of \<open>m0_op_wait\<close> and that of \<open>m0_rc\<close>.
\<close>

section \<open>The Motr library\<close>

record m0_fid =
  f_container :: nat
  f_key :: nat

record pool_version =
  pv_id :: m0_fid
  pa_N :: nat
  pa_K :: nat
  pa_P :: nat

datatype obj_opcode = M0_OC_READ | M0_OC_WRITE

type_synonym obj_id = "int \<times> int"
type_synonym vec = "nat \<Rightarrow> buffer"

record 's motr_lib =
  ml_pool_version_get :: "m0_fid option \<Rightarrow> 's \<Rightarrow> int \<times> pool_version"
  ml_client_layout_id :: "'s \<Rightarrow> nat"
  ml_layout_find_by_buffsize :: "m0_fid \<Rightarrow> size_t \<Rightarrow> 's \<Rightarrow> nat"
  ml_layout_id_to_unit_size :: "nat \<Rightarrow> nat"
  ml_bufvec_alloc :: "nat \<Rightarrow> size_t \<Rightarrow> 's \<Rightarrow> int \<times> vec \<times> 's"
  ml_indexvec_alloc :: "nat \<Rightarrow> 's \<Rightarrow> int \<times> 's"
  ml_entity_open :: "obj_id \<Rightarrow> 's \<Rightarrow> int \<times> int \<times> nat \<times> 's"
  ml_entity_create :: "m0_fid option \<Rightarrow> obj_id \<Rightarrow> nat \<Rightarrow> 's \<Rightarrow> int \<times> 's"
  ml_create_wait :: "obj_id \<Rightarrow> 's \<Rightarrow> int \<times> int \<times> 's"
  ml_obj_op :: "obj_opcode \<Rightarrow> obj_id \<Rightarrow> (nat \<times> size_t) list \<Rightarrow> vec \<Rightarrow> 's \<Rightarrow> int \<times> int \<times> vec \<times> 's"

text \<open>
  The static variables of the client: the configuration of the library, the name of the
  configuration file and the pools it names, the unit size set by an option, and the total weight
  of the transfers, an \<open>int\<close>. The state of the library is \<open>m0\<close>.
\<close>

record motr_config =
  mc_ha_addr :: "string option"
  mc_profile :: "string option"
  mc_local_addr :: "string option"
  mc_process_fid :: "string option"
  mc_is_oostore :: bool
  mc_is_read_verify :: bool
  mc_tm_recv_queue_min_len :: nat
  mc_max_rpc_msg_size :: nat
  mc_layout_id :: nat

record 's motr_client =
  m0_conf :: motr_config
  c0rcfile :: string
  pools :: "m0_fid list"
  unit_size :: nat
  qos_total_weight :: int
  m0 :: 's

text \<open>The operator \<open>?:\<close> without a middle operand, on return codes.\<close>

definition or_else :: "int \<Rightarrow> int \<Rightarrow> int" where
  "or_else a b = (if a \<noteq> 0 then a else b)"

section \<open>Block size\<close>

abbreviation (input) MAX_M0_BUFSZ :: nat where
  "MAX_M0_BUFSZ \<equiv> 134217728"

abbreviation (input) MAX_POOLS :: nat where
  "MAX_POOLS \<equiv> 16"

definition tier2pool :: "int \<Rightarrow> 's motr_client \<Rightarrow> m0_fid option" where
  "tier2pool tier c =
     (let tier_idx = nat (tier mod 256)
      in if tier_idx < 1 \<or> tier_idx > MAX_POOLS then None else Some (pools c ! (tier_idx - 1)))"

partial_function (option) roundup_loop :: "size_t \<Rightarrow> size_t \<Rightarrow> size_t option" where
  "roundup_loop x pw = (if pw < x then roundup_loop x (sz_mul pw 2) else Some pw)"

definition roundup_power2 :: "size_t \<Rightarrow> size_t option" where
  "roundup_power2 x = roundup_loop x 1"

definition open_entity :: "'s motr_lib \<Rightarrow> obj_id \<Rightarrow> 's motr_client \<Rightarrow> int \<times> nat \<times> 's motr_client" where
  "open_entity lib obj c =
     (case ml_entity_open lib obj (m0 c) of (waited, rc, lid, s) \<Rightarrow> (or_else waited rc, lid, c\<lparr>m0 := s\<rparr>))"

definition c0appz_ex :: "'s motr_lib \<Rightarrow> obj_id \<Rightarrow> 's motr_client \<Rightarrow> nat option \<times> 's motr_client" where
  "c0appz_ex lib obj c =
     (case open_entity lib obj c of (rc, lid, c1) \<Rightarrow> (if rc \<noteq> 0 then None else Some lid, c1))"

definition c0appz_m0bs ::
  "'s motr_lib \<Rightarrow> obj_id \<Rightarrow> size_t \<Rightarrow> int \<Rightarrow> 's motr_client \<Rightarrow> (size_t \<times> 's motr_client) outcome" where
  "c0appz_m0bs lib obj size0 tier c =
     (let obj_sz = (if size0 > MAX_M0_BUFSZ then MAX_M0_BUFSZ else size0)
      in case ml_pool_version_get lib (tier2pool tier c) (m0 c) of (rc, pver) \<Rightarrow>
           if rc \<noteq> 0 then returns (0, c)
           else case c0appz_ex lib obj c of (found, c1) \<Rightarrow>
             let lid = (case found of
                          Some l \<Rightarrow> l
                        | None \<Rightarrow> if unit_size c1 \<noteq> 0 then ml_client_layout_id lib (m0 c1)
                                  else ml_layout_find_by_buffsize lib (pv_id pver) obj_sz (m0 c1));
                 usz = ml_layout_id_to_unit_size lib lid;
                 gsz = sz_mul usz (pa_N pver);
                 width = (pa_N pver + 2 * pa_K pver) mod 4294967296;
                 deep = sz_mul (sz_mul (sz_mul usz 2) (pa_P pver)) (pa_N pver)
             in if width = 0 \<or> gsz = 0 then aborts (Undefined ''division by zero'')
                else
                  let max_bs = sz_mul (deep div width div gsz) gsz
                  in if obj_sz \<ge> max_bs then returns (max_bs, c1)
                     else if obj_sz \<le> gsz then returns (gsz, c1)
                     else case roundup_power2 obj_sz of None \<Rightarrow> None | Some p \<Rightarrow> returns (p, c1))"

section \<open>Transfers\<close>

text \<open>The three vectors of an operation, and what the allocated blocks hold.\<close>

definition alloc_segs :: "'s motr_lib \<Rightarrow> size_t \<Rightarrow> nat \<Rightarrow> 's motr_client \<Rightarrow> int \<times> vec \<times> 's motr_client" where
  "alloc_segs lib bsz cnt c =
     (case ml_bufvec_alloc lib cnt bsz (m0 c) of (rc1, data, s1) \<Rightarrow>
        if rc1 \<noteq> 0 then (rc1, data, c\<lparr>m0 := s1\<rparr>)
        else case ml_bufvec_alloc lib cnt 1 s1 of (rc2, attr, s2) \<Rightarrow>
          if rc2 \<noteq> 0 then (rc2, data, c\<lparr>m0 := s2\<rparr>)
          else case ml_indexvec_alloc lib cnt s2 of (rc3, s3) \<Rightarrow> (rc3, data, c\<lparr>m0 := s3\<rparr>))"

text \<open>The extents are those of all the blocks that were allocated.\<close>

fun set_exts :: "nat \<Rightarrow> size_t \<Rightarrow> size_t \<Rightarrow> (nat \<times> size_t) list" where
  "set_exts 0 off bsz = []"
| "set_exts (Suc n) off bsz = (off, bsz) # set_exts n (sz_add off bsz) bsz"

text \<open>Copies between the blocks and the buffer, from the place \<open>pos\<close> of the buffer.\<close>

definition bufvecw :: "nat \<Rightarrow> size_t \<Rightarrow> nat \<Rightarrow> buffer \<Rightarrow> nat \<Rightarrow> vec \<Rightarrow> vec" where
  "bufvecw v_nr bsz cnt buf pos data =
     (\<lambda>i k. if i < min cnt v_nr \<and> k < bsz then buf (pos + i * bsz + k) else data i k)"

definition bufvecr :: "nat \<Rightarrow> size_t \<Rightarrow> nat \<Rightarrow> vec \<Rightarrow> nat \<Rightarrow> buffer \<Rightarrow> buffer" where
  "bufvecr v_nr bsz cnt data pos buf =
     (\<lambda>k. if pos \<le> k \<and> k < pos + min cnt v_nr * bsz
          then data ((k - pos) div bsz) ((k - pos) mod bsz) else buf k)"

definition do_io_op ::
  "'s motr_lib \<Rightarrow> obj_opcode \<Rightarrow> obj_id \<Rightarrow> (nat \<times> size_t) list \<Rightarrow> vec \<Rightarrow> 's motr_client \<Rightarrow> int \<times> vec \<times> 's motr_client" where
  "do_io_op lib opcode obj ext data c =
     (case ml_obj_op lib opcode obj ext data (m0 c) of
        (waited, rc, data', s) \<Rightarrow> (or_else waited rc, data', c\<lparr>m0 := s\<rparr>))"

definition qos_add :: "nat \<Rightarrow> size_t \<Rightarrow> 's motr_client \<Rightarrow> 's motr_client" where
  "qos_add cnt bsz c = c\<lparr>qos_total_weight := int32 (qos_total_weight c + int (sz_mul cnt bsz))\<rparr>"

text \<open>
  The loops over the operations. \<open>v_nr\<close> blocks are allocated; \<open>cnt_per_op\<close> becomes smaller for the
  last operation. The subtraction of 0 blocks would repeat for ever.
\<close>

partial_function (option) motr_read_loop ::
  "'s motr_lib \<Rightarrow> obj_id \<Rightarrow> size_t \<Rightarrow> nat \<Rightarrow> nat \<Rightarrow> nat \<Rightarrow> size_t \<Rightarrow> nat \<Rightarrow> buffer \<Rightarrow> vec \<Rightarrow> 's motr_client
     \<Rightarrow> (int \<times> buffer \<times> 's motr_client) option" where
  "motr_read_loop lib obj bsz v_nr cnt cnt_per_op off pos buf data c =
     (if cnt > 0
      then
        let cpo = (if cnt < cnt_per_op then cnt else cnt_per_op);
            ext = set_exts v_nr off bsz;
            off' = sz_add off (sz_mul v_nr bsz)
        in case do_io_op lib M0_OC_READ obj ext data c of (rc, data', c1) \<Rightarrow>
             if rc \<noteq> 0 then Some (rc, buf, c1)
             else motr_read_loop lib obj bsz v_nr (cnt - cpo) cpo off' (pos + min cpo v_nr * bsz)
                    (bufvecr v_nr bsz cpo data' pos buf) data' (qos_add cpo bsz c1)
      else Some (0, buf, c))"

partial_function (option) motr_write_loop ::
  "'s motr_lib \<Rightarrow> obj_id \<Rightarrow> size_t \<Rightarrow> nat \<Rightarrow> nat \<Rightarrow> nat \<Rightarrow> size_t \<Rightarrow> nat \<Rightarrow> buffer \<Rightarrow> vec \<Rightarrow> 's motr_client
     \<Rightarrow> (int \<times> 's motr_client) option" where
  "motr_write_loop lib obj bsz v_nr cnt cnt_per_op off pos buf data c =
     (if cnt > 0
      then
        let cpo = (if cnt < cnt_per_op then cnt else cnt_per_op);
            ext = set_exts v_nr off bsz;
            off' = sz_add off (sz_mul v_nr bsz)
        in case do_io_op lib M0_OC_WRITE obj ext (bufvecw v_nr bsz cpo buf pos data) c of (rc, data', c1) \<Rightarrow>
             if rc \<noteq> 0 then Some (rc, c1)
             else motr_write_loop lib obj bsz v_nr (cnt - cpo) cpo off' (pos + min cpo v_nr * bsz)
                    buf data' (qos_add cpo bsz c1)
      else Some (0, c))"

definition check_bsz_args :: "size_t \<Rightarrow> size_t \<Rightarrow> bool" where
  "check_bsz_args bsz m0bs \<longleftrightarrow> \<not> (bsz < 1 \<or> bsz mod 4096 \<noteq> 0) \<and> \<not> (m0bs < 1 \<or> m0bs mod bsz \<noteq> 0)"

text \<open>\<open>-EINVAL\<close> is \<open>-22\<close>.\<close>

definition c0appz_mr ::
  "'s motr_lib \<Rightarrow> buffer \<Rightarrow> obj_id \<Rightarrow> size_t \<Rightarrow> size_t \<Rightarrow> size_t \<Rightarrow> size_t \<Rightarrow> 's motr_client
     \<Rightarrow> (int \<times> buffer \<times> 's motr_client) option" where
  "c0appz_mr lib buf obj off bsz cnt m0bs c =
     (if \<not> check_bsz_args bsz m0bs then Some (-22, buf, c)
      else
        let cnt_per_op = m0bs div bsz mod 4294967296
        in case alloc_segs lib bsz cnt_per_op c of (rc, data, c1) \<Rightarrow>
             if rc \<noteq> 0 then Some (rc, buf, c1)
             else case open_entity lib obj c1 of (rc, lid, c2) \<Rightarrow>
               if rc \<noteq> 0 then Some (rc, buf, c2)
               else motr_read_loop lib obj bsz cnt_per_op cnt cnt_per_op off 0 buf data c2)"

definition c0appz_mw ::
  "'s motr_lib \<Rightarrow> buffer \<Rightarrow> obj_id \<Rightarrow> size_t \<Rightarrow> size_t \<Rightarrow> size_t \<Rightarrow> size_t \<Rightarrow> 's motr_client
     \<Rightarrow> (int \<times> 's motr_client) option" where
  "c0appz_mw lib buf obj off bsz cnt m0bs c =
     (if \<not> check_bsz_args bsz m0bs then Some (-22, c)
      else
        let cnt_per_op = m0bs div bsz mod 4294967296
        in case alloc_segs lib bsz cnt_per_op c of (rc, data, c1) \<Rightarrow>
             if rc \<noteq> 0 then Some (rc, c1)
             else case open_entity lib obj c1 of (rc, lid, c2) \<Rightarrow>
               if rc \<noteq> 0 then Some (rc, c2)
               else motr_write_loop lib obj bsz cnt_per_op cnt cnt_per_op off 0 buf data c2)"

section \<open>Creation of an object\<close>

definition c0appz_cr :: "'s motr_lib \<Rightarrow> obj_id \<Rightarrow> int \<Rightarrow> size_t \<Rightarrow> 's motr_client \<Rightarrow> int \<times> 's motr_client" where
  "c0appz_cr lib obj tier bsz c =
     (let pool = tier2pool tier c
      in case ml_pool_version_get lib pool (m0 c) of (rc, pver) \<Rightarrow>
           if rc \<noteq> 0 then (rc, c)
           else
             let lid = (if unit_size c \<noteq> 0 then ml_client_layout_id lib (m0 c)
                        else ml_layout_find_by_buffsize lib (pv_id pver) bsz (m0 c))
             in case open_entity lib obj c of (rc, old, c1) \<Rightarrow>
                  if rc = 0 then (1, c1)
                  else case ml_entity_create lib pool obj lid (m0 c1) of (rc, s2) \<Rightarrow>
                    if rc \<noteq> 0 then (rc, c1\<lparr>m0 := s2\<rparr>)
                    else case ml_create_wait lib obj s2 of (waited, rc, s3) \<Rightarrow>
                      (or_else waited rc, c1\<lparr>m0 := s3\<rparr>))"

definition create_object :: "'s motr_lib \<Rightarrow> obj_id \<Rightarrow> 's motr_client \<Rightarrow> int \<times> 's motr_client" where
  "create_object lib obj c = c0appz_cr lib obj 0 (1024 * 1024) c"

section \<open>The driver\<close>

definition newMotrDriver :: "'s motr_lib \<Rightarrow> int \<Rightarrow> int \<Rightarrow> bool \<Rightarrow> 's motr_client \<Rightarrow> clovis_driver \<times> 's motr_client" where
  "newMotrDriver lib high low create c =
     (driver.extend driver_new \<lparr>obj_hi = high, obj_lo = low\<rparr>,
      if create then snd (create_object lib (high, low) c) else c)"

definition motr_pread ::
  "'s motr_lib \<Rightarrow> clovis_driver \<Rightarrow> addr \<Rightarrow> buffer \<Rightarrow> size_t \<Rightarrow> size_t \<Rightarrow> 's motr_client
     \<Rightarrow> (int \<times> buffer \<times> 's motr_client) outcome" where
  "motr_pread lib d ptr buf sz offset c =
     (if \<not> ptr \<noteq> 0 then aborts (AssertFailure ''buffer != NULL'')
      else if \<not> sz mod 4096 = 0
      then aborts (Fatal ''Clovis driver work only with size multiple of the page size !'')
      else if \<not> offset mod 4096 = 0
      then aborts (Fatal ''Clovis driver work only with offset multiple of the page size !'')
      else bindO (c0appz_m0bs lib (obj_hi d, obj_lo d) sz 0 c) (\<lambda>(m0bs, c1).
        case c0appz_mr lib buf (obj_hi d, obj_lo d) offset 4096 (sz div 4096) m0bs c1 of
          None \<Rightarrow> None
        | Some (ret, buf', c2) \<Rightarrow> returns (if ret = 0 then ssize sz else -1, buf', c2)))"

definition motr_pwrite ::
  "'s motr_lib \<Rightarrow> clovis_driver \<Rightarrow> addr \<Rightarrow> buffer \<Rightarrow> size_t \<Rightarrow> size_t \<Rightarrow> 's motr_client
     \<Rightarrow> (int \<times> 's motr_client) outcome" where
  "motr_pwrite lib d ptr buf sz offset c =
     (if \<not> ptr \<noteq> 0 then aborts (AssertFailure ''buffer != NULL'')
      else if \<not> sz mod 4096 = 0
      then aborts (Fatal ''Motr driver work only with size multiple of the page size, got %1 !'')
      else if \<not> offset mod 4096 = 0
      then aborts (Fatal ''Motr driver work only with offset multiple of the page size, got %1 !'')
      else bindO (c0appz_m0bs lib (obj_hi d, obj_lo d) sz 0 c) (\<lambda>(m0bs, c1).
        case c0appz_mw lib buf (obj_hi d, obj_lo d) offset 4096 (sz div 4096) m0bs c1 of
          None \<Rightarrow> None
        | Some (ret, c2) \<Rightarrow> returns (if ret = 0 then ssize sz else -1, c2)))"

section \<open>The block size is found\<close>

lemma roundup_loop_unfold:
  "pw < x \<Longrightarrow> roundup_loop x pw = roundup_loop x (sz_mul pw 2)"
  "\<not> pw < x \<Longrightarrow> roundup_loop x pw = Some pw"
  by (subst roundup_loop.simps, simp)+

lemma roundup_loop_power:
  assumes "x \<le> 2 ^ 63" and "k \<le> 63"
  shows "\<exists>j \<le> 63. roundup_loop x (2 ^ k) = Some (2 ^ j) \<and> x \<le> 2 ^ j \<and> (k < j \<longrightarrow> 2 ^ j < 2 * x)"
  using assms(2)
proof (induction "63 - k" arbitrary: k)
  case 0
  then have "k = 63" by simp
  then show ?case
    using assms(1) by (intro exI [of _ 63]) (simp add: roundup_loop_unfold(2))
next
  case (Suc n)
  show ?case
  proof (cases "2 ^ k < x")
    case True
    have "k < 63"
      using Suc.hyps(2) by simp
    then have "(2::nat) ^ Suc k < 2 ^ 64"
      by (intro power_strict_increasing) simp_all
    then have "sz_mul (2 ^ k) 2 = 2 ^ Suc k"
      by (intro trans [OF sz_mul_exact]) simp_all
    moreover have "n = 63 - Suc k" and "Suc k \<le> 63"
      using Suc.hyps(2) \<open>k < 63\<close> by simp_all
    then obtain j where "j \<le> 63" "roundup_loop x (2 ^ Suc k) = Some (2 ^ j)" "x \<le> 2 ^ j" "Suc k < j \<longrightarrow> 2 ^ j < 2 * x"
      using Suc.hyps(1) by blast
    moreover have "2 ^ j < 2 * x" if "k < j"
    proof (cases "Suc k < j")
      case False
      with that have "j = Suc k"
        by simp
      with True show ?thesis by simp
    qed (use \<open>Suc k < j \<longrightarrow> 2 ^ j < 2 * x\<close> in blast)
    ultimately show ?thesis
      by (intro exI [of _ j]) (simp add: roundup_loop_unfold(1) [OF True])
  next
    case False
    then show ?thesis
      using Suc.prems by (intro exI [of _ k]) (simp add: roundup_loop_unfold(2))
  qed
qed

text \<open>The smallest power of two that is not below \<open>x\<close>.\<close>

lemma roundup_power2_correct:
  assumes "0 < x" and "x \<le> 2 ^ 63"
  obtains j where "roundup_power2 x = Some (2 ^ j)" and "x \<le> 2 ^ j" and "2 ^ j < 2 * x"
  using roundup_loop_power [OF assms(2), of 0] assms(1) by (force simp: roundup_power2_def)

lemma if_returns: "a \<noteq> None \<Longrightarrow> b \<noteq> None \<Longrightarrow> (if c then a else b) \<noteq> None"
  by simp

lemma if_caseE: "(if c then a else b) = z \<Longrightarrow> (a = z \<Longrightarrow> P) \<Longrightarrow> (b = z \<Longrightarrow> P) \<Longrightarrow> P"
  by (cases c) simp_all

lemma c0appz_m0bs_returns: "c0appz_m0bs lib obj sz tier c \<noteq> None"
proof -
  define z where "z = (if sz > MAX_M0_BUFSZ then MAX_M0_BUFSZ else sz)"
  have "roundup_power2 z \<noteq> None"
    using roundup_loop_power [of z 0] by (auto simp: roundup_power2_def z_def)
  then obtain p where p: "roundup_power2 z = Some p"
    by blast
  obtain rc pver where pv: "ml_pool_version_get lib (tier2pool tier c) (m0 c) = (rc, pver)"
    by fastforce
  obtain found c1 where ex: "c0appz_ex lib obj c = (found, c1)"
    by fastforce
  show ?thesis
    unfolding c0appz_m0bs_def Let_def z_def [symmetric] p pv ex prod.case option.case
    by (intro if_returns) simp_all
qed

section \<open>The effect of the loops\<close>

lemma set_exts_exact:
  "off + n * bsz < W64 \<Longrightarrow> set_exts n off bsz = map (\<lambda>i. (off + i * bsz, bsz)) [0..<n]"
proof (induction n arbitrary: off)
  case (Suc n)
  then have "set_exts n (off + bsz) bsz = map (\<lambda>i. (off + bsz + i * bsz, bsz)) [0..<n]"
    by (simp add: add.assoc)
  with Suc.prems show ?case
    by (simp add: upt_conv_Cons map_Suc_upt [symmetric] add.assoc del: upt_Suc)
qed simp

text \<open>
  What the transfers rely on: an operation of the library that gives no error code reads or writes
  every extent, a write leaves the blocks alone, and the other calls keep the content of objects.
\<close>

definition as_mero :: "'s motr_lib \<Rightarrow> vec \<Rightarrow> 's mero" where
  "as_mero lib data =
     \<lparr>mero_read = \<lambda>obj ext s. case ml_obj_op lib M0_OC_READ obj ext data s of (w, rc, data', s') \<Rightarrow> (or_else w rc, data', s'),
      mero_write = \<lambda>obj ext units s. case ml_obj_op lib M0_OC_WRITE obj ext units s of (w, rc, data', s') \<Rightarrow> (or_else w rc, s'),
      mero_unit_size = \<lambda>s. 0, mero_create = \<lambda>obj s. s\<rparr>"

definition motr_ok :: "'s motr_lib \<Rightarrow> (obj_id \<Rightarrow> 's \<Rightarrow> nat \<Rightarrow> byte) \<Rightarrow> bool" where
  "motr_ok lib ocontent \<longleftrightarrow>
     (\<forall>data. mero_read_ok (as_mero lib data) ocontent \<and> vector_write_ok (as_mero lib data) ocontent) \<and>
     (\<forall>obj ext data s w rc data' s'. ml_obj_op lib M0_OC_WRITE obj ext data s = (w, rc, data', s') \<longrightarrow> data' = data) \<and>
     (\<forall>obj n bsz s. ocontent obj (snd (snd (ml_bufvec_alloc lib n bsz s))) = ocontent obj s) \<and>
     (\<forall>obj n s. ocontent obj (snd (ml_indexvec_alloc lib n s)) = ocontent obj s) \<and>
     (\<forall>obj obj' s. ocontent obj (snd (snd (snd (ml_entity_open lib obj' s)))) = ocontent obj s)"

lemma do_io_op_read:
  assumes "motr_ok lib ocontent" and "0 < bsz" and "off + n * bsz < W64"
    and "do_io_op lib M0_OC_READ obj (set_exts n off bsz) data c = (0, data', c')"
  shows "ocontent obj (m0 c') = ocontent obj (m0 c)"
    and "i < n \<Longrightarrow> k < bsz \<Longrightarrow> data' i k = ocontent obj (m0 c) (off + i * bsz + k)"
proof -
  let ?ext = "map (\<lambda>i. (off + i * bsz, bsz)) [0..<n]"
  have "mero_read (as_mero lib data) obj ?ext (m0 c) = (0, data', m0 c')"
    using assms(4) by (auto simp: do_io_op_def as_mero_def set_exts_exact [OF assms(3)] split: prod.splits)
  moreover have "mero_read_ok (as_mero lib data) ocontent"
    using assms(1) by (simp add: motr_ok_def)
  ultimately have "ocontent obj (m0 c') = ocontent obj (m0 c) \<and>
      (\<forall>i < length ?ext. \<forall>k < snd (?ext ! i). data' i k = ocontent obj (m0 c) (fst (?ext ! i) + k))"
    unfolding mero_read_ok_def by blast
  then show "ocontent obj (m0 c') = ocontent obj (m0 c)"
    and "i < n \<Longrightarrow> k < bsz \<Longrightarrow> data' i k = ocontent obj (m0 c) (off + i * bsz + k)"
    by simp_all
qed

lemma do_io_op_write:
  assumes "motr_ok lib ocontent" and "0 < bsz" and "off + n * bsz < W64"
    and "do_io_op lib M0_OC_WRITE obj (set_exts n off bsz) data c = (0, data', c')"
  shows "data' = data"
    and "ocontent obj (m0 c') y =
      (if off \<le> y \<and> y < off + n * bsz then data ((y - off) div bsz) ((y - off) mod bsz) else ocontent obj (m0 c) y)"
proof -
  let ?ext = "map (\<lambda>i. (off + i * bsz, bsz)) [0..<n]"
  obtain w rc where op: "ml_obj_op lib M0_OC_WRITE obj ?ext data (m0 c) = (w, rc, data', m0 c')" and "or_else w rc = 0"
    using assms(4) by (auto simp: do_io_op_def set_exts_exact [OF assms(3)] split: prod.splits)
  then have wr: "mero_write (as_mero lib data) obj ?ext data (m0 c) = (0, m0 c')"
    by (simp add: as_mero_def)
  show "data' = data"
    using assms(1) op unfolding motr_ok_def by blast
  have "vector_write_ok (as_mero lib data) ocontent"
    using assms(1) by (simp add: motr_ok_def)
  then show "ocontent obj (m0 c') y =
      (if off \<le> y \<and> y < off + n * bsz then data ((y - off) div bsz) ((y - off) mod bsz) else ocontent obj (m0 c) y)"
    by (rule vector_write_units [OF _ assms(2) wr])
qed

lemma qos_add_m0 [simp]: "m0 (qos_add n bsz c) = m0 c"
  by (simp add: qos_add_def)

text \<open>The number of blocks the operations cover: whole operations of \<open>n\<close> blocks.\<close>

definition blocks_up :: "nat \<Rightarrow> nat \<Rightarrow> nat" where
  "blocks_up cnt n = (cnt + n - 1) div n * n"

lemma blocks_up_simps:
  assumes "0 < n"
  shows "blocks_up 0 n = 0" and "0 < cnt \<Longrightarrow> cnt \<le> n \<Longrightarrow> blocks_up cnt n = n"
    and "n \<le> cnt \<Longrightarrow> blocks_up cnt n = n + blocks_up (cnt - n) n"
proof -
  show "blocks_up 0 n = 0"
    using assms by (simp add: blocks_up_def)
  show "blocks_up cnt n = n" if "0 < cnt" "cnt \<le> n"
  proof -
    have "(cnt + n - 1) div n = 1"
      using that by (intro div_nat_eqI) simp_all
    then show ?thesis
      by (simp add: blocks_up_def)
  qed
  show "blocks_up cnt n = n + blocks_up (cnt - n) n" if "n \<le> cnt"
  proof -
    have "cnt + n - 1 = n + (cnt - n + n - 1)"
      using that assms by linarith
    then have "(cnt + n - 1) div n = Suc ((cnt - n + n - 1) div n)"
      using assms by (metis div_add_self1 less_numeral_extra(3) Suc_eq_plus1)
    then show ?thesis
      by (simp add: blocks_up_def)
  qed
qed

lemma blocks_up_bounds: "0 < n \<Longrightarrow> cnt \<le> blocks_up cnt n \<and> blocks_up cnt n < cnt + n"
proof (induction cnt rule: less_induct)
  case (less cnt)
  show ?case
  proof (cases "n \<le> cnt")
    case True
    have "cnt - n < cnt"
      using True less.prems by simp
    with less.IH [OF this less.prems] blocks_up_simps(3) [OF less.prems True] True show ?thesis by linarith
  next
    case False
    with less.prems blocks_up_simps(1) [OF less.prems] blocks_up_simps(2) [OF less.prems, of cnt] show ?thesis by (cases "cnt = 0") simp_all
  qed
qed

lemma blocks_up_scale:
  assumes "0 < n" and "0 < k"
  shows "blocks_up (cnt * k) (n * k) = blocks_up cnt n * k"
proof (induction cnt rule: less_induct)
  case (less cnt)
  have nk: "0 < n * k"
    using assms by simp
  show ?case
  proof (cases "n \<le> cnt")
    case True
    have "cnt - n < cnt" and "cnt * k - n * k = (cnt - n) * k" and "n * k \<le> cnt * k"
      using True assms by (simp_all add: diff_mult_distrib)
    with less.IH show ?thesis
      by (simp add: blocks_up_simps(3) [OF assms(1) True] blocks_up_simps(3) [OF nk] distrib_right)
  next
    case False
    then show ?thesis
      using blocks_up_simps(1,2) [OF assms(1)] blocks_up_simps(1,2) [OF nk] assms
      by (cases "cnt = 0") (simp_all add: mult_right_mono)
  qed
qed

lemma motr_write_loop_unfold:
  "motr_write_loop lib obj bsz v 0 n off pos buf data c = Some (0, c)"
  "0 < cnt \<Longrightarrow> motr_write_loop lib obj bsz v cnt n off pos buf data c =
     (case do_io_op lib M0_OC_WRITE obj (set_exts v off bsz) (bufvecw v bsz (min cnt n) buf pos data) c of (rc, data', c1) \<Rightarrow>
        if rc \<noteq> 0 then Some (rc, c1)
        else motr_write_loop lib obj bsz v (cnt - min cnt n) (min cnt n) (sz_add off (sz_mul v bsz))
               (pos + min (min cnt n) v * bsz) buf data' (qos_add (min cnt n) bsz c1))"
proof -
  show "motr_write_loop lib obj bsz v 0 n off pos buf data c = Some (0, c)"
    by (subst motr_write_loop.simps) simp
  have "(if cnt < n then cnt else n) = min cnt n"
    by simp
  then show "0 < cnt \<Longrightarrow> motr_write_loop lib obj bsz v cnt n off pos buf data c =
     (case do_io_op lib M0_OC_WRITE obj (set_exts v off bsz) (bufvecw v bsz (min cnt n) buf pos data) c of (rc, data', c1) \<Rightarrow>
        if rc \<noteq> 0 then Some (rc, c1)
        else motr_write_loop lib obj bsz v (cnt - min cnt n) (min cnt n) (sz_add off (sz_mul v bsz))
               (pos + min (min cnt n) v * bsz) buf data' (qos_add (min cnt n) bsz c1))"
    by (subst motr_write_loop.simps) (simp only: Let_def if_True)
qed

lemma motr_read_loop_unfold:
  "motr_read_loop lib obj bsz v 0 n off pos buf data c = Some (0, buf, c)"
  "0 < cnt \<Longrightarrow> motr_read_loop lib obj bsz v cnt n off pos buf data c =
     (case do_io_op lib M0_OC_READ obj (set_exts v off bsz) data c of (rc, data', c1) \<Rightarrow>
        if rc \<noteq> 0 then Some (rc, buf, c1)
        else motr_read_loop lib obj bsz v (cnt - min cnt n) (min cnt n) (sz_add off (sz_mul v bsz))
               (pos + min (min cnt n) v * bsz) (bufvecr v bsz (min cnt n) data' pos buf) data' (qos_add (min cnt n) bsz c1))"
proof -
  show "motr_read_loop lib obj bsz v 0 n off pos buf data c = Some (0, buf, c)"
    by (subst motr_read_loop.simps) simp
  have "(if cnt < n then cnt else n) = min cnt n"
    by simp
  then show "0 < cnt \<Longrightarrow> motr_read_loop lib obj bsz v cnt n off pos buf data c =
     (case do_io_op lib M0_OC_READ obj (set_exts v off bsz) data c of (rc, data', c1) \<Rightarrow>
        if rc \<noteq> 0 then Some (rc, buf, c1)
        else motr_read_loop lib obj bsz v (cnt - min cnt n) (min cnt n) (sz_add off (sz_mul v bsz))
               (pos + min (min cnt n) v * bsz) (bufvecr v bsz (min cnt n) data' pos buf) data' (qos_add (min cnt n) bsz c1))"
    by (subst motr_read_loop.simps) (simp only: Let_def if_True)
qed

text \<open>The loops return when an operation has at least one block.\<close>

lemma motr_loops_return:
  assumes "0 < n"
  shows "motr_write_loop lib obj bsz v cnt n off pos buf data c \<noteq> None"
    and "motr_read_loop lib obj bsz v cnt n off pos buf' data c \<noteq> None"
  using assms
proof (induction cnt arbitrary: n off pos buf buf' data c rule: less_induct)
  case (less cnt)
  {
    case 1
    with less.IH(1) [of "cnt - min cnt n" "min cnt n"] show ?case
      by (cases "cnt = 0") (auto simp: motr_write_loop_unfold split: prod.splits)
  next
    case 2
    with less.IH(2) [of "cnt - min cnt n" "min cnt n"] show ?case
      by (cases "cnt = 0") (auto simp: motr_read_loop_unfold split: prod.splits)
  }
qed

lemma bufvecw_byte:
  assumes "0 < bsz" and "x < cnt * bsz" and "cnt \<le> v"
  shows "bufvecw v bsz cnt buf pos data (x div bsz) (x mod bsz) = buf (pos + x)"
proof -
  have "x div bsz < cnt"
    using assms(2) by (rule less_mult_imp_div_less)
  with assms show ?thesis
    by (simp add: bufvecw_def add.assoc)
qed

text \<open>The state after the first operation of a write.\<close>

lemma motr_write_loop_first:
  assumes "0 < cnt" and "motr_write_loop lib obj bsz v cnt n off pos buf data c = Some (0, c')"
  obtains data' c1 where
    "do_io_op lib M0_OC_WRITE obj (set_exts v off bsz) (bufvecw v bsz (min cnt n) buf pos data) c = (0, data', c1)"
    and "motr_write_loop lib obj bsz v (cnt - min cnt n) (min cnt n) (sz_add off (sz_mul v bsz))
      (pos + min (min cnt n) v * bsz) buf data' (qos_add (min cnt n) bsz c1) = Some (0, c')"
  using assms by (auto simp: motr_write_loop_unfold split: prod.splits if_splits)

lemma motr_read_loop_first:
  assumes "0 < cnt" and "motr_read_loop lib obj bsz v cnt n off pos buf data c = Some (0, buf', c')"
  obtains data' c1 where "do_io_op lib M0_OC_READ obj (set_exts v off bsz) data c = (0, data', c1)"
    and "motr_read_loop lib obj bsz v (cnt - min cnt n) (min cnt n) (sz_add off (sz_mul v bsz))
      (pos + min (min cnt n) v * bsz) (bufvecr v bsz (min cnt n) data' pos buf) data' (qos_add (min cnt n) bsz c1) =
      Some (0, buf', c')"
  using assms by (auto simp: motr_read_loop_unfold split: prod.splits if_splits)

lemma next_operation:
  assumes "off + (cnt + n) * bsz < W64" and "0 < cnt"
  shows "off + n * bsz < W64" and "sz_add off (sz_mul n bsz) = off + n * bsz"
    and "n \<le> cnt \<Longrightarrow> off + n * bsz + (cnt - n + n) * bsz < W64"
proof -
  show 1: "off + n * bsz < W64"
    using assms(1) unfolding distrib_right by linarith
  then show "sz_add off (sz_mul n bsz) = off + n * bsz"
    by simp
  show "off + n * bsz + (cnt - n + n) * bsz < W64" if "n \<le> cnt"
    using assms(1) that unfolding distrib_right le_add_diff_inverse2 [OF that] by linarith
qed

lemma motr_write_op:
  assumes "motr_ok lib ocontent" and "0 < bsz" and "off + n * bsz < W64" and "k \<le> n"
    and "do_io_op lib M0_OC_WRITE obj (set_exts n off bsz) (bufvecw n bsz k buf pos data) c = (0, data', c1)"
  shows "off \<le> y \<Longrightarrow> y < off + k * bsz \<Longrightarrow> ocontent obj (m0 c1) y = buf (pos + (y - off))"
    and "y < off \<or> off + n * bsz \<le> y \<Longrightarrow> ocontent obj (m0 c1) y = ocontent obj (m0 c) y"
proof -
  note op = do_io_op_write(2) [OF assms(1-3,5), of y]
  show "ocontent obj (m0 c1) y = buf (pos + (y - off))" if "off \<le> y" "y < off + k * bsz"
  proof -
    have "k * bsz \<le> n * bsz"
      using assms(4) by simp
    then have "y < off + n * bsz" and "y - off < k * bsz"
      using that by linarith+
    with op that(1) bufvecw_byte [OF assms(2) _ assms(4), of "y - off" buf pos data] show ?thesis by simp
  qed
  show "y < off \<or> off + n * bsz \<le> y \<Longrightarrow> ocontent obj (m0 c1) y = ocontent obj (m0 c) y"
    using op by auto
qed

lemma motr_write_loop_correct:
  assumes ok: "motr_ok lib ocontent" and bsz: "0 < bsz" and n: "0 < n"
    and "motr_write_loop lib obj bsz n cnt n off pos buf data c = Some (0, c')"
    and "off + (cnt + n) * bsz < W64"
  shows "off \<le> y \<Longrightarrow> y < off + cnt * bsz \<Longrightarrow> ocontent obj (m0 c') y = buf (pos + (y - off))"
    and "y < off \<or> off + blocks_up cnt n * bsz \<le> y \<Longrightarrow> ocontent obj (m0 c') y = ocontent obj (m0 c) y"
proof -
  have "(off \<le> y \<and> y < off + cnt * bsz \<longrightarrow> ocontent obj (m0 c') y = buf (pos + (y - off))) \<and>
      (y < off \<or> off + blocks_up cnt n * bsz \<le> y \<longrightarrow> ocontent obj (m0 c') y = ocontent obj (m0 c) y)"
    using assms(4,5)
  proof (induction cnt arbitrary: off pos data c rule: less_induct)
    case (less cnt)
    show ?case
    proof (cases "cnt = 0")
      case True
      with less.prems show ?thesis by (simp add: motr_write_loop_unfold)
    next
      case False
      then have pos: "0 < cnt"
        by simp
      note nx = next_operation [OF less.prems(2) pos]
      obtain data' c1 where io: "do_io_op lib M0_OC_WRITE obj (set_exts n off bsz) (bufvecw n bsz (min cnt n) buf pos data) c = (0, data', c1)"
        and rest: "motr_write_loop lib obj bsz n (cnt - min cnt n) (min cnt n) (off + n * bsz)
          (pos + min (min cnt n) n * bsz) buf data' (qos_add (min cnt n) bsz c1) = Some (0, c')"
        using motr_write_loop_first [OF pos less.prems(1)] unfolding nx(2) by metis
      note op = motr_write_op [OF ok bsz nx(1) min.cobounded2 io, of y]
      show ?thesis
      proof (cases "cnt < n")
        case True
        with rest have "c' = qos_add cnt bsz c1"
          by (simp add: motr_write_loop_unfold)
        with True op pos show ?thesis by (simp add: blocks_up_simps [OF n])
      next
        case more: False
        then have nle: "n \<le> cnt"
          by simp
        have "motr_write_loop lib obj bsz n (cnt - n) n (off + n * bsz) (pos + n * bsz) buf data' (qos_add n bsz c1) = Some (0, c')"
          using rest nle by (simp add: min_absorb2)
        from less.IH [OF _ this nx(3) [OF nle]] n pos
        have ih: "off + n * bsz \<le> y \<and> y < off + n * bsz + (cnt - n) * bsz \<longrightarrow>
            ocontent obj (m0 c') y = buf (pos + n * bsz + (y - (off + n * bsz)))"
          "y < off + n * bsz \<or> off + n * bsz + blocks_up (cnt - n) n * bsz \<le> y \<longrightarrow> ocontent obj (m0 c') y = ocontent obj (m0 c1) y"
          by simp_all
        have eq: "off + n * bsz + (cnt - n) * bsz = off + cnt * bsz"
          "off + n * bsz + blocks_up (cnt - n) n * bsz = off + blocks_up cnt n * bsz"
          using nle by (simp_all add: blocks_up_simps(3) [OF n nle] distrib_right diff_mult_distrib)
        have split: "pos + n * bsz + (y - (off + n * bsz)) = pos + (y - off)" if "off + n * bsz \<le> y"
          using that by linarith
        have "n * bsz \<le> blocks_up cnt n * bsz"
          by (simp add: blocks_up_simps(3) [OF n nle])
        then have "off + n * bsz \<le> y" if "off + blocks_up cnt n * bsz \<le> y"
          using that by linarith
        then show ?thesis
          using ih op nle split unfolding eq
          by (cases "off + n * bsz \<le> y") (auto simp: min_absorb2)
      qed
    qed
  qed
  then show "off \<le> y \<Longrightarrow> y < off + cnt * bsz \<Longrightarrow> ocontent obj (m0 c') y = buf (pos + (y - off))"
    and "y < off \<or> off + blocks_up cnt n * bsz \<le> y \<Longrightarrow> ocontent obj (m0 c') y = ocontent obj (m0 c) y"
    by blast+
qed

lemma bufvecr_byte:
  assumes "cnt \<le> v"
  shows "bufvecr v bsz cnt data pos buf k =
    (if pos \<le> k \<and> k < pos + cnt * bsz then data ((k - pos) div bsz) ((k - pos) mod bsz) else buf k)"
  using assms by (simp add: bufvecr_def min_absorb1)

lemma motr_read_op:
  assumes "motr_ok lib ocontent" and "0 < bsz" and "off + n * bsz < W64" and "k \<le> n"
    and "do_io_op lib M0_OC_READ obj (set_exts n off bsz) data c = (0, data', c1)"
  shows "ocontent obj (m0 c1) = ocontent obj (m0 c)"
    and "bufvecr n bsz k data' pos buf x =
      (if pos \<le> x \<and> x < pos + k * bsz then ocontent obj (m0 c) (off + (x - pos)) else buf x)"
proof -
  show "ocontent obj (m0 c1) = ocontent obj (m0 c)"
    by (rule do_io_op_read(1) [OF assms(1-3,5)])
  have "data' ((x - pos) div bsz) ((x - pos) mod bsz) = ocontent obj (m0 c) (off + (x - pos))"
    if "pos \<le> x" "x < pos + k * bsz"
  proof -
    have "x - pos < k * bsz"
      using that by linarith
    then have "(x - pos) div bsz < n"
      using assms(4) less_mult_imp_div_less [of "x - pos" k bsz] by simp
    then show ?thesis
      using do_io_op_read(2) [OF assms(1-3,5), of "(x - pos) div bsz" "(x - pos) mod bsz"] assms(2) by (simp add: add.assoc)
  qed
  then show "bufvecr n bsz k data' pos buf x =
      (if pos \<le> x \<and> x < pos + k * bsz then ocontent obj (m0 c) (off + (x - pos)) else buf x)"
    unfolding bufvecr_byte [OF assms(4)] by simp
qed

lemma motr_read_loop_correct:
  assumes ok: "motr_ok lib ocontent" and bsz: "0 < bsz" and n: "0 < n"
    and "motr_read_loop lib obj bsz n cnt n off pos buf data c = Some (0, buf', c')"
    and "off + (cnt + n) * bsz < W64"
  shows "ocontent obj (m0 c') = ocontent obj (m0 c) \<and>
    buf' x = (if pos \<le> x \<and> x < pos + cnt * bsz then ocontent obj (m0 c) (off + (x - pos)) else buf x)"
  using assms(4,5)
proof (induction cnt arbitrary: off pos buf data c rule: less_induct)
  case (less cnt)
  show ?case
  proof (cases "cnt = 0")
    case True
    with less.prems show ?thesis by (simp add: motr_read_loop_unfold)
  next
    case False
    then have pos: "0 < cnt"
      by simp
    note nx = next_operation [OF less.prems(2) pos]
    obtain data' c1 where io: "do_io_op lib M0_OC_READ obj (set_exts n off bsz) data c = (0, data', c1)"
      and rest: "motr_read_loop lib obj bsz n (cnt - min cnt n) (min cnt n) (off + n * bsz)
        (pos + min (min cnt n) n * bsz) (bufvecr n bsz (min cnt n) data' pos buf) data' (qos_add (min cnt n) bsz c1) =
        Some (0, buf', c')"
      using motr_read_loop_first [OF pos less.prems(1)] unfolding nx(2) by metis
    note op = motr_read_op(1) [OF ok bsz nx(1) min.cobounded2 [of cnt n] io]
      motr_read_op(2) [OF ok bsz nx(1) min.cobounded2 [of cnt n] io, where pos = pos and buf = buf and x = x]
    show ?thesis
    proof (cases "cnt < n")
      case True
      with rest have "c' = qos_add cnt bsz c1" "buf' = bufvecr n bsz cnt data' pos buf"
        by (simp_all add: motr_read_loop_unfold)
      with True op show ?thesis by simp
    next
      case more: False
      then have nle: "n \<le> cnt"
        by simp
      have "motr_read_loop lib obj bsz n (cnt - n) n (off + n * bsz) (pos + n * bsz)
          (bufvecr n bsz n data' pos buf) data' (qos_add n bsz c1) = Some (0, buf', c')"
        using rest nle by (simp add: min_absorb2)
      from less.IH [OF _ this nx(3) [OF nle]] n pos
      have ih: "ocontent obj (m0 c') = ocontent obj (m0 c1)"
        "buf' x = (if pos + n * bsz \<le> x \<and> x < pos + n * bsz + (cnt - n) * bsz
           then ocontent obj (m0 c1) (off + n * bsz + (x - (pos + n * bsz))) else bufvecr n bsz n data' pos buf x)"
        by simp_all
      have eq: "pos + n * bsz + (cnt - n) * bsz = pos + cnt * bsz" and "n * bsz \<le> cnt * bsz"
        using nle by (simp_all add: diff_mult_distrib)
      then have "x < pos + cnt * bsz" if "\<not> pos + n * bsz \<le> x"
        using that by linarith
      moreover have "off + n * bsz + (x - (pos + n * bsz)) = off + (x - pos)" if "pos + n * bsz \<le> x"
        using that by linarith
      ultimately show ?thesis
        using op nle unfolding ih eq by (auto simp: min_absorb2)
    qed
  qed
qed

section \<open>The effect of a transfer\<close>

lemma motr_quiet:
  assumes "motr_ok lib ocontent"
  shows "ocontent obj (snd (snd (ml_bufvec_alloc lib n bsz s))) = ocontent obj s"
    and "ocontent obj (snd (ml_indexvec_alloc lib n s)) = ocontent obj s"
    and "ocontent obj (snd (snd (snd (ml_entity_open lib obj' s)))) = ocontent obj s"
  using assms unfolding motr_ok_def by blast+

lemma alloc_segs_quiet:
  assumes "motr_ok lib ocontent"
  shows "ocontent obj (m0 (snd (snd (alloc_segs lib bsz n c)))) = ocontent obj (m0 c)"
  by (simp add: alloc_segs_def case_prod_unfold motr_quiet [OF assms])

lemma open_entity_quiet:
  assumes "motr_ok lib ocontent"
  shows "ocontent obj (m0 (snd (snd (open_entity lib obj' c)))) = ocontent obj (m0 c)"
  by (simp add: open_entity_def case_prod_unfold motr_quiet [OF assms])

lemma c0appz_m0bs_quiet:
  assumes "motr_ok lib ocontent" and "c0appz_m0bs lib obj' sz tier c = returns (m0bs, c')"
  shows "ocontent obj (m0 c') = ocontent obj (m0 c)"
proof -
  obtain found c1 where ex: "c0appz_ex lib obj' c = (found, c1)"
    by fastforce
  obtain rc pver where pv: "ml_pool_version_get lib (tier2pool tier c) (m0 c) = (rc, pver)"
    by fastforce
  have "c' = c \<or> c' = c1"
    using assms(2) unfolding c0appz_m0bs_def Let_def ex pv prod.case
    by (elim if_caseE) (simp_all only: option.inject sum.inject sum.distinct prod.inject option.distinct simp_thms
        split: option.splits)
  moreover have "ocontent obj (m0 c1) = ocontent obj (m0 c)"
    using arg_cong [OF ex, of snd] open_entity_quiet [OF assms(1), of obj obj' c]
    by (simp add: c0appz_ex_def case_prod_unfold)
  ultimately show ?thesis by auto
qed

text \<open>The block size of a transfer, and the loop it leads to.\<close>

lemma check_bsz_args_page:
  "check_bsz_args 4096 m0bs \<Longrightarrow> m0bs < 2 ^ 44 \<Longrightarrow>
    m0bs div 4096 mod 4294967296 = m0bs div 4096 \<and> 0 < m0bs div 4096 \<and> m0bs div 4096 * 4096 = m0bs"
  by (auto simp: check_bsz_args_def intro!: mod_less)

lemma motr_pwriteD:
  assumes "motr_pwrite lib d ptr buf sz offset c = returns (int sz, c')" and "0 < sz"
    and "c0appz_m0bs lib (obj_hi d, obj_lo d) sz 0 c = returns (m0bs, c1)" and "m0bs < 2 ^ 44"
  obtains n data c2 where "0 < n" and "n * 4096 = m0bs" and "sz div 4096 * 4096 = sz"
    and "c2 = snd (snd (open_entity lib (obj_hi d, obj_lo d) (snd (snd (alloc_segs lib 4096 n c1)))))"
    and "data = fst (snd (alloc_segs lib 4096 n c1))"
    and "motr_write_loop lib (obj_hi d, obj_lo d) 4096 n (sz div 4096) n offset 0 buf data c2 = Some (0, c')"
proof -
  let ?obj = "(obj_hi d, obj_lo d)" and ?n = "m0bs div 4096 mod 4294967296"
  have sz: "sz mod 4096 = 0" and mw: "c0appz_mw lib buf ?obj offset 4096 (sz div 4096) m0bs c1 = Some (0, c')"
    using assms(1,2) unfolding motr_pwrite_def assms(3) by (auto split: if_splits option.splits)
  have chk: "check_bsz_args 4096 m0bs"
    using mw by (auto simp: c0appz_mw_def split: if_splits)
  note n = check_bsz_args_page [OF this assms(4)]
  have "motr_write_loop lib ?obj 4096 ?n (sz div 4096) ?n offset 0 buf (fst (snd (alloc_segs lib 4096 ?n c1)))
      (snd (snd (open_entity lib ?obj (snd (snd (alloc_segs lib 4096 ?n c1)))))) = Some (0, c')"
    using mw chk by (auto simp: c0appz_mw_def Let_def split: prod.splits if_splits)
  with n sz show thesis
    by (intro that [of "m0bs div 4096"]) auto
qed

lemma motr_preadD:
  assumes "motr_pread lib d ptr buf sz offset c = returns (int sz, buf', c')" and "0 < sz"
    and "c0appz_m0bs lib (obj_hi d, obj_lo d) sz 0 c = returns (m0bs, c1)" and "m0bs < 2 ^ 44"
  obtains n data c2 where "0 < n" and "n * 4096 = m0bs" and "sz div 4096 * 4096 = sz"
    and "c2 = snd (snd (open_entity lib (obj_hi d, obj_lo d) (snd (snd (alloc_segs lib 4096 n c1)))))"
    and "motr_read_loop lib (obj_hi d, obj_lo d) 4096 n (sz div 4096) n offset 0 buf data c2 = Some (0, buf', c')"
proof -
  let ?obj = "(obj_hi d, obj_lo d)" and ?n = "m0bs div 4096 mod 4294967296"
  have sz: "sz mod 4096 = 0" and mr: "c0appz_mr lib buf ?obj offset 4096 (sz div 4096) m0bs c1 = Some (0, buf', c')"
    using assms(1,2) unfolding motr_pread_def assms(3) by (auto split: if_splits option.splits)
  have chk: "check_bsz_args 4096 m0bs"
    using mr by (auto simp: c0appz_mr_def split: if_splits)
  note n = check_bsz_args_page [OF this assms(4)]
  have "motr_read_loop lib ?obj 4096 ?n (sz div 4096) ?n offset 0 buf (fst (snd (alloc_segs lib 4096 ?n c1)))
      (snd (snd (open_entity lib ?obj (snd (snd (alloc_segs lib 4096 ?n c1)))))) = Some (0, buf', c')"
    using mr chk by (auto simp: c0appz_mr_def Let_def split: prod.splits if_splits)
  with n sz show thesis
    by (intro that [of "m0bs div 4096"]) auto
qed

text \<open>What a successful write of the driver leaves in the object.\<close>

lemma motr_pwrite_content:
  assumes "motr_ok lib ocontent" and "0 < sz" and "offset + sz + 2 ^ 44 < W64"
    and "c0appz_m0bs lib (obj_hi d, obj_lo d) sz 0 c = returns (m0bs, c0)" and "m0bs < 2 ^ 44"
    and "motr_pwrite lib d ptr buf sz offset c = returns (int sz, c')"
  defines "content \<equiv> \<lambda>c. ocontent (obj_hi d, obj_lo d) (m0 c)"
  shows "offset \<le> y \<Longrightarrow> y < offset + sz \<Longrightarrow> content c' y = buf (y - offset)"
    and "y < offset \<or> offset + blocks_up sz m0bs \<le> y \<Longrightarrow> content c' y = content c y"
proof -
  obtain n data c2 where n: "0 < n" "n * 4096 = m0bs" "sz div 4096 * 4096 = sz"
    and c2: "c2 = snd (snd (open_entity lib (obj_hi d, obj_lo d) (snd (snd (alloc_segs lib 4096 n c0)))))"
    and loop: "motr_write_loop lib (obj_hi d, obj_lo d) 4096 n (sz div 4096) n offset 0 buf data c2 = Some (0, c')"
    using motr_pwriteD [OF assms(6,2,4,5)] by metis
  have "content c2 = content c"
    unfolding content_def c2 open_entity_quiet [OF assms(1)] alloc_segs_quiet [OF assms(1)]
    by (rule c0appz_m0bs_quiet [OF assms(1,4)])
  moreover have "(sz div 4096 + n) * 4096 = sz + m0bs"
    using n by (simp add: distrib_right)
  then have lim: "offset + (sz div 4096 + n) * 4096 < W64"
    using assms(3,5) by linarith
  moreover have "blocks_up (sz div 4096) n * 4096 = blocks_up sz m0bs"
    using blocks_up_scale [OF n(1), of 4096 "sz div 4096"] n(2,3) by simp
  ultimately show "offset \<le> y \<Longrightarrow> y < offset + sz \<Longrightarrow> content c' y = buf (y - offset)"
    and "y < offset \<or> offset + blocks_up sz m0bs \<le> y \<Longrightarrow> content c' y = content c y"
    using motr_write_loop_correct [OF assms(1) _ n(1) loop lim, of y] n(3) unfolding content_def by simp_all
qed

text \<open>
  C21. What the Motr driver writes it reads back, for every size. Outside the range of whole
  transfer blocks that starts at the offset, the object keeps its content.
\<close>

theorem motr_roundtrip:
  assumes "motr_ok lib ocontent" and "0 < sz" and "offset + sz + 2 ^ 44 < W64"
    and "c0appz_m0bs lib (obj_hi d, obj_lo d) sz 0 c = returns (m0bs, c0)" and "m0bs < 2 ^ 44"
    and "motr_pwrite lib d p1 buf sz offset c = returns (int sz, c1)"
    and "c0appz_m0bs lib (obj_hi d, obj_lo d) sz 0 c1 = returns (m0bs', c0')" and "m0bs' < 2 ^ 44"
    and "motr_pread lib d p2 old sz offset c1 = returns (int sz, buf', c2)"
  shows "(\<forall>k < sz. buf' k = buf k) \<and>
    (\<forall>y. y < offset \<or> offset + blocks_up sz m0bs \<le> y \<longrightarrow>
       ocontent (obj_hi d, obj_lo d) (m0 c2) y = ocontent (obj_hi d, obj_lo d) (m0 c) y)"
proof -
  let ?obj = "(obj_hi d, obj_lo d)"
  obtain n data c3 where n: "0 < n" "n * 4096 = m0bs'" "sz div 4096 * 4096 = sz"
    and c3: "c3 = snd (snd (open_entity lib ?obj (snd (snd (alloc_segs lib 4096 n c0')))))"
    and loop: "motr_read_loop lib ?obj 4096 n (sz div 4096) n offset 0 old data c3 = Some (0, buf', c2)"
    using motr_preadD [OF assms(9,2,7,8)] by metis
  have q: "ocontent ?obj (m0 c3) = ocontent ?obj (m0 c1)"
    unfolding c3 open_entity_quiet [OF assms(1)] alloc_segs_quiet [OF assms(1)]
    by (rule c0appz_m0bs_quiet [OF assms(1,7)])
  have "(sz div 4096 + n) * 4096 = sz + m0bs'"
    using n by (simp add: distrib_right)
  then have "offset + (sz div 4096 + n) * 4096 < W64"
    using assms(3,8) by linarith
  from motr_read_loop_correct [OF assms(1) _ n(1) loop this]
  have "ocontent ?obj (m0 c2) = ocontent ?obj (m0 c1)" and "\<And>k. k < sz \<Longrightarrow> buf' k = ocontent ?obj (m0 c1) (offset + k)"
    using n(3) by (simp_all add: q)
  with motr_pwrite_content [OF assms(1-6)] show ?thesis by simp
qed

text \<open>An object store with one object, pages as units and parity groups of two units.\<close>

definition one_motr :: "(nat \<Rightarrow> byte) motr_lib" where
  "one_motr =
     \<lparr>ml_pool_version_get = \<lambda>pool s. (0, \<lparr>pv_id = \<lparr>f_container = 0, f_key = 0\<rparr>, pa_N = 2, pa_K = 1, pa_P = 4\<rparr>),
      ml_client_layout_id = \<lambda>s. 1, ml_layout_find_by_buffsize = \<lambda>fid sz s. 1, ml_layout_id_to_unit_size = \<lambda>lid. 4096,
      ml_bufvec_alloc = \<lambda>n bsz s. (0, \<lambda>i k. 0, s), ml_indexvec_alloc = \<lambda>n s. (0, s),
      ml_entity_open = \<lambda>obj s. (0, 0, 1, s), ml_entity_create = \<lambda>pool obj lid s. (0, s), ml_create_wait = \<lambda>obj s. (0, 0, s),
      ml_obj_op = \<lambda>opcode obj ext data s.
        case opcode of
          M0_OC_READ \<Rightarrow> (0, 0, fst (snd (mero_read one_object obj ext s)), s)
        | M0_OC_WRITE \<Rightarrow> (0, 0, data, snd (mero_write one_object obj ext data s))\<rparr>"

lemma one_motr_ok: "motr_ok one_motr (\<lambda>obj s. s)"
proof -
  have "mero_read (as_mero one_motr data) = mero_read one_object" "mero_write (as_mero one_motr data) = mero_write one_object" for data
    by (simp_all add: as_mero_def one_motr_def or_else_def one_object_def)
  then have "mero_read_ok (as_mero one_motr data) (\<lambda>obj s. s)" "vector_write_ok (as_mero one_motr data) (\<lambda>obj s. s)" for data
    using one_object_ok by (simp_all add: mero_read_ok_def vector_write_ok_def)
  then show ?thesis
    unfolding motr_ok_def by (simp add: one_motr_def)
qed

definition no_config :: motr_config where
  "no_config =
     \<lparr>mc_ha_addr = None, mc_profile = None, mc_local_addr = None, mc_process_fid = None, mc_is_oostore = False,
      mc_is_read_verify = False, mc_tm_recv_queue_min_len = 0, mc_max_rpc_msg_size = 0, mc_layout_id = 0\<rparr>"

definition motr0 :: "(nat \<Rightarrow> byte) \<Rightarrow> (nat \<Rightarrow> byte) motr_client" where
  "motr0 s = \<lparr>m0_conf = no_config, c0rcfile = ''./.c0appzrc'', pools = [], unit_size = 0, qos_total_weight = 0, m0 = s\<rparr>"

lemma one_motr_m0bs: "c0appz_m0bs one_motr obj 4096 0 c = returns (8192, c)"
  by (simp add: c0appz_m0bs_def one_motr_def c0appz_ex_def open_entity_def or_else_def Let_def)

lemma one_motr_transfers:
  assumes "offset mod 4096 = 0"
  shows "\<exists>c1. motr_pwrite one_motr cdrv 64 buf 4096 offset c = returns (4096, c1)"
    and "\<exists>buf' c2. motr_pread one_motr cdrv 64 old 4096 offset c = returns (4096, buf', c2)"
  using assms
  by (simp_all add: motr_pwrite_def motr_pread_def one_motr_m0bs c0appz_mw_def c0appz_mr_def check_bsz_args_def
      alloc_segs_def open_entity_def motr_write_loop_unfold motr_read_loop_unfold do_io_op_def case_prod_unfold ssize_def)
    (simp_all add: one_motr_def or_else_def)

theorem motr_roundtrip_witness:
  "\<exists>c1 buf' c2. motr_pwrite one_motr cdrv 64 (\<lambda>k. of_nat k) 4096 8192 (motr0 (\<lambda>y. 7)) = returns (4096, c1) \<and>
     motr_pread one_motr cdrv 64 (\<lambda>k. 1) 4096 8192 c1 = returns (4096, buf', c2) \<and> buf' 4095 = of_nat 4095 \<and>
     m0 c2 8191 = 7 \<and> m0 c2 16384 = 7"
proof -
  obtain c1 where w: "motr_pwrite one_motr cdrv 64 (\<lambda>k. of_nat k) 4096 8192 (motr0 (\<lambda>y. 7)) = returns (int 4096, c1)"
    using one_motr_transfers(1) [of 8192] by fastforce
  obtain buf' c2 where r: "motr_pread one_motr cdrv 64 (\<lambda>k. 1) 4096 8192 c1 = returns (int 4096, buf', c2)"
    using one_motr_transfers(2) [of 8192] by fastforce
  have rt: "\<forall>k < 4096. buf' k = of_nat k"
    "\<forall>y. y < 8192 \<or> 8192 + blocks_up 4096 8192 \<le> y \<longrightarrow> m0 c2 y = m0 (motr0 (\<lambda>y. 7)) y"
    using motr_roundtrip [OF one_motr_ok _ _ one_motr_m0bs _ w one_motr_m0bs _ r] by simp_all
  have "buf' 4095 = of_nat 4095" "m0 c2 8191 = 7" "m0 c2 16384 = 7"
    using rt(1) [rule_format, of 4095] rt(2) [rule_format, of 8191] rt(2) [rule_format, of 16384]
    by (simp_all add: blocks_up_def motr0_def)
  with w r show ?thesis by auto
qed

section \<open>A write overruns its range\<close>

text \<open>
  The extents of an operation are those of all the allocated blocks, also when fewer are filled.
\<close>

lemma alloc_segs_data: "fst (snd (alloc_segs lib bsz n c)) = fst (snd (ml_bufvec_alloc lib n bsz (m0 c)))"
  by (simp add: alloc_segs_def case_prod_unfold)

text \<open>
  C38. A write of less than a transfer block destroys what follows it in the object: when the
  blocks are allocated with zeros, every byte between the end of the range that was asked for and
  the end of the transfer block becomes zero, and the write is reported as successful.
\<close>

theorem motr_write_overruns:
  assumes "motr_ok lib ocontent" and "0 < sz" and "offset + sz + 2 ^ 44 < W64"
    and "c0appz_m0bs lib (obj_hi d, obj_lo d) sz 0 c = returns (m0bs, c0)" and "m0bs < 2 ^ 44"
    and "motr_pwrite lib d ptr buf sz offset c = returns (int sz, c')"
    and "\<forall>n bsz s i k. fst (snd (ml_bufvec_alloc lib n bsz s)) i k = 0" and "sz < m0bs"
  shows "\<forall>y. offset + sz \<le> y \<and> y < offset + m0bs \<longrightarrow> ocontent (obj_hi d, obj_lo d) (m0 c') y = 0"
proof (intro allI impI)
  fix y
  assume y: "offset + sz \<le> y \<and> y < offset + m0bs"
  obtain n data c2 where n: "0 < n" "n * 4096 = m0bs" "sz div 4096 * 4096 = sz"
    and data: "data = fst (snd (alloc_segs lib 4096 n c0))"
    and loop: "motr_write_loop lib (obj_hi d, obj_lo d) 4096 n (sz div 4096) n offset 0 buf data c2 = Some (0, c')"
    using motr_pwriteD [OF assms(6,2,4,5)] by metis
  have cnt: "0 < sz div 4096" "sz div 4096 < n"
    using n assms(2,8) by linarith+
  then have mn: "min (sz div 4096) n = sz div 4096"
    by simp
  obtain data' c1 where io: "do_io_op lib M0_OC_WRITE (obj_hi d, obj_lo d) (set_exts n offset 4096)
      (bufvecw n 4096 (sz div 4096) buf 0 data) c2 = (0, data', c1)"
    and "motr_write_loop lib (obj_hi d, obj_lo d) 4096 n (sz div 4096 - sz div 4096) (sz div 4096) (sz_add offset (sz_mul n 4096))
      (0 + sz div 4096 * 4096) buf data' (qos_add (sz div 4096) 4096 c1) = Some (0, c')"
    using motr_write_loop_first [OF cnt(1) loop] unfolding mn by metis
  then have c': "c' = qos_add (sz div 4096) 4096 c1"
    by (simp add: motr_write_loop_unfold)
  have lim: "offset + n * 4096 < W64"
    using assms(3,5) n(2) by linarith
  have "sz div 4096 \<le> (y - offset) div 4096"
    using y by (intro div_le_mono) linarith
  then have "bufvecw n 4096 (sz div 4096) buf 0 data ((y - offset) div 4096) ((y - offset) mod 4096) = 0"
    using assms(7) by (simp add: bufvecw_def data alloc_segs_data)
  then show "ocontent (obj_hi d, obj_lo d) (m0 c') y = 0"
    using do_io_op_write(2) [OF assms(1) _ lim io, of y] y n(2) by (simp add: c')
qed

theorem motr_write_overruns_witness:
  "\<exists>c'. motr_pwrite one_motr cdrv 64 (\<lambda>k. 5) 4096 0 (motr0 (\<lambda>y. 9)) = returns (4096, c') \<and>
     m0 (motr0 (\<lambda>y. 9)) 5000 = 9 \<and> m0 c' 5000 = 0"
proof -
  obtain c' where w: "motr_pwrite one_motr cdrv 64 (\<lambda>k. 5) 4096 0 (motr0 (\<lambda>y. 9)) = returns (int 4096, c')"
    using one_motr_transfers(1) [of 0] by fastforce
  have "\<forall>n bsz s i k. fst (snd (ml_bufvec_alloc one_motr n bsz s)) i k = 0"
    by (simp add: one_motr_def)
  from motr_write_overruns [OF one_motr_ok _ _ one_motr_m0bs _ w this]
  have "\<forall>y. 0 + 4096 \<le> y \<and> y < 0 + 8192 \<longrightarrow> m0 c' y = 0"
    by simp
  then have "m0 c' 5000 = 0"
    by simp
  with w show ?thesis by (auto simp: motr0_def)
qed

text \<open>
  The block size may be above the depth limit that the code computes: for three units of a mebibyte
  in a group and no parity the limit is six mebibytes, and a size of five is rounded up to eight.
\<close>

lemma m0bs_above_limit:
  assumes "ml_pool_version_get lib (tier2pool 0 c) (m0 c) = (0, \<lparr>pv_id = fid, pa_N = 3, pa_K = 0, pa_P = 3\<rparr>)"
    and "c0appz_ex lib obj c = (Some lid, c1)" and "ml_layout_id_to_unit_size lib lid = 1048576"
  shows "c0appz_m0bs lib obj 5242880 0 c = returns (8388608, c1) \<and>
    1048576 * 2 * 3 * 3 div 3 div (1048576 * 3) * (1048576 * 3) < (8388608 :: nat)"
proof -
  have "roundup_power2 5242880 = Some 8388608"
    by (simp add: roundup_power2_def roundup_loop_unfold)
  with assms show ?thesis by (simp add: c0appz_m0bs_def Let_def)
qed

end
