(* ===== verification/MeroApi.thy ===== *)
theory MeroApi
  imports MotrApi Listings
begin

text \<open>
  The client functions of the Mero build, \<open>extern-deps/from-clovis-sample-apps/clovis_api.c\<close>, over
  a parameter for the Clovis library. The operations of the driver model in theory
  \<open>ClovisDriver\<close> are instantiated with them by \<open>mero_api\<close>. A launched operation gives the result of
  \<open>m0_clovis_op_wait\<close> and the code of \<open>m0_clovis_rc\<close>, which the functions below do not always read.
\<close>

section \<open>The Clovis library\<close>

record clovis_config =
  cc_is_oostore :: bool
  cc_is_read_verify :: bool
  cc_local_addr :: string
  cc_ha_addr :: string
  cc_profile :: string
  cc_process_fid :: string
  cc_tm_recv_queue_min_len :: nat
  cc_max_rpc_msg_size :: nat
  cc_layout_id :: nat

record 's clovis_lib =
  cl_entity_open :: "obj_id \<Rightarrow> 's \<Rightarrow> int \<times> int \<times> 's"
  cl_entity_create :: "obj_id \<Rightarrow> 's \<Rightarrow> int \<times> 's"
  cl_create_wait :: "obj_id \<Rightarrow> 's \<Rightarrow> int \<times> int \<times> 's"
  cl_delete_wait :: "obj_id \<Rightarrow> 's \<Rightarrow> int \<times> int \<times> 's"
  cl_obj_read :: "obj_id \<Rightarrow> (nat \<times> size_t) list \<Rightarrow> 's \<Rightarrow> int \<times> int \<times> vec \<times> 's"
  cl_obj_write :: "obj_id \<Rightarrow> (nat \<times> size_t) list \<Rightarrow> vec \<Rightarrow> 's \<Rightarrow> int \<times> int \<times> 's"
  cl_unit_size :: "'s \<Rightarrow> size_t"
  cl_init :: "clovis_config \<Rightarrow> 's \<Rightarrow> int \<times> 's"
  cl_container_init :: "'s \<Rightarrow> int \<times> 's"
  cl_fini :: "'s \<Rightarrow> 's"

section \<open>Objects\<close>

definition mero_open_entity :: "'s clovis_lib \<Rightarrow> obj_id \<Rightarrow> 's \<Rightarrow> int \<times> 's" where
  "mero_open_entity lib obj s = (case cl_entity_open lib obj s of (waited, rc, s') \<Rightarrow> (rc, s'))"

definition mero_create_object :: "'s clovis_lib \<Rightarrow> obj_id \<Rightarrow> 's \<Rightarrow> int \<times> 's" where
  "mero_create_object lib obj s =
     (case mero_open_entity lib obj s of (rc, s1) \<Rightarrow>
        if \<not> rc < 0 then (1, s1)
        else case cl_entity_create lib obj s1 of (rc, s2) \<Rightarrow>
          if rc < 0 then (2, s2)
          else case cl_create_wait lib obj s2 of (waited, rc, s3) \<Rightarrow> (0, s3))"

definition mero_write_data_to_object ::
  "'s clovis_lib \<Rightarrow> obj_id \<Rightarrow> (nat \<times> size_t) list \<Rightarrow> vec \<Rightarrow> 's \<Rightarrow> int \<times> 's" where
  "mero_write_data_to_object lib obj ext data s =
     (case mero_open_entity lib obj s of (opened, s1) \<Rightarrow>
        case cl_obj_write lib obj ext data s1 of (waited, rc, s2) \<Rightarrow> (waited, s2))"

definition mero_read_data_from_object ::
  "'s clovis_lib \<Rightarrow> obj_id \<Rightarrow> (nat \<times> size_t) list \<Rightarrow> 's \<Rightarrow> int \<times> vec \<times> 's" where
  "mero_read_data_from_object lib obj ext s =
     (case mero_open_entity lib obj s of (opened, s1) \<Rightarrow>
        case cl_obj_read lib obj ext s1 of (waited, rc, data, s2) \<Rightarrow> (or_else waited rc, data, s2))"

definition mero_c0appz_rm :: "'s clovis_lib \<Rightarrow> obj_id \<Rightarrow> 's \<Rightarrow> int \<times> 's" where
  "mero_c0appz_rm lib obj s =
     (case mero_open_entity lib obj s of (rc, s1) \<Rightarrow>
        if rc < 0 then (rc, s1)
        else case cl_delete_wait lib obj s1 of (waited, rc, s2) \<Rightarrow> (waited, s2))"

definition mero_api :: "'s clovis_lib \<Rightarrow> 's mero" where
  "mero_api lib =
     \<lparr>mero_read = mero_read_data_from_object lib, mero_write = mero_write_data_to_object lib,
      mero_unit_size = cl_unit_size lib, mero_create = \<lambda>obj s. snd (mero_create_object lib obj s)\<rparr>"

section \<open>Start of a session\<close>

text \<open>The static variables: the lines of the resource file and the configuration.\<close>

record 's mero_client =
  c0rc :: "string list"
  clovis_conf :: clovis_config
  cl :: 's

abbreviation (input) MAXC0RC :: nat where
  "MAXC0RC \<equiv> 4"

definition c_str :: "string \<Rightarrow> string" where
  "c_str s = takeWhile (\<lambda>c. c \<noteq> CHR 0x00) s"

definition trim :: "string \<Rightarrow> string" where
  "trim s = rev (dropWhile is_space (rev (dropWhile is_space (c_str s))))"

definition ignored :: "string \<Rightarrow> bool" where
  "ignored str \<longleftrightarrow> str = [] \<or> hd str = CHR ''#''"

lemma fgets_progress: "0 < n \<Longrightarrow> content \<noteq> [] \<Longrightarrow> length (snd (fgets n content)) < length content"
  by (cases content) (auto simp: fgets_def Let_def)

text \<open>The loop that moves behind the lines of the sessions before, and the one that reads.\<close>

function mero_skip :: "int \<Rightarrow> int \<Rightarrow> string \<Rightarrow> string" where
  "mero_skip i target content =
     (if i \<noteq> target \<and> content \<noteq> []
      then let str = trim (fst (fgets 255 content)); rest = snd (fgets 255 content)
           in if ignored str then mero_skip i target rest else mero_skip (i + 1) target rest
      else content)"
  by pat_completeness auto
termination
  by (relation "measure (\<lambda>(i, target, content). length content)") (auto simp: fgets_progress)

function mero_read_rc :: "nat \<Rightarrow> string list \<Rightarrow> string \<Rightarrow> nat \<times> string list" where
  "mero_read_rc i rc content =
     (if content \<noteq> []
      then let str = trim (fst (fgets 255 content)); rest = snd (fgets 255 content)
           in if ignored str then mero_read_rc i rc rest
              else if i + 1 = MAXC0RC then (i + 1, rc[i := str])
              else mero_read_rc (i + 1) (rc[i := str]) rest
      else (i, rc))"
  by pat_completeness auto
termination
  by (relation "measure (\<lambda>(i, rc, content). length content)") (auto simp: fgets_progress)

declare mero_skip.simps [simp del] mero_read_rc.simps [simp del]

definition mero_config :: "string list \<Rightarrow> clovis_config" where
  "mero_config rc =
     \<lparr>cc_is_oostore = True, cc_is_read_verify = False, cc_local_addr = rc ! 0, cc_ha_addr = rc ! 1,
      cc_profile = rc ! 2, cc_process_fid = rc ! 3, cc_tm_recv_queue_min_len = 64, cc_max_rpc_msg_size = 65536,
      cc_layout_id = 9\<rparr>"

definition mero_c0appz_init ::
  "'s clovis_lib \<Rightarrow> (string \<Rightarrow> string option) \<Rightarrow> int \<Rightarrow> string \<Rightarrow> 's mero_client \<Rightarrow> int \<times> 's mero_client" where
  "mero_c0appz_init lib fopen idx ressource_file c =
     (case fopen ressource_file of
        None \<Rightarrow> (1, c)
      | Some content \<Rightarrow>
          (case mero_read_rc 0 (c0rc c) (mero_skip 0 (idx * int MAXC0RC) content) of (i, rc) \<Rightarrow>
             if i \<noteq> MAXC0RC then (2, c\<lparr>c0rc := rc\<rparr>)
             else
               let conf = mero_config rc; c1 = c\<lparr>c0rc := rc, clovis_conf := conf\<rparr>
               in case cl_init lib conf (cl c1) of (r1, s1) \<Rightarrow>
                    if r1 \<noteq> 0 then (r1, c1\<lparr>cl := s1\<rparr>)
                    else case cl_container_init lib s1 of (r2, s2) \<Rightarrow> (r2, c1\<lparr>cl := s2\<rparr>)))"

definition mero_c0appz_free :: "'s clovis_lib \<Rightarrow> 's mero_client \<Rightarrow> int \<times> 's mero_client" where
  "mero_c0appz_free lib c = (0, c\<lparr>cl := cl_fini lib (cl c)\<rparr>)"

section \<open>The lines of a session\<close>

text \<open>The lines that count, in order: those that are neither empty nor comments, without blanks around.\<close>

function rc_lines :: "string \<Rightarrow> string list" where
  "rc_lines content =
     (if content = [] then []
      else let str = trim (fst (fgets 255 content)); more = rc_lines (snd (fgets 255 content))
           in if ignored str then more else str # more)"
  by pat_completeness auto
termination
  by (relation "measure length") (auto simp: fgets_progress)

declare rc_lines.simps [simp del]

lemma rc_lines_unfold:
  "rc_lines [] = []"
  "content \<noteq> [] \<Longrightarrow> rc_lines content =
     (let str = trim (fst (fgets 255 content)); more = rc_lines (snd (fgets 255 content))
      in if ignored str then more else str # more)"
  by (subst rc_lines.simps, simp)+

lemma mero_skip_unfold:
  "i = target \<or> content = [] \<Longrightarrow> mero_skip i target content = content"
  "i \<noteq> target \<Longrightarrow> content \<noteq> [] \<Longrightarrow> mero_skip i target content =
     mero_skip (if ignored (trim (fst (fgets 255 content))) then i else i + 1) target (snd (fgets 255 content))"
  by (subst mero_skip.simps, auto simp: Let_def)+

lemma mero_read_rc_unfold:
  "mero_read_rc i rc [] = (i, rc)"
  "content \<noteq> [] \<Longrightarrow> mero_read_rc i rc content =
     (let str = trim (fst (fgets 255 content)); rest = snd (fgets 255 content)
      in if ignored str then mero_read_rc i rc rest
         else if i + 1 = MAXC0RC then (i + 1, rc[i := str])
         else mero_read_rc (i + 1) (rc[i := str]) rest)"
  by (subst mero_read_rc.simps, simp)+

lemma mero_skip_lines: "rc_lines (mero_skip i (i + int k) content) = drop k (rc_lines content)"
proof (induction content arbitrary: i k rule: length_induct)
  case (1 content)
  let ?rest = "snd (fgets 255 content)" and ?str = "trim (fst (fgets 255 content))"
  show ?case
  proof (cases "content = [] \<or> k = 0")
    case True
    then show ?thesis by (auto simp: mero_skip_unfold(1) rc_lines_unfold(1))
  next
    case False
    then obtain n where k: "k = Suc n" and ne: "content \<noteq> []"
      by (cases k) simp_all
    have ih: "rc_lines (mero_skip i (i + int k) ?rest) = drop k (rc_lines ?rest)"
      "rc_lines (mero_skip (i + 1) (i + 1 + int n) ?rest) = drop n (rc_lines ?rest)" for i
      using 1 fgets_progress [OF _ ne, of 255] by auto
    have "i + int k = i + 1 + int n"
      by (simp add: k)
    then show ?thesis
      using ih [of i] k by (simp add: add.assoc mero_skip_unfold(2) [OF _ ne] rc_lines_unfold(2) [OF ne] Let_def)
  qed
qed

text \<open>Reading fills the array from its place \<open>i\<close> with the next lines, four in all.\<close>

lemma mero_read_rc_lines:
  assumes "i < MAXC0RC" and "MAXC0RC \<le> length rc"
  defines "ls \<equiv> \<lambda>i content. take (MAXC0RC - i) (rc_lines content)"
  shows "mero_read_rc i rc content =
    (i + length (ls i content), take i rc @ ls i content @ drop (i + length (ls i content)) rc)"
  using assms(1,2)
proof (induction content arbitrary: i rc rule: length_induct)
  case (1 content)
  show ?case
  proof (cases "content = []")
    case True
    then show ?thesis by (simp add: mero_read_rc_unfold(1) rc_lines_unfold(1) ls_def)
  next
    case False
    let ?rest = "snd (fgets 255 content)" and ?str = "trim (fst (fgets 255 content))"
    note un = mero_read_rc_unfold(2) [OF False] rc_lines_unfold(2) [OF False] Let_def ls_def
    have shorter: "length ?rest < length content"
      using False by (intro fgets_progress) simp_all
    have upd: "rc[i := ?str] = take i rc @ ?str # drop (Suc i) rc"
      using 1(2,3) by (intro upd_conv_take_nth_drop) simp
    consider (skip) "ignored ?str" | (last) "\<not> ignored ?str" "i + 1 = MAXC0RC" | (more) "\<not> ignored ?str" "i + 1 < MAXC0RC"
      using 1(2) by linarith
    then show ?thesis
    proof cases
      case skip
      then show ?thesis
        using 1(1) shorter \<open>i < MAXC0RC\<close> \<open>MAXC0RC \<le> length rc\<close> by (simp add: un)
    next
      case last
      then have "MAXC0RC - i = Suc 0"
        by simp
      with last upd show ?thesis by (simp add: un)
    next
      case more
      then have "MAXC0RC - i = Suc (MAXC0RC - (i + 1))"
        by simp
      moreover have "mero_read_rc (i + 1) (rc[i := ?str]) ?rest =
          (i + 1 + length (ls (i + 1) ?rest), take (i + 1) (rc[i := ?str]) @ ls (i + 1) ?rest @
            drop (i + 1 + length (ls (i + 1) ?rest)) (rc[i := ?str]))"
        using 1(1) shorter more \<open>MAXC0RC \<le> length rc\<close> by simp
      moreover have "take (i + 1) (rc[i := ?str]) = take i rc @ [?str]"
        using 1(2,3) by (simp add: take_Suc_conv_app_nth)
      ultimately show ?thesis
        using more by (simp add: un)
    qed
  qed
qed

text \<open>
  The session \<open>k\<close> is started with the lines from \<open>4 * k\<close> on, and with none when there are fewer
  than four.
\<close>

lemma mero_c0appz_init_lines:
  assumes "fopen file = Some content" and "MAXC0RC \<le> length (c0rc c)"
    and "mero_c0appz_init lib fopen (int k) file c = (rc, c')"
  shows "length (rc_lines content) < MAXC0RC * k + MAXC0RC \<Longrightarrow> rc = 2 \<and> cl c' = cl c \<and> clovis_conf c' = clovis_conf c"
    and "MAXC0RC * k + MAXC0RC \<le> length (rc_lines content) \<Longrightarrow>
      clovis_conf c' = mero_config (take MAXC0RC (drop (MAXC0RC * k) (rc_lines content)))"
proof -
  let ?ls = "take MAXC0RC (drop (MAXC0RC * k) (rc_lines content))"
  have skip: "rc_lines (mero_skip 0 (int k * int MAXC0RC) content) = drop (MAXC0RC * k) (rc_lines content)"
    using mero_skip_lines [of 0 "MAXC0RC * k" content] by (simp add: mult.commute)
  have rd: "mero_read_rc 0 (c0rc c) (mero_skip 0 (int k * int MAXC0RC) content) = (length ?ls, ?ls @ drop (length ?ls) (c0rc c))"
    using mero_read_rc_lines [of 0 "c0rc c" "mero_skip 0 (int k * int MAXC0RC) content"] assms(2) unfolding skip by simp
  show "rc = 2 \<and> cl c' = cl c \<and> clovis_conf c' = clovis_conf c" if "length (rc_lines content) < MAXC0RC * k + MAXC0RC"
  proof -
    have "length ?ls \<noteq> MAXC0RC"
      using that by simp
    with assms(1,3) rd show ?thesis
      by (auto simp: mero_c0appz_init_def simp del: length_take length_drop)
  qed
  show "clovis_conf c' = mero_config ?ls" if "MAXC0RC * k + MAXC0RC \<le> length (rc_lines content)"
  proof -
    have "length ?ls = MAXC0RC"
      using that by simp
    moreover from this have "mero_config (?ls @ drop (length ?ls) (c0rc c)) = mero_config ?ls"
      by (simp add: mero_config_def nth_append del: length_take length_drop)
    ultimately show ?thesis
      using assms(1,3) rd
      by (auto simp: mero_c0appz_init_def Let_def simp del: length_take length_drop split: prod.splits if_splits)
  qed
qed

section \<open>What the driver learns of an operation\<close>

text \<open>A read is reported as successful only when both codes of the library are zero.\<close>

lemma mero_api_read_ok:
  assumes "\<forall>obj ext s data s'. cl_obj_read lib obj ext s = (0, 0, data, s') \<longrightarrow>
      ocontent obj s' = ocontent obj s \<and>
      (\<forall>i < length ext. \<forall>k < snd (ext ! i). data i k = ocontent obj s (fst (ext ! i) + k))"
    and "\<forall>obj obj' s. ocontent obj (snd (snd (cl_entity_open lib obj' s))) = ocontent obj s"
  shows "mero_read_ok (mero_api lib) ocontent"
  unfolding mero_read_ok_def
proof (intro allI impI)
  fix obj ext s units s'
  assume "mero_read (mero_api lib) obj ext s = (0, units, s')"
  moreover obtain w rc s1 where op: "cl_entity_open lib obj s = (w, rc, s1)"
    by (metis prod_cases3)
  ultimately have "cl_obj_read lib obj ext s1 = (0, 0, units, s')"
    by (auto simp: mero_api_def mero_read_data_from_object_def mero_open_entity_def or_else_def split: prod.splits if_splits)
  moreover have "ocontent obj s1 = ocontent obj s"
    using assms(2) op by (metis snd_conv)
  ultimately show "ocontent obj s' = ocontent obj s \<and>
      (\<forall>i < length ext. \<forall>k < snd (ext ! i). units i k = ocontent obj s (fst (ext ! i) + k))"
    using assms(1) by metis
qed

text \<open>So a read of the driver through the Mero calls that is reported as complete is complete.\<close>

lemmas mero_pread_correct = clovis_pread_correct [OF mero_api_read_ok]

lemma failed_writes_go_on:
  assumes "\<forall>obj ext data s. \<exists>rc. cl_obj_write lib obj ext data s = (0, rc, s)"
    and "\<forall>obj s. snd (snd (cl_entity_open lib obj s)) = s"
  shows "clovis_write_loop (mero_api lib) obj du blocks last_index j buf s = (0, s)"
proof (induction blocks arbitrary: last_index j rule: less_induct)
  case (less blocks)
  have "mero_write (mero_api lib) obj ext units s = (0, s)" for ext units
    using assms(1) [rule_format, of obj ext units s] assms(2) [rule_format, of obj s]
    by (auto simp: mero_api_def mero_write_data_to_object_def mero_open_entity_def case_prod_unfold)
  with less show ?case
    by (subst clovis_write_loop.simps) (simp add: Let_def case_prod_unfold)
qed

text \<open>
  C39. A write that fails in the object store is reported as successful. The wait for an operation
  gives zero when the operation has failed, and \<open>write_data_to_object\<close> does not ask for the code of
  the operation: with a store in which every write fails, the driver returns the size it was asked
  to write and the object has not changed.
\<close>

theorem mero_write_failure_lost:
  assumes "\<forall>obj ext data s. \<exists>rc. rc \<noteq> 0 \<and> cl_obj_write lib obj ext data s = (0, rc, s)"
    and "\<forall>obj s. snd (snd (cl_entity_open lib obj s)) = s"
    and "ptr \<noteq> 0" and "0 < cl_unit_size lib s" and "cl_unit_size lib s dvd sz" and "0 < sz"
  shows "clovis_pwrite (mero_api lib) d ptr buf sz offset s = Inr (ssize sz, s)"
proof -
  have "cl_unit_size lib s \<le> sz"
    using assms(5,6) by (rule dvd_imp_le)
  then have "total_blocks (cl_unit_size lib s) sz = Inr (cl_unit_size lib s, nat (int32 (int (sz div cl_unit_size lib s))))"
    using assms(4,5) by (auto simp: total_blocks_def)
  moreover have "\<forall>obj ext data s. \<exists>rc. cl_obj_write lib obj ext data s = (0, rc, s)"
    using assms(1) by blast
  ultimately show ?thesis
    using assms(3) failed_writes_go_on [OF _ assms(2)] by (simp add: clovis_pwrite_def) (simp add: mero_api_def)
qed

definition failing_store :: "(nat \<Rightarrow> byte) clovis_lib" where
  "failing_store =
     \<lparr>cl_entity_open = \<lambda>obj s. (0, 0, s), cl_entity_create = \<lambda>obj s. (0, s), cl_create_wait = \<lambda>obj s. (0, 0, s),
      cl_delete_wait = \<lambda>obj s. (0, 0, s), cl_obj_read = \<lambda>obj ext s. (0, 0, \<lambda>i k. s (fst (ext ! i) + k), s),
      cl_obj_write = \<lambda>obj ext data s. (0, -5, s), cl_unit_size = \<lambda>s. 4, cl_init = \<lambda>conf s. (0, s),
      cl_container_init = \<lambda>s. (0, s), cl_fini = \<lambda>s. s\<rparr>"

theorem mero_write_failure_lost_witness:
  "clovis_pwrite (mero_api failing_store) cdrv 64 (\<lambda>k. 5) 8 0 (\<lambda>y. 0) = Inr (8, \<lambda>y. 0)"
proof -
  have "\<forall>obj ext data s. \<exists>rc. rc \<noteq> 0 \<and> cl_obj_write failing_store obj ext data s = (0, rc, s)"
    "\<forall>obj s. snd (snd (cl_entity_open failing_store obj s)) = s"
    by (simp_all add: failing_store_def)
  from mero_write_failure_lost [OF this, of 64 "\<lambda>y. 0" 8] show ?thesis
    by (simp add: failing_store_def ssize_def)
qed

end
