(* ===== verification/Portability.thy ===== *)
theory Portability
  imports Messages Listings
begin

text \<open>
  The parts of \<open>src/portability\<close> beside the address space: the spin lock of
  \<open>SpinlockPthread.hpp\<close>, which guards the two registries, and the number of processors and the
  removal of a file of \<open>UnixOS.cpp\<close>.
\<close>

section \<open>Spin lock\<close>

text \<open>
  The state of a \<open>pthread_spinlock_t\<close> is the thread that holds it. A lock that is held makes
  \<open>lock\<close> wait, which is the value \<open>None\<close>; \<open>unlock\<close> by another thread is undefined. The code
  \<open>EBUSY\<close> is 16.
\<close>

type_synonym spinlock = "nat option"

definition pthread_spin_trylock :: "nat \<Rightarrow> spinlock \<Rightarrow> int \<times> spinlock" where
  "pthread_spin_trylock t l = (if l = None then (0, Some t) else (16, l))"

definition newSpinlock :: spinlock where
  "newSpinlock = None"

definition spin_lock :: "nat \<Rightarrow> spinlock \<Rightarrow> spinlock option" where
  "spin_lock t l = (if l = None then Some (Some t) else None)"

definition spin_unlock :: "nat \<Rightarrow> spinlock \<Rightarrow> spinlock result" where
  "spin_unlock t l = (if l = Some t then Inr None else Inl (Undefined ''pthread_spin_unlock''))"

definition spin_tryLock :: "nat \<Rightarrow> spinlock \<Rightarrow> bool \<times> spinlock" where
  "spin_tryLock t l = (case pthread_spin_trylock t l of (code, l') \<Rightarrow> (code \<noteq> 0, l'))"

text \<open>
  Threads that lock before a critical section and unlock after it exclude each other: the steps
  that enter and leave the section, in any order, keep the section to the holder of the lock.
\<close>

inductive spin_run :: "spinlock \<times> nat set \<Rightarrow> spinlock \<times> nat set \<Rightarrow> bool" where
  Start: "spin_run \<sigma> \<sigma>"
| Enter: "spin_run \<sigma> (l, inside) \<Longrightarrow> t \<notin> inside \<Longrightarrow> spin_lock t l = Some l' \<Longrightarrow> spin_run \<sigma> (l', insert t inside)"
| Leave: "spin_run \<sigma> (l, inside) \<Longrightarrow> t \<in> inside \<Longrightarrow> spin_unlock t l = Inr l' \<Longrightarrow> spin_run \<sigma> (l', inside - {t})"

lemma spin_lock_excludes:
  assumes "spin_run \<sigma> \<sigma>'" and "\<sigma> = (newSpinlock, {})"
  shows "snd \<sigma>' = (case fst \<sigma>' of None \<Rightarrow> {} | Some t \<Rightarrow> {t})"
  using assms by (induction rule: spin_run.induct) (auto simp: newSpinlock_def spin_lock_def spin_unlock_def split: if_splits option.splits)

text \<open>The holder can always leave: no thread in the section is stuck.\<close>

lemma spin_unlock_possible:
  assumes "spin_run (newSpinlock, {}) (l, inside)" and "t \<in> inside"
  shows "spin_unlock t l = Inr None"
  using spin_lock_excludes [OF assms(1) refl] assms(2) by (auto simp: spin_unlock_def split: option.splits)

text \<open>\<open>tryLock\<close> gives true exactly when the lock was not taken.\<close>

lemma spin_tryLock_inverted: "spin_tryLock t l = (True, l') \<longleftrightarrow> l \<noteq> None \<and> l' = l"
  by (auto simp: spin_tryLock_def pthread_spin_trylock_def)

section \<open>Number of processors\<close>

text \<open>
  \<open>sscanf(tmp, "processor       : %d", &id) == 1\<close> and the value of \<open>id\<close>; blanks of the format match
  any number of blanks.
\<close>

definition scan_processor :: "string \<Rightarrow> int option result" where
  "scan_processor s =
     (let r = dropWhile is_space (drop 9 s)
      in if take 9 s = ''processor'' \<and> r \<noteq> [] \<and> hd r = CHR '':''
         then (case scan_ld (tl r) of
                 None \<Rightarrow> Inr None
               | Some (v, _) \<Rightarrow> if fits_int v then Inr (Some v) else Inl (Undefined ''sscanf: value out of range''))
         else Inr None)"

function cpu_loop :: "string \<Rightarrow> int \<Rightarrow> int result" where
  "cpu_loop content cnt =
     (if content = [] then Inr cnt
      else bindE (scan_processor (fst (fgets 4095 content))) (\<lambda>r.
             cpu_loop (snd (fgets 4095 content)) (case r of None \<Rightarrow> cnt | Some v \<Rightarrow> v)))"
  by pat_completeness auto
termination
  by (relation "measure (\<lambda>(content, cnt). length content)") (auto simp: fgets_def Let_def neq_Nil_conv)

declare cpu_loop.simps [simp del]

text \<open>
  The content of \<open>/proc/cpuinfo\<close> is a parameter, \<open>None\<close> when it cannot be opened; \<open>gblCpu\<close> is the
  static variable.
\<close>

definition cpuNumber :: "string option \<Rightarrow> int \<Rightarrow> (int \<times> int) result" where
  "cpuNumber cpuinfo gblCpu =
     (if gblCpu > 0 then Inr (gblCpu, gblCpu)
      else case cpuinfo of
             None \<Rightarrow> Inl (Fatal ''Fail to open /proc/cpuinfo'')
           | Some content \<Rightarrow> bindE (cpu_loop content 0) (\<lambda>cnt.
               if fits_int (cnt + 1) then Inr (cnt + 1, cnt + 1) else Inl (Undefined ''signed overflow'')))"

text \<open>On a file that lists the processors in order, the number is that of the processors.\<close>

definition processor_line :: "nat \<Rightarrow> string" where
  "processor_line i = ''processor'' @ [tab] @ '': '' @ dec i @ [newline]"

lemma fgets_whole_line:
  assumes "newline \<notin> set l" and "length l < n"
  shows "fgets n (l @ [newline] @ r) = (l @ [newline], r)"
proof -
  have "takeWhile (\<lambda>c. c \<noteq> newline) (l @ [newline] @ r) = l"
    using assms(1) by (induction l) auto
  with assms(2) show ?thesis
    unfolding fgets_def by (simp add: Let_def)
qed

lemma length_dec: "n < 10 ^ k \<Longrightarrow> 0 < k \<Longrightarrow> length (dec n) \<le> k"
proof (induction k arbitrary: n)
  case (Suc k)
  show ?case
  proof (cases "n < 10")
    case True
    then show ?thesis by (simp add: dec.simps)
  next
    case False
    then have "0 < k"
      using Suc.prems by (cases k) simp_all
    moreover have "n div 10 < 10 ^ k"
      using Suc.prems by (simp add: less_mult_imp_div_less mult.commute)
    ultimately show ?thesis
      using Suc.IH [of "n div 10"] False by (simp add: dec.simps [of n])
  qed
qed simp

lemma processor_line_read:
  assumes "i < 2 ^ 31"
  shows "fgets 4095 (processor_line i @ r) = (processor_line i, r)" and "scan_processor (processor_line i) = Inr (Some (int i))"
proof -
  have no: "newline \<notin> set (dec i)"
    using dec_digits [of newline i] by (auto simp: is_digit_def newline_def)
  have "length (dec i) \<le> 10"
    using assms by (intro length_dec) simp_all
  with no have "fgets 4095 ((''processor'' @ [tab] @ '': '' @ dec i) @ [newline] @ r) = ((''processor'' @ [tab] @ '': '' @ dec i) @ [newline], r)"
    by (intro fgets_whole_line) (simp_all add: newline_def tab_def)
  then show "fgets 4095 (processor_line i @ r) = (processor_line i, r)"
    by (simp add: processor_line_def)
  have "scan_ld (dec i @ [newline]) = Some (int i, [newline])"
    by (rule scan_ld_dec) (simp add: is_digit_def newline_def)
  then have "scan_ld ('' '' @ dec i @ [newline]) = Some (int i, [newline])"
    by (simp add: scan_ld_def is_space_def)
  then show "scan_processor (processor_line i) = Inr (Some (int i))"
    using assms by (simp add: scan_processor_def processor_line_def Let_def is_space_def tab_def fits_int_def)
qed

lemma cpu_loop_lines:
  assumes "m + n < 2 ^ 31"
  shows "cpu_loop (concat (map processor_line [m..<m + n])) cnt = Inr (if n = 0 then cnt else int (m + n) - 1)"
  using assms
proof (induction n arbitrary: m cnt)
  case 0
  then show ?case by (simp add: cpu_loop.simps)
next
  case (Suc n)
  let ?rest = "concat (map processor_line [Suc m..<Suc m + n])"
  have lines: "concat (map processor_line [m..<m + Suc n]) = processor_line m @ ?rest"
    by (simp add: upt_conv_Cons del: upt_Suc)
  have m: "m < 2 ^ 31"
    using Suc.prems by simp
  have "processor_line m \<noteq> []"
    by (simp add: processor_line_def)
  then have "cpu_loop (processor_line m @ ?rest) cnt = cpu_loop ?rest (int m)"
    using processor_line_read [OF m] by (subst cpu_loop.simps) simp
  moreover have "cpu_loop ?rest (int m) = Inr (if n = 0 then int m else int (Suc m + n) - 1)"
    using Suc.prems by (intro Suc.IH) simp
  ultimately show ?case
    unfolding lines by simp
qed

lemma cpuNumber_counts:
  assumes "0 < n" and "n < 2 ^ 31"
  shows "cpuNumber (Some (concat (map processor_line [0..<n]))) 0 = Inr (int n, int n)"
  using cpu_loop_lines [of 0 n 0] assms by (simp add: cpuNumber_def fits_int_def)

section \<open>Removal of a file\<close>

definition removeFile ::
  "debug_build \<Rightarrow> (string \<Rightarrow> 'f \<Rightarrow> int \<times> 'f) \<Rightarrow> string \<Rightarrow> string \<Rightarrow> debug_state \<Rightarrow> 'f \<Rightarrow> (debug_state \<times> 'f) result" where
  "removeFile b unlink path strerror st f =
     (case unlink path f of (res, f1) \<Rightarrow>
        bindE (assumeArg b (res = 0) ''Fail to remove file %s : %s'' [path, strerror] ''UnixOS.cpp'' 174 st) (\<lambda>(e, st1).
          if then_does e = Goes_on then Inr (st1, f1) else Inl (Fatal ''Fail to remove file'')))"

text \<open>A file that cannot be removed is not reported: the formatter stops on an assertion of its own.\<close>

lemma removeFile_cases:
  assumes "\<not> ndebug b" and "unlink path f = (res, f1)"
  shows "removeFile b unlink path strerror st f = (if res = 0 then Inr (st, f1) else Inl (AssertFailure ''id != 0''))"
  using assms percent_letter_not_printed [OF assms(1)]
  by (auto simp: removeFile_def) (simp add: assumeArg_def silent_def)

end
