(* ===== verification/MotrConf.thy ===== *)
theory MotrConf
  imports MeroApi Portability
begin

text \<open>
  The start of a Motr session, \<open>c0appz_init\<close> of
  \<open>extern-deps/from-motr-sample-apps/clovis_api.c\<close>: the parameters of the configuration file, the pools
  they name and the configuration that is passed to the library.
\<close>

section \<open>Parameters\<close>

abbreviation (input) MAX_CONF_PARAMS :: nat where
  "MAX_CONF_PARAMS \<equiv> 32"

definition name_char :: "char \<Rightarrow> bool" where
  "name_char c \<longleftrightarrow> is_digit c \<or> c = CHR ''_'' \<or>
     97 \<le> (of_char c :: nat) \<and> (of_char c :: nat) \<le> 122 \<or> 65 \<le> (of_char c :: nat) \<and> (of_char c :: nat) \<le> 90"

definition value_char :: "char \<Rightarrow> bool" where
  "value_char c \<longleftrightarrow> c \<noteq> CHR ''#'' \<and> c \<noteq> newline \<and> c \<noteq> CHR 0x0D"

text \<open>
  \<open>sscanf(s, " %[#\n\r]", ...)\<close> is not zero: after the blanks, which the line feeds belong to, there
  is nothing (the result is \<open>EOF\<close>) or a comment.
\<close>

definition skipped :: "string \<Rightarrow> bool" where
  "skipped s \<longleftrightarrow> ignored (dropWhile is_space (c_str s))"

text \<open>\<open>sscanf(s, " %[a-z_A-Z0-9] = %[^#\n\r]", ...) == 2\<close> and the two texts.\<close>

definition scan_param :: "string \<Rightarrow> (string \<times> string) option" where
  "scan_param s =
     (let s1 = dropWhile is_space (c_str s);
          name = takeWhile name_char s1;
          r = dropWhile is_space (dropWhile name_char s1);
          v = takeWhile value_char (dropWhile is_space (tl r))
      in if name = [] \<or> r = [] \<or> hd r \<noteq> CHR ''='' \<or> v = [] then None else Some (name, v))"

text \<open>\<open>None\<close> is the result \<open>-1\<close> for a line that cannot be read.\<close>

function read_params :: "nat \<Rightarrow> string \<Rightarrow> (string \<times> string) list option" where
  "read_params max_params content =
     (if max_params > 0 \<and> content \<noteq> []
      then let s = fst (fgets 127 content); rest = snd (fgets 127 content)
           in if skipped s then read_params max_params rest
              else (case scan_param s of
                      None \<Rightarrow> None
                    | Some p \<Rightarrow> map_option (Cons p) (read_params (max_params - 1) rest))
      else Some [])"
  by pat_completeness auto
termination
  by (relation "measure (\<lambda>(n, content). length content)") (auto simp: fgets_progress)

declare read_params.simps [simp del]

text \<open>The search goes from the last parameter to the first.\<close>

definition param_get :: "string \<Rightarrow> (string \<times> string) list \<Rightarrow> string option" where
  "param_get name ps = map_of (rev ps) name"

section \<open>Start and end of a session\<close>

record 's motr_start =
  ms_fid_sscanf :: "string \<Rightarrow> m0_fid option"
  ms_unit_size_to_layout_id :: "nat \<Rightarrow> nat"
  ms_client_init :: "motr_config \<Rightarrow> 's \<Rightarrow> int \<times> 's"
  ms_container_init :: "'s \<Rightarrow> int \<times> 's"
  ms_client_fini :: "'s \<Rightarrow> 's"

definition tier_name :: "nat \<Rightarrow> string" where
  "tier_name i = ''M0_POOL_TIER'' @ dec (i + 1)"

function pools_loop ::
  "(string \<Rightarrow> m0_fid option) \<Rightarrow> (string \<times> string) list \<Rightarrow> nat \<Rightarrow> m0_fid list \<Rightarrow> int \<times> m0_fid list" where
  "pools_loop fid_sscanf ps i pls =
     (if i < MAX_POOLS
      then (case param_get (tier_name i) ps of
              None \<Rightarrow> (int i, pls)
            | Some pval \<Rightarrow>
                (case fid_sscanf pval of
                   None \<Rightarrow> (-1, pls)
                 | Some fid \<Rightarrow> pools_loop fid_sscanf ps (i + 1) (pls[i := fid])))
      else (int i, pls))"
  by pat_completeness auto
termination
  by (relation "measure (\<lambda>(f, ps, i, pls). MAX_POOLS - i)") auto

declare pools_loop.simps [simp del]

definition pools_fids_set ::
  "(string \<Rightarrow> m0_fid option) \<Rightarrow> (string \<times> string) list \<Rightarrow> m0_fid list \<Rightarrow> int \<times> m0_fid list" where
  "pools_fids_set fid_sscanf ps pls = pools_loop fid_sscanf ps 0 pls"

text \<open>\<open>-EINVAL\<close> is \<open>-22\<close>. A parameter that is missing is stored as a null pointer before the return.\<close>

definition read_conf_params :: "int \<Rightarrow> (string \<times> string) list \<Rightarrow> motr_config \<Rightarrow> int \<times> motr_config" where
  "read_conf_params idx ps conf =
     (let ha = param_get ''HA_ENDPOINT_ADDR'' ps;
          profile = param_get ''PROFILE_FID'' ps;
          local = param_get (''LOCAL_ENDPOINT_ADDR'' @ dec_int idx) ps;
          proc = param_get (''LOCAL_PROC_FID'' @ dec_int idx) ps;
          conf1 = conf\<lparr>mc_ha_addr := ha\<rparr>;
          conf2 = conf1\<lparr>mc_profile := profile\<rparr>;
          conf3 = conf2\<lparr>mc_local_addr := local\<rparr>;
          conf4 = conf3\<lparr>mc_process_fid := proc\<rparr>
      in if ha = None then (-22, conf1)
         else if profile = None then (-22, conf2)
         else if local = None then (-22, conf3)
         else if proc = None then (-22, conf4)
         else (0, conf4))"

text \<open>\<open>fopen\<close> gives the content of the file or the value of \<open>errno\<close>.\<close>

definition motr_c0appz_init ::
  "'s motr_start \<Rightarrow> (string \<Rightarrow> int + string) \<Rightarrow> int \<Rightarrow> 's motr_client \<Rightarrow> int \<times> 's motr_client" where
  "motr_c0appz_init ms fopen idx c =
     (case fopen (c0rcfile c) of
        Inl errno \<Rightarrow> (- errno, c)
      | Inr content \<Rightarrow>
          (case read_params MAX_CONF_PARAMS content of
             None \<Rightarrow> (-1, c)
           | Some ps \<Rightarrow>
               (case pools_fids_set (ms_fid_sscanf ms) ps (pools c) of (npools, pls) \<Rightarrow>
                  let c1 = c\<lparr>pools := pls\<rparr>
                  in if npools \<le> 0 then (-22, c1)
                     else case read_conf_params idx ps (m0_conf c1) of (rc, conf) \<Rightarrow>
                       if rc \<noteq> 0 then (rc, c1\<lparr>m0_conf := conf\<rparr>)
                       else
                         let conf1 = conf\<lparr>mc_is_oostore := True, mc_is_read_verify := False,
                               mc_tm_recv_queue_min_len := 64, mc_max_rpc_msg_size := 65536, mc_layout_id := 0\<rparr>;
                             lid = ms_unit_size_to_layout_id ms (unit_size c * 1024 mod 4294967296)
                         in if unit_size c \<noteq> 0 \<and> lid = 0 then (-22, c1\<lparr>m0_conf := conf1\<rparr>)
                            else
                              let conf2 = (if unit_size c \<noteq> 0 then conf1\<lparr>mc_layout_id := lid\<rparr> else conf1);
                                  c2 = c1\<lparr>m0_conf := conf2\<rparr>
                              in case ms_client_init ms conf2 (m0 c2) of (rc, s1) \<Rightarrow>
                                   if rc \<noteq> 0 then (rc, c2\<lparr>m0 := s1\<rparr>)
                                   else case ms_container_init ms s1 of (rc, s2) \<Rightarrow> (rc, c2\<lparr>m0 := s2\<rparr>))))"

definition motr_c0appz_free :: "'s motr_start \<Rightarrow> 's motr_client \<Rightarrow> int \<times> 's motr_client" where
  "motr_c0appz_free ms c = (0, c\<lparr>m0 := ms_client_fini ms (m0 c), c0rcfile := []\<rparr>)"

definition c0appz_set_manual_rc :: "string \<Rightarrow> 's motr_client \<Rightarrow> int \<times> 's motr_client" where
  "c0appz_set_manual_rc rc c = (0, c\<lparr>c0rcfile := take 511 rc\<rparr>)"

text \<open>\<open>prog\<close> is \<open>None\<close> for a null pointer; the host name and the directory \<open>HOME\<close> are parameters.\<close>

definition c0appz_setrc :: "string \<Rightarrow> string \<Rightarrow> string option \<Rightarrow> 's motr_client \<Rightarrow> int \<times> 's motr_client" where
  "c0appz_setrc hostname home prog c =
     (case prog of
        None \<Rightarrow> (-22, c)
      | Some p \<Rightarrow> (0, c\<lparr>c0rcfile := take 511 (home @ ''/.c0appz/'' @ p @ ''rc/'' @ hostname)\<rparr>))"

section \<open>A configuration file is read back\<close>

definition param_line :: "string \<times> string \<Rightarrow> string" where
  "param_line p = fst p @ '' = '' @ snd p @ [newline]"

definition param_ok :: "string \<times> string \<Rightarrow> bool" where
  "param_ok p \<longleftrightarrow> fst p \<noteq> [] \<and> list_all name_char (fst p) \<and>
     snd p \<noteq> [] \<and> list_all (\<lambda>c. value_char c \<and> c \<noteq> CHR 0x00) (snd p) \<and> \<not> is_space (hd (snd p)) \<and>
     length (fst p) + length (snd p) < 123"

lemma name_char_plain:
  assumes "name_char c"
  shows "\<not> is_space c" and "c \<noteq> CHR ''#''" and "c \<noteq> CHR ''=''" and "c \<noteq> CHR 0x00" and "c \<noteq> newline"
  using assms by (auto simp: name_char_def is_digit_def is_space_def newline_def)

lemma takeWhile_all_append:
  "list_all P xs \<Longrightarrow> ys = [] \<or> \<not> P (hd ys) \<Longrightarrow> takeWhile P (xs @ ys) = xs \<and> dropWhile P (xs @ ys) = ys"
proof (induction xs)
  case Nil
  then show ?case by (cases ys) auto
qed simp

lemma param_line_c_str:
  assumes "param_ok p"
  shows "c_str (param_line p) = param_line p"
proof -
  have "\<forall>c \<in> set (param_line p). c \<noteq> CHR 0x00"
    using assms name_char_plain(4) by (auto simp: param_ok_def param_line_def list_all_iff newline_def)
  then show ?thesis
    by (simp add: c_str_def takeWhile_eq_all_conv)
qed

lemma param_line_scanned:
  assumes ok: "param_ok p"
  shows "\<not> skipped (param_line p)" and "scan_param (param_line p) = Some p"
proof -
  obtain n v where p: "p = (n, v)"
    by (cases p)
  have n: "n \<noteq> []" "list_all name_char n" "\<not> is_space (hd n)" "hd n \<noteq> CHR ''#''"
    using ok p name_char_plain(1,2) [of "hd n"] by (auto simp: param_ok_def list_all_iff)
  have lead: "dropWhile is_space (n @ r) = n @ r" for r
    using n(1,3) by (cases n) simp_all
  show "\<not> skipped (param_line p)"
    using n lead [of "'' = '' @ v @ [newline]"] unfolding skipped_def param_line_c_str [OF ok]
    by (simp add: ignored_def p param_line_def)
  have tn: "takeWhile name_char (n @ '' = '' @ v @ [newline]) = n" "dropWhile name_char (n @ '' = '' @ v @ [newline]) = '' = '' @ v @ [newline]"
    using takeWhile_all_append [OF n(2), of "'' = '' @ v @ [newline]"] by (simp_all add: name_char_def is_digit_def)
  have v: "v \<noteq> []" "\<not> is_space (hd v)" "list_all value_char v"
    using ok p by (auto simp: param_ok_def list_all_iff)
  have "is_space (CHR '' '')"
    by (simp add: is_space_def)
  then have "dropWhile is_space ('' '' @ v @ [newline]) = v @ [newline]"
    using v(1,2) by (cases v) simp_all
  moreover have "takeWhile value_char (v @ [newline]) = v"
    using takeWhile_all_append [OF v(3), of "[newline]"] by (simp add: value_char_def)
  ultimately show "scan_param (param_line p) = Some p"
    using n v tn lead [of "'' = '' @ v @ [newline]"]
    by (simp add: scan_param_def param_line_c_str [OF ok] Let_def) (simp add: p param_line_def is_space_def)
qed

lemma param_line_fgets:
  assumes "param_ok p"
  shows "fgets 127 (param_line p @ r) = (param_line p, r)"
proof -
  have "newline \<notin> set (fst p @ '' = '' @ snd p)"
    using assms name_char_plain(5) by (auto simp: param_ok_def list_all_iff newline_def value_char_def)
  moreover have "length (fst p @ '' = '' @ snd p) < 127"
    using assms by (simp add: param_ok_def)
  ultimately have "fgets 127 ((fst p @ '' = '' @ snd p) @ [newline] @ r) = ((fst p @ '' = '' @ snd p) @ [newline], r)"
    by (rule fgets_whole_line)
  then show ?thesis
    by (simp add: param_line_def)
qed

lemma read_params_lines:
  "list_all param_ok ps \<Longrightarrow> length ps \<le> n \<Longrightarrow> read_params n (concat (map param_line ps)) = Some ps"
proof (induction ps arbitrary: n)
  case Nil
  then show ?case by (simp add: read_params.simps)
next
  case (Cons p ps)
  then have ok: "param_ok p" and "0 < n" and "read_params (n - 1) (concat (map param_line ps)) = Some ps"
    by simp_all
  moreover have "param_line p \<noteq> []"
    by (simp add: param_line_def)
  ultimately show ?case
    using param_line_fgets [OF ok] param_line_scanned [OF ok]
    by (subst read_params.simps) (simp add: Let_def)
qed

text \<open>
  A session that starts has the configuration the file gives: every parameter is there, and the
  last line that names it counts.
\<close>

lemma motr_c0appz_init_conf:
  assumes "fopen (c0rcfile c) = Inr (concat (map param_line ps))" and "list_all param_ok ps"
    and "length ps \<le> MAX_CONF_PARAMS" and "motr_c0appz_init ms fopen idx c = (0, c')"
  shows "mc_ha_addr (m0_conf c') = map_of (rev ps) ''HA_ENDPOINT_ADDR'' \<and> mc_ha_addr (m0_conf c') \<noteq> None"
    and "mc_profile (m0_conf c') = map_of (rev ps) ''PROFILE_FID'' \<and> mc_profile (m0_conf c') \<noteq> None"
    and "mc_local_addr (m0_conf c') = map_of (rev ps) (''LOCAL_ENDPOINT_ADDR'' @ dec_int idx) \<and> mc_local_addr (m0_conf c') \<noteq> None"
    and "mc_process_fid (m0_conf c') = map_of (rev ps) (''LOCAL_PROC_FID'' @ dec_int idx) \<and> mc_process_fid (m0_conf c') \<noteq> None"
proof -
  note rd = read_params_lines [OF assms(2,3)]
  obtain npools pls where pl: "pools_fids_set (ms_fid_sscanf ms) ps (pools c) = (npools, pls)"
    by fastforce
  obtain rc conf where cf: "read_conf_params idx ps (m0_conf (c\<lparr>pools := pls\<rparr>)) = (rc, conf)"
    by fastforce
  have "rc = 0" and fields: "mc_ha_addr (m0_conf c') = mc_ha_addr conf" "mc_profile (m0_conf c') = mc_profile conf"
    "mc_local_addr (m0_conf c') = mc_local_addr conf" "mc_process_fid (m0_conf c') = mc_process_fid conf"
    using assms(1,4) rd pl cf by (auto simp: motr_c0appz_init_def Let_def split: if_splits prod.splits)
  with cf show
    "mc_ha_addr (m0_conf c') = map_of (rev ps) ''HA_ENDPOINT_ADDR'' \<and> mc_ha_addr (m0_conf c') \<noteq> None"
    "mc_profile (m0_conf c') = map_of (rev ps) ''PROFILE_FID'' \<and> mc_profile (m0_conf c') \<noteq> None"
    "mc_local_addr (m0_conf c') = map_of (rev ps) (''LOCAL_ENDPOINT_ADDR'' @ dec_int idx) \<and> mc_local_addr (m0_conf c') \<noteq> None"
    "mc_process_fid (m0_conf c') = map_of (rev ps) (''LOCAL_PROC_FID'' @ dec_int idx) \<and> mc_process_fid (m0_conf c') \<noteq> None"
    unfolding fields by (auto simp: read_conf_params_def param_get_def Let_def split: if_splits)
qed

text \<open>Every pool that is counted has the identifier of its parameter.\<close>

lemma pools_loop_set:
  assumes "pools_loop f ps i pls = (n, pls')" and "0 \<le> n" and "MAX_POOLS \<le> length pls"
  shows "int i \<le> n \<or> MAX_POOLS < i" and "j < i \<Longrightarrow> pls' ! j = pls ! j"
    and "i \<le> j \<Longrightarrow> int j < n \<Longrightarrow> j < MAX_POOLS \<Longrightarrow> \<exists>v. param_get (tier_name j) ps = Some v \<and> f v = Some (pls' ! j)"
proof -
  have "(int i \<le> n \<or> MAX_POOLS < i) \<and> (\<forall>j < i. pls' ! j = pls ! j) \<and>
      (\<forall>j \<ge> i. int j < n \<longrightarrow> j < MAX_POOLS \<longrightarrow> (\<exists>v. param_get (tier_name j) ps = Some v \<and> f v = Some (pls' ! j)))"
    using assms
  proof (induction "MAX_POOLS - i" arbitrary: i pls)
    case 0
    then show ?case by (subst (asm) pools_loop.simps) auto
  next
    case (Suc k)
    then have i: "i < MAX_POOLS" and ip: "i < length pls"
      by simp_all
    show ?case
    proof (cases "param_get (tier_name i) ps")
      case None
      with Suc.prems i show ?thesis by (subst (asm) pools_loop.simps) auto
    next
      case (Some v)
      then obtain fid where fid: "f v = Some fid" and rest: "pools_loop f ps (i + 1) (pls[i := fid]) = (n, pls')"
        using Suc.prems i by (subst (asm) pools_loop.simps) (auto split: option.splits)
      have ih: "(int (i + 1) \<le> n \<or> MAX_POOLS < i + 1) \<and> (\<forall>j < i + 1. pls' ! j = pls[i := fid] ! j) \<and>
          (\<forall>j \<ge> i + 1. int j < n \<longrightarrow> j < MAX_POOLS \<longrightarrow> (\<exists>v. param_get (tier_name j) ps = Some v \<and> f v = Some (pls' ! j)))"
        using Suc.hyps(2) i Suc.prems(2,3) by (intro Suc.hyps(1) [OF _ rest]) simp_all
      then have "pls' ! i = fid"
        using ip by simp
      with Some fid have here: "\<exists>v. param_get (tier_name i) ps = Some v \<and> f v = Some (pls' ! i)"
        by blast
      have "\<exists>v. param_get (tier_name j) ps = Some v \<and> f v = Some (pls' ! j)" if "i \<le> j" "int j < n" "j < MAX_POOLS" for j
        using that here ih by (cases "j = i") simp_all
      then show ?thesis
        using ih i by auto
    qed
  qed
  then show "int i \<le> n \<or> MAX_POOLS < i" and "j < i \<Longrightarrow> pls' ! j = pls ! j"
    and "i \<le> j \<Longrightarrow> int j < n \<Longrightarrow> j < MAX_POOLS \<Longrightarrow> \<exists>v. param_get (tier_name j) ps = Some v \<and> f v = Some (pls' ! j)"
    by blast+
qed

end
