(* ===== verification/Export.thy ===== *)
theory Export
  imports GlobalHandler
begin

text \<open>
  The export of the state of the mappings as JSON, the functions \<open>convertToJson\<close> of
  \<open>src/core/Mapping.cpp\<close>, \<open>src/core/MappingRegistry.cpp\<close> and \<open>src/htopml/HtopmlMappings.cpp\<close>. What they
  do is the sequence of the calls they make on the \<open>JsonState\<close> of the htopml library.
\<close>

section \<open>Calls on the JSON state\<close>

datatype json_call =
    OpenStruct
  | CloseStruct
  | OpenArray
  | CloseArray
  | OpenFieldArray string
  | CloseFieldArray string
  | PrintField_bool string bool
  | PrintField_size string size_t
  | PrintField_string string string

definition convertToJson_status :: "segment_status \<Rightarrow> json_call list" where
  "convertToJson_status value =
     [OpenStruct,
      PrintField_bool ''mapped'' (mapped value),
      PrintField_bool ''dirty'' (dirty value),
      PrintField_bool ''needRead'' (needRead value),
      CloseStruct]"

definition lib_getUri :: "'f lib_driver \<Rightarrow> string" where
  "lib_getUri d =
     (case d of DMemory o' \<Rightarrow> driver_getUri o' | DDummy o' \<Rightarrow> driver_getUri o' | DFD o' \<Rightarrow> driver_getUri o'
      | DMmap o' \<Rightarrow> driver_getUri o' | DC o' \<Rightarrow> driver_getUri o' | DIoc o' \<Rightarrow> driver_getUri o' | DClovis o' \<Rightarrow> driver_getUri o')"

definition pobj_getUri :: "policy_obj \<Rightarrow> string" where
  "pobj_getUri po = (case po of PFifo p \<Rightarrow> pol_uri p | PLifo p \<Rightarrow> pol_uri p | PWindow p \<Rightarrow> pol_uri p)"

definition policy_uri :: "policy_ptr \<Rightarrow> 'f world \<Rightarrow> string result" where
  "policy_uri p w = (if p = 0 then Inr ''none://'' else bindE (deref (w_policies w) p) (\<lambda>po. Inr (pobj_getUri po)))"

text \<open>The segments are printed by the loop over the indices below the number of segments.\<close>

definition convertToJson_mapping :: "mapping \<Rightarrow> 'f world \<Rightarrow> json_call list result" where
  "convertToJson_mapping value w =
     bindE (deref (w_drivers w) (mp_driver value)) (\<lambda>d.
       bindE (policy_uri (localPolicy value) w) (\<lambda>lp.
         bindE (policy_uri (globalPolicy value) w) (\<lambda>gp.
           if \<not> segments value \<le> length (segmentStatus value) then Inl (Undefined ''segmentStatus'')
           else Inr ([OpenStruct,
                  PrintField_size ''size'' (mp_size value),
                  PrintField_size ''segments'' (segments value),
                  PrintField_size ''segmentSize'' (segmentSize value),
                  PrintField_size ''offset'' (storageOffset value),
                  PrintField_string ''driverUri'' (lib_getUri d),
                  PrintField_string ''localPolicyUri'' lp,
                  PrintField_string ''globalPolicyUri'' gp,
                  OpenFieldArray ''status''] @
                 concat (map (\<lambda>i. convertToJson_status (segmentStatus value ! i)) [0..<segments value]) @
                 [CloseFieldArray ''status'', CloseStruct]))))"

definition convertToJson_registry :: "mapping_entry list \<Rightarrow> 'f world \<Rightarrow> json_call list result" where
  "convertToJson_registry entries w =
     bindE (foldE (\<lambda>e calls. bindE (deref (w_mappings w) (me_mapping e)) (\<lambda>m.
              bindE (convertToJson_mapping m w) (\<lambda>cs. Inr (calls @ cs)))) entries [])
       (\<lambda>calls. Inr ([OpenArray] @ calls @ [CloseArray]))"

text \<open>The registry of the HTTP node, \<open>None\<close> before \<open>registerMapping\<close>.\<close>

definition convertToJson_pointer :: "mapping_entry list option \<Rightarrow> 'f world \<Rightarrow> json_call list result" where
  "convertToJson_pointer reg w =
     (case reg of None \<Rightarrow> Inl (Undefined ''*value.registry'') | Some entries \<Rightarrow> convertToJson_registry entries w)"

text \<open>
  The pages the server is given: the node that answers with the registry, files below the directory
  \<open>www\<close> of the plugin, a page template and an entry of the menu.
\<close>

datatype server_call =
    RegisterMappingsNode string bool
  | QuickRegisterFile string string bool
  | RegisterTemplatePage string string bool
  | AddMenuEntry string string string

definition htopmlRegisterMappingsPage :: "string \<Rightarrow> server_call list" where
  "htopmlRegisterMappingsPage www =
     [RegisterMappingsNode ''/ummap-io/mappings.json'' True,
      QuickRegisterFile ''/ummap-io/mappings.css'' (www @ ''/mappings.css'') False,
      QuickRegisterFile ''/ummap-io/mappings.js'' (www @ ''/mappings.js'') False,
      RegisterTemplatePage ''/ummap-io/mappings.html'' (www @ ''/mappings.html'') False,
      QuickRegisterFile ''/ummap-io/icons/ram.png'' (www @ ''/icons/ram.png'') False,
      AddMenuEntry ''Ummap Mappings'' ''/ummap-io/mappings.html'' ''/ummap-io/icons/ram.png'']"

definition registerMapping_node :: "mapping_entry list \<Rightarrow> mapping_entry list option \<Rightarrow> mapping_entry list option" where
  "registerMapping_node reg old = Some reg"

section \<open>The calls are balanced\<close>

text \<open>
  The places that are open after a sequence of calls, innermost first; \<open>None\<close> when a place is
  closed that is not the innermost one or when a field is printed outside of a struct.
\<close>

fun json_open :: "json_call list \<Rightarrow> json_call list \<Rightarrow> json_call list option" where
  "json_open [] st = Some st"
| "json_open (c # cs) st =
     (case c of
        OpenStruct \<Rightarrow> json_open cs (OpenStruct # st)
      | CloseStruct \<Rightarrow> (case st of OpenStruct # st' \<Rightarrow> json_open cs st' | _ \<Rightarrow> None)
      | OpenArray \<Rightarrow> json_open cs (OpenArray # st)
      | CloseArray \<Rightarrow> (case st of OpenArray # st' \<Rightarrow> json_open cs st' | _ \<Rightarrow> None)
      | OpenFieldArray n \<Rightarrow> (case st of OpenStruct # _ \<Rightarrow> json_open cs (OpenFieldArray n # st) | _ \<Rightarrow> None)
      | CloseFieldArray n \<Rightarrow> (case st of OpenFieldArray n' # st' \<Rightarrow> if n' = n then json_open cs st' else None | _ \<Rightarrow> None)
      | _ \<Rightarrow> (case st of OpenStruct # _ \<Rightarrow> json_open cs st | _ \<Rightarrow> None))"

definition balanced :: "json_call list \<Rightarrow> bool" where
  "balanced cs \<longleftrightarrow> (\<forall>more st. json_open (cs @ more) st = json_open more st)"

lemma balanced_append: "balanced a \<Longrightarrow> balanced b \<Longrightarrow> balanced (a @ b)"
  by (simp add: balanced_def)

lemma balanced_concat: "(\<And>x. x \<in> set xs \<Longrightarrow> balanced (f x)) \<Longrightarrow> balanced (concat (map f xs))"
  by (induction xs) (simp_all add: balanced_def)

lemma convertToJson_status_balanced: "balanced (convertToJson_status st)"
  by (simp add: balanced_def convertToJson_status_def)

lemma convertToJson_mapping_balanced:
  assumes "convertToJson_mapping m w = Inr cs"
  shows "balanced cs"
proof -
  have "balanced (concat (map (\<lambda>i. convertToJson_status (segmentStatus m ! i)) [0..<segments m]))"
    by (rule balanced_concat) (rule convertToJson_status_balanced)
  then show ?thesis
    using assms by (auto simp: convertToJson_mapping_def balanced_def split: if_splits)
qed

text \<open>The whole page is one array of structs.\<close>

lemma convertToJson_registry_balanced:
  assumes "convertToJson_registry entries w = Inr cs"
  shows "json_open cs [] = Some []"
proof -
  let ?f = "\<lambda>e calls. bindE (deref (w_mappings w) (me_mapping e)) (\<lambda>m.
              bindE (convertToJson_mapping m w) (\<lambda>cs. Inr (calls @ cs)))"
  obtain calls where fold: "foldE ?f entries [] = Inr calls" and cs: "cs = [OpenArray] @ calls @ [CloseArray]"
    using assms by (auto simp: convertToJson_registry_def)
  have "balanced calls"
  proof (rule foldE_invariant [OF fold])
    show "balanced []"
      by (simp add: balanced_def)
    show "balanced calls'" if "balanced calls" "?f e calls = Inr calls'" for e calls calls'
      using that by (auto intro: balanced_append convertToJson_mapping_balanced)
  qed
  then show ?thesis
    by (simp add: cs balanced_def)
qed

end
