(* ===== verification/Spec2Isabelle.thy ===== *)
theory Spec2Isabelle
  imports CopyProps TextProps TouchProps WindowHistory PolicyProps DriverProps Messages MotrConf Portability Export
begin

text \<open>
  A verification development of ummap-io-v2, a library that maps objects of a storage (files,
  memory, objects of a server) into memory in user space. The program serves the page faults on a
  mapping by reading the touched segment through a driver, tracks the segments in memory with
  eviction policies, and writes dirty segments back when they are flushed or evicted. Paths below
  are relative to the root of the repository.

  \<^bold>\<open>Parts of the program and theories.\<close>

  \<^item> \<open>Prelude\<close>: results of code that may abort (\<open>'a result\<close>) or not return (\<open>'a outcome\<close>), the type
    \<open>size_t\<close> as \<open>nat\<close> with the wrap-around of each operation written out, ranges and lists.
  \<^item> \<open>ListElement\<close> (\<open>src/common/ListElement.cpp\<close>): the intrusive ring, as maps of next and previous
    pointers. \<open>Policy\<close>, \<open>FifoPolicy\<close>, \<open>LifoPolicy\<close>, \<open>FifoWindowPolicy\<close> (\<open>src/core/Policy.cpp\<close>,
    \<open>src/policies\<close>): the element arrays, the order of eviction and the memory counters.
  \<^item> \<open>UnixOS\<close> (\<open>src/portability/UnixOS.cpp\<close>): the address space, bytes and page protections.
    \<open>Driver\<close>, \<open>MemoryDriver\<close>, \<open>Drivers\<close>, \<open>ClovisDriver\<close>, \<open>MotrApi\<close>, \<open>MeroApi\<close> (\<open>src/core/Driver.cpp\<close>,
    \<open>src/drivers\<close>, \<open>extern-deps/from-motr-sample-apps\<close>, \<open>extern-deps/from-clovis-sample-apps\<close>): one
    group of definitions per driver class and the client functions that the Mero and the Motr
    builds call. \<open>LibDriver\<close>: the virtual calls, on a datatype with one constructor per class.
    \<open>MotrConf\<close>: the start of a Motr session from its configuration file.
  \<^item> \<open>MappingCore\<close> (\<open>src/core/Mapping.cpp\<close>): segments, faults, flush, eviction, copy. A mapping is the
    record \<open>mapping\<close>; a method takes and returns the mapping, the storage and the address space.
  \<^item> \<open>World\<close>, \<open>InterProc\<close>, \<open>QuotaLoop\<close> (\<open>src/core/Mapping.cpp\<close>, \<open>PolicyQuota*.cpp\<close>): the objects of one
    process and the calls between mappings, policies and quotas; the table that processes share.
  \<^item> \<open>Registries\<close>, \<open>GlobalHandler\<close>, \<open>CopySwitch\<close> (\<open>src/core\<close>): the process-wide state \<open>handler\<close>, the
    dispatch of faults, creation and destruction of mappings, copy on write, switch of driver.
  \<^item> \<open>CString\<close>, \<open>HumanUnits\<close>, \<open>Uri\<close>, \<open>Variables\<close>, \<open>Listings\<close>, \<open>UriHandler\<close> (\<open>src/common\<close>, \<open>src/uri\<close>): the
    texts the library reads, and the drivers and policies built from them. \<open>PublicApi\<close>
    (\<open>src/public-api/ummap.cpp\<close>) and \<open>RwWrapper\<close> (\<open>src/rw-wrapper\<close>): the entry points.
    \<open>Ressources\<close>, \<open>Portability\<close>, \<open>Export\<close>: the sessions of the object store clients, the other
    portability functions, the JSON description of the objects and the pages of the htopml server.
  \<^item> \<open>Messages\<close> (\<open>extern-deps/from-cern-lhcb-daqpipe-v2\<close>): the formatted messages through which a
    failed check ends the process. \<open>Instances\<close>: a concrete outside world that meets the
    assumptions, for the examples.

  \<^bold>\<open>What the lemmas show.\<close>

  \<^item> \<open>Driver\<close> has the contract of a driver in two locales. \<open>storage_calls\<close> is what its calls promise: a
    read or a write that reports \<open>r\<close> bytes has transferred the first \<open>r\<close> bytes, and \<open>r\<close> may be less
    than the size asked for. \<open>storage_driver\<close> is a driver that transfers all or fails. The methods of
    a mapping treat a short transfer as a complete one, so \<open>MappingView\<close> and \<open>MappingLife\<close> prove in
    the second locale that a mapping refines an array of bytes: they keep the invariant \<open>mapping_ok\<close>
    (shape, statuses, protections, clean segments equal to the storage) and the view of the program
    through each method. \<open>LibDriver\<close> proves the first contract for the driver classes of the library,
    and the second for the same classes watched by \<open>uncut\<close>, which stops at the first short transfer;
    \<open>Transfers\<close> relates the two: a run of the watched driver is a run of the driver. \<open>MappingProps\<close>
    and \<open>CopyProps\<close> draw the consequences for faults, flushes and copies, and show what a short
    write loses.
  \<^item> \<open>Eviction\<close> has the contract of a policy (\<open>eviction_policy\<close>, \<open>bounded_policy\<close>), interpreted for the
    three policies; \<open>PolicyHistory\<close> (locale \<open>touch_policy\<close>) and \<open>WindowHistory\<close> compare every sequence
    of calls with a specification by plain lists. \<open>WorldInv\<close>, \<open>WorldSteps\<close> and \<open>WorldProps\<close> prove that
    every segment in memory stays tracked and that limits and quotas hold for the whole process.
    \<open>PolicyLayout\<close> shows where the elements of a policy lie.
  \<^item> \<open>DriverProps\<close>, \<open>MotrApi\<close> and \<open>MeroApi\<close>: what the object store drivers transfer, the life of shared
    memory, the inter-process table. \<open>Registries\<close> has the locale \<open>registry\<close>, interpreted for mappings
    and policies. \<open>TextProps\<close>: round trips and equivalence of the parsers. \<open>HandlerProps\<close>: the
    dispatch of faults and nesting of initialisation. \<open>TouchProps\<close>: the wrappers of system calls.
  \<^item> Some properties state that the code does not do what it means to: they are named after the
    failure, for example \<open>read_fault_blocks_writer\<close> or \<open>motr_write_overruns\<close>.

  \<^bold>\<open>Assumptions.\<close> Code outside of the repository is a parameter: system calls (\<open>posix_ok\<close>), the
  choice of addresses by the kernel (\<open>kmmap_ok\<close>: free, aligned memory), the IOC client (\<open>ioc_ok\<close>), all of
  them together (\<open>env_ok\<close>), the files of the C library (\<open>text_files_ok\<close>), the Mero and the Motr library
  (\<open>mero_read_ok\<close>, \<open>motr_ok\<close>). They state what a call that succeeds has done. A system call or a call
  of the IOC client may transfer less than it was asked for; that a transfer was complete is a
  hypothesis on the run (\<open>uncut\<close>). An operation of the object store whose codes are zero has been
  carried out. A critical section that the code protects by a lock is one step of the model; the spin
  lock of the inter-process table, which may be taken between any two steps, is modelled with its
  interleavings.

  \<^bold>\<open>Loops.\<close> A loop that may not end is a \<open>partial_function (option)\<close>, and \<open>None\<close> means that it does not
  return; that a loop returns is stated as such. All other loops are total functions. There is no
  fuel. Sizes of mappings are bounded only where an addition would wrap around, and then by a
  hypothesis.

  \<^bold>\<open>Not modelled.\<close> Functions that compute in floating point (the printing of sizes with units in
  messages, the performance displays of the object store clients), the copies of files to objects
  and the function shipping of the Motr client, which the library does not call; mock
  classes, tests, examples and benchmarks; the bundled test framework.
\<close>

section \<open>Runs of a new mapping\<close>

text \<open>What the invariant of the mapping gives for every state a new mapping can reach.\<close>

lemma new_run_represents:
  assumes "env_ok env wc" and "soft_driver d" and "kmmap_ok kmmap"
    and "offset + sz + sg < W64" and "\<not> has_flag flags UMMAP_FIXED"
    and "newMapping_core (lib_ops env) kmmap cpus d addr sz sg offset prot flags drv lp gp s v = Inr (m, s0, v0)"
    and "mrun (uncut (lib_content wc) (lib_ops env)) kmmap d (m, s0, v0) es (m', s', v')"
  defines "A \<equiv> \<lambda>x. if has_flag flags UMMAP_NO_FIRST_READ then 0 else lib_content wc d s (offset + x)"
  shows "array_accepts A es" and "represents (lib_content wc) d (fold array_step es A) sz (m', s', v')"
proof -
  note new = storage_calls.newMapping_ok [OF lib_storage_calls [OF assms(1,2)] assms(3-6)]
  have "represents (lib_content wc) d A sz (m, s0, v0)"
    using new(1,4,7) by (simp add: represents_def A_def)
  from storage_driver.mrun_refines [OF lib_storage_driver [OF assms(1,2)] assms(7,3) this]
  show "array_accepts A es" and "represents (lib_content wc) d (fold array_step es A) sz (m', s', v')"
    by blast+
qed

lemma segment_of_byte: "shape m \<Longrightarrow> x < segments m * segmentSize m \<Longrightarrow> x div segmentSize m < segments m"
  by (rule less_mult_imp_div_less)

text \<open>A run on a memory driver: a write fault, a store and a load in the second segment.\<close>

lemma ram_run:
  "mrun (lib_ops ram_env) first_fit (DMemory drv0) (map0, store0, vm1)
     [Fault 1052676 True, Store 4100 9, Load 4102 7] (map1, store0, store_byte 1052676 9 vm2)"
proof -
  have 1: "mstep (lib_ops ram_env) first_fit (DMemory drv0) (map0, store0, vm1) (Fault 1052676 True)
      (map1, store0, vm2)"
    by (rule mstep.Fault [OF fault1])
  have 2: "mstep (lib_ops ram_env) first_fit (DMemory drv0) (map1, store0, vm2) (Store 4100 9)
      (map1, store0, store_byte 1052676 9 vm2)"
    using mstep.Store [of 4100 map1 vm2] vm2_write by (simp add: map1_def)
  have 3: "mstep (lib_ops ram_env) first_fit (DMemory drv0) (map1, store0, store_byte 1052676 9 vm2)
      (Load 4102 7) (map1, store0, store_byte 1052676 9 vm2)"
    using mstep.Load [of 4102 map1 "store_byte 1052676 9 vm2"] vm2_write
    by (simp add: map1_def can_read_def)
  show ?thesis
    by (rule mrun.Step [OF 1 mrun.Step [OF 2 mrun.Step [OF 3 mrun.Done]]])
qed

section \<open>Properties\<close>

text \<open>
  C1. A mapping on a memory, file or IOC driver, made without \<open>UMMAP_FIXED\<close>, refines an array of
  bytes as long as no transfer with the storage is cut short. Whatever faults, flushes, evictions,
  drops and re-dirtyings happen between the accesses of the program, in any order, a load returns
  the byte last stored at its offset, or the byte of the storage at construction time (zero when
  the mapping was made with \<open>UMMAP_NO_FIRST_READ\<close>). The run of the hypothesis is on the driver
  watched by \<open>uncut\<close>, which stops at a short transfer; it is a run of the code on the driver.
\<close>

theorem mapping_refines_array:
  assumes "env_ok env wc" and "soft_driver d" and "kmmap_ok kmmap"
    and "offset + sz + sg < W64" and "\<not> has_flag flags UMMAP_FIXED"
    and "newMapping_core (lib_ops env) kmmap cpus d addr sz sg offset prot flags drv lp gp s v = Inr (m, s0, v0)"
    and "mrun (uncut (lib_content wc) (lib_ops env)) kmmap d (m, s0, v0) es (m', s', v')"
  shows "mrun (lib_ops env) kmmap d (m, s0, v0) es (m', s', v') \<and>
    array_accepts (\<lambda>x. if has_flag flags UMMAP_NO_FIRST_READ then 0 else lib_content wc d s (offset + x)) es"
  using new_run_represents(1) [OF assms] uncut.strict_mrun [OF assms(7)] by blast

theorem mapping_refines_array_witness:
  "mrun (lib_ops ram_env) first_fit (DMemory drv0) (map0, store0, vm1)
     [Fault 1052676 True, Store 4100 9, Load 4102 7] (map1, store0, store_byte 1052676 9 vm2) \<and>
   array_accepts (\<lambda>x. if has_flag 0 UMMAP_NO_FIRST_READ then 0
      else lib_content ram_content (DMemory drv0) store0 (0 + x))
     [Fault 1052676 True, Store 4100 9, Load 4102 7]"
  by (rule mapping_refines_array [OF ram_env_ok _ first_fit_ok _ _ map0_new
        stricter_ops.strict_mrun [OF ram_watched ram_run]]) (simp_all add: has_flag_def)

text \<open>
  C2. A mapping is well formed in every state it can reach. There is one status for each segment,
  the segments are whole pages from an aligned address and cover the size with less than a segment
  to spare, a dirty segment is mapped, and the kernel's protection of every page agrees with the
  status of its segment: it can be read exactly when the segment is mapped, and it can only be
  written when the segment is dirty.
\<close>

theorem mapping_wellformed:
  assumes "env_ok env wc" and "soft_driver d" and "kmmap_ok kmmap"
    and "offset + sz + sg < W64" and "\<not> has_flag flags UMMAP_FIXED"
    and "newMapping_core (lib_ops env) kmmap cpus d addr sz sg offset prot flags drv lp gp s v = Inr (m, s0, v0)"
    and "mrun (lib_ops env) kmmap d (m, s0, v0) es (m', s', v')"
  shows "shape m' \<and> mp_size m' = sz \<and>
    (\<forall>x < segments m' * segmentSize m'.
       let st = segmentStatus m' ! (x div segmentSize m')
       in (dirty st \<longrightarrow> mapped st) \<and>
          (\<exists>w e. prot_at v' (baseAddress m' + x) = Some (mapped st, w, e) \<and> (w \<longrightarrow> dirty st)))"
proof -
  note sc = lib_storage_calls [OF assms(1,2)]
  note new = storage_calls.newMapping_ok(1,4) [OF sc assms(3-6)]
  obtain cont where ok: "mapping_ok cont m' v'" and "mp_size m' = sz"
    using storage_calls.mrun_wellformed [OF sc assms(7,3)] new by fastforce
  moreover note sh = mapping_okD(1) [OF ok]
  ultimately show ?thesis
    using seg_okD(1) [OF mapping_okD(2) [OF ok segment_of_byte [OF sh]]]
      seg_okD(2) [OF mapping_okD(2) [OF ok segment_of_byte [OF sh]] refl]
    unfolding byte_ok_def Let_def by blast
qed

theorem mapping_wellformed_witness:
  "shape map1 \<and> (\<exists>w e. prot_at (store_byte 1052676 9 vm2) (baseAddress map1 + 4100) = Some (True, w, e))"
proof -
  have "mapped (segmentStatus map1 ! (4100 div segmentSize map1))"
    by (simp add: map1_def)
  moreover have "4100 < segments map1 * segmentSize map1"
    by (simp add: map1_def)
  moreover have "soft_driver (DMemory drv0)" "0 + 5000 + 4096 < W64" "\<not> has_flag 0 UMMAP_FIXED"
    by (simp_all add: has_flag_def)
  note mapping_wellformed [OF ram_env_ok this(1) first_fit_ok this(2,3) map0_new ram_run]
  ultimately show ?thesis
    unfolding Let_def by metis
qed

end
